(* ===== verification/Prelude.thy ===== *)
theory Prelude
  imports Main "HOL-Library.Word"
begin

text \<open>
  Shared vocabulary of the development: the machine-integer types of the C sources, the
  outcome type that stands for the ways control can leave a C function of a PostgreSQL
  extension, C strings, and the generic list lemmas the components share.  The named
  collections \<open>op_simps\<close> and \<open>frame\<close> gather, respectively, the equations that
  run operations symbolically and the facts saying which parts of a state an operation
  leaves alone.
\<close>

unbundle bit_operations_syntax

named_theorems op_simps \<open>equations that run sequenced operations\<close>
named_theorems frame \<open>what an operation leaves unchanged\<close>

section \<open>Machine integers and C strings\<close>

type_synonym u8 = "8 word"
type_synonym u16 = "16 word"
type_synonym u32 = "32 word"
type_synonym u64 = "64 word"
type_synonym i64 = "64 word"

text \<open>
  A C string is the list of its characters before the terminating NUL; a pointer into
  it that has moved by \<open>k\<close> is \<open>drop k\<close>.  A nullable string is a
  \<open>string option\<close>, with \<open>None\<close> for NULL.
\<close>

abbreviation cstring_empty :: "string option \<Rightarrow> bool" where
  "cstring_empty s \<equiv> (case s of None \<Rightarrow> True | Some t \<Rightarrow> t = [])"

definition byte_of_char :: "char \<Rightarrow> u8" where
  "byte_of_char c = of_nat (of_char c)"

section \<open>Outcomes and sequenced operations\<close>

text \<open>
  How control leaves a C function in a PostgreSQL backend: it returns a value; it raises
  ERROR (\<open>ereport(ERROR)\<close>, a longjmp to the nearest handler); it raises FATAL (the
  process starts exiting and the call never returns); or it is still inside a retry loop
  when the random numbers of the modelled run are used up.
\<close>

datatype 'a outcome = Ret 'a | Throw | Fatal | Spin

type_synonym ('s, 'a) op = "'s \<Rightarrow> 'a outcome \<times> 's"

definition ret :: "'a \<Rightarrow> ('s, 'a) op" where
  "ret a s = (Ret a, s)"

definition and_then :: "('s, 'a) op \<Rightarrow> ('a \<Rightarrow> ('s, 'b) op) \<Rightarrow> ('s, 'b) op" where
  "and_then m f s =
     (case m s of
        (Ret a, t) \<Rightarrow> f a t
      | (Throw, t) \<Rightarrow> (Throw, t)
      | (Fatal, t) \<Rightarrow> (Fatal, t)
      | (Spin, t) \<Rightarrow> (Spin, t))"

definition modify :: "('s \<Rightarrow> 's) \<Rightarrow> ('s, unit) op" where
  "modify f s = (Ret (), f s)"

text \<open>
  \<open>keeps P m\<close>: whatever the outcome of \<open>m\<close>, the state it leaves satisfies \<open>P\<close> if
  the state it started in did.
\<close>

definition keeps :: "('s \<Rightarrow> bool) \<Rightarrow> ('s, 'a) op \<Rightarrow> bool" where
  "keeps P m \<longleftrightarrow> (\<forall>s. P s \<longrightarrow> P (snd (m s)))"

lemma ret_run [op_simps]: "ret a s = (Ret a, s)"
  by (simp add: ret_def)

lemma modify_run [op_simps]: "modify f s = (Ret (), f s)"
  by (simp add: modify_def)

lemma and_then_Ret [op_simps]: "m s = (Ret a, t) \<Longrightarrow> and_then m f s = f a t"
  by (simp add: and_then_def)

lemma and_then_not_Ret:
  "m s = (x, t) \<Longrightarrow> \<forall>a. x \<noteq> Ret a \<Longrightarrow> \<exists>y. and_then m f s = (y, t) \<and> (\<forall>b. y \<noteq> Ret b)"
  by (cases x) (auto simp: and_then_def)

lemma and_then_ret [op_simps]: "and_then (ret a) f = f a"
  by (rule ext) (simp add: and_then_def ret_def)

lemma and_then_modify [op_simps]: "and_then (modify f) g s = g () (f s)"
  by (simp add: and_then_def modify_def)

lemma and_then_ret_right [op_simps]: "and_then m ret = m"
  by (rule ext) (simp add: and_then_def ret_def split: prod.split outcome.split)

lemma and_then_assoc:
  "and_then (and_then m f) g = and_then m (\<lambda>a. and_then (f a) g)"
  by (rule ext) (simp add: and_then_def split: prod.split outcome.split)

lemma snd_and_then_cases:
  "snd (and_then m f s) = (case fst (m s) of Ret a \<Rightarrow> snd (f a (snd (m s))) | _ \<Rightarrow> snd (m s))"
  by (simp add: and_then_def split: prod.split outcome.split)

lemma keepsI: "(\<And>s. P s \<Longrightarrow> P (snd (m s))) \<Longrightarrow> keeps P m"
  by (simp add: keeps_def)

lemma keepsD: "keeps P m \<Longrightarrow> P s \<Longrightarrow> P (snd (m s))"
  by (simp add: keeps_def)

lemma keeps_ret: "keeps P (ret a)"
  by (simp add: keeps_def ret_def)

lemma keeps_modify: "(\<And>s. P s \<Longrightarrow> P (f s)) \<Longrightarrow> keeps P (modify f)"
  by (simp add: keeps_def modify_def)

lemma keeps_and_then: "keeps P m \<Longrightarrow> (\<And>a. keeps P (f a)) \<Longrightarrow> keeps P (and_then m f)"
  unfolding keeps_def by (auto simp: snd_and_then_cases split: outcome.split)

section \<open>Lists updated and searched by position\<close>

text \<open>
  Closing the gap at a position, as the C code does with \<open>memmove\<close> or a shifting loop.
\<close>

definition remove_at :: "nat \<Rightarrow> 'a list \<Rightarrow> 'a list" where
  "remove_at i xs = take i xs @ drop (Suc i) xs"

text \<open>The last (topmost) position satisfying a predicate, searching downwards.\<close>

fun find_top :: "('a \<Rightarrow> bool) \<Rightarrow> 'a list \<Rightarrow> nat option" where
  "find_top P [] = None"
| "find_top P (x # xs) =
     (case find_top P xs of
        Some i \<Rightarrow> Some (Suc i)
      | None \<Rightarrow> (if P x then Some 0 else None))"

lemma length_remove_at: "i < length xs \<Longrightarrow> length (remove_at i xs) = length xs - 1"
  by (simp add: remove_at_def)

lemma set_remove_at: "set (remove_at i xs) \<subseteq> set xs"
  by (auto simp: remove_at_def dest: in_set_takeD in_set_dropD)

lemma map_remove_at: "map f (remove_at i xs) = remove_at i (map f xs)"
  by (simp add: remove_at_def take_map drop_map)

lemma distinct_remove_at: "distinct xs \<Longrightarrow> distinct (remove_at i xs)"
  by (auto simp: remove_at_def set_take_disj_set_drop_if_distinct)

lemma remove_at_set_distinct:
  assumes "distinct xs" and "i < length xs"
  shows "set (remove_at i xs) = set xs - {xs ! i}"
proof -
  have split: "xs = take i xs @ xs ! i # drop (Suc i) xs"
    using assms(2) by (rule id_take_nth_drop)
  have "distinct (take i xs @ xs ! i # drop (Suc i) xs)"
    using assms(1) split by simp
  moreover have "set xs = set (take i xs) \<union> {xs ! i} \<union> set (drop (Suc i) xs)"
    by (subst split) auto
  ultimately show ?thesis
    by (auto simp: remove_at_def)
qed

lemma find_top_None [simp]: "find_top P xs = None \<longleftrightarrow> (\<forall>x\<in>set xs. \<not> P x)"
  by (induction xs) (auto split: option.splits)

lemma find_top_Some:
  "find_top P xs = Some i \<Longrightarrow> i < length xs \<and> P (xs ! i) \<and> (\<forall>j<length xs. i < j \<longrightarrow> \<not> P (xs ! j))"
proof (induction xs arbitrary: i)
  case Nil
  then show ?case by simp
next
  case (Cons x xs)
  show ?case
  proof (cases "find_top P xs")
    case None
    with Cons.prems have "P x" "i = 0" by (auto split: if_splits)
    moreover have "\<forall>x\<in>set xs. \<not> P x"
      using None by (simp only: find_top_None)
    ultimately show ?thesis
      by (auto simp: nth_Cons' less_Suc_eq_0_disj)
  next
    case (Some k)
    with Cons.prems have i: "i = Suc k" by simp
    from Cons.IH [OF Some] show ?thesis
      by (auto simp: i nth_Cons' less_Suc_eq_0_disj)
  qed
qed

lemma find_top_lt: "find_top P xs = Some i \<Longrightarrow> i < length xs"
  by (simp add: find_top_Some)

lemma find_top_at: "find_top P xs = Some i \<Longrightarrow> P (xs ! i)"
  by (simp add: find_top_Some)

text \<open>
  The loops that walk down an array from index \<open>n - 1\<close> to 0 and close the gap at every
  element they remove; on the whole array that is a filter.
\<close>

fun drop_down :: "('a \<Rightarrow> bool) \<Rightarrow> nat \<Rightarrow> 'a list \<Rightarrow> 'a list" where
  "drop_down P 0 xs = xs"
| "drop_down P (Suc i) xs = drop_down P i (if P (xs ! i) then remove_at i xs else xs)"

lemma drop_down_take:
  "n \<le> length xs \<Longrightarrow> drop_down P n xs = filter (\<lambda>x. \<not> P x) (take n xs) @ drop n xs"
proof (induction n arbitrary: xs)
  case (Suc i)
  then have i: "i < length xs" by simp
  have split: "take (Suc i) xs = take i xs @ [xs ! i]" "drop i xs = xs ! i # drop (Suc i) xs"
    using i by (simp_all add: take_Suc_conv_app_nth Cons_nth_drop_Suc)
  show ?case
    using Suc.IH [of "remove_at i xs"] Suc.IH [of xs] i
    by (simp add: split) (simp add: remove_at_def)
qed simp

lemma drop_down_filter: "drop_down P (length xs) xs = filter (\<lambda>x. \<not> P x) xs"
  by (simp add: drop_down_take)

section \<open>Counting positions\<close>

lemma count_filter_update:
  assumes "i < length xs"
  shows "length (filter P (xs[i := y])) + (if P (xs ! i) then 1 else 0)
       = length (filter P xs) + (if P y then 1 else 0)"
proof -
  let ?a = "take i xs" and ?b = "drop (Suc i) xs"
  have "filter P (?a @ xs ! i # ?b) = filter P xs"
    using id_take_nth_drop [OF assms] by simp
  then have "length (filter P xs)
      = length (filter P ?a) + (if P (xs ! i) then 1 else 0) + length (filter P ?b)"
    by (auto dest!: arg_cong [where f = length] split: if_splits)
  moreover have "length (filter P (xs[i := y]))
      = length (filter P (take i xs)) + (if P y then 1 else 0) + length (filter P (drop (Suc i) xs))"
    using assms by (simp add: upd_conv_take_nth_drop)
  ultimately show ?thesis by simp
qed

lemma filter_pos_of_mem: "x \<in> set xs \<Longrightarrow> P x \<Longrightarrow> 0 < length (filter P xs)"
  by (induction xs) auto

section \<open>Codecs\<close>

text \<open>
  The contract between the code that prints a value and the code that reads it back:
  reading what was printed gives the value.  Its clients (the GUC check hook, the
  sqlcommenter extraction, log output) rely only on that.  A canonical codec moreover
  accepts nothing but what the printer prints.
\<close>

locale codec =
  fixes enc :: "'a \<Rightarrow> 'b" and dec :: "'b \<Rightarrow> 'a option" and ok :: "'a \<Rightarrow> bool"
  assumes dec_enc: "ok x \<Longrightarrow> dec (enc x) = Some x"
    and dec_ok: "dec y = Some x \<Longrightarrow> ok x"
begin

lemma enc_inj: "ok x \<Longrightarrow> ok y \<Longrightarrow> enc x = enc y \<Longrightarrow> x = y"
  by (metis dec_enc option.inject)

lemma dec_idem: "dec y = Some x \<Longrightarrow> dec (enc x) = Some x"
  by (rule dec_enc, rule dec_ok)

end

locale canonical_codec = codec +
  assumes enc_dec: "dec y = Some x \<Longrightarrow> enc x = y"
begin

lemma dec_iff: "dec y = Some x \<longleftrightarrow> ok x \<and> y = enc x"
  by (metis dec_enc dec_ok enc_dec)

lemma dec_None_iff: "dec y = None \<longleftrightarrow> (\<forall>x. ok x \<longrightarrow> y \<noteq> enc x)"
  by (metis dec_iff not_None_eq)

lemma dec_inj: "dec y = Some x \<Longrightarrow> dec z = Some x \<Longrightarrow> y = z"
  by (simp add: dec_iff)

end

end
