(* ===== verification/Otel_Types.thy ===== *)
theory Otel_Types
  imports Prelude
begin

text \<open>
  The value types and codecs of \<open>otel_api/otel_types.h\<close>: trace and span IDs, the span
  context, span kinds and status codes, the lowercase-hex codec, the W3C traceparent text
  codec and the binary wire codec.  IDs are byte lists; \<open>ctx_sized\<close> says they have the
  array sizes of the C structs.  The \<open>StringInfo\<close> reading and writing functions of
  PostgreSQL core (\<open>pq_sendint8\<close> and so on) are parameters of the wire codec, collected
  in the record \<open>pq_ops\<close>; \<open>pq_laws\<close> states the documented behaviour the codec relies on.
\<close>

section \<open>Sizes and flags\<close>

definition OTEL_TRACE_ID_BYTES :: nat where
  "OTEL_TRACE_ID_BYTES = 16"

definition OTEL_SPAN_ID_BYTES :: nat where
  "OTEL_SPAN_ID_BYTES = 8"

definition OTEL_TRACEPARENT_LEN :: nat where
  "OTEL_TRACEPARENT_LEN = 55"

definition OTEL_TRACE_FLAG_SAMPLED :: u8 where
  "OTEL_TRACE_FLAG_SAMPLED = 0x01"

definition OTEL_TRACE_FLAG_RANDOM :: u8 where
  "OTEL_TRACE_FLAG_RANDOM = 0x02"

section \<open>Value types\<close>

type_synonym trace_id = "u8 list"
type_synonym span_id = "u8 list"

record span_context =
  trace_id :: trace_id
  span_id :: span_id
  trace_flags :: u8
  tracestate :: "string option"

datatype span_kind = KIND_INTERNAL | KIND_SERVER | KIND_CLIENT | KIND_PRODUCER | KIND_CONSUMER

datatype span_status = STATUS_UNSET | STATUS_OK | STATUS_ERROR

record instrumentation_scope =
  sc_name :: string
  sc_version :: "string option"
  sc_schema_url :: "string option"

text \<open>
  The tagged union of an attribute value.  A double is carried as its 64 bits: no code
  here computes with it.  A string pointer may be NULL.
\<close>

datatype attr_value = ATTR_STRING "string option" | ATTR_INT i64 | ATTR_DOUBLE u64 | ATTR_BOOL bool

record attribute =
  at_key :: string
  at_val :: attr_value

definition zero_trace_id :: trace_id where
  "zero_trace_id = replicate 16 0"

definition zero_span_id :: span_id where
  "zero_span_id = replicate 8 0"

definition zero_ctx :: span_context where
  "zero_ctx = \<lparr>trace_id = zero_trace_id, span_id = zero_span_id, trace_flags = 0, tracestate = None\<rparr>"

definition ctx_sized :: "span_context \<Rightarrow> bool" where
  "ctx_sized c \<longleftrightarrow> length (trace_id c) = 16 \<and> length (span_id c) = 8"

section \<open>ID helpers\<close>

fun otel_trace_id_is_valid :: "trace_id \<Rightarrow> bool" where
  "otel_trace_id_is_valid [] = False"
| "otel_trace_id_is_valid (b # bs) = (if b \<noteq> 0 then True else otel_trace_id_is_valid bs)"

text \<open>\<open>memcpy\<close> of eight bytes into a \<open>uint64\<close> (little-endian) and back.\<close>

fun u64_of_bytes :: "u8 list \<Rightarrow> u64" where
  "u64_of_bytes [] = 0"
| "u64_of_bytes (b # bs) = ucast b OR push_bit 8 (u64_of_bytes bs)"

fun bytes_of_u64 :: "nat \<Rightarrow> u64 \<Rightarrow> u8 list" where
  "bytes_of_u64 0 v = []"
| "bytes_of_u64 (Suc n) v = ucast v # bytes_of_u64 n (drop_bit 8 v)"

definition otel_span_id_is_valid :: "span_id \<Rightarrow> bool" where
  "otel_span_id_is_valid sid \<longleftrightarrow> u64_of_bytes sid \<noteq> 0"

definition otel_span_id_equal :: "span_id \<Rightarrow> span_id \<Rightarrow> bool" where
  "otel_span_id_equal a b \<longleftrightarrow> a = b"

definition otel_span_context_is_valid :: "span_context \<Rightarrow> bool" where
  "otel_span_context_is_valid c \<longleftrightarrow>
     otel_trace_id_is_valid (trace_id c) \<and> otel_span_id_is_valid (span_id c)"

definition otel_span_context_sampled :: "span_context \<Rightarrow> bool" where
  "otel_span_context_sampled c \<longleftrightarrow> trace_flags c AND OTEL_TRACE_FLAG_SAMPLED \<noteq> 0"

section \<open>The hex codec\<close>

definition hexdigit :: "u8 \<Rightarrow> char" where
  "hexdigit n = ''0123456789abcdef'' ! unat n"

fun otel_bytes_to_hex :: "u8 list \<Rightarrow> string" where
  "otel_bytes_to_hex [] = []"
| "otel_bytes_to_hex (b # bs) =
     hexdigit (drop_bit 4 b) # hexdigit (b AND 0x0f) # otel_bytes_to_hex bs"

definition hexval :: "char \<Rightarrow> u8 option" where
  "hexval c =
     (let n = of_char c :: nat in
      if 48 \<le> n \<and> n \<le> 57 then Some (of_nat (n - 48))
      else if 97 \<le> n \<and> n \<le> 102 then Some (of_nat (n - 97 + 10))
      else None)"

text \<open>
  \<open>otel_hex_to_bytes\<close> reads \<open>2 * n\<close> characters.  The terminating NUL of a shorter
  string is no hex digit, so the C loop stops there with false.
\<close>

fun otel_hex_to_bytes :: "string \<Rightarrow> nat \<Rightarrow> u8 list option" where
  "otel_hex_to_bytes s 0 = Some []"
| "otel_hex_to_bytes (c # d # s) (Suc n) =
     (case hexval c of
        None \<Rightarrow> None
      | Some hi \<Rightarrow>
          (case hexval d of
             None \<Rightarrow> None
           | Some lo \<Rightarrow> map_option (\<lambda>bs. (push_bit 4 hi OR lo) # bs) (otel_hex_to_bytes s n)))"
| "otel_hex_to_bytes _ (Suc n) = None"

definition otel_trace_id_to_hex :: "trace_id \<Rightarrow> string" where
  "otel_trace_id_to_hex tid = otel_bytes_to_hex tid"

definition otel_span_id_to_hex :: "span_id \<Rightarrow> string" where
  "otel_span_id_to_hex sid = otel_bytes_to_hex sid"

definition otel_trace_id_from_hex :: "string \<Rightarrow> trace_id option" where
  "otel_trace_id_from_hex s =
     (case otel_hex_to_bytes s 16 of
        None \<Rightarrow> None
      | Some b \<Rightarrow> if length s = 32 then Some b else None)"

definition otel_span_id_from_hex :: "string \<Rightarrow> span_id option" where
  "otel_span_id_from_hex s =
     (case otel_hex_to_bytes s 8 of
        None \<Rightarrow> None
      | Some b \<Rightarrow> if length s = 16 then Some b else None)"

section \<open>The traceparent text codec\<close>

definition otel_traceparent_format :: "span_context \<Rightarrow> string" where
  "otel_traceparent_format c =
     ''00-'' @ otel_bytes_to_hex (trace_id c) @ ''-'' @ otel_bytes_to_hex (span_id c)
       @ ''-'' @ otel_bytes_to_hex [trace_flags c]"

definition otel_traceparent_parse :: "string \<Rightarrow> span_context option" where
  "otel_traceparent_parse s =
     (if length s < OTEL_TRACEPARENT_LEN then None
      else if s ! 2 \<noteq> CHR ''-'' \<or> s ! 35 \<noteq> CHR ''-'' \<or> s ! 52 \<noteq> CHR ''-'' then None
      else (case otel_hex_to_bytes s 1 of
              Some [version] \<Rightarrow>
                if version = 0xff then None
                else if (if version = 0 then length s \<noteq> OTEL_TRACEPARENT_LEN
                         else length s > OTEL_TRACEPARENT_LEN \<and> s ! OTEL_TRACEPARENT_LEN \<noteq> CHR ''-'')
                then None
                else (case (otel_hex_to_bytes (drop 3 s) OTEL_TRACE_ID_BYTES,
                            otel_hex_to_bytes (drop 36 s) OTEL_SPAN_ID_BYTES,
                            otel_hex_to_bytes (drop 53 s) 1) of
                        (Some tid, Some sid, Some [flags]) \<Rightarrow>
                          let c = \<lparr>trace_id = tid, span_id = sid, trace_flags = flags, tracestate = None\<rparr>
                          in if otel_span_context_is_valid c then Some c else None
                      | _ \<Rightarrow> None)
            | _ \<Rightarrow> None))"

section \<open>The binary wire codec\<close>

definition OTEL_SPAN_CONTEXT_WIRE_V1 :: u8 where
  "OTEL_SPAN_CONTEXT_WIRE_V1 = 1"

definition OTEL_TRACESTATE_MAX_LEN :: nat where
  "OTEL_TRACESTATE_MAX_LEN = 512"

text \<open>
  The core \<open>StringInfo\<close> functions.  The getters advance the cursor; \<open>None\<close> is the ERROR
  they raise when the message has fewer bytes left than asked for.
\<close>

record 'b pq_ops =
  pq_sendint8 :: "'b \<Rightarrow> u8 \<Rightarrow> 'b"
  pq_sendint16 :: "'b \<Rightarrow> u16 \<Rightarrow> 'b"
  pq_sendbytes :: "'b \<Rightarrow> u8 list \<Rightarrow> 'b"
  pq_getmsgbyte :: "'b \<Rightarrow> (u8 \<times> 'b) option"
  pq_getmsgint2 :: "'b \<Rightarrow> (u16 \<times> 'b) option"
  pq_getmsgbytes :: "'b \<Rightarrow> nat \<Rightarrow> (u8 list \<times> 'b) option"
  pq_cursor :: "'b \<Rightarrow> nat"

definition otel_span_context_send :: "'b pq_ops \<Rightarrow> 'b \<Rightarrow> span_context \<Rightarrow> 'b" where
  "otel_span_context_send pq buf c =
     (let ts0 = (case tracestate c of None \<Rightarrow> [] | Some t \<Rightarrow> t);
          ts = (if length ts0 > OTEL_TRACESTATE_MAX_LEN then [] else ts0);
          b1 = pq_sendint8 pq buf OTEL_SPAN_CONTEXT_WIRE_V1;
          b2 = pq_sendint16 pq b1 (of_nat (OTEL_TRACE_ID_BYTES + OTEL_SPAN_ID_BYTES + 1 + 2 + length ts));
          b3 = pq_sendbytes pq b2 (trace_id c);
          b4 = pq_sendbytes pq b3 (span_id c);
          b5 = pq_sendint8 pq b4 (trace_flags c);
          b6 = pq_sendint16 pq b5 (of_nat (length ts))
      in if length ts > 0 then pq_sendbytes pq b6 (map byte_of_char ts) else b6)"

datatype recv_result = Recv_error | Recv_false | Recv_ok span_context

text \<open>
  The bytes copied into a palloc'd buffer and NUL-terminated are read back as a C string,
  which ends at the first NUL among them.
\<close>

definition cstring_of_bytes :: "u8 list \<Rightarrow> string" where
  "cstring_of_bytes bs = takeWhile (\<lambda>c. c \<noteq> CHR 0x00) (map (\<lambda>b. char_of (unat b)) bs)"

definition recv_skip :: "'b pq_ops \<Rightarrow> 'b \<Rightarrow> nat \<Rightarrow> ('b \<Rightarrow> recv_result \<times> 'b) \<Rightarrow> recv_result \<times> 'b" where
  "recv_skip pq buf n k =
     (case pq_getmsgbytes pq buf n of None \<Rightarrow> (Recv_error, buf) | Some (_, b) \<Rightarrow> k b)"

definition recv_v1 :: "'b pq_ops \<Rightarrow> 'b \<Rightarrow> nat \<Rightarrow> recv_result \<times> 'b" where
  "recv_v1 pq buf reclen =
     (let start = pq_cursor pq buf in
      case pq_getmsgbytes pq buf OTEL_TRACE_ID_BYTES of None \<Rightarrow> (Recv_error, buf)
      | Some (tid, b1) \<Rightarrow>
     (case pq_getmsgbytes pq b1 OTEL_SPAN_ID_BYTES of None \<Rightarrow> (Recv_error, b1)
      | Some (sid, b2) \<Rightarrow>
     (case pq_getmsgbyte pq b2 of None \<Rightarrow> (Recv_error, b2)
      | Some (flags, b3) \<Rightarrow>
     (case pq_getmsgint2 pq b3 of None \<Rightarrow> (Recv_error, b3)
      | Some (tslen16, b4) \<Rightarrow>
     (let tslen = unat tslen16; left = int reclen - (int (pq_cursor pq b4) - int start) in
      if int tslen > left
      then recv_skip pq b4 (nat left) (\<lambda>b. (Recv_false, b))
      else
        let finish = (\<lambda>ts b.
              let c = \<lparr>trace_id = tid, span_id = sid, trace_flags = flags, tracestate = ts\<rparr>;
                  used = int (pq_cursor pq b) - int start;
                  fin = (\<lambda>b'. (if otel_span_context_is_valid c then Recv_ok c else Recv_false, b'))
              in if used < int reclen
                 then recv_skip pq b (nat (int reclen - used)) fin
                 else fin b)
        in if tslen > 0
           then (case pq_getmsgbytes pq b4 tslen of None \<Rightarrow> (Recv_error, b4)
                 | Some (bs, b5) \<Rightarrow> finish (Some (cstring_of_bytes bs)) b5)
           else finish None b4)))))"

definition otel_span_context_recv :: "'b pq_ops \<Rightarrow> 'b \<Rightarrow> recv_result \<times> 'b" where
  "otel_span_context_recv pq buf =
     (case pq_getmsgbyte pq buf of None \<Rightarrow> (Recv_error, buf)
      | Some (version, b1) \<Rightarrow>
     (case pq_getmsgint2 pq b1 of None \<Rightarrow> (Recv_error, b1)
      | Some (reclen, b2) \<Rightarrow>
          if version \<noteq> OTEL_SPAN_CONTEXT_WIRE_V1 \<or>
             unat reclen < OTEL_TRACE_ID_BYTES + OTEL_SPAN_ID_BYTES + 1 + 2
          then recv_skip pq b2 (unat reclen) (\<lambda>b. (Recv_false, b))
          else recv_v1 pq b2 (unat reclen)))"

section \<open>Facts about IDs\<close>

lemma trace_id_valid_iff: "otel_trace_id_is_valid bs \<longleftrightarrow> (\<exists>b\<in>set bs. b \<noteq> 0)"
  by (induction bs) auto

lemma u64_of_bytes_bit:
  "bit (u64_of_bytes bs) n \<longleftrightarrow> n < 64 \<and> n div 8 < length bs \<and> bit (bs ! (n div 8)) (n mod 8)"
proof (induction bs arbitrary: n)
  case Nil
  then show ?case by simp
next
  case (Cons b bs)
  show ?case
  proof (cases "n < 8")
    case True
    then show ?thesis by (simp add: bit_simps)
  next
    case False
    then have "n div 8 = Suc ((n - 8) div 8)" and "n mod 8 = (n - 8) mod 8"
      by (simp_all add: div_if mod_if)
    moreover have "\<not> bit b n" using False by (auto dest: bit_imp_le_length)
    ultimately show ?thesis
      using False Cons.IH [of "n - 8"] by (auto simp: bit_simps)
  qed
qed

lemma span_id_valid_iff:
  assumes "length bs = 8"
  shows "otel_span_id_is_valid bs \<longleftrightarrow> (\<exists>b\<in>set bs. b \<noteq> 0)"
proof
  assume "otel_span_id_is_valid bs"
  then obtain n where "bit (u64_of_bytes bs) n"
    by (auto simp: otel_span_id_is_valid_def bit_eq_iff)
  then have "n div 8 < length bs" and "bit (bs ! (n div 8)) (n mod 8)"
    by (simp_all add: u64_of_bytes_bit)
  then show "\<exists>b\<in>set bs. b \<noteq> 0"
    by (metis bit_0_eq bot_apply nth_mem bot_bool_def)
next
  assume "\<exists>b\<in>set bs. b \<noteq> 0"
  then obtain i where i: "i < 8" and "bs ! i \<noteq> 0"
    using assms by (auto simp: in_set_conv_nth)
  then obtain k where b: "bit (bs ! i) k"
    by (metis bit_eqI bit_0_eq bot_apply bot_bool_def)
  then have "k < 8" by (auto dest: bit_imp_le_length)
  then have "bit (u64_of_bytes bs) (8 * i + k)"
    using i b assms by (simp add: u64_of_bytes_bit)
  then show "otel_span_id_is_valid bs"
    by (auto simp: otel_span_id_is_valid_def)
qed

lemma length_bytes_of_u64 [simp]: "length (bytes_of_u64 n v) = n"
  by (induction n arbitrary: v) auto

lemma u64_of_bytes_of_u64_bit:
  "bit (u64_of_bytes (bytes_of_u64 n v)) k \<longleftrightarrow> k < 8 * n \<and> bit v k"
proof (induction n arbitrary: v k)
  case 0
  then show ?case by simp
next
  case (Suc n)
  show ?case
    by (cases "k < 8") (auto simp: bit_simps Suc.IH dest: bit_imp_le_length)
qed

lemma u64_of_bytes_of_u64: "u64_of_bytes (bytes_of_u64 8 v) = v"
  by (rule bit_eqI) (auto simp: u64_of_bytes_of_u64_bit dest: bit_imp_le_length)

section \<open>The hex codec reads back what it prints\<close>

lemma hexdigit_table: "\<forall>k\<in>set [0..<16]. hexval (''0123456789abcdef'' ! k) = Some (of_nat k)"
  by (simp add: upt_rec hexval_def)

lemma hexval_hexdigit:
  assumes "unat n < 16"
  shows "hexval (hexdigit n) = Some n"
proof -
  have "hexval (hexdigit n) = Some (of_nat (unat n))"
    using assms hexdigit_table unfolding hexdigit_def by (metis atLeastLessThan_iff le0 set_upt)
  then show ?thesis by simp
qed

lemma hexdigit_hexval:
  assumes "hexval c = Some v"
  shows "unat v < 16 \<and> hexdigit v = c"
proof -
  define n where "n = (of_char c :: nat)"
  have c: "c = char_of n" by (simp add: n_def)
  have n: "48 \<le> n \<and> n \<le> 57 \<and> v = of_nat (n - 48) \<or> 97 \<le> n \<and> n \<le> 102 \<and> v = of_nat (n - 97 + 10)"
    using assms by (auto simp: hexval_def n_def Let_def split: if_splits)
  have small: "unat (of_nat k :: u8) = k" if "k < 16" for k
    using that by (simp add: unat_of_nat)
  from n show ?thesis
  proof (elim disjE conjE)
    assume a: "48 \<le> n" "n \<le> 57" "v = of_nat (n - 48)"
    have "n \<in> set [48..<58]" using a(1,2) unfolding set_upt atLeastLessThan_iff by linarith
    then show ?thesis
      using a(3) by (auto simp: c upt_rec hexdigit_def small char_of_def bit_0)
  next
    assume a: "97 \<le> n" "n \<le> 102" "v = of_nat (n - 97 + 10)"
    have "n \<in> set [97..<103]" using a(1,2) unfolding set_upt atLeastLessThan_iff by linarith
    then show ?thesis
      using a(3) by (auto simp: c upt_rec hexdigit_def small char_of_def bit_0)
  qed
qed

lemma nibbles_small: "unat (drop_bit 4 (b :: u8)) < 16" "unat (b AND 0x0f) < 16"
proof -
  have "unat (drop_bit 4 b) = unat b div 16"
    unfolding unat_drop_bit_eq by (simp add: drop_bit_eq_div)
  moreover have "unat b < 256" using unsigned_less [of b, where ?'a = nat] by simp
  ultimately show "unat (drop_bit 4 b) < 16" by simp
  have "b AND 0x0f = take_bit 4 b"
    by (simp add: take_bit_eq_mask mask_eq_exp_minus_1)
  then have "unat (b AND 0x0f) = take_bit 4 (unat b)"
    by (simp only: unsigned_take_bit_eq)
  then show "unat (b AND 0x0f) < 16"
    by (simp add: take_bit_eq_mod)
qed

lemma nibbles_join: "push_bit 4 (drop_bit 4 (b :: u8)) OR (b AND 0x0f) = b"
proof -
  have "b AND 0x0f = take_bit 4 b"
    by (simp add: take_bit_eq_mask mask_eq_exp_minus_1)
  then show ?thesis
    by (simp add: bit_eq_iff bit_simps) auto
qed

lemma nibbles_split:
  assumes "unat (hi :: u8) < 16" and "unat lo < 16"
  shows "drop_bit 4 (push_bit 4 hi OR lo) = hi" and "(push_bit 4 hi OR lo) AND 0x0f = lo"
proof -
  have high: "n < 4" if "unat (w :: u8) < 16" "bit w n" for w n
  proof (rule ccontr)
    assume "\<not> n < 4"
    have "(2 :: nat) ^ 4 \<le> 2 ^ n"
      using \<open>\<not> n < 4\<close> by (intro power_increasing) auto
    with that(1) have "unat w < 2 ^ n" by simp
    then have "\<not> bit (unat w) n" by (simp add: bit_iff_odd)
    with that(2) show False by (auto simp: bit_unsigned_iff dest: bit_imp_le_length)
  qed
  show "drop_bit 4 (push_bit 4 hi OR lo) = hi"
    using high [OF assms(1)] high [OF assms(2)] by (fastforce simp: bit_eq_iff bit_simps)
  have "(push_bit 4 hi OR lo) AND 0x0f = take_bit 4 (push_bit 4 hi OR lo)"
    by (simp add: take_bit_eq_mask mask_eq_exp_minus_1)
  then show "(push_bit 4 hi OR lo) AND 0x0f = lo"
    using high [OF assms(2)] by (auto simp: bit_eq_iff bit_simps)
qed

lemma length_otel_bytes_to_hex [simp]: "length (otel_bytes_to_hex bs) = 2 * length bs"
  by (induction bs) auto

lemma otel_hex_of_bytes_append:
  "n = length bs \<Longrightarrow> otel_hex_to_bytes (otel_bytes_to_hex bs @ s) n = Some bs"
proof (induction bs arbitrary: n)
  case Nil
  then show ?case by simp
next
  case (Cons b bs)
  then show ?case
    using nibbles_small [of b] nibbles_join [of b] by (simp add: hexval_hexdigit)
qed

lemma otel_hex_to_bytes_take:
  "otel_hex_to_bytes s n = Some bs \<Longrightarrow>
     length bs = n \<and> 2 * n \<le> length s \<and> otel_bytes_to_hex bs = take (2 * n) s"
proof (induction s n arbitrary: bs rule: otel_hex_to_bytes.induct)
  case (2 c d s n)
  from "2.prems" obtain hi lo bs' where
    hi: "hexval c = Some hi" and lo: "hexval d = Some lo"
    and rest: "otel_hex_to_bytes s n = Some bs'" and bs: "bs = (push_bit 4 hi OR lo) # bs'"
    by (auto split: option.splits)
  from "2.IH" [OF hi lo rest] have "length bs' = n" "2 * n \<le> length s" "otel_bytes_to_hex bs' = take (2 * n) s"
    by simp_all
  then show ?case
    using hexdigit_hexval [OF hi] hexdigit_hexval [OF lo] nibbles_split [of hi lo]
    by (simp add: bs)
qed auto

lemma otel_hex_to_bytes_roundtrip: "otel_hex_to_bytes (otel_bytes_to_hex bs) (length bs) = Some bs"
  using otel_hex_of_bytes_append [of "length bs" bs "[]"] by simp

lemma otel_hex_roundtrip_n: "length bs = n \<Longrightarrow> otel_hex_to_bytes (otel_bytes_to_hex bs) n = Some bs"
  using otel_hex_to_bytes_roundtrip by blast

interpretation trace_hex: canonical_codec otel_trace_id_to_hex otel_trace_id_from_hex "\<lambda>t. length t = 16"
  by unfold_locales
    (auto simp: otel_trace_id_to_hex_def otel_trace_id_from_hex_def otel_hex_roundtrip_n
        dest: otel_hex_to_bytes_take split: option.splits if_splits)

interpretation span_hex: canonical_codec otel_span_id_to_hex otel_span_id_from_hex "\<lambda>t. length t = 8"
  by unfold_locales
    (auto simp: otel_span_id_to_hex_def otel_span_id_from_hex_def otel_hex_roundtrip_n
        dest: otel_hex_to_bytes_take split: option.splits if_splits)

section \<open>The traceparent codec reads back what it prints\<close>

definition traceparent_ok :: "span_context \<Rightarrow> bool" where
  "traceparent_ok c \<longleftrightarrow> ctx_sized c \<and> otel_span_context_is_valid c \<and> tracestate c = None"

lemma length_traceparent: "ctx_sized c \<Longrightarrow> length (otel_traceparent_format c) = 55"
  by (simp add: otel_traceparent_format_def ctx_sized_def)

lemma parse_format:
  assumes "ctx_sized c" and "otel_span_context_is_valid c"
  shows "otel_traceparent_parse (otel_traceparent_format c) = Some (c\<lparr>tracestate := None\<rparr>)"
proof -
  let ?T = "otel_bytes_to_hex (trace_id c)" and ?S = "otel_bytes_to_hex (span_id c)"
  let ?F = "otel_bytes_to_hex [trace_flags c]"
  let ?s = "otel_traceparent_format c"
  have len: "length (trace_id c) = 16" "length (span_id c) = 8"
    using assms(1) by (simp_all add: ctx_sized_def)
  have s: "?s = CHR ''0'' # CHR ''0'' # CHR ''-'' # ?T @ CHR ''-'' # ?S @ CHR ''-'' # ?F"
    by (simp add: otel_traceparent_format_def)
  have dashes: "?s ! 2 = CHR ''-''" "?s ! 35 = CHR ''-''" "?s ! 52 = CHR ''-''"
    unfolding s by (simp_all add: nth_append nth_Cons' len)
  have drops: "drop 3 ?s = ?T @ CHR ''-'' # ?S @ CHR ''-'' # ?F"
      "drop 36 ?s = ?S @ CHR ''-'' # ?F" "drop 53 ?s = ?F"
    unfolding s by (simp_all add: drop_Cons' len)
  have "otel_hex_to_bytes ?s 1 = Some [0]"
    unfolding s by (simp add: hexval_def)
  moreover have "otel_hex_to_bytes (drop 3 ?s) 16 = Some (trace_id c)"
      "otel_hex_to_bytes (drop 36 ?s) 8 = Some (span_id c)"
      "otel_hex_to_bytes (drop 53 ?s) 1 = Some [trace_flags c]"
    unfolding drops
    by (rule otel_hex_of_bytes_append otel_hex_roundtrip_n; simp add: len)+
  moreover have "otel_span_context_is_valid
      \<lparr>trace_id = trace_id c, span_id = span_id c, trace_flags = trace_flags c, tracestate = None\<rparr>"
    using assms(2) by (simp add: otel_span_context_is_valid_def)
  ultimately show ?thesis
    using dashes length_traceparent [OF assms(1)]
    by (simp add: otel_traceparent_parse_def OTEL_TRACEPARENT_LEN_def OTEL_TRACE_ID_BYTES_def
        OTEL_SPAN_ID_BYTES_def Let_def)
qed

lemma parse_Some_fields:
  assumes "otel_traceparent_parse s = Some c"
  obtains v where "55 \<le> length s" "s ! 2 = CHR ''-''" "s ! 35 = CHR ''-''" "s ! 52 = CHR ''-''"
    and "otel_hex_to_bytes s 1 = Some [v]" "v \<noteq> 0xff" "v = 0 \<Longrightarrow> length s = 55"
    and "v \<noteq> 0 \<Longrightarrow> 55 < length s \<Longrightarrow> s ! 55 = CHR ''-''"
    and "otel_hex_to_bytes (drop 3 s) 16 = Some (trace_id c)"
    and "otel_hex_to_bytes (drop 36 s) 8 = Some (span_id c)"
    and "otel_hex_to_bytes (drop 53 s) 1 = Some [trace_flags c]"
    and "otel_span_context_is_valid c" "tracestate c = None"
  using assms
  by (auto simp: otel_traceparent_parse_def OTEL_TRACEPARENT_LEN_def OTEL_TRACE_ID_BYTES_def
      OTEL_SPAN_ID_BYTES_def Let_def split: if_splits option.splits list.splits)

lemma take_55:
  assumes "55 \<le> length s"
  shows "take 55 s = take 2 s @ s ! 2 # take 32 (drop 3 s) @ s ! 35 # take 16 (drop 36 s)
           @ s ! 52 # take 2 (drop 53 s)"
proof -
  have split: "take (a + Suc b) s = take a s @ s ! a # take b (drop (Suc a) s)"
    if "a < length s" for a b
    unfolding take_add using Cons_nth_drop_Suc [OF that, symmetric] by simp
  have "take 55 s = take 52 s @ s ! 52 # take 2 (drop 53 s)"
    using split [of 52 2] assms by (simp add: eval_nat_numeral)
  also have "take 52 s = take 35 s @ s ! 35 # take 16 (drop 36 s)"
    using split [of 35 16] assms by (simp add: eval_nat_numeral)
  also have "take 35 s = take 2 s @ s ! 2 # take 32 (drop 3 s)"
    using split [of 2 32] assms by (simp add: eval_nat_numeral)
  finally show ?thesis by simp
qed

lemma parse_sound:
  assumes "otel_traceparent_parse s = Some c"
  shows "traceparent_ok c" and "drop 2 (take 55 s) = drop 2 (otel_traceparent_format c)"
    and "take 2 s = ''00'' \<Longrightarrow> s = otel_traceparent_format c"
proof -
  from assms obtain v where
    len: "55 \<le> length s" and dash: "s ! 2 = CHR ''-''" "s ! 35 = CHR ''-''" "s ! 52 = CHR ''-''"
    and v: "otel_hex_to_bytes s 1 = Some [v]" "v = 0 \<Longrightarrow> length s = 55"
    and t: "otel_hex_to_bytes (drop 3 s) 16 = Some (trace_id c)"
    and i: "otel_hex_to_bytes (drop 36 s) 8 = Some (span_id c)"
    and f: "otel_hex_to_bytes (drop 53 s) 1 = Some [trace_flags c]"
    and ok: "otel_span_context_is_valid c" "tracestate c = None"
    by (rule parse_Some_fields) blast
  from otel_hex_to_bytes_take [OF t] otel_hex_to_bytes_take [OF i] otel_hex_to_bytes_take [OF f]
  have T: "length (trace_id c) = 16" "otel_bytes_to_hex (trace_id c) = take 32 (drop 3 s)"
    and S: "length (span_id c) = 8" "otel_bytes_to_hex (span_id c) = take 16 (drop 36 s)"
    and F: "otel_bytes_to_hex [trace_flags c] = take 2 (drop 53 s)"
    by simp_all
  show "traceparent_ok c"
    using T S ok by (simp add: traceparent_ok_def ctx_sized_def)
  have shape: "take 55 s = take 2 s @ drop 2 (otel_traceparent_format c)"
    using take_55 [OF len] dash T S F by (simp add: otel_traceparent_format_def)
  have "length (take 2 s) = 2"
    using len by simp
  then show "drop 2 (take 55 s) = drop 2 (otel_traceparent_format c)"
    unfolding shape by simp
  assume zz: "take 2 s = ''00''"
  have "otel_bytes_to_hex [v] = ''00''"
    using otel_hex_to_bytes_take [OF v(1)] zz by simp
  then have "v = 0"
    using otel_hex_to_bytes_roundtrip [of "[v]"] by (simp add: hexval_def)
  with v(2) have "length s = 55" by simp
  with shape zz show "s = otel_traceparent_format c"
    by (simp add: otel_traceparent_format_def)
qed

interpretation traceparent: codec otel_traceparent_format otel_traceparent_parse traceparent_ok
  by unfold_locales (auto simp: traceparent_ok_def parse_format dest: parse_sound(1) [unfolded traceparent_ok_def])

section \<open>The wire codec\<close>

definition bytes_of_u16 :: "u16 \<Rightarrow> u8 list" where
  "bytes_of_u16 w = [ucast (drop_bit 8 w), ucast w]"

definition u16_of_bytes :: "u8 \<Rightarrow> u8 \<Rightarrow> u16" where
  "u16_of_bytes hi lo = push_bit 8 (ucast hi) OR ucast lo"

text \<open>
  The documented behaviour of the core functions: \<open>unread b\<close> is what a message still
  holds after its cursor; senders append to it in network byte order, getters take from
  its front, advance the cursor by as much, and fail when too little is left.
\<close>

definition pq_laws :: "'b pq_ops \<Rightarrow> ('b \<Rightarrow> u8 list) \<Rightarrow> bool" where
  "pq_laws pq unread \<longleftrightarrow>
     (\<forall>b x. unread (pq_sendint8 pq b x) = unread b @ [x]) \<and>
     (\<forall>b x. unread (pq_sendint16 pq b x) = unread b @ bytes_of_u16 x) \<and>
     (\<forall>b xs. unread (pq_sendbytes pq b xs) = unread b @ xs) \<and>
     (\<forall>b. unread b = [] \<longrightarrow> pq_getmsgbyte pq b = None) \<and>
     (\<forall>b x r. unread b = x # r \<longrightarrow>
        (\<exists>b'. pq_getmsgbyte pq b = Some (x, b') \<and> unread b' = r \<and> pq_cursor pq b' = pq_cursor pq b + 1)) \<and>
     (\<forall>b. length (unread b) < 2 \<longrightarrow> pq_getmsgint2 pq b = None) \<and>
     (\<forall>b x y r. unread b = x # y # r \<longrightarrow>
        (\<exists>b'. pq_getmsgint2 pq b = Some (u16_of_bytes x y, b') \<and> unread b' = r \<and>
              pq_cursor pq b' = pq_cursor pq b + 2)) \<and>
     (\<forall>b n. length (unread b) < n \<longrightarrow> pq_getmsgbytes pq b n = None) \<and>
     (\<forall>b n. n \<le> length (unread b) \<longrightarrow>
        (\<exists>b'. pq_getmsgbytes pq b n = Some (take n (unread b), b') \<and> unread b' = drop n (unread b) \<and>
              pq_cursor pq b' = pq_cursor pq b + n))"

lemma pq_laws_send:
  assumes "pq_laws pq un"
  shows "un (pq_sendint8 pq b x) = un b @ [x]" "un (pq_sendint16 pq b w) = un b @ bytes_of_u16 w"
    "un (pq_sendbytes pq b xs) = un b @ xs"
  using assms by (simp_all add: pq_laws_def)

lemma pq_laws_byte:
  assumes "pq_laws pq un" "un b = x # r"
  obtains b' where "pq_getmsgbyte pq b = Some (x, b')" "un b' = r" "pq_cursor pq b' = pq_cursor pq b + 1"
  using assms unfolding pq_laws_def by metis

lemma pq_laws_int2:
  assumes "pq_laws pq un" "un b = x # y # r"
  obtains b' where "pq_getmsgint2 pq b = Some (u16_of_bytes x y, b')" "un b' = r"
    "pq_cursor pq b' = pq_cursor pq b + 2"
  using assms unfolding pq_laws_def by metis

lemma pq_laws_bytes:
  assumes "pq_laws pq un" "n \<le> length (un b)"
  obtains b' where "pq_getmsgbytes pq b n = Some (take n (un b), b')" "un b' = drop n (un b)"
    "pq_cursor pq b' = pq_cursor pq b + n"
  using assms unfolding pq_laws_def by metis

lemma pq_laws_short:
  assumes "pq_laws pq un"
  shows "un b = [] \<Longrightarrow> pq_getmsgbyte pq b = None"
    and "length (un b) < 2 \<Longrightarrow> pq_getmsgint2 pq b = None"
    and "length (un b) < n \<Longrightarrow> pq_getmsgbytes pq b n = None"
  using assms unfolding pq_laws_def by blast+

lemma u16_bytes_roundtrip: "u16_of_bytes (ucast (drop_bit 8 w)) (ucast w) = w"
  by (rule bit_eqI) (auto simp: u16_of_bytes_def bit_simps dest: bit_imp_le_length)

text \<open>The bytes one record occupies on the wire.\<close>

definition wire_tracestate :: "span_context \<Rightarrow> string" where
  "wire_tracestate c =
     (case tracestate c of None \<Rightarrow> [] | Some t \<Rightarrow> if length t > OTEL_TRACESTATE_MAX_LEN then [] else t)"

definition wire_record :: "span_context \<Rightarrow> u8 list" where
  "wire_record c =
     OTEL_SPAN_CONTEXT_WIRE_V1 # bytes_of_u16 (of_nat (27 + length (wire_tracestate c)))
       @ trace_id c @ span_id c @ [trace_flags c]
       @ bytes_of_u16 (of_nat (length (wire_tracestate c))) @ map byte_of_char (wire_tracestate c)"

lemma send_appends_record:
  "pq_laws pq un \<Longrightarrow> un (otel_span_context_send pq b c) = un b @ wire_record c"
  by (auto simp: otel_span_context_send_def wire_record_def wire_tracestate_def pq_laws_send Let_def
      OTEL_TRACE_ID_BYTES_def OTEL_SPAN_ID_BYTES_def split: option.splits)

lemma char_of_byte_of_char: "char_of (unat (byte_of_char c)) = c"
proof -
  have "(of_char c :: nat) < 256"
    by (rule nat_of_char_less_256)
  then show ?thesis
    by (simp add: byte_of_char_def unat_of_nat)
qed

lemma cstring_of_bytes_of_chars:
  "CHR 0x00 \<notin> set t \<Longrightarrow> cstring_of_bytes (map byte_of_char t) = t"
  by (induction t) (auto simp: cstring_of_bytes_def char_of_byte_of_char)

text \<open>
  What the reader makes of one complete record, as a function of its version byte and of
  the bytes its length prefix announces.
\<close>

definition wire_decode :: "u8 \<Rightarrow> u8 list \<Rightarrow> recv_result" where
  "wire_decode version body =
     (if version \<noteq> OTEL_SPAN_CONTEXT_WIRE_V1 \<or> length body < 27 then Recv_false
      else let tslen = unat (u16_of_bytes (body ! 25) (body ! 26));
               c = \<lparr>trace_id = take 16 body, span_id = take 8 (drop 16 body), trace_flags = body ! 24,
                    tracestate = (if tslen = 0 then None
                                  else Some (cstring_of_bytes (take tslen (drop 27 body))))\<rparr>
           in if length body - 27 < tslen then Recv_false
              else if otel_span_context_is_valid c then Recv_ok c else Recv_false)"

lemma recv_skip_run:
  assumes "pq_laws pq un" "un b = xs @ r" "length xs = n"
  obtains b' where "\<forall>k. recv_skip pq b n k = k b'" "un b' = r"
proof -
  obtain b' where "pq_getmsgbytes pq b n = Some (take n (un b), b')" "un b' = drop n (un b)"
    by (rule pq_laws_bytes [OF assms(1), of n b]) (use assms in auto)
  with assms show ?thesis by (intro that [of b']) (simp_all add: recv_skip_def)
qed

text \<open>The tail of the reader: everything after the tracestate length.\<close>

lemma recv_v1_fields:
  assumes laws: "pq_laws pq un" and b: "un b = body @ rest" and len: "27 \<le> length body"
  obtains b4 where "un b4 = drop 27 body @ rest" "pq_cursor pq b4 = pq_cursor pq b + 27"
    and "\<And>tslen finish. tslen = unat (u16_of_bytes (body ! 25) (body ! 26)) \<Longrightarrow>
      finish = (\<lambda>ts b'.
              let c = \<lparr>trace_id = take 16 body, span_id = take 8 (drop 16 body),
                       trace_flags = body ! 24, tracestate = ts\<rparr>;
                  used = int (pq_cursor pq b') - int (pq_cursor pq b);
                  fin = (\<lambda>b'. (if otel_span_context_is_valid c then Recv_ok c else Recv_false, b'))
              in if used < int (length body)
                 then recv_skip pq b' (nat (int (length body) - used)) fin
                 else fin b') \<Longrightarrow>
      recv_v1 pq b (length body) =
        (if length body - 27 < tslen then recv_skip pq b4 (length body - 27) (\<lambda>b. (Recv_false, b))
         else if tslen > 0
           then (case pq_getmsgbytes pq b4 tslen of None \<Rightarrow> (Recv_error, b4)
                 | Some (bs, b5) \<Rightarrow> finish (Some (cstring_of_bytes bs)) b5)
           else finish None b4)"
proof -
  obtain b1 where b1: "pq_getmsgbytes pq b 16 = Some (take 16 body, b1)" "un b1 = drop 16 body @ rest"
      "pq_cursor pq b1 = pq_cursor pq b + 16"
    by (rule pq_laws_bytes [OF laws, of 16 b]) (use b len in auto)
  obtain b2 where b2: "pq_getmsgbytes pq b1 8 = Some (take 8 (drop 16 body), b2)"
      "un b2 = drop 24 body @ rest" "pq_cursor pq b2 = pq_cursor pq b1 + 8"
    by (rule pq_laws_bytes [OF laws, of 8 b1]) (use b1 len in auto)
  have d24: "drop 24 body = body ! 24 # body ! 25 # body ! 26 # drop 27 body"
    using len Cons_nth_drop_Suc [of 24 body] Cons_nth_drop_Suc [of 25 body] Cons_nth_drop_Suc [of 26 body]
    by simp
  obtain b3 where b3: "pq_getmsgbyte pq b2 = Some (body ! 24, b3)"
      "un b3 = body ! 25 # body ! 26 # drop 27 body @ rest" "pq_cursor pq b3 = pq_cursor pq b2 + 1"
    by (rule pq_laws_byte [OF laws, of b2]) (use b2 d24 in auto)
  obtain b4 where b4: "pq_getmsgint2 pq b3 = Some (u16_of_bytes (body ! 25) (body ! 26), b4)"
      "un b4 = drop 27 body @ rest" "pq_cursor pq b4 = pq_cursor pq b3 + 2"
    by (rule pq_laws_int2 [OF laws b3(2)]) auto
  have cur: "pq_cursor pq b4 = pq_cursor pq b + 27" using b1 b2 b3 b4 by simp
  then have moved: "int (pq_cursor pq b4) - int (pq_cursor pq b) = 27" by simp
  have left: "int (length body) - 27 = int (length body - 27)" using len by simp
  show thesis
    by (rule that [of b4, OF b4(2) cur])
      (simp only: recv_v1_def Let_def OTEL_TRACE_ID_BYTES_def OTEL_SPAN_ID_BYTES_def
        b1(1) b2(1) b3(1) b4(1) option.case prod.case moved left of_nat_less_iff nat_int)
qed

lemma recv_v1_decodes:
  assumes laws: "pq_laws pq un" and b: "un b = body @ rest" and len: "27 \<le> length body"
  shows "\<exists>b'. recv_v1 pq b (length body) = (wire_decode 1 body, b') \<and> un b' = rest"
proof -
  define tslen where "tslen = unat (u16_of_bytes (body ! 25) (body ! 26))"
  define ctx where "ctx ts = \<lparr>trace_id = take 16 body, span_id = take 8 (drop 16 body),
      trace_flags = body ! 24, tracestate = ts\<rparr>" for ts
  define res where "res ts = (if otel_span_context_is_valid (ctx ts) then Recv_ok (ctx ts) else Recv_false)" for ts
  define finish where "finish ts b' = (let used = int (pq_cursor pq b') - int (pq_cursor pq b) in
      if used < int (length body)
      then recv_skip pq b' (nat (int (length body) - used)) (Pair (res ts)) else (res ts, b'))" for ts b'
  obtain b4 where b4: "un b4 = drop 27 body @ rest" "pq_cursor pq b4 = pq_cursor pq b + 27"
    and run: "recv_v1 pq b (length body) =
        (if length body - 27 < tslen then recv_skip pq b4 (length body - 27) (\<lambda>b. (Recv_false, b))
         else if tslen > 0
           then (case pq_getmsgbytes pq b4 tslen of None \<Rightarrow> (Recv_error, b4)
                 | Some (bs, b5) \<Rightarrow> finish (Some (cstring_of_bytes bs)) b5)
           else finish None b4)"
    by (rule recv_v1_fields [OF laws b len])
      (simp add: tslen_def finish_def ctx_def res_def Let_def fun_eq_iff)
  have fin: "\<exists>b''. finish ts b' = (res ts, b'') \<and> un b'' = rest"
    if n: "un b' = drop n body @ rest" "pq_cursor pq b' = pq_cursor pq b + n" "n \<le> length body" for ts b' n
  proof -
    obtain b'' where "\<forall>k. recv_skip pq b' (length body - n) k = k b''" "un b'' = rest"
      by (rule recv_skip_run [OF laws n(1), of "length body - n"]) (use n in auto)
    then show ?thesis
      using n by (cases "n = length body") (auto simp: finish_def nat_diff_distrib')
  qed
  have decode: "wire_decode 1 body = (if length body - 27 < tslen then Recv_false
      else res (if tslen = 0 then None else Some (cstring_of_bytes (take tslen (drop 27 body)))))"
    using len by (auto simp add: wire_decode_def tslen_def res_def ctx_def OTEL_SPAN_CONTEXT_WIRE_V1_def Let_def)
  consider "length body - 27 < tslen" | "tslen = 0" | "0 < tslen" "tslen \<le> length body - 27" by linarith
  then show ?thesis
  proof cases
    case 1
    obtain b' where "\<forall>k. recv_skip pq b4 (length body - 27) k = k b'" "un b' = rest"
      by (rule recv_skip_run [OF laws b4(1), of "length body - 27"]) (use len in auto)
    with 1 show ?thesis
      by (simp add: run decode)
  next
    case 2
    with fin [OF b4 len, of None] show ?thesis
      by (simp add: run decode)
  next
    case 3
    obtain b5 where b5: "pq_getmsgbytes pq b4 tslen = Some (take tslen (drop 27 body), b5)"
        "un b5 = drop (27 + tslen) body @ rest" "pq_cursor pq b5 = pq_cursor pq b + (27 + tslen)"
      by (rule pq_laws_bytes [OF laws, of tslen b4]) (use b4 3 in \<open>auto simp: add.commute\<close>)
    have "27 + tslen \<le> length body" using 3 len by simp
    from fin [OF b5(2,3) this] 3 b5(1) show ?thesis
      by (simp add: run decode)
  qed
qed

lemma recv_header:
  assumes laws: "pq_laws pq un" and b: "un b = v # lh # ll # r"
  obtains b2 where "un b2 = r" and
    "otel_span_context_recv pq b =
       (if v \<noteq> 1 \<or> unat (u16_of_bytes lh ll) < 27
        then recv_skip pq b2 (unat (u16_of_bytes lh ll)) (\<lambda>b. (Recv_false, b))
        else recv_v1 pq b2 (unat (u16_of_bytes lh ll)))"
proof -
  obtain b1 where b1: "pq_getmsgbyte pq b = Some (v, b1)" "un b1 = lh # ll # r"
    by (rule pq_laws_byte [OF laws b]) blast
  obtain b2 where b2: "pq_getmsgint2 pq b1 = Some (u16_of_bytes lh ll, b2)" "un b2 = r"
    by (rule pq_laws_int2 [OF laws b1(2)]) blast
  show thesis
    by (rule that [of b2])
      (simp_all add: b2 b1 otel_span_context_recv_def OTEL_SPAN_CONTEXT_WIRE_V1_def
        OTEL_TRACE_ID_BYTES_def OTEL_SPAN_ID_BYTES_def)
qed

lemma recv_decodes:
  assumes laws: "pq_laws pq un" and b: "un b = v # lh # ll # body @ rest"
    and len: "length body = unat (u16_of_bytes lh ll)"
  shows "\<exists>b'. otel_span_context_recv pq b = (wire_decode v body, b') \<and> un b' = rest"
proof -
  obtain b2 where b2: "un b2 = body @ rest" and recv: "otel_span_context_recv pq b =
       (if v \<noteq> 1 \<or> length body < 27 then recv_skip pq b2 (length body) (\<lambda>b. (Recv_false, b))
        else recv_v1 pq b2 (length body))"
    by (rule recv_header [OF laws b]) (simp add: len)
  show ?thesis
  proof (cases "v \<noteq> 1 \<or> length body < 27")
    case True
    obtain b' where "\<forall>k. recv_skip pq b2 (length body) k = k b'" "un b' = rest"
      by (rule recv_skip_run [OF laws b2 refl]) blast
    with True show ?thesis
      by (auto simp: recv wire_decode_def OTEL_SPAN_CONTEXT_WIRE_V1_def)
  next
    case False
    with recv_v1_decodes [OF laws b2] show ?thesis by (simp add: recv)
  qed
qed

text \<open>The bytes after the length prefix of the record \<open>otel_span_context_send\<close> writes.\<close>

definition wire_body :: "span_context \<Rightarrow> u8 list" where
  "wire_body c = trace_id c @ span_id c @ [trace_flags c]
       @ bytes_of_u16 (of_nat (length (wire_tracestate c))) @ map byte_of_char (wire_tracestate c)"

lemma wire_record_body:
  "wire_record c = 1 # bytes_of_u16 (of_nat (27 + length (wire_tracestate c))) @ wire_body c"
  by (simp add: wire_record_def wire_body_def OTEL_SPAN_CONTEXT_WIRE_V1_def)

lemma unat_u16_small: "n < 65536 \<Longrightarrow> unat (of_nat n :: u16) = n"
  by (simp add: unat_of_nat)

lemma wire_tracestate_short: "length (wire_tracestate c) \<le> 512"
  by (simp add: wire_tracestate_def OTEL_TRACESTATE_MAX_LEN_def split: option.split)

lemma wire_decode_body:
  assumes sized: "ctx_sized c" and nul: "CHR 0x00 \<notin> set (wire_tracestate c)"
  shows "wire_decode 1 (wire_body c) =
     (if otel_span_context_is_valid c
      then Recv_ok (c\<lparr>tracestate := (if wire_tracestate c = [] then None else Some (wire_tracestate c))\<rparr>)
      else Recv_false)"
proof -
  let ?ts = "wire_tracestate c"
  have len: "length (trace_id c) = 16" "length (span_id c) = 8"
    using sized by (simp_all add: ctx_sized_def)
  have n: "unat (of_nat (length ?ts) :: u16) = length ?ts"
    using wire_tracestate_short [of c] by (intro unat_u16_small) simp
  have parts: "length (wire_body c) = 27 + length ?ts" "take 16 (wire_body c) = trace_id c"
      "take 8 (drop 16 (wire_body c)) = span_id c" "wire_body c ! 24 = trace_flags c"
      "u16_of_bytes (wire_body c ! 25) (wire_body c ! 26) = of_nat (length ?ts)"
      "drop 27 (wire_body c) = map byte_of_char ?ts"
    by (simp_all add: wire_body_def bytes_of_u16_def len nth_append u16_bytes_roundtrip)
  show ?thesis
    using n by (simp add: wire_decode_def parts OTEL_SPAN_CONTEXT_WIRE_V1_def Let_def
        cstring_of_bytes_of_chars [OF nul] otel_span_context_is_valid_def)
qed

lemma recv_sent:
  assumes laws: "pq_laws pq un" and b: "un b = wire_record c @ rest"
    and c: "ctx_sized c" "CHR 0x00 \<notin> set (wire_tracestate c)"
  shows "\<exists>b'. otel_span_context_recv pq b = (wire_decode 1 (wire_body c), b') \<and> un b' = rest"
proof -
  define hd16 where "hd16 = (of_nat (27 + length (wire_tracestate c)) :: u16)"
  have "unat hd16 = 27 + length (wire_tracestate c)"
    unfolding hd16_def using wire_tracestate_short [of c] by (intro unat_u16_small) simp
  moreover have "length (wire_body c) = 27 + length (wire_tracestate c)"
    using c(1) by (simp add: wire_body_def bytes_of_u16_def ctx_sized_def)
  ultimately show ?thesis
    using recv_decodes [OF laws, of b 1 "ucast (drop_bit 8 hd16)" "ucast hd16" "wire_body c" rest] b
    by (simp add: wire_record_body bytes_of_u16_def u16_bytes_roundtrip hd16_def)
qed

text \<open>The core functions over a byte list with a cursor, and that they obey the laws.\<close>

definition list_pq :: "(nat \<times> u8 list) pq_ops" where
  "list_pq =
     \<lparr>pq_sendint8 = (\<lambda>(k, b) x. (k, b @ [x])),
      pq_sendint16 = (\<lambda>(k, b) w. (k, b @ bytes_of_u16 w)),
      pq_sendbytes = (\<lambda>(k, b) xs. (k, b @ xs)),
      pq_getmsgbyte = (\<lambda>(k, b). case b of x # r \<Rightarrow> Some (x, k + 1, r) | _ \<Rightarrow> None),
      pq_getmsgint2 = (\<lambda>(k, b). case b of x # y # r \<Rightarrow> Some (u16_of_bytes x y, k + 2, r) | _ \<Rightarrow> None),
      pq_getmsgbytes = (\<lambda>(k, b) n. if n \<le> length b then Some (take n b, k + n, drop n b) else None),
      pq_cursor = fst\<rparr>"

lemma list_pq_laws: "pq_laws list_pq snd"
  by (auto simp: pq_laws_def list_pq_def split: list.splits)

section \<open>Properties\<close>

text \<open>The lowercase-hex text of a trace ID is read back as that ID, and only that text is:
  \<open>otel_trace_id_from_hex\<close> accepts exactly the strings \<open>otel_trace_id_to_hex\<close> prints for
  16-byte IDs (so upper case, short and long strings are refused).\<close>

theorem trace_id_hex_codec:
  "otel_trace_id_from_hex s = Some t \<longleftrightarrow> length t = 16 \<and> s = otel_trace_id_to_hex t"
  by (rule trace_hex.dec_iff)

text \<open>C24: A valid span context survives formatting as a W3C traceparent and parsing: every field
  but the tracestate, which the header does not carry, comes back.\<close>

theorem traceparent_roundtrip:
  assumes "ctx_sized c" and "otel_span_context_is_valid c"
  shows "otel_traceparent_parse (otel_traceparent_format c) = Some (c\<lparr>tracestate := None\<rparr>)"
  using assms by (rule parse_format)

theorem traceparent_roundtrip_witness:
  "otel_traceparent_parse (otel_traceparent_format
     \<lparr>trace_id = replicate 16 0xab, span_id = replicate 8 3, trace_flags = 1, tracestate = Some ''a=1''\<rparr>)
   = Some \<lparr>trace_id = replicate 16 0xab, span_id = replicate 8 3, trace_flags = 1, tracestate = None\<rparr>"
proof -
  have "ctx_sized \<lparr>trace_id = replicate 16 0xab, span_id = replicate 8 3, trace_flags = 1, tracestate = Some ''a=1''\<rparr>"
    by (simp add: ctx_sized_def)
  moreover have "otel_span_context_is_valid
      \<lparr>trace_id = replicate 16 0xab, span_id = replicate 8 3, trace_flags = 1, tracestate = Some ''a=1''\<rparr>"
    by (simp add: otel_span_context_is_valid_def trace_id_valid_iff span_id_valid_iff)
  ultimately show ?thesis
    by (auto dest: traceparent_roundtrip)
qed



text \<open>A span context sent in the binary wire format and received again is the same
  context (an over-long tracestate is dropped by the sender, an empty one is read as
  absent), and the reader stops exactly at the end of the record, whatever follows it.\<close>

theorem wire_roundtrip:
  assumes "pq_laws pq un" and "un b = []" and "ctx_sized c" and "otel_span_context_is_valid c"
    and "CHR 0x00 \<notin> set (wire_tracestate c)"
  shows "\<exists>b'. otel_span_context_recv pq (pq_sendbytes pq (otel_span_context_send pq b c) rest) =
      (Recv_ok (c\<lparr>tracestate := (if wire_tracestate c = [] then None else Some (wire_tracestate c))\<rparr>), b')
      \<and> un b' = rest"
proof -
  have "un (pq_sendbytes pq (otel_span_context_send pq b c) rest) = wire_record c @ rest"
    using assms(2) by (simp add: pq_laws_send [OF assms(1)] send_appends_record [OF assms(1)])
  from recv_sent [OF assms(1) this assms(3,5)] wire_decode_body [OF assms(3,5)] assms(4)
  show ?thesis by simp
qed

theorem wire_roundtrip_witness:
  "\<exists>b'. otel_span_context_recv list_pq (pq_sendbytes list_pq (otel_span_context_send list_pq (0, [])
        \<lparr>trace_id = replicate 16 7, span_id = replicate 8 9, trace_flags = 1, tracestate = Some ''k=v''\<rparr>) [5, 6]) =
      (Recv_ok \<lparr>trace_id = replicate 16 7, span_id = replicate 8 9, trace_flags = 1, tracestate = Some ''k=v''\<rparr>, b')
      \<and> snd b' = [5, 6]"
proof -
  let ?c = "\<lparr>trace_id = replicate 16 7, span_id = replicate 8 9, trace_flags = 1, tracestate = Some ''k=v''\<rparr>"
  have ts: "wire_tracestate ?c = ''k=v''"
    by (simp add: wire_tracestate_def OTEL_TRACESTATE_MAX_LEN_def)
  have "otel_span_context_is_valid ?c"
    by (simp add: otel_span_context_is_valid_def trace_id_valid_iff span_id_valid_iff)
  then show ?thesis
    using wire_roundtrip [OF list_pq_laws, of "(0, [])" ?c "[5, 6]"] by (simp add: ts ctx_sized_def)
qed

text \<open>Any complete record, whatever its version byte and contents, is consumed to its last
  byte and never raises an error: a reader stays in step with a newer or a corrupt writer.
  It is accepted exactly when \<open>wire_decode\<close> accepts its bytes, and then holds a valid context.\<close>

theorem wire_record_framing:
  assumes "pq_laws pq un" and "un b = v # lh # ll # body @ rest"
    and "length body = unat (u16_of_bytes lh ll)"
  shows "\<exists>b'. otel_span_context_recv pq b = (wire_decode v body, b') \<and> un b' = rest \<and>
      wire_decode v body \<noteq> Recv_error \<and>
      (\<forall>c. wire_decode v body = Recv_ok c \<longrightarrow> v = 1 \<and> otel_span_context_is_valid c)"
  using recv_decodes [OF assms]
  by (auto simp: wire_decode_def Let_def OTEL_SPAN_CONTEXT_WIRE_V1_def)

theorem wire_record_framing_witness:
  "\<exists>b'. otel_span_context_recv list_pq (0, [2, 0, 3, 11, 12, 13, 1, 1]) = (Recv_false, b') \<and> snd b' = [1, 1]"
  using wire_record_framing [OF list_pq_laws, of "(0, [2, 0, 3, 11, 12, 13, 1, 1])" 2 0 3 "[11, 12, 13]" "[1, 1]"]
  by (simp add: u16_of_bytes_def wire_decode_def OTEL_SPAN_CONTEXT_WIRE_V1_def)

end
