(* ===== verification/Api_Tables.thy ===== *)
theory Api_Tables
  imports Otel_Types
begin

text \<open>
  \<open>otel_api/otel_api.c\<close>, \<open>otel_api.h\<close> and \<open>otel_exporter.h\<close>: the published tables and their
  version check, registration of emit hooks in either load order, the recording-possible
  flag, and the sampling policy.  An emit hook and a \<open>prev_out\<close> cell are named by numbers;
  what a hook does when it runs is a parameter of the span machinery (theory Producer).
  The sampling ratio is a double in units of \<open>2 ^ -1074\<close>, the smallest positive double, so
  that every finite double is an integer and the arithmetic of the C code is exact.
\<close>

section \<open>Versions and tables\<close>

definition OTEL_MAKE_VERSION :: "u32 \<Rightarrow> u32 \<Rightarrow> u32" where
  "OTEL_MAKE_VERSION maj mn = push_bit 16 maj OR take_bit 16 mn"

definition OTEL_API_MAJOR :: "u32 \<Rightarrow> u32" where
  "OTEL_API_MAJOR v = drop_bit 16 v"

definition OTEL_API_MINOR :: "u32 \<Rightarrow> u32" where
  "OTEL_API_MINOR v = v AND 0xFFFF"

definition otel_api_table_ok :: "u32 \<Rightarrow> u32 \<Rightarrow> u32 \<Rightarrow> nat \<Rightarrow> bool" where
  "otel_api_table_ok version struct_size want_major want_size \<longleftrightarrow>
     OTEL_API_MAJOR version = want_major \<and> unat struct_size \<ge> want_size"

text \<open>The root table, with the version and size of each table it points to (LP64 sizes).\<close>

record otel_api_table =
  tab_version :: u32
  tab_struct_size :: u32

record otel_api =
  root_table :: otel_api_table
  producer_table :: "otel_api_table option"
  exporter_table :: "otel_api_table option"
  internal_table :: "otel_api_table option"

definition sizeof_OtelApi :: nat where
  "sizeof_OtelApi = 32"

definition sizeof_OtelExporterApi :: nat where
  "sizeof_OtelExporterApi = 24"

definition sizeof_OtelInternalApi :: nat where
  "sizeof_OtelInternalApi = 64"

definition sizeof_OtelProducerApi :: nat where
  "sizeof_OtelProducerApi = 168"

definition root_ok :: "otel_api \<Rightarrow> bool" where
  "root_ok api \<longleftrightarrow>
     otel_api_table_ok (tab_version (root_table api)) (tab_struct_size (root_table api)) 3 sizeof_OtelApi"

text \<open>
  The per-translation-unit caches: not looked up yet, known to be missing, or the table.
  Each accessor returns the table or NULL, and the cache it leaves.
\<close>

datatype 'a api_cache = Unresolved | Missing | Cached 'a

definition otel_api_get :: "otel_api option \<Rightarrow> otel_api api_cache \<Rightarrow> otel_api option \<times> otel_api api_cache" where
  "otel_api_get slot cache =
     (case cache of
        Missing \<Rightarrow> (None, cache)
      | Cached api \<Rightarrow> (Some api, cache)
      | Unresolved \<Rightarrow>
          (case slot of
             None \<Rightarrow> (None, Missing)
           | Some api \<Rightarrow> if root_ok api then (Some api, Cached api) else (None, Missing)))"

definition sub_table_get ::
    "(otel_api \<Rightarrow> otel_api_table option) \<Rightarrow> u32 \<Rightarrow> nat \<Rightarrow> otel_api option
       \<Rightarrow> otel_api api_cache \<Rightarrow> otel_api_table api_cache
       \<Rightarrow> otel_api_table option \<times> otel_api api_cache \<times> otel_api_table api_cache" where
  "sub_table_get sel want_major want_size slot root_cache cache =
     (case cache of
        Missing \<Rightarrow> (None, root_cache, cache)
      | Cached t \<Rightarrow> (Some t, root_cache, cache)
      | Unresolved \<Rightarrow>
          (let (api, root_cache') = otel_api_get slot root_cache in
           case Option.bind api sel of
             None \<Rightarrow> (None, root_cache', Missing)
           | Some t \<Rightarrow>
               if otel_api_table_ok (tab_version t) (tab_struct_size t) want_major want_size
               then (Some t, root_cache', Cached t)
               else (None, root_cache', Missing)))"

definition otel_exporter_api where
  "otel_exporter_api = sub_table_get exporter_table 1 sizeof_OtelExporterApi"

definition otel_internal_api where
  "otel_internal_api = sub_table_get internal_table 1 sizeof_OtelInternalApi"

definition otel_producer_api where
  "otel_producer_api = sub_table_get producer_table 1 sizeof_OtelProducerApi"

section \<open>Emit hooks and the recording-possible flag\<close>

type_synonym hook_id = nat
type_synonym cell_id = nat

datatype sampler_mode =
    SAMPLER_ALWAYS_ON | SAMPLER_ALWAYS_OFF | SAMPLER_TRACEIDRATIO
  | SAMPLER_PARENTBASED_ALWAYS_ON | SAMPLER_PARENTBASED_ALWAYS_OFF | SAMPLER_PARENTBASED_TRACEIDRATIO

record pending_registration =
  pr_emit_hook :: "hook_id option"
  pr_emit_prev_out :: "cell_id option"

text \<open>
  \<open>rg_prev\<close> holds the contents of the \<open>prev_out\<close> cells, \<open>rg_pending\<close> the queue behind the
  pending rendezvous variable (head first), \<open>rg_slot\<close> the root rendezvous variable.
\<close>

record registry =
  rg_hook :: "hook_id option"
  rg_prev :: "cell_id \<Rightarrow> hook_id option"
  rg_pending :: "pending_registration list"
  rg_slot :: "otel_api option"
  rg_emit_to_log :: bool
  rg_sampler :: sampler_mode
  rg_recording_possible :: bool

definition otel_update_recording_possible :: "registry \<Rightarrow> registry" where
  "otel_update_recording_possible r =
     r\<lparr>rg_recording_possible :=
         (rg_hook r \<noteq> None \<or> rg_emit_to_log r) \<and> rg_sampler r \<noteq> SAMPLER_ALWAYS_OFF\<rparr>"

definition api_register_emit_hook :: "hook_id \<Rightarrow> cell_id option \<Rightarrow> registry \<Rightarrow> registry" where
  "api_register_emit_hook new_hook prev_out r =
     (let r1 = (case prev_out of None \<Rightarrow> r | Some c \<Rightarrow> r\<lparr>rg_prev := (rg_prev r)(c := rg_hook r)\<rparr>)
      in otel_update_recording_possible (r1\<lparr>rg_hook := Some new_hook\<rparr>))"

definition register_req :: "pending_registration \<Rightarrow> registry \<Rightarrow> registry" where
  "register_req req r =
     (case pr_emit_hook req of
        None \<Rightarrow> r
      | Some h \<Rightarrow> api_register_emit_hook h (pr_emit_prev_out req) r)"

definition otel_exporter_register_when_ready :: "pending_registration \<Rightarrow> registry \<Rightarrow> registry" where
  "otel_exporter_register_when_ready req r =
     (case rg_slot r of
        Some api \<Rightarrow>
          if \<not> root_ok api then r
          else (case exporter_table api of
                  Some e \<Rightarrow>
                    if \<not> otel_api_table_ok (tab_version e) (tab_struct_size e) 1 sizeof_OtelExporterApi
                    then r
                    else register_req req r
                | None \<Rightarrow> r)
      | None \<Rightarrow> r\<lparr>rg_pending := req # rg_pending r\<rparr>)"

definition otel_api_publish_rendezvous :: "otel_api \<Rightarrow> registry \<Rightarrow> registry" where
  "otel_api_publish_rendezvous root r =
     fold register_req (rg_pending r) (r\<lparr>rg_slot := Some root, rg_pending := []\<rparr>)"

text \<open>The root table this build publishes (its exporter table is never NULL).\<close>

definition otel_api_root :: otel_api where
  "otel_api_root =
     \<lparr>root_table = \<lparr>tab_version = OTEL_MAKE_VERSION 3 0, tab_struct_size = of_nat sizeof_OtelApi\<rparr>,
      producer_table = Some \<lparr>tab_version = OTEL_MAKE_VERSION 1 1, tab_struct_size = of_nat sizeof_OtelProducerApi\<rparr>,
      exporter_table = Some \<lparr>tab_version = OTEL_MAKE_VERSION 1 0, tab_struct_size = of_nat sizeof_OtelExporterApi\<rparr>,
      internal_table = Some \<lparr>tab_version = OTEL_MAKE_VERSION 1 2, tab_struct_size = of_nat sizeof_OtelInternalApi\<rparr>\<rparr>"

text \<open>
  The order in which the hooks run: the registered hook first, and each hook calls the one
  its \<open>prev_out\<close> cell holds.  \<open>cell\<close> says which cell a hook reads.
\<close>

fun hook_chain :: "nat \<Rightarrow> (hook_id \<Rightarrow> cell_id) \<Rightarrow> (cell_id \<Rightarrow> hook_id option) \<Rightarrow> hook_id option \<Rightarrow> hook_id list" where
  "hook_chain 0 cell prev h = []"
| "hook_chain (Suc n) cell prev None = []"
| "hook_chain (Suc n) cell prev (Some h) = h # hook_chain n cell prev (prev (cell h))"

section \<open>The sampler\<close>

datatype sampler_decision = SAMPLE_DROP | SAMPLE_RECORD_ONLY | SAMPLE_RECORD_AND_SAMPLE

text \<open>Division rounding to nearest, ties to even, as \<open>rint\<close> and the hardware round.\<close>

definition rne_div :: "nat \<Rightarrow> nat \<Rightarrow> nat" where
  "rne_div n d =
     (let q = n div d; r = n mod d in
      if 2 * r < d then q else if d < 2 * r then Suc q else if even q then q else Suc q)"

fun bit_length :: "nat \<Rightarrow> nat" where
  "bit_length n = (if n = 0 then 0 else Suc (bit_length (n div 2)))"

declare bit_length.simps [simp del]

text \<open>An exact value rounded to the 53 significant bits of a double.\<close>

definition round_double :: "nat \<Rightarrow> nat" where
  "round_double n =
     (let e = bit_length n - 53 in rne_div n (2 ^ e) * 2 ^ e)"

definition ratio_one :: int where
  "ratio_one = 2 ^ 1074"

text \<open>
  \<open>rint((1.0 - ratio) * 2^56)\<close>: the subtraction rounds to a double, the product with a
  power of two is exact, and \<open>rint\<close> rounds again.
\<close>

definition ratio_threshold :: "int \<Rightarrow> nat" where
  "ratio_threshold ratio = rne_div (round_double (nat (ratio_one - ratio)) * 2 ^ 56) (2 ^ 1074)"

definition trace_randomness :: "trace_id \<Rightarrow> u64" where
  "trace_randomness tid = fold (\<lambda>b r. push_bit 8 r OR ucast b) (drop 9 tid) 0"

definition otel_traceidratio_sample :: "trace_id \<Rightarrow> int \<Rightarrow> bool" where
  "otel_traceidratio_sample tid ratio =
     (if ratio \<ge> ratio_one then True
      else if ratio \<le> 0 then False
      else trace_randomness tid \<ge> of_nat (ratio_threshold ratio))"

definition otel_run_sampler ::
    "sampler_mode \<Rightarrow> int \<Rightarrow> trace_id \<Rightarrow> bool \<Rightarrow> bool \<Rightarrow> sampler_decision" where
  "otel_run_sampler mode arg tid new_root remote_sampled =
     (let decide = (\<lambda>b. if b then SAMPLE_RECORD_AND_SAMPLE else SAMPLE_DROP) in
      case mode of
        SAMPLER_ALWAYS_ON \<Rightarrow> SAMPLE_RECORD_AND_SAMPLE
      | SAMPLER_ALWAYS_OFF \<Rightarrow> SAMPLE_DROP
      | SAMPLER_TRACEIDRATIO \<Rightarrow> decide (otel_traceidratio_sample tid arg)
      | SAMPLER_PARENTBASED_ALWAYS_ON \<Rightarrow>
          if \<not> new_root then decide remote_sampled else SAMPLE_RECORD_AND_SAMPLE
      | SAMPLER_PARENTBASED_ALWAYS_OFF \<Rightarrow>
          if \<not> new_root then decide remote_sampled else SAMPLE_DROP
      | SAMPLER_PARENTBASED_TRACEIDRATIO \<Rightarrow>
          if \<not> new_root then decide remote_sampled
          else decide (otel_traceidratio_sample tid arg))"

section \<open>Rounding is monotone\<close>

lemma rne_div_bounds: "0 < d \<Longrightarrow> n div d \<le> rne_div n d \<and> rne_div n d \<le> Suc (n div d)"
  by (auto simp: rne_div_def Let_def)

lemma rne_div_mono:
  assumes "m \<le> n" and "0 < d"
  shows "rne_div m d \<le> rne_div n d"
proof (cases "m div d = n div d")
  case True
  then have "m mod d \<le> n mod d"
    using assms(1) by (metis add_le_cancel_left div_mult_mod_eq)
  with True show ?thesis by (auto simp: rne_div_def Let_def)
next
  case False
  then have "Suc (m div d) \<le> n div d"
    using div_le_mono [OF assms(1), of d] by simp
  then show ?thesis
    using rne_div_bounds [OF assms(2), of m] rne_div_bounds [OF assms(2), of n] by linarith
qed

lemma rne_div_exact: "0 < d \<Longrightarrow> rne_div (k * d) d = k"
  by (simp add: rne_div_def Let_def)

lemma bit_length_le_iff: "bit_length n \<le> k \<longleftrightarrow> n < 2 ^ k"
proof (induction n arbitrary: k rule: bit_length.induct)
  case (1 n)
  show ?case
  proof (cases "n = 0")
    case True
    then show ?thesis by (simp add: bit_length.simps)
  next
    case False
    show ?thesis
    proof (cases k)
      case 0
      with False show ?thesis by (simp add: bit_length.simps [of n])
    next
      case (Suc j)
      have "n div 2 < 2 ^ j \<longleftrightarrow> n < 2 ^ Suc j"
        by (simp add: div_less_iff_less_mult mult.commute)
      with Suc False 1 [OF False, of j] show ?thesis by (simp add: bit_length.simps [of n])
    qed
  qed
qed

lemma bit_length_mono: "m \<le> n \<Longrightarrow> bit_length m \<le> bit_length n"
  by (meson bit_length_le_iff le_less_trans order_refl)

lemma round_double_upper: "n \<le> 2 ^ k \<Longrightarrow> 53 \<le> k \<Longrightarrow> round_double n \<le> 2 ^ k"
  and round_double_lower: "2 ^ k \<le> n \<Longrightarrow> 53 \<le> k \<Longrightarrow> bit_length n = Suc k \<Longrightarrow> 2 ^ k \<le> round_double n"
proof -
  assume n: "n \<le> 2 ^ k" and k: "53 \<le> k"
  let ?e = "bit_length n - 53"
  have "bit_length n \<le> Suc k"
    using le_less_trans [OF n power_strict_increasing [of k "Suc k" 2]] by (simp add: bit_length_le_iff)
  then have e: "?e \<le> k" using k by simp
  then have "2 ^ k = 2 ^ (k - ?e) * (2 :: nat) ^ ?e"
    by (simp flip: power_add)
  then have "rne_div n (2 ^ ?e) \<le> 2 ^ (k - ?e)"
    using rne_div_mono [OF n, of "2 ^ ?e"] by (simp add: rne_div_exact)
  then have "rne_div n (2 ^ ?e) * 2 ^ ?e \<le> 2 ^ (k - ?e) * 2 ^ ?e" by simp
  also have "\<dots> = 2 ^ k" using e by (simp flip: power_add)
  finally show "round_double n \<le> 2 ^ k" by (simp add: round_double_def Let_def)
next
  assume n: "2 ^ k \<le> n" and k: "53 \<le> k" and bl: "bit_length n = Suc k"
  let ?e = "bit_length n - 53"
  have e: "?e \<le> k" using k bl by simp
  then have "2 ^ k = 2 ^ (k - ?e) * (2 :: nat) ^ ?e"
    by (simp flip: power_add)
  then have "2 ^ (k - ?e) \<le> rne_div n (2 ^ ?e)"
    using rne_div_mono [OF n, of "2 ^ ?e"] by (simp add: rne_div_exact)
  then have "2 ^ (k - ?e) * 2 ^ ?e \<le> rne_div n (2 ^ ?e) * 2 ^ ?e" by simp
  moreover have "(2 :: nat) ^ (k - ?e) * 2 ^ ?e = 2 ^ k" using e by (simp flip: power_add)
  ultimately show "2 ^ k \<le> round_double n" by (simp add: round_double_def Let_def)
qed

lemma round_double_mono:
  assumes "m \<le> n"
  shows "round_double m \<le> round_double n"
proof (cases "bit_length m - 53 = bit_length n - 53")
  case True
  then show ?thesis
    using rne_div_mono [OF assms, of "2 ^ (bit_length n - 53)"] by (simp add: round_double_def Let_def)
next
  case False
  then have less: "bit_length m < bit_length n" and big: "53 < bit_length n"
    using bit_length_mono [OF assms] by auto
  define k where "k = bit_length n - 1"
  have k: "bit_length n = Suc k" "53 \<le> k" "bit_length m \<le> k"
    using less big by (auto simp: k_def)
  have "m \<le> 2 ^ k" using k(3) by (simp add: bit_length_le_iff)
  moreover have "2 ^ k \<le> n"
    using k(1) bit_length_le_iff [of n k] by simp
  ultimately show ?thesis
    using round_double_upper [of m k] round_double_lower [of k n] k by linarith
qed

lemma round_double_power:
  assumes "53 \<le> k"
  shows "round_double (2 ^ k) = 2 ^ k"
proof -
  have "bit_length (2 ^ k) \<le> Suc k" "\<not> bit_length (2 ^ k) \<le> k"
    by (simp_all add: bit_length_le_iff)
  then have "bit_length (2 ^ k) = Suc k" by simp
  with assms show ?thesis
    by (intro antisym round_double_upper round_double_lower) simp_all
qed

lemma ratio_threshold_antimono:
  "r \<le> r' \<Longrightarrow> ratio_threshold r' \<le> ratio_threshold r"
  unfolding ratio_threshold_def
  by (intro rne_div_mono mult_le_mono1 round_double_mono) auto

lemma ratio_threshold_bound:
  assumes "0 \<le> r"
  shows "ratio_threshold r \<le> 2 ^ 56"
proof -
  have "nat (ratio_one - r) \<le> 2 ^ 1074"
    using assms by (simp add: ratio_one_def nat_le_iff)
  then have "round_double (nat (ratio_one - r)) \<le> 2 ^ 1074"
    by (rule round_double_upper) simp
  then have "ratio_threshold r \<le> rne_div (2 ^ 56 * 2 ^ 1074) (2 ^ 1074)"
    unfolding ratio_threshold_def by (intro rne_div_mono) (simp_all add: mult.commute)
  also have "\<dots> = 2 ^ 56" by (rule rne_div_exact) simp
  finally show ?thesis .
qed

section \<open>The queue of registrations\<close>

definition recording_flag_ok :: "registry \<Rightarrow> bool" where
  "recording_flag_ok r \<longleftrightarrow>
     rg_recording_possible r = ((rg_hook r \<noteq> None \<or> rg_emit_to_log r) \<and> rg_sampler r \<noteq> SAMPLER_ALWAYS_OFF)"

lemma recording_flag_update: "recording_flag_ok (otel_update_recording_possible r)"
  by (simp add: recording_flag_ok_def otel_update_recording_possible_def)

lemma register_frame [simp]:
  "rg_slot (register_req q r) = rg_slot r" "rg_pending (register_req q r) = rg_pending r"
  by (simp_all add: register_req_def api_register_emit_hook_def otel_update_recording_possible_def
      Let_def split: option.split)

lemma hook_chain_upd:
  "c \<notin> cell ` set (hook_chain n cell prev h) \<Longrightarrow>
     hook_chain n cell (prev(c := x)) h = hook_chain n cell prev h"
  by (induction n cell prev h rule: hook_chain.induct) auto

definition request_of :: "(hook_id \<Rightarrow> cell_id) \<Rightarrow> hook_id \<Rightarrow> pending_registration" where
  "request_of cell h = \<lparr>pr_emit_hook = Some h, pr_emit_prev_out = Some (cell h)\<rparr>"

lemma register_request:
  "rg_hook (register_req (request_of cell h) r) = Some h"
  "rg_prev (register_req (request_of cell h) r) = (rg_prev r)(cell h := rg_hook r)"
  by (simp_all add: register_req_def request_of_def api_register_emit_hook_def
      otel_update_recording_possible_def Let_def)

lemma fold_register_chain:
  assumes "distinct (map cell hs)"
  shows "hook_chain (length hs) cell
           (rg_prev (fold register_req (map (request_of cell) hs) r))
           (rg_hook (fold register_req (map (request_of cell) hs) r)) = rev hs"
  using assms
proof (induction hs rule: rev_induct)
  case Nil
  then show ?case by simp
next
  case (snoc h hs)
  let ?r = "fold register_req (map (request_of cell) hs) r"
  have IH: "hook_chain (length hs) cell (rg_prev ?r) (rg_hook ?r) = rev hs"
    using snoc by simp
  with snoc.prems have "hook_chain (length hs) cell ((rg_prev ?r)(cell h := rg_hook ?r)) (rg_hook ?r) = rev hs"
    by (subst hook_chain_upd) auto
  then show ?case by (simp add: register_request fun_upd_same del: fun_upd_apply)
qed

lemma queue_before_load:
  "rg_slot r = None \<Longrightarrow>
     fold otel_exporter_register_when_ready reqs r = r\<lparr>rg_pending := rev reqs @ rg_pending r\<rparr>"
  by (induction reqs arbitrary: r) (auto simp: otel_exporter_register_when_ready_def)

lemma table_versions:
  "root_ok otel_api_root"
  "otel_api_table_ok (OTEL_MAKE_VERSION 1 0) (of_nat sizeof_OtelExporterApi) 1 sizeof_OtelExporterApi"
  by (simp_all add: root_ok_def otel_api_root_def otel_api_table_ok_def OTEL_API_MAJOR_def
      OTEL_MAKE_VERSION_def sizeof_OtelApi_def sizeof_OtelExporterApi_def)

lemma register_after_load:
  "rg_slot r = Some otel_api_root \<Longrightarrow>
     fold otel_exporter_register_when_ready reqs r = fold register_req reqs r"
proof (induction reqs arbitrary: r)
  case (Cons q reqs)
  have "otel_exporter_register_when_ready q r = register_req q r"
    using Cons.prems table_versions
    by (simp add: otel_exporter_register_when_ready_def) (simp add: otel_api_root_def)
  with Cons show ?case by simp
qed simp

section \<open>Properties\<close>

text \<open>C26: Consistent probability sampling: a trace sampled at one ratio is sampled at every
  higher ratio (the rounding of the threshold included), the rejection threshold never
  exceeds \<open>2^56\<close>, and the ratios 0 and 1 reject and accept every trace.\<close>

theorem traceidratio_consistent:
  assumes "otel_traceidratio_sample tid r" and "r \<le> r'"
  shows "otel_traceidratio_sample tid r' \<and> 0 < r \<and> (r' < ratio_one \<longrightarrow> ratio_threshold r' \<le> 2 ^ 56)"
proof (cases "r' < ratio_one")
  case True
  with assms have r: "0 < r" "r < ratio_one" and s: "of_nat (ratio_threshold r) \<le> trace_randomness tid"
    by (auto simp: otel_traceidratio_sample_def split: if_splits)
  have bounds: "ratio_threshold r \<le> 2 ^ 56" "ratio_threshold r' \<le> 2 ^ 56"
    using r assms(2) ratio_threshold_bound [of r] ratio_threshold_bound [of r'] by simp_all
  have "ratio_threshold r' \<le> ratio_threshold r"
    using assms(2) by (rule ratio_threshold_antimono)
  then have "(of_nat (ratio_threshold r') :: u64) \<le> of_nat (ratio_threshold r)"
    using bounds by (simp add: word_le_nat_alt unat_of_nat)
  also note s
  finally show ?thesis
    using True r assms(2) bounds by (simp add: otel_traceidratio_sample_def)
next
  case False
  have "0 < r"
    using assms(1) by (cases "r \<le> 0") (auto simp: otel_traceidratio_sample_def ratio_one_def)
  with False show ?thesis by (simp add: otel_traceidratio_sample_def)
qed

theorem traceidratio_consistent_witness:
  "otel_traceidratio_sample (replicate 16 0xff) (2 ^ 1073 + 2 ^ 1072)"
proof -
  have "nat (ratio_one - 2 ^ 1073) = 2 ^ 1073"
    by (simp add: ratio_one_def)
  moreover have "rne_div (2 ^ 1073 * 2 ^ 56) (2 ^ 1074) = 2 ^ 55"
    using rne_div_exact [of "2 ^ 1074" "2 ^ 55"] by (simp flip: power_add)
  moreover have "round_double (2 ^ 1073) = 2 ^ 1073"
    by (rule round_double_power) simp
  ultimately have "ratio_threshold (2 ^ 1073) = 2 ^ 55"
    by (simp only: ratio_threshold_def)
  moreover have "trace_randomness (replicate 16 0xff) = 0xffffffffffffff"
    by code_simp
  ultimately have "otel_traceidratio_sample (replicate 16 0xff) (2 ^ 1073)"
    by (simp add: otel_traceidratio_sample_def)
  from traceidratio_consistent [OF this, of "2 ^ 1073 + 2 ^ 1072"] show ?thesis by simp
qed

text \<open>C27: Hooks queued before otel_api loads run in the order they were queued, the first one
  outermost; the same registrations made after otel_api has loaded run in the opposite
  order, the last one outermost.  In both orders every hook is called, and the
  recording-possible flag is right afterwards.\<close>

theorem emit_hook_order:
  assumes "distinct (map cell hs)" and "hs \<noteq> []" and "rg_slot r = None" and "rg_pending r = []"
  defines "reqs \<equiv> map (request_of cell) hs"
  defines "late \<equiv> otel_api_publish_rendezvous otel_api_root (fold otel_exporter_register_when_ready reqs r)"
    and "early \<equiv> fold otel_exporter_register_when_ready reqs (otel_api_publish_rendezvous otel_api_root r)"
  shows "hook_chain (length hs) cell (rg_prev late) (rg_hook late) = hs \<and> rg_pending late = [] \<and>
         hook_chain (length hs) cell (rg_prev early) (rg_hook early) = rev hs \<and>
         recording_flag_ok late \<and> recording_flag_ok early"
proof -
  let ?r = "r\<lparr>rg_slot := Some otel_api_root, rg_pending := []\<rparr>"
  have late: "late = fold register_req (map (request_of cell) (rev hs)) ?r"
    using assms(3,4)
    by (simp add: late_def reqs_def queue_before_load otel_api_publish_rendezvous_def rev_map)
  have early: "early = fold register_req (map (request_of cell) hs) ?r"
    using assms(4) by (simp add: early_def reqs_def register_after_load otel_api_publish_rendezvous_def)
  have flag: "recording_flag_ok (fold register_req (map (request_of cell) gs) x)" if "gs \<noteq> []" for gs x
    using that by (cases gs rule: rev_cases)
      (auto simp: register_req_def request_of_def api_register_emit_hook_def recording_flag_update Let_def)
  have flag_rev: "recording_flag_ok (fold register_req (rev (map (request_of cell) hs)) ?r)"
    using flag [of "rev hs" ?r] assms(2) by (simp add: rev_map)
  have pend: "rg_pending (fold register_req qs x) = rg_pending x" for qs x
    by (induction qs arbitrary: x) auto
  show ?thesis
    using fold_register_chain [of cell "rev hs" ?r] fold_register_chain [of cell hs ?r] assms(1,2)
    by (auto simp: late early flag flag_rev pend rev_map [symmetric])
qed

theorem emit_hook_order_witness:
  "rg_hook (otel_api_publish_rendezvous otel_api_root
     (fold otel_exporter_register_when_ready (map (request_of id) [7, 8])
        \<lparr>rg_hook = None, rg_prev = Map.empty, rg_pending = [], rg_slot = None, rg_emit_to_log = False,
         rg_sampler = SAMPLER_ALWAYS_ON, rg_recording_possible = False\<rparr>)) = Some 7"
  (is "rg_hook ?late = _")
proof -
  have "hook_chain (length [7, 8 :: nat]) id (rg_prev ?late) (rg_hook ?late) = [7, 8]"
    by (rule emit_hook_order [THEN conjunct1]) simp_all
  then show ?thesis by (cases "rg_hook ?late") simp_all
qed

text \<open>With a parent-based sampler, the decision for a span with a remote parent is the
  parent's sampled bit, whatever the trace ID and the ratio; no sampler ever decides
  RECORD_ONLY.\<close>

theorem sampler_follows_remote_parent:
  "(mode \<in> {SAMPLER_PARENTBASED_ALWAYS_ON, SAMPLER_PARENTBASED_ALWAYS_OFF, SAMPLER_PARENTBASED_TRACEIDRATIO}
     \<longrightarrow> otel_run_sampler mode arg tid False remote =
           (if remote then SAMPLE_RECORD_AND_SAMPLE else SAMPLE_DROP)) \<and>
   otel_run_sampler mode arg tid new_root remote \<noteq> SAMPLE_RECORD_ONLY"
  by (cases mode) (auto simp: otel_run_sampler_def)

theorem sampler_follows_remote_parent_witness:
  "otel_run_sampler SAMPLER_PARENTBASED_ALWAYS_ON 0 zero_trace_id False False = SAMPLE_DROP"
  using sampler_follows_remote_parent [of SAMPLER_PARENTBASED_ALWAYS_ON 0 zero_trace_id False] by simp

end
