(* ===== verification/Root_Context.thy ===== *)
theory Root_Context
  imports Api_Tables
begin

text \<open>
  \<open>otel_api/otel.c\<close> and the root-context getters of \<open>otel_api.c\<close>: the backend's root trace
  context, written by the GUC hooks, the 'M' protocol message and the sqlcommenter
  extraction, and the extraction itself.  PostgreSQL's \<open>set_config_option\<close> is a parameter
  (\<open>set_config\<close>); \<open>guc_laws\<close> states what the code relies on.  A pointer into the SQL text is
  its offset, and lengths are 64-bit words, as \<open>size_t\<close>.
\<close>

section \<open>State\<close>

record root_context =
  rc_is_set :: bool
  rc_from_comment :: bool
  rc_ctx :: span_context

record root_state =
  rs_root :: root_context
  rs_tracestate_guc :: "string option"
  rs_from_M_header :: bool
  rs_parse_sqlcommenter :: bool

definition root_none :: root_context where
  "root_none = \<lparr>rc_is_set = False, rc_from_comment = False, rc_ctx = zero_ctx\<rparr>"

definition otel_root_ctx_reset :: "root_state \<Rightarrow> root_state" where
  "otel_root_ctx_reset s = s\<lparr>rs_root := root_none\<rparr>"

section \<open>GUC hooks\<close>

definition check_traceparent :: "string option \<Rightarrow> bool" where
  "check_traceparent newval =
     (if cstring_empty newval then True
      else otel_traceparent_parse (the newval) \<noteq> None)"

definition assign_traceparent :: "string option \<Rightarrow> root_state \<Rightarrow> root_state" where
  "assign_traceparent newval s =
     (let s1 = otel_root_ctx_reset s in
      if cstring_empty newval then s1
      else (case otel_traceparent_parse (the newval) of
              Some c \<Rightarrow> s1\<lparr>rs_root := (rs_root s1)\<lparr>rc_ctx := c, rc_is_set := True\<rparr>\<rparr>
            | None \<Rightarrow> s1))"

definition assign_emit_spans_to_log :: "bool \<Rightarrow> registry \<Rightarrow> registry" where
  "assign_emit_spans_to_log newval r = otel_update_recording_possible (r\<lparr>rg_emit_to_log := newval\<rparr>)"

definition assign_sampler :: "sampler_mode \<Rightarrow> registry \<Rightarrow> registry" where
  "assign_sampler newval r = otel_update_recording_possible (r\<lparr>rg_sampler := newval\<rparr>)"

section \<open>The trace-context callbacks of the 'M' message\<close>

datatype guc_name = GUC_TRACEPARENT | GUC_TRACESTATE

type_synonym set_config_option = "guc_name \<Rightarrow> string option \<Rightarrow> root_state \<Rightarrow> root_state"

definition otel_trace_context_apply_cb ::
    "set_config_option \<Rightarrow> string \<Rightarrow> string \<Rightarrow> root_state \<Rightarrow> root_state" where
  "otel_trace_context_apply_cb set_config traceparent ts s =
     (let s1 = set_config GUC_TRACEPARENT (if traceparent = [] then None else Some traceparent) s;
          s2 = set_config GUC_TRACESTATE (if ts = [] then None else Some ts) s1
      in if rc_is_set (rs_root s2) then s2\<lparr>rs_from_M_header := True\<rparr> else s2)"

definition otel_trace_context_clear_cb :: "root_state \<Rightarrow> root_state" where
  "otel_trace_context_clear_cb s =
     (if rs_from_M_header s then (otel_root_ctx_reset s)\<lparr>rs_from_M_header := False\<rparr> else s)"

definition otel_current_traceparent :: "root_state \<Rightarrow> string option" where
  "otel_current_traceparent s =
     (if \<not> rc_is_set (rs_root s) then None
      else Some (otel_traceparent_format (rc_ctx (rs_root s))))"

definition api_get_root_context :: "root_state \<Rightarrow> root_context" where
  "api_get_root_context s =
     (rs_root s)\<lparr>rc_ctx := (rc_ctx (rs_root s))\<lparr>tracestate :=
        (if cstring_empty (rs_tracestate_guc s) then None else rs_tracestate_guc s)\<rparr>\<rparr>"

definition api_reset_root_context :: "root_state \<Rightarrow> root_state" where
  "api_reset_root_context s = otel_root_ctx_reset s"

section \<open>sqlcommenter\<close>

definition OTEL_SQLCOMMENTER_SCAN_BUDGET :: nat where
  "OTEL_SQLCOMMENTER_SCAN_BUDGET = 4096"

definition sql_space :: "char \<Rightarrow> bool" where
  "sql_space c \<longleftrightarrow> c = CHR '' '' \<or> c = CHR 0x09 \<or> c = CHR 0x0A \<or> c = CHR 0x0D"

text \<open>\<open>memmem\<close> for a two-byte needle: the offset of its first occurrence.\<close>

fun memmem2 :: "char \<Rightarrow> char \<Rightarrow> string \<Rightarrow> nat option" where
  "memmem2 a b (x # y # s) = (if x = a \<and> y = b then Some 0 else map_option Suc (memmem2 a b (y # s)))"
| "memmem2 a b _ = None"

text \<open>The backward search for the opening of a trailing comment.\<close>

fun scan_back :: "string \<Rightarrow> nat \<Rightarrow> nat \<Rightarrow> nat option" where
  "scan_back sql floor 0 = None"
| "scan_back sql floor (Suc i) =
     (if Suc i > floor
      then if sql ! i = CHR ''/'' \<and> sql ! Suc i = CHR ''*'' then Some (Suc i) else scan_back sql floor i
      else None)"

definition leading_comment :: "string \<Rightarrow> (nat \<times> u64) option" where
  "leading_comment sql =
     (let i = length (takeWhile sql_space sql) in
      if i + 4 \<le> length sql \<and> sql ! i = CHR ''/'' \<and> sql ! (i + 1) = CHR ''*''
      then (case memmem2 (CHR ''*'') (CHR ''/'') (drop (i + 2) sql) of
              Some k \<Rightarrow> Some (i + 2, of_nat k)
            | None \<Rightarrow> None)
      else None)"

definition trailing_comment :: "string \<Rightarrow> (nat \<times> u64) option" where
  "trailing_comment sql =
     (let e = length sql - length (takeWhile (\<lambda>c. sql_space c \<or> c = CHR '';'') (rev sql)) in
      if 4 \<le> e \<and> sql ! (e - 2) = CHR ''*'' \<and> sql ! (e - 1) = CHR ''/''
      then (let floor = (if e > OTEL_SQLCOMMENTER_SCAN_BUDGET then e - OTEL_SQLCOMMENTER_SCAN_BUDGET else 0)
            in case scan_back sql floor (e - 2) of
                 Some i \<Rightarrow> Some (i + 1, of_nat (e - 2) - of_nat (i + 1))
               | None \<Rightarrow> None)
      else None)"

definition find_block_comment :: "string \<Rightarrow> (nat \<times> u64) option" where
  "find_block_comment sql =
     (case leading_comment sql of Some r \<Rightarrow> Some r | None \<Rightarrow> trailing_comment sql)"

definition hex_digit_any :: "char \<Rightarrow> nat option" where
  "hex_digit_any c =
     (let n = of_char c :: nat in
      if 48 \<le> n \<and> n \<le> 57 then Some (n - 48)
      else if 97 \<le> n \<and> n \<le> 102 then Some (n - 97 + 10)
      else if 65 \<le> n \<and> n \<le> 70 then Some (n - 65 + 10)
      else None)"

fun decode_percent_escape :: "string \<Rightarrow> char option" where
  "decode_percent_escape (_ # h # l # _) =
     (case (hex_digit_any h, hex_digit_any l) of
        (Some hi, Some lo) \<Rightarrow> Some (char_of (hi * 16 + lo))
      | _ \<Rightarrow> None)"
| "decode_percent_escape _ = None"

text \<open>\<open>room\<close> is the number of output bytes left before the terminating NUL.\<close>

fun decode_value :: "string \<Rightarrow> nat \<Rightarrow> string option" where
  "decode_value [] room = Some []"
| "decode_value (c # cs) 0 = None"
| "decode_value (c # cs) (Suc room) =
     (if c = CHR ''%''
      then (case decode_percent_escape (c # cs) of
              None \<Rightarrow> None
            | Some d \<Rightarrow> map_option (Cons d) (decode_value (drop 2 cs) room))
      else map_option (Cons c) (decode_value cs room))"

definition past_comma :: "string \<Rightarrow> string" where
  "past_comma p = drop 1 (dropWhile (\<lambda>c. c \<noteq> CHR '','') p)"

definition after_key :: "string \<Rightarrow> string" where
  "after_key p = dropWhile (\<lambda>c. c \<noteq> CHR ''='' \<and> c \<noteq> CHR '','') p"

definition skip_blanks :: "string \<Rightarrow> string" where
  "skip_blanks p = dropWhile (\<lambda>c. c = CHR '' '' \<or> c = CHR 0x09) p"

function extract_traceparent_from_comment :: "string \<Rightarrow> nat \<Rightarrow> string option" where
  "extract_traceparent_from_comment body outlen =
     (let p = skip_blanks body in
      if p = [] then None
      else let key = takeWhile (\<lambda>c. c \<noteq> CHR ''='' \<and> c \<noteq> CHR '','') p; q = after_key p in
           if q = [] \<or> hd q \<noteq> CHR ''=''
           then extract_traceparent_from_comment (past_comma q) outlen
           else let v = tl q in
                if v = [] \<or> hd v \<noteq> CHR 0x27 then None
                else let val = takeWhile (\<lambda>c. c \<noteq> CHR 0x27) (tl v);
                         r = dropWhile (\<lambda>c. c \<noteq> CHR 0x27) (tl v) in
                     if r = [] then None
                     else if key = ''traceparent'' then decode_value val (outlen - 1)
                     else extract_traceparent_from_comment (past_comma (tl r)) outlen)"
  by auto

text \<open>Where the comment body lies: \<open>end = body + bodylen\<close> wraps as the pointer does.\<close>

definition comment_end :: "nat \<times> u64 \<Rightarrow> nat" where
  "comment_end r = unat (of_nat (fst r) + snd r)"

definition comment_body :: "string \<Rightarrow> nat \<times> u64 \<Rightarrow> string" where
  "comment_body sql r = take (comment_end r - fst r) (drop (fst r) sql)"

lemma past_comma_less: "p \<noteq> [] \<Longrightarrow> length (past_comma p) < length p"
  using length_dropWhile_le [of "\<lambda>c. c \<noteq> CHR '',''" p] by (cases p) (auto simp: past_comma_def)

lemma skipped_le: "length (skip_blanks p) \<le> length p" "length (after_key p) \<le> length p"
    "length (past_comma p) \<le> length p"
  unfolding skip_blanks_def after_key_def past_comma_def
  using length_dropWhile_le [of _ p] by (simp_all add: le_diff_conv le_SucI)

termination extract_traceparent_from_comment
proof (relation "measure (\<lambda>(body, outlen). length body)")
  fix body :: string and outlen :: nat and p key q
  assume "p = skip_blanks body" "p \<noteq> []" "q = after_key p"
  then have "length (past_comma q) < length p" if "q \<noteq> []"
    using past_comma_less [OF that] skipped_le(2) [of p] by simp
  moreover have "length (past_comma q) < length p" if "q = []"
    using that \<open>p \<noteq> []\<close> by (simp add: past_comma_def)
  ultimately show "((past_comma q, outlen), body, outlen) \<in> measure (\<lambda>(body, outlen). length body)"
    using skipped_le(1) [of body] \<open>p = skip_blanks body\<close> by fastforce
next
  fix body :: string and outlen :: nat and p key q v val r
  assume p: "p = skip_blanks body" and q: "q = after_key p" and qn: "\<not> (q = [] \<or> hd q \<noteq> CHR ''='')"
    and v: "v = tl q" and vn: "\<not> (v = [] \<or> hd v \<noteq> CHR 0x27)"
    and r: "r = dropWhile (\<lambda>c. c \<noteq> CHR 0x27) (tl v)" and rn: "r \<noteq> []"
  have "length (past_comma (tl r)) \<le> length (tl r)" by (rule skipped_le)
  also have "\<dots> < length r" using rn by simp
  also have "\<dots> \<le> length (tl v)" unfolding r by (rule length_dropWhile_le)
  also have "\<dots> \<le> length q" by (simp add: v)
  also have "\<dots> \<le> length p" unfolding q by (rule skipped_le)
  also have "\<dots> \<le> length body" unfolding p by (rule skipped_le)
  finally show "((past_comma (tl r), outlen), body, outlen) \<in> measure (\<lambda>(body, outlen). length body)"
    by simp
qed simp

declare extract_traceparent_from_comment.simps [simp del]

definition otel_try_apply_sqlcommenter_context :: "string option \<Rightarrow> root_state \<Rightarrow> bool \<times> root_state" where
  "otel_try_apply_sqlcommenter_context sql s =
     (if \<not> rs_parse_sqlcommenter s then (False, s)
      else if rc_is_set (rs_root s) then (False, s)
      else if cstring_empty sql then (False, s)
      else case find_block_comment (the sql) of
             None \<Rightarrow> (False, s)
           | Some r \<Rightarrow>
               (case extract_traceparent_from_comment (comment_body (the sql) r) (OTEL_TRACEPARENT_LEN + 1) of
                  None \<Rightarrow> (False, s)
                | Some raw \<Rightarrow>
                    (case otel_traceparent_parse (takeWhile (\<lambda>c. c \<noteq> CHR 0x00) raw) of
                       None \<Rightarrow> (False, s)
                     | Some c \<Rightarrow>
                         (True, s\<lparr>rs_root := \<lparr>rc_is_set = True, rc_from_comment = True, rc_ctx = c\<rparr>\<rparr>))))"

section \<open>The comment search stays inside the statement\<close>

lemma memmem2_Some:
  "memmem2 a b s = Some k \<Longrightarrow> Suc k < length s \<and> s ! k = a \<and> s ! Suc k = b"
  by (induction a b s arbitrary: k rule: memmem2.induct) (auto split: if_splits)

lemma memmem2_first: "a \<notin> set t \<Longrightarrow> a \<noteq> b \<Longrightarrow> memmem2 a b (t @ a # b # s) = Some (length t)"
proof (induction t)
  case (Cons c t)
  then show ?case by (cases t) auto
qed simp

lemma scan_back_Some:
  "scan_back sql floor i = Some k \<Longrightarrow> floor < k \<and> k \<le> i \<and> sql ! (k - 1) = CHR ''/'' \<and> sql ! k = CHR ''*''"
  by (induction sql floor i rule: scan_back.induct) (auto split: if_splits)

lemma scan_back_find:
  assumes "floor < k" and "k \<le> i" and "sql ! (k - 1) = CHR ''/''" and "sql ! k = CHR ''*''"
    and "\<And>j. k \<le> j \<Longrightarrow> j < i \<Longrightarrow> sql ! j \<noteq> CHR ''/''"
  shows "scan_back sql floor i = Some k"
  using assms
proof (induction i)
  case (Suc i)
  show ?case
  proof (cases "k = Suc i")
    case True
    with Suc.prems show ?thesis by simp
  next
    case False
    with Suc.prems have "sql ! i \<noteq> CHR ''/''" "floor < Suc i" "k \<le> i" by auto
    with Suc show ?thesis by simp
  qed
qed simp

lemma leading_comment_inside:
  assumes "leading_comment sql = Some r" and "length sql < 2 ^ 64"
  shows "comment_end r + 2 \<le> length sql \<and> fst r \<le> comment_end r"
proof -
  let ?i = "length (takeWhile sql_space sql)"
  from assms(1) obtain k where r: "r = (?i + 2, of_nat k)"
      and k: "memmem2 (CHR ''*'') (CHR ''/'') (drop (?i + 2) sql) = Some k"
    by (auto simp: leading_comment_def Let_def split: if_splits option.splits)
  have "?i + 2 + k + 2 \<le> length sql"
    using memmem2_Some [OF k] by auto
  moreover have "of_nat (?i + 2) + of_nat k = (of_nat (?i + 2 + k) :: u64)"
    by (simp only: of_nat_add)
  then have "comment_end r = ?i + 2 + k"
    using calculation assms(2) by (simp only: r comment_end_def fst_conv snd_conv) (simp only: unat_of_nat, simp)
  ultimately show ?thesis by (simp add: r)
qed

lemma trailing_comment_end:
  assumes "trailing_comment sql = Some r" and "length sql < 2 ^ 64"
  shows "comment_end r + 2 \<le> length sql \<and> fst r \<le> comment_end r + 1"
proof -
  define e where "e = length sql - length (takeWhile (\<lambda>c. sql_space c \<or> c = CHR '';'') (rev sql))"
  from assms(1) obtain i fl where e: "4 \<le> e" and i: "scan_back sql fl (e - 2) = Some i"
      and r: "r = (i + 1, of_nat (e - 2) - of_nat (i + 1))"
    by (auto simp: trailing_comment_def Let_def e_def split: if_splits option.splits)
  have "e \<le> length sql" by (simp add: e_def)
  then have "comment_end r = e - 2"
    using assms(2) e by (simp add: r comment_end_def unat_of_nat del: of_nat_diff)
  then show ?thesis
    using scan_back_Some [OF i] e \<open>e \<le> length sql\<close> by (simp add: r)
qed

lemma find_block_comment_inside:
  assumes "find_block_comment sql = Some r" and "length sql < 2 ^ 64"
  shows "comment_end r + 2 \<le> length sql \<and> fst r \<le> comment_end r + 1"
proof (cases "leading_comment sql")
  case None
  with assms trailing_comment_end [of sql r] show ?thesis by (simp add: find_block_comment_def)
next
  case (Some r')
  with assms leading_comment_inside [of sql r] show ?thesis by (simp add: find_block_comment_def)
qed

section \<open>Extraction of a traceparent\<close>

lemma decode_value_plain:
  "CHR ''%'' \<notin> set v \<Longrightarrow> length v \<le> room \<Longrightarrow> decode_value v room = Some v"
  by (induction v room rule: decode_value.induct) auto

lemma decode_value_length: "decode_value v room = Some w \<Longrightarrow> length w \<le> room"
  by (induction v room arbitrary: w rule: decode_value.induct) (auto split: if_splits option.splits)

lemma extract_length:
  "extract_traceparent_from_comment body outlen = Some w \<Longrightarrow> length w \<le> outlen - 1"
proof (induction body outlen arbitrary: w rule: extract_traceparent_from_comment.induct)
  case (1 body outlen)
  from "1.prems" show ?case
    using "1.IH"(1) [OF refl _ refl refl] "1.IH"(2) [OF refl _ refl refl _ refl _ refl refl]
    by (auto simp: Let_def extract_traceparent_from_comment.simps [of body outlen] split: if_splits
        dest: decode_value_length)
qed

lemma takeWhile_dropWhile_split:
  assumes "\<And>x. x \<in> set t \<Longrightarrow> P x" and "\<not> P y"
  shows "takeWhile P (t @ y # s) = t" and "dropWhile P (t @ y # s) = y # s"
  using assms by (simp_all add: takeWhile_append2 dropWhile_append2)

lemma extract_first_pair:
  assumes "CHR 0x27 \<notin> set v"
  shows "extract_traceparent_from_comment (''traceparent='' @ CHR 0x27 # v @ CHR 0x27 # rest) outlen
       = decode_value v (outlen - 1)"
proof -
  have "takeWhile (\<lambda>c. c \<noteq> CHR 0x27) (v @ CHR 0x27 # rest) = v"
      "dropWhile (\<lambda>c. c \<noteq> CHR 0x27) (v @ CHR 0x27 # rest) = CHR 0x27 # rest"
    using assms by (intro takeWhile_dropWhile_split; auto)+
  then show ?thesis
    by (subst extract_traceparent_from_comment.simps) (simp add: skip_blanks_def after_key_def Let_def)
qed

lemma traceparent_chars: "set (otel_traceparent_format c) \<subseteq> set ''0123456789abcdef-''"
proof -
  define H where "H = set ''0123456789abcdef''"
  have digit: "hexdigit n \<in> H" if "unat n < 16" for n
    unfolding hexdigit_def H_def using that by (intro nth_mem) simp
  have hex: "set (otel_bytes_to_hex bs) \<subseteq> H" for bs
    by (induction bs) (simp_all add: digit nibbles_small)
  have all: "set ''0123456789abcdef-'' = insert (CHR ''-'') H" and zero: "CHR ''0'' \<in> H"
    by (auto simp: H_def)
  show ?thesis
    unfolding all otel_traceparent_format_def set_append
    using hex zero by (simp del: otel_bytes_to_hex.simps) blast
qed

lemma traceparent_clean:
  "CHR 0x27 \<notin> set (otel_traceparent_format c)" "CHR ''%'' \<notin> set (otel_traceparent_format c)"
  "CHR ''*'' \<notin> set (otel_traceparent_format c)" "CHR ''/'' \<notin> set (otel_traceparent_format c)"
  "CHR 0x00 \<notin> set (otel_traceparent_format c)"
  by (rule notI, drule subsetD [OF traceparent_chars], simp)+

definition comment_text :: "span_context \<Rightarrow> string" where
  "comment_text c = ''traceparent='' @ CHR 0x27 # otel_traceparent_format c @ [CHR 0x27]"

lemma comment_text_facts:
  "CHR ''*'' \<notin> set (comment_text c)" "CHR ''/'' \<notin> set (comment_text c)"
  "ctx_sized c \<Longrightarrow> length (comment_text c) = 69"
  using traceparent_clean [of c] by (auto simp: comment_text_def length_traceparent)

lemma extract_comment_text:
  "traceparent_ok c \<Longrightarrow>
     extract_traceparent_from_comment (comment_text c) 56 = Some (otel_traceparent_format c)"
  using extract_first_pair [OF traceparent_clean(1), of c "[]" 56] decode_value_plain [OF traceparent_clean(2), of c 55]
  by (simp add: comment_text_def traceparent_ok_def length_traceparent)

lemma apply_found_comment:
  assumes "rs_parse_sqlcommenter s" and "\<not> rc_is_set (rs_root s)" and "sql \<noteq> []"
    and "find_block_comment sql = Some r" and "comment_body sql r = comment_text c" and "traceparent_ok c"
  shows "otel_try_apply_sqlcommenter_context (Some sql) s =
    (True, s\<lparr>rs_root := \<lparr>rc_is_set = True, rc_from_comment = True, rc_ctx = c\<rparr>\<rparr>)"
proof -
  have raw: "takeWhile (\<lambda>x. x \<noteq> CHR 0x00) (otel_traceparent_format c) = otel_traceparent_format c"
    unfolding takeWhile_eq_all_conv using traceparent_clean(5) [of c] by metis
  show ?thesis
    using assms(1-5) by (simp add: otel_try_apply_sqlcommenter_context_def OTEL_TRACEPARENT_LEN_def
        extract_comment_text [OF assms(6)] traceparent.dec_enc [OF assms(6)] raw)
qed

lemma find_leading:
  assumes "traceparent_ok c"
    and sql_def: "sql = ''/*'' @ comment_text c @ ''*/'' @ post"
  shows "\<exists>r. find_block_comment sql = Some r \<and> comment_body sql r = comment_text c"
proof -
  have len: "length (comment_text c) = 69"
    using assms(1) by (simp add: traceparent_ok_def comment_text_facts)
  have "takeWhile sql_space sql = []" by (simp add: sql_def sql_space_def)
  moreover have "memmem2 (CHR ''*'') (CHR ''/'') (drop 2 sql) = Some 69"
    using memmem2_first [OF comment_text_facts(1), of "CHR ''/''" c post] by (simp add: sql_def len)
  ultimately have "leading_comment sql = Some (2, 69)"
    using len by (simp add: leading_comment_def sql_def)
  then show ?thesis
    using len by (simp add: find_block_comment_def comment_body_def comment_end_def sql_def)
qed

lemma find_trailing:
  assumes ok: "traceparent_ok c" and pre: "pre \<noteq> []" "\<not> sql_space (hd pre)" "hd pre \<noteq> CHR ''/''"
    and small: "length pre < 2 ^ 63"
    and sql_def: "sql = pre @ ''/*'' @ comment_text c @ ''*/''"
  shows "\<exists>r. find_block_comment sql = Some r \<and> comment_body sql r = comment_text c"
proof -
  have len: "length (comment_text c) = 69"
    using ok by (simp add: traceparent_ok_def comment_text_facts)
  let ?k = "length pre + 1"
  have e: "length sql = length pre + 73" by (simp add: sql_def len)
  have "takeWhile sql_space sql = []" and "sql ! 0 \<noteq> CHR ''/''"
    using pre by (cases pre; simp add: sql_def)+
  then have "leading_comment sql = None" by (simp add: leading_comment_def)
  moreover have "takeWhile (\<lambda>c. sql_space c \<or> c = CHR '';'') (rev sql) = []"
    by (simp add: sql_def sql_space_def)
  moreover have ends: "sql ! (length sql - 2) = CHR ''*''" "sql ! (length sql - 1) = CHR ''/''"
    by (simp_all add: sql_def nth_append len nth_Cons')
  moreover have "scan_back sql fl (length sql - 2) = Some ?k" if "fl \<le> length pre" for fl
  proof (rule scan_back_find)
    show "sql ! j \<noteq> CHR ''/''" if "?k \<le> j" "j < length sql - 2" for j
    proof (cases "j = ?k")
      case True
      then show ?thesis by (simp add: sql_def nth_append)
    next
      case False
      with that have "sql ! j = comment_text c ! (j - (length pre + 2))" "j - (length pre + 2) < 69"
        by (auto simp: sql_def nth_append len nth_Cons' e)
      with comment_text_facts(2) [of c] len show ?thesis by (metis nth_mem)
    qed
  qed (use that in \<open>simp_all add: e sql_def nth_append\<close>)
  ultimately have find: "find_block_comment sql = Some (length pre + 2, of_nat (length pre + 71) - of_nat (length pre + 2))"
    unfolding find_block_comment_def trailing_comment_def Let_def
    by (simp add: e OTEL_SQLCOMMENTER_SCAN_BUDGET_def add.commute del: of_nat_add)
  have regain: "x + (y - x) = y" for x y :: u64 by simp
  have "of_nat (length pre + 2) + (of_nat (length pre + 71) - of_nat (length pre + 2)) = (of_nat (length pre + 71) :: u64)"
    by (rule regain)
  then have "comment_end (length pre + 2, of_nat (length pre + 71) - of_nat (length pre + 2)) = length pre + 71"
    using small by (simp only: comment_end_def fst_conv snd_conv) (simp only: unat_of_nat, simp)
  with find show ?thesis
    by (simp add: comment_body_def sql_def len)
qed

section \<open>The root context over a session\<close>

text \<open>
  What the code relies on of \<open>set_config_option\<close>: a value the check hook accepts reaches the
  assign hook, a rejected one changes nothing, NULL assigns the reset value \<open>boot\<close> (itself
  accepted by the check hook), and setting the tracestate changes only the tracestate.
\<close>

definition guc_laws :: "set_config_option \<Rightarrow> string \<Rightarrow> bool" where
  "guc_laws set_config boot \<longleftrightarrow>
     check_traceparent (Some boot) \<and>
     (\<forall>v s. check_traceparent (Some v) \<longrightarrow>
        set_config GUC_TRACEPARENT (Some v) s = assign_traceparent (Some v) s) \<and>
     (\<forall>v s. \<not> check_traceparent (Some v) \<longrightarrow> set_config GUC_TRACEPARENT (Some v) s = s) \<and>
     (\<forall>s. set_config GUC_TRACEPARENT None s = assign_traceparent (Some boot) s) \<and>
     (\<forall>v s. \<exists>t. set_config GUC_TRACESTATE v s = s\<lparr>rs_tracestate_guc := t\<rparr>)"

definition root_wf :: "root_state \<Rightarrow> bool" where
  "root_wf s \<longleftrightarrow>
     (if rc_is_set (rs_root s) then traceparent_ok (rc_ctx (rs_root s)) else rs_root s = root_none)"

inductive root_step :: "set_config_option \<Rightarrow> root_state \<Rightarrow> root_state \<Rightarrow> bool" for set_config where
  user_set: "check_traceparent v \<Longrightarrow> root_step set_config s (assign_traceparent v s)"
| tracestate_set: "root_step set_config s (s\<lparr>rs_tracestate_guc := t\<rparr>)"
| parse_set: "root_step set_config s (s\<lparr>rs_parse_sqlcommenter := b\<rparr>)"
| m_apply: "root_step set_config s (otel_trace_context_apply_cb set_config tp ts s)"
| m_clear: "root_step set_config s (otel_trace_context_clear_cb s)"
| comment: "root_step set_config s (snd (otel_try_apply_sqlcommenter_context sql s))"
| api_reset: "root_step set_config s (api_reset_root_context s)"

inductive root_reachable :: "set_config_option \<Rightarrow> root_state \<Rightarrow> bool" for set_config where
  boot: "root_reachable set_config
     \<lparr>rs_root = root_none, rs_tracestate_guc = t, rs_from_M_header = False, rs_parse_sqlcommenter = b\<rparr>"
| step: "root_reachable set_config s \<Longrightarrow> root_step set_config s s' \<Longrightarrow> root_reachable set_config s'"

lemma root_wf_reset [simp]: "root_wf (otel_root_ctx_reset s)"
  by (simp add: root_wf_def otel_root_ctx_reset_def root_none_def)

lemma assign_wf [simp]: "root_wf (assign_traceparent v s)"
  by (auto simp: assign_traceparent_def Let_def root_wf_def otel_root_ctx_reset_def root_none_def
      dest: parse_sound(1) split: option.split)

lemma assign_frame [simp]:
  "rs_tracestate_guc (assign_traceparent v s) = rs_tracestate_guc s"
  "rs_from_M_header (assign_traceparent v s) = rs_from_M_header s"
  "rs_parse_sqlcommenter (assign_traceparent v s) = rs_parse_sqlcommenter s"
  by (simp_all add: assign_traceparent_def Let_def otel_root_ctx_reset_def split: option.split)

lemma root_wf_frame [simp]:
  "root_wf (s\<lparr>rs_tracestate_guc := t\<rparr>) = root_wf s" "root_wf (s\<lparr>rs_from_M_header := m\<rparr>) = root_wf s"
  "root_wf (s\<lparr>rs_parse_sqlcommenter := b\<rparr>) = root_wf s"
  by (simp_all add: root_wf_def)

lemma assign_accepted:
  "otel_traceparent_parse v = Some c \<Longrightarrow>
     rs_root (assign_traceparent (Some v) s) = \<lparr>rc_is_set = True, rc_from_comment = False, rc_ctx = c\<rparr>"
  by (cases v) (auto simp: assign_traceparent_def otel_root_ctx_reset_def root_none_def
      otel_traceparent_parse_def OTEL_TRACEPARENT_LEN_def)

lemma apply_wf: "guc_laws set_config boot \<Longrightarrow> root_wf s \<Longrightarrow> root_wf (otel_trace_context_apply_cb set_config tp ts s)"
proof -
  assume laws: "guc_laws set_config boot" and s: "root_wf s"
  have tp: "root_wf (set_config GUC_TRACEPARENT v s)" for v
    using laws s unfolding guc_laws_def by (cases v) (simp, metis assign_wf)
  have ts: "root_wf (set_config GUC_TRACESTATE v x) = root_wf x" for v x
    using laws unfolding guc_laws_def by (metis root_wf_frame(1))
  show ?thesis
    by (simp add: otel_trace_context_apply_cb_def Let_def tp ts)
qed

lemma comment_wf: "root_wf s \<Longrightarrow> root_wf (snd (otel_try_apply_sqlcommenter_context sql s))"
  by (auto simp: otel_try_apply_sqlcommenter_context_def root_wf_def dest: parse_sound(1) split: option.splits)

lemma root_step_wf: "root_step set_config s s' \<Longrightarrow> guc_laws set_config boot \<Longrightarrow> root_wf s \<Longrightarrow> root_wf s'"
  by (induction rule: root_step.induct)
    (auto simp: apply_wf comment_wf otel_trace_context_clear_cb_def api_reset_root_context_def)

lemma root_reachable_wf: "root_reachable set_config s \<Longrightarrow> guc_laws set_config boot \<Longrightarrow> root_wf s"
proof (induction rule: root_reachable.induct)
  case (boot t b)
  show ?case by (simp add: root_wf_def root_none_def)
next
  case (step s s')
  then show ?case by (blast intro: root_step_wf)
qed

text \<open>An instance of \<open>set_config_option\<close> that calls the hooks as core does.\<close>

fun plain_set_config :: set_config_option where
  "plain_set_config GUC_TRACEPARENT v s =
     (let w = (case v of None \<Rightarrow> Some [] | Some x \<Rightarrow> Some x)
      in if check_traceparent w then assign_traceparent w s else s)"
| "plain_set_config GUC_TRACESTATE v s =
     s\<lparr>rs_tracestate_guc := (case v of None \<Rightarrow> Some [] | Some x \<Rightarrow> Some x)\<rparr>"

lemma plain_set_config_laws: "guc_laws plain_set_config []"
  by (auto simp: guc_laws_def check_traceparent_def)

definition sample_traceparent :: string where
  "sample_traceparent = ''00-0af7651916cd43dd8448eb211c80319c-b7ad6b7169203331-01''"

definition fresh_root :: root_state where
  "fresh_root = \<lparr>rs_root = root_none, rs_tracestate_guc = None, rs_from_M_header = False, rs_parse_sqlcommenter = True\<rparr>"

lemma sample_parses: "otel_traceparent_parse sample_traceparent \<noteq> None"
  by code_simp

section \<open>Properties\<close>

text \<open>C28: In every state a session can reach through SET, the 'M' message, sqlcommenter, the
  ReadyForQuery boundary and resets, the root context is either unset and zeroed or a
  valid span context without tracestate, and \<open>otel_current_traceparent\<close> returns a text that
  parses back to it.\<close>

theorem root_context_well_formed:
  assumes "guc_laws set_config boot" and "root_reachable set_config s"
  shows "(if rc_is_set (rs_root s)
          then otel_span_context_is_valid (rc_ctx (rs_root s)) \<and> ctx_sized (rc_ctx (rs_root s)) \<and>
               (\<exists>t. otel_current_traceparent s = Some t \<and> otel_traceparent_parse t = Some (rc_ctx (rs_root s)))
          else rs_root s = root_none \<and> otel_current_traceparent s = None)"
  using root_reachable_wf [OF assms(2,1)] traceparent.dec_enc [of "rc_ctx (rs_root s)"]
  by (auto simp: root_wf_def traceparent_ok_def otel_current_traceparent_def)

theorem root_context_well_formed_witness:
  "\<exists>t. otel_current_traceparent (otel_trace_context_apply_cb plain_set_config sample_traceparent [] fresh_root) = Some t"
proof -
  let ?s = "otel_trace_context_apply_cb plain_set_config sample_traceparent [] fresh_root"
  have "root_reachable plain_set_config fresh_root"
    unfolding fresh_root_def by (rule root_reachable.boot)
  then have reach: "root_reachable plain_set_config ?s"
    by (rule root_reachable.step) (rule root_step.m_apply)
  have "rc_is_set (rs_root ?s)"
    by code_simp
  with root_context_well_formed [OF plain_set_config_laws reach] show ?thesis by auto
qed

text \<open>An 'M' message with a valid traceparent installs exactly that context, whatever was
  active, and the next ReadyForQuery boundary removes it again.\<close>

theorem m_header_scope:
  assumes "guc_laws set_config boot" and "otel_traceparent_parse tp = Some c"
  shows "rs_root (otel_trace_context_apply_cb set_config tp ts s)
           = \<lparr>rc_is_set = True, rc_from_comment = False, rc_ctx = c\<rparr> \<and>
         rs_root (otel_trace_context_clear_cb (otel_trace_context_apply_cb set_config tp ts s)) = root_none"
proof -
  have tp: "tp \<noteq> []"
    using assms(2) by (auto simp: otel_traceparent_parse_def OTEL_TRACEPARENT_LEN_def)
  have "set_config GUC_TRACEPARENT (Some tp) s = assign_traceparent (Some tp) s"
    using assms unfolding guc_laws_def check_traceparent_def by auto
  moreover have "rs_root (set_config GUC_TRACESTATE v x) = rs_root x" for v x
    using assms(1) unfolding guc_laws_def by (metis root_state.select_convs(1) root_state.surjective root_state.update_convs(2))
  ultimately show ?thesis
    using tp assign_accepted [OF assms(2)]
    by (simp add: otel_trace_context_apply_cb_def otel_trace_context_clear_cb_def otel_root_ctx_reset_def Let_def)
qed

theorem m_header_scope_witness:
  "rs_root (otel_trace_context_clear_cb
     (otel_trace_context_apply_cb plain_set_config sample_traceparent ''k=v'' fresh_root)) = root_none"
  using m_header_scope [OF plain_set_config_laws] sample_parses by blast

text \<open>A malformed 'M' message after a SET: the SET context survives the message but is
  then taken for an M-installed one, and the next ReadyForQuery boundary wipes it,
  although the GUC still holds it.\<close>

theorem malformed_m_header_claims_set_context:
  assumes "guc_laws set_config boot" and "bad \<noteq> []" and "\<not> check_traceparent (Some bad)"
    and "otel_traceparent_parse tp = Some c"
    and s1_def: "s1 = assign_traceparent (Some tp) s"
  shows "rc_ctx (rs_root (otel_trace_context_apply_cb set_config bad ts s1)) = c \<and>
         rs_root (otel_trace_context_clear_cb (otel_trace_context_apply_cb set_config bad ts s1)) = root_none"
proof -
  have "set_config GUC_TRACEPARENT (Some bad) s1 = s1"
    using assms(1,3) unfolding guc_laws_def by blast
  moreover have "rs_root (set_config GUC_TRACESTATE v x) = rs_root x" for v x
    using assms(1) unfolding guc_laws_def by (metis root_state.select_convs(1) root_state.surjective root_state.update_convs(2))
  ultimately show ?thesis
    using assms(2) assign_accepted [OF assms(4)]
    by (simp add: otel_trace_context_apply_cb_def otel_trace_context_clear_cb_def otel_root_ctx_reset_def
        Let_def s1_def)
qed

theorem malformed_m_header_claims_set_context_witness:
  "rs_root (otel_trace_context_clear_cb (otel_trace_context_apply_cb plain_set_config ''zz'' []
     (assign_traceparent (Some sample_traceparent) fresh_root))) = root_none"
proof -
  have "\<not> check_traceparent (Some ''zz'')" by code_simp
  with malformed_m_header_claims_set_context [OF plain_set_config_laws] sample_parses
  show ?thesis by blast
qed

text \<open>C29: A traceparent written as a sqlcommenter comment, at the start of a statement with
  any text after it or at the end of one with any text before it (not opening with a
  space or a slash), is found and installed for the statement; with another root context
  active nothing happens.\<close>

theorem sqlcommenter_roundtrip:
  assumes "rs_parse_sqlcommenter s" and "traceparent_ok c"
    and "sql = ''/*'' @ comment_text c @ ''*/'' @ post \<or>
         (sql = pre @ ''/*'' @ comment_text c @ ''*/'' \<and> pre \<noteq> [] \<and> \<not> sql_space (hd pre) \<and>
          hd pre \<noteq> CHR ''/'' \<and> length pre < 2 ^ 63)"
  shows "otel_try_apply_sqlcommenter_context (Some sql) s =
    (if rc_is_set (rs_root s) then (False, s)
     else (True, s\<lparr>rs_root := \<lparr>rc_is_set = True, rc_from_comment = True, rc_ctx = c\<rparr>\<rparr>))"
proof (cases "rc_is_set (rs_root s)")
  case True
  then show ?thesis by (simp add: otel_try_apply_sqlcommenter_context_def)
next
  case False
  obtain r where "find_block_comment sql = Some r" "comment_body sql r = comment_text c"
    using assms(3) find_leading [OF assms(2)] find_trailing [OF assms(2)] by metis
  with False assms apply_found_comment [of s sql r c] show ?thesis by auto
qed

theorem sqlcommenter_roundtrip_witness:
  "\<exists>c. otel_traceparent_parse sample_traceparent = Some c \<and>
     fst (otel_try_apply_sqlcommenter_context (Some (''SELECT 1 /*'' @ comment_text c @ ''*/'')) fresh_root)"
proof -
  from sample_parses obtain c where c: "otel_traceparent_parse sample_traceparent = Some c" by blast
  have "rs_parse_sqlcommenter fresh_root" "\<not> rc_is_set (rs_root fresh_root)"
    by (simp_all add: fresh_root_def root_none_def)
  then show ?thesis
    using sqlcommenter_roundtrip [of fresh_root c "''SELECT 1 /*'' @ comment_text c @ ''*/''" "[]" "''SELECT 1 ''"]
      parse_sound(1) [OF c] c by (auto simp: sql_space_def)
qed

text \<open>The comment search never leads the extraction outside the statement: the byte after
  the comment body, where the pointer walk stops, lies two bytes before the end of the
  text or earlier, also when the body length has wrapped below zero; and the decoded
  value never overflows the 56-byte buffer.\<close>

theorem sqlcommenter_stays_inside:
  assumes "find_block_comment sql = Some r" and "length sql < 2 ^ 64"
  shows "comment_end r + 2 \<le> length sql \<and>
     (\<forall>raw. extract_traceparent_from_comment (comment_body sql r) (OTEL_TRACEPARENT_LEN + 1) = Some raw
        \<longrightarrow> length raw \<le> OTEL_TRACEPARENT_LEN)"
  using find_block_comment_inside [OF assms] extract_length [of _ "OTEL_TRACEPARENT_LEN + 1"] by auto

theorem sqlcommenter_stays_inside_witness:
  "comment_end (12, of_nat 10 - of_nat 11) + 2 \<le> length ''SELECT 1  /*/''"
proof -
  have "find_block_comment ''SELECT 1  /*/'' = Some (12, of_nat 11 - of_nat 12)"
    by code_simp
  from sqlcommenter_stays_inside [OF this] show ?thesis by (simp add: comment_end_def)
qed

text \<open>A statement ending in \<open>/*/\<close> is taken for one ending in a comment whose body is
  minus one bytes long: the body length returned is the largest \<open>size_t\<close>.\<close>

theorem comment_length_underflow:
  "find_block_comment ''SELECT 1 /*/'' = Some (11, - 1)"
  by code_simp

end
