(* ===== verification/Resource.thy ===== *)
theory Resource
  imports Otel_Types
begin

text \<open>
  \<open>otel_api/otel_resource.c\<close>: the process Resource, its initialisation from GUCs, environment
  variables and pg_control, and \<open>otel_resource_attr_add\<close>.  The attribute array is the list
  of its used prefix.  \<open>getenv\<close>, \<open>gethostname\<close> and the system identifier are parameters.
  C strings end at the first NUL, so a decoded value is cut there (\<open>c_string\<close>).
\<close>

section \<open>The attribute array\<close>

type_synonym resource_attrs = "(string \<times> string) list"

definition OTEL_RESOURCE_ATTR_CAPACITY :: nat where
  "OTEL_RESOURCE_ATTR_CAPACITY = 16"

definition push_resource_attr :: "string \<Rightarrow> string \<Rightarrow> resource_attrs \<Rightarrow> resource_attrs" where
  "push_resource_attr key value attrs = attrs @ [(key, value)]"

text \<open>The search loop: the position of the first entry with a key.\<close>

fun attr_position :: "string \<Rightarrow> resource_attrs \<Rightarrow> nat option" where
  "attr_position key [] = None"
| "attr_position key ((k, v) # attrs) =
     (if k = key then Some 0 else map_option Suc (attr_position key attrs))"

definition otel_resource_attr_add :: "string option \<Rightarrow> string option \<Rightarrow> resource_attrs \<Rightarrow> resource_attrs" where
  "otel_resource_attr_add key value attrs =
     (if cstring_empty key then attrs
      else let v = (case value of None \<Rightarrow> [] | Some v \<Rightarrow> v) in
           case attr_position (the key) attrs of
             Some i \<Rightarrow> attrs[i := (fst (attrs ! i), v)]
           | None \<Rightarrow>
               if length attrs \<ge> OTEL_RESOURCE_ATTR_CAPACITY then attrs
               else attrs @ [(the key, v)])"

definition otel_resource_attrs_get :: "resource_attrs \<Rightarrow> resource_attrs \<times> nat" where
  "otel_resource_attrs_get attrs = (attrs, length attrs)"

section \<open>OTEL_RESOURCE_ATTRIBUTES\<close>

definition OTEL_RA_ENV_MAX_PAIRS :: nat where
  "OTEL_RA_ENV_MAX_PAIRS = 32"

record ra_pair =
  ra_key :: string
  ra_val :: string
  ra_consumed :: bool

definition c_string :: "string \<Rightarrow> string" where
  "c_string s = takeWhile (\<lambda>c. c \<noteq> CHR 0x00) s"

definition xdigit_val :: "char \<Rightarrow> nat option" where
  "xdigit_val c =
     (let n = of_char c :: nat in
      if 48 \<le> n \<and> n \<le> 57 then Some (n - 48)
      else if 97 \<le> n \<and> n \<le> 102 then Some (n - 97 + 10)
      else if 65 \<le> n \<and> n \<le> 70 then Some (n - 65 + 10)
      else None)"

fun pct_decode_inplace :: "string \<Rightarrow> string" where
  "pct_decode_inplace [] = []"
| "pct_decode_inplace (c # h # l # s) =
     (if c = CHR ''%''
      then (case (xdigit_val h, xdigit_val l) of
              (Some hi, Some lo) \<Rightarrow> char_of (hi * 16 + lo) # pct_decode_inplace s
            | _ \<Rightarrow> c # pct_decode_inplace (h # l # s))
      else c # pct_decode_inplace (h # l # s))"
| "pct_decode_inplace (c # s) = c # pct_decode_inplace s"

definition c_isspace :: "char \<Rightarrow> bool" where
  "c_isspace c \<longleftrightarrow> (let n = of_char c :: nat in n = 32 \<or> 9 \<le> n \<and> n \<le> 13)"

definition trim_ws :: "string \<Rightarrow> string" where
  "trim_ws s = rev (dropWhile c_isspace (rev (dropWhile c_isspace s)))"

text \<open>One segment between commas: its pair, or nothing when it is malformed or has no key.\<close>

definition segment_pair :: "string \<Rightarrow> ra_pair option" where
  "segment_pair seg =
     (if CHR ''='' \<notin> set seg then None
      else let key = trim_ws (takeWhile (\<lambda>c. c \<noteq> CHR ''='') seg);
               val = c_string (pct_decode_inplace (trim_ws (tl (dropWhile (\<lambda>c. c \<noteq> CHR ''='') seg))))
           in if key \<noteq> [] then Some \<lparr>ra_key = key, ra_val = val, ra_consumed = False\<rparr> else None)"

function parse_segments :: "string \<Rightarrow> nat \<Rightarrow> ra_pair list" where
  "parse_segments p max_pairs =
     (if p = [] \<or> max_pairs = 0 then []
      else let next_p = tl (dropWhile (\<lambda>c. c \<noteq> CHR '','') p) in
           case segment_pair (takeWhile (\<lambda>c. c \<noteq> CHR '','') p) of
             None \<Rightarrow> parse_segments next_p max_pairs
           | Some pr \<Rightarrow> pr # parse_segments next_p (max_pairs - 1))"
  by auto

lemma next_segment_less: "p \<noteq> [] \<Longrightarrow> length (tl (dropWhile P p)) < length p"
  using length_dropWhile_le [of P p] by (cases p) (auto simp: less_Suc_eq_le)

termination parse_segments
  by (relation "measure (\<lambda>(p, n). length p)") (auto simp del: length_tl intro: next_segment_less)

declare parse_segments.simps [simp del]

definition parse_otel_resource_attributes :: "string option \<Rightarrow> nat \<Rightarrow> ra_pair list" where
  "parse_otel_resource_attributes raw max_pairs =
     (if cstring_empty raw then [] else parse_segments (the raw) max_pairs)"

fun consume_ra_pair :: "ra_pair list \<Rightarrow> string \<Rightarrow> string option \<times> ra_pair list" where
  "consume_ra_pair [] key = (None, [])"
| "consume_ra_pair (p # ps) key =
     (if \<not> ra_consumed p \<and> ra_key p = key \<and> ra_val p \<noteq> []
      then (Some (ra_val p), p\<lparr>ra_consumed := True\<rparr> # ps)
      else (let (r, qs) = consume_ra_pair ps key in (r, p # qs)))"

section \<open>Initialisation\<close>

fun decimal :: "nat \<Rightarrow> string" where
  "decimal n = (if n < 10 then [char_of (48 + n)] else decimal (n div 10) @ [char_of (48 + n mod 10)])"

declare decimal.simps [simp del]

text \<open>The precedence chain both service keys share: GUC, environment variable, pair.\<close>

definition resolve_service ::
    "string option \<Rightarrow> string option \<Rightarrow> string \<Rightarrow> ra_pair list \<Rightarrow> string option \<times> ra_pair list" where
  "resolve_service guc env key pairs =
     (if \<not> cstring_empty guc then (guc, pairs)
      else if \<not> cstring_empty env then (env, pairs)
      else consume_ra_pair pairs key)"

definition push_remaining_pair :: "ra_pair \<Rightarrow> resource_attrs \<Rightarrow> resource_attrs" where
  "push_remaining_pair p attrs =
     (if ra_consumed p \<or> ra_key p = [] then attrs
      else if attr_position (ra_key p) attrs \<noteq> None then attrs
      else if length attrs \<ge> OTEL_RESOURCE_ATTR_CAPACITY then attrs
      else push_resource_attr (ra_key p) (ra_val p) attrs)"

definition otel_resource_init ::
    "(string \<Rightarrow> string option) \<Rightarrow> string option \<Rightarrow> string option \<Rightarrow> string option \<Rightarrow> u64
       \<Rightarrow> resource_attrs \<Rightarrow> resource_attrs" where
  "otel_resource_init getenv service_name_guc instance_id_guc hostname sysid attrs =
     (let pairs = parse_otel_resource_attributes (getenv ''OTEL_RESOURCE_ATTRIBUTES'') OTEL_RA_ENV_MAX_PAIRS;
          (service_name, pairs1) =
             resolve_service service_name_guc (getenv ''OTEL_SERVICE_NAME'') ''service.name'' pairs;
          attrs1 = push_resource_attr ''service.name''
             (case service_name of Some n \<Rightarrow> n | None \<Rightarrow> ''postgres'') attrs;
          (instance_id, pairs2) =
             resolve_service instance_id_guc (getenv ''OTEL_SERVICE_INSTANCE_ID'') ''service.instance.id'' pairs1;
          attrs2 = push_resource_attr ''service.instance.id''
             (case instance_id of Some i \<Rightarrow> i | None \<Rightarrow> decimal (unat sysid)) attrs1;
          attrs3 = push_resource_attr ''host.name''
             (case hostname of Some h \<Rightarrow> take 255 h | None \<Rightarrow> ''localhost'') attrs2
      in fold push_remaining_pair pairs2 attrs3)"

definition otel_tracer_register ::
    "string option \<Rightarrow> string option \<Rightarrow> string option \<Rightarrow> instrumentation_scope option" where
  "otel_tracer_register name version schema_url =
     (if cstring_empty name then None
      else Some \<lparr>sc_name = the name, sc_version = version, sc_schema_url = schema_url\<rparr>)"

section \<open>The array as a bounded map\<close>

definition resource_wf :: "resource_attrs \<Rightarrow> bool" where
  "resource_wf attrs \<longleftrightarrow> distinct (map fst attrs) \<and> length attrs \<le> OTEL_RESOURCE_ATTR_CAPACITY"

lemma attr_position_None: "attr_position k attrs = None \<longleftrightarrow> k \<notin> fst ` set attrs"
  by (induction k attrs rule: attr_position.induct) auto

lemma attr_position_Some:
  "attr_position k attrs = Some i \<Longrightarrow> i < length attrs \<and> fst (attrs ! i) = k"
  by (induction k attrs arbitrary: i rule: attr_position.induct) (auto split: if_splits)

lemma map_of_update_at:
  assumes "distinct (map fst attrs)" and "i < length attrs"
  shows "map_of (attrs[i := (fst (attrs ! i), v)]) = (map_of attrs)(fst (attrs ! i) \<mapsto> v)"
  using assms
proof (induction attrs arbitrary: i)
  case Nil
  then show ?case by simp
next
  case (Cons a attrs)
  show ?case
  proof (cases i)
    case 0
    then show ?thesis by (cases a) (auto simp: fun_eq_iff)
  next
    case (Suc j)
    with Cons.prems have "fst a \<noteq> fst (attrs ! j)" "j < length attrs" "distinct (map fst attrs)"
      by (auto simp: image_iff)
    then show ?thesis
      using Cons.IH [of j] Suc by (cases a) (auto simp: fun_eq_iff)
  qed
qed

lemma map_fst_update_at: "map fst (attrs[i := (fst (attrs ! i), v)]) = map fst attrs"
proof (rule nth_equalityI)
  fix j assume "j < length (map fst (attrs[i := (fst (attrs ! i), v)]))"
  then show "map fst (attrs[i := (fst (attrs ! i), v)]) ! j = map fst attrs ! j"
    by (cases "j = i") simp_all
qed simp

lemma attr_add_wf: "resource_wf attrs \<Longrightarrow> resource_wf (otel_resource_attr_add k v attrs)"
  by (auto simp: otel_resource_attr_add_def resource_wf_def Let_def map_fst_update_at attr_position_None
      split: option.split)

lemma attr_add_map:
  assumes "resource_wf attrs" and "k \<noteq> []"
  shows "map_of (otel_resource_attr_add (Some k) v attrs) =
    (if k \<in> fst ` set attrs \<or> length attrs < OTEL_RESOURCE_ATTR_CAPACITY
     then (map_of attrs)(k \<mapsto> (case v of None \<Rightarrow> [] | Some w \<Rightarrow> w))
     else map_of attrs)"
proof (cases "attr_position k attrs")
  case None
  then have k: "k \<notin> fst ` set attrs" by (simp add: attr_position_None)
  then have "map_of attrs k = None" by (simp add: map_of_eq_None_iff)
  then show ?thesis
    using None k assms(2)
    by (auto simp: otel_resource_attr_add_def Let_def map_add_def fun_eq_iff split: option.split)
next
  case (Some i)
  then have i: "i < length attrs" "fst (attrs ! i) = k" by (simp_all add: attr_position_Some)
  then have "k \<in> fst ` set attrs" by force
  then show ?thesis
    using Some i assms map_of_update_at [of attrs i]
    by (simp add: otel_resource_attr_add_def Let_def resource_wf_def)
qed

lemma push_remaining_wf: "resource_wf attrs \<Longrightarrow> resource_wf (push_remaining_pair p attrs)"
  by (auto simp: push_remaining_pair_def push_resource_attr_def resource_wf_def attr_position_None)

lemma push_remaining_keeps: "map_of attrs k = Some v \<Longrightarrow> map_of (push_remaining_pair p attrs) k = Some v"
  by (auto simp: push_remaining_pair_def push_resource_attr_def map_add_def split: option.splits)

lemma fold_push_wf: "resource_wf attrs \<Longrightarrow> resource_wf (fold push_remaining_pair ps attrs)"
  by (induction ps arbitrary: attrs) (auto simp: push_remaining_wf)

lemma fold_push_keeps:
  "map_of attrs k = Some v \<Longrightarrow> map_of (fold push_remaining_pair ps attrs) k = Some v"
  by (induction ps arbitrary: attrs) (auto simp: push_remaining_keeps)

lemma consume_None: "fst (consume_ra_pair ps key) = None \<Longrightarrow>
    \<forall>p\<in>set ps. \<not> ra_consumed p \<longrightarrow> ra_key p = key \<longrightarrow> ra_val p = []"
  by (induction ps) (auto split: if_splits prod.splits)

lemma consume_Some:
  "fst (consume_ra_pair ps key) = Some v \<Longrightarrow>
     v \<noteq> [] \<and> (\<exists>p\<in>set ps. \<not> ra_consumed p \<and> ra_key p = key \<and> ra_val p = v)"
  by (induction ps) (auto split: if_splits prod.splits)

lemma consume_keys: "map ra_key (snd (consume_ra_pair ps key)) = map ra_key ps"
  by (induction ps) (auto split: prod.splits)

text \<open>Percent-encoding every byte, which the decoder undoes.\<close>

definition pct_encode_char :: "char \<Rightarrow> string" where
  "pct_encode_char c =
     [CHR ''%'', ''0123456789ABCDEF'' ! (of_char c div 16), ''0123456789ABCDEF'' ! (of_char c mod 16)]"

lemma xdigit_table: "\<forall>k\<in>set [0..<16]. xdigit_val (''0123456789ABCDEF'' ! k) = Some k"
  by (simp add: upt_rec xdigit_val_def)

lemma xdigit_upper: "k < 16 \<Longrightarrow> xdigit_val (''0123456789ABCDEF'' ! k) = Some k"
  using xdigit_table by (metis atLeastLessThan_iff le0 set_upt)

lemma pct_decode_encoded: "pct_decode_inplace (concat (map pct_encode_char s)) = s"
proof (induction s)
  case (Cons c s)
  have "(of_char c :: nat) < 256" by (rule nat_of_char_less_256)
  then have "of_char c div 16 < (16 :: nat)" "of_char c mod 16 < (16 :: nat)"
    by (simp_all add: div_less_iff_less_mult)
  then show ?case
    using Cons by (simp add: pct_encode_char_def xdigit_upper)
qed simp

section \<open>Properties\<close>

text \<open>C30: \<open>otel_resource_attr_add\<close> is insertion into a bounded map, last write wins: it sets
  exactly the given key (to the empty string for NULL), leaves every other key alone,
  does nothing when a new key would exceed the capacity of 16, and keeps the keys distinct.\<close>

theorem resource_add_last_write_wins:
  assumes "resource_wf attrs" and "k \<noteq> []"
  shows "resource_wf (otel_resource_attr_add (Some k) v attrs) \<and>
    map_of (otel_resource_attr_add (Some k) v attrs) =
      (if k \<in> fst ` set attrs \<or> length attrs < 16
       then (map_of attrs)(k \<mapsto> (case v of None \<Rightarrow> [] | Some w \<Rightarrow> w)) else map_of attrs)"
  using attr_add_wf [OF assms(1)] attr_add_map [OF assms, of v]
  by (simp add: OTEL_RESOURCE_ATTR_CAPACITY_def)

theorem resource_add_last_write_wins_witness:
  "map_of (otel_resource_attr_add (Some ''a'') (Some ''2'') [(''b'', ''0''), (''a'', ''1'')]) ''a'' = Some ''2''"
proof -
  have "resource_wf [(''b'', ''0''), (''a'', ''1'')]"
    by (simp add: resource_wf_def OTEL_RESOURCE_ATTR_CAPACITY_def)
  from resource_add_last_write_wins [OF this, of "''a''" "Some ''2''"] show ?thesis by simp
qed

text \<open>Initialisation produces at most 16 attributes with distinct keys, and service.name
  follows its precedence: a non-empty GUC, else a non-empty environment variable, else
  the first non-empty service.name pair of OTEL_RESOURCE_ATTRIBUTES, else "postgres"; no
  later pair can override it.\<close>

theorem resource_init_precedence:
  "let attrs = otel_resource_init getenv sguc iguc host sysid [];
       env = getenv ''OTEL_SERVICE_NAME'';
       pairs = parse_otel_resource_attributes (getenv ''OTEL_RESOURCE_ATTRIBUTES'') 32
   in resource_wf attrs \<and>
      map_of attrs ''service.name'' =
        (if \<not> cstring_empty sguc then sguc
         else if \<not> cstring_empty env then env
         else (case fst (consume_ra_pair pairs ''service.name'') of
                 Some v \<Rightarrow> Some v | None \<Rightarrow> Some ''postgres''))"
proof -
  let ?pairs = "parse_otel_resource_attributes (getenv ''OTEL_RESOURCE_ATTRIBUTES'') 32"
  let ?sn = "resolve_service sguc (getenv ''OTEL_SERVICE_NAME'') ''service.name'' ?pairs"
  let ?v = "case fst ?sn of Some n \<Rightarrow> n | None \<Rightarrow> ''postgres''"
  obtain pairs1 i0 pairs2 where "snd ?sn = pairs1"
      and "resolve_service iguc (getenv ''OTEL_SERVICE_INSTANCE_ID'') ''service.instance.id'' pairs1 = (i0, pairs2)"
    by (metis surj_pair)
  then obtain i h ps where init: "otel_resource_init getenv sguc iguc host sysid [] =
      fold push_remaining_pair ps [(''service.name'', ?v), (''service.instance.id'', i), (''host.name'', h)]"
    by (cases ?sn) (simp add: otel_resource_init_def Let_def push_resource_attr_def OTEL_RA_ENV_MAX_PAIRS_def)
  have "resource_wf (otel_resource_init getenv sguc iguc host sysid [])"
    unfolding init by (rule fold_push_wf) (simp add: resource_wf_def OTEL_RESOURCE_ATTR_CAPACITY_def)
  moreover have "map_of (otel_resource_init getenv sguc iguc host sysid []) ''service.name'' = Some ?v"
    unfolding init by (rule fold_push_keeps) simp
  moreover have "Some ?v = (if \<not> cstring_empty sguc then sguc
         else if \<not> cstring_empty (getenv ''OTEL_SERVICE_NAME'') then getenv ''OTEL_SERVICE_NAME''
         else (case fst (consume_ra_pair ?pairs ''service.name'') of
                 Some v \<Rightarrow> Some v | None \<Rightarrow> Some ''postgres''))"
    by (auto simp: resolve_service_def split: option.splits)
  ultimately show ?thesis unfolding Let_def by simp
qed

text \<open>A value of OTEL_RESOURCE_ATTRIBUTES percent-encoded byte by byte decodes to itself,
  whatever characters it holds.\<close>

theorem pct_decode_roundtrip:
  "pct_decode_inplace (concat (map pct_encode_char s)) = s"
  by (rule pct_decode_encoded)

end
