(* ===== verification/Parallel.thy ===== *)
theory Parallel
  imports Otel_Types
begin

text \<open>
  \<open>otel_api/otel_parallel.c\<close>: the shared array of leader contexts, one slot per backend.
  Every access holds the slot's spinlock, so an operation is one atomic step on the array;
  processes interleave as a sequence of such steps.  Allocation of the array is a step of
  its own (\<open>otel_parallel_shmem_startup\<close>); before it the pointer is NULL (\<open>None\<close>).
\<close>

record parallel_slot =
  ps_set :: bool
  ps_trace_id :: trace_id
  ps_span_id :: span_id
  ps_trace_flags :: u8

definition zero_parallel_slot :: parallel_slot where
  "zero_parallel_slot =
     \<lparr>ps_set = False, ps_trace_id = zero_trace_id, ps_span_id = zero_span_id, ps_trace_flags = 0\<rparr>"

type_synonym parallel_slots = "parallel_slot list option"

text \<open>\<open>found\<close> is the array another process initialised before, if any.\<close>

definition otel_parallel_shmem_startup :: "nat \<Rightarrow> parallel_slots \<Rightarrow> parallel_slots" where
  "otel_parallel_shmem_startup max_backends found =
     (case found of
        Some a \<Rightarrow> Some a
      | None \<Rightarrow> Some (replicate max_backends zero_parallel_slot))"

definition otel_parallel_publish_leader_context ::
    "int \<Rightarrow> span_context option \<Rightarrow> parallel_slots \<Rightarrow> parallel_slots" where
  "otel_parallel_publish_leader_context my_proc ctx slots =
     (case slots of
        None \<Rightarrow> None
      | Some a \<Rightarrow>
          if my_proc < 0 \<or> my_proc \<ge> int (length a) then Some a
          else let i = nat my_proc in
               (case ctx of
                  Some c \<Rightarrow>
                    if \<not> otel_span_context_is_valid c then Some (a[i := (a ! i)\<lparr>ps_set := False\<rparr>])
                    else Some (a[i := (a ! i)\<lparr>ps_trace_id := trace_id c, ps_span_id := span_id c,
                                             ps_trace_flags := trace_flags c, ps_set := True\<rparr>])
                | None \<Rightarrow> Some (a[i := (a ! i)\<lparr>ps_set := False\<rparr>])))"

definition otel_parallel_clear_leader_context :: "int \<Rightarrow> parallel_slots \<Rightarrow> parallel_slots" where
  "otel_parallel_clear_leader_context my_proc slots = otel_parallel_publish_leader_context my_proc None slots"

definition otel_parallel_proc_exit_cb :: "int \<Rightarrow> parallel_slots \<Rightarrow> parallel_slots" where
  "otel_parallel_proc_exit_cb my_proc slots = otel_parallel_clear_leader_context my_proc slots"

definition INVALID_PROC_NUMBER :: int where
  "INVALID_PROC_NUMBER = -1"

text \<open>The reader's result: the context when the C function returns true.\<close>

definition otel_parallel_get_leader_context :: "int \<Rightarrow> parallel_slots \<Rightarrow> span_context option" where
  "otel_parallel_get_leader_context leader slots =
     (case slots of
        None \<Rightarrow> None
      | Some a \<Rightarrow>
          if leader = INVALID_PROC_NUMBER then None
          else if leader < 0 \<or> leader \<ge> int (length a) then None
          else let slot = a ! nat leader;
                   out = (if ps_set slot
                          then \<lparr>trace_id = ps_trace_id slot, span_id = ps_span_id slot,
                                trace_flags = ps_trace_flags slot, tracestate = None\<rparr>
                          else zero_ctx)
               in if otel_span_context_is_valid out then Some out else None)"

section \<open>Interleaved backends\<close>

datatype parallel_event = Publish int "span_context option" | Clear int | Exit int

definition event_backend :: "parallel_event \<Rightarrow> int" where
  "event_backend e = (case e of Publish p c \<Rightarrow> p | Clear p \<Rightarrow> p | Exit p \<Rightarrow> p)"

definition parallel_event_step :: "parallel_event \<Rightarrow> parallel_slots \<Rightarrow> parallel_slots" where
  "parallel_event_step e slots =
     (case e of
        Publish p c \<Rightarrow> otel_parallel_publish_leader_context p c slots
      | Clear p \<Rightarrow> otel_parallel_clear_leader_context p slots
      | Exit p \<Rightarrow> otel_parallel_proc_exit_cb p slots)"

text \<open>What a backend last offered: the valid context it published, if it did not clear since.\<close>

definition offered :: "parallel_event \<Rightarrow> span_context option" where
  "offered e =
     (case e of
        Publish p (Some c) \<Rightarrow> if otel_span_context_is_valid c then Some (c\<lparr>tracestate := None\<rparr>) else None
      | _ \<Rightarrow> None)"

fun last_offer :: "int \<Rightarrow> parallel_event list \<Rightarrow> span_context option" where
  "last_offer p [] = None"
| "last_offer p (e # es) =
     (if \<exists>e'\<in>set es. event_backend e' = p then last_offer p es
      else if event_backend e = p then offered e else None)"

lemma zero_ctx_invalid [simp]: "\<not> otel_span_context_is_valid zero_ctx"
  by (simp add: otel_span_context_is_valid_def zero_ctx_def zero_trace_id_def trace_id_valid_iff)

lemma ctx_valid_tracestate:
  "otel_span_context_is_valid (c\<lparr>tracestate := t\<rparr>) = otel_span_context_is_valid c"
  by (simp add: otel_span_context_is_valid_def)

lemma publish_get_same:
  assumes "0 \<le> p" "p < int (length a)"
  shows "otel_parallel_get_leader_context p (otel_parallel_publish_leader_context p c (Some a)) =
    (case c of Some x \<Rightarrow> if otel_span_context_is_valid x then Some (x\<lparr>tracestate := None\<rparr>) else None | None \<Rightarrow> None)"
proof (cases "\<exists>x. c = Some x \<and> otel_span_context_is_valid x")
  case True
  then obtain x where x: "c = Some x" "otel_span_context_is_valid x" by blast
  have "x\<lparr>tracestate := None\<rparr> = \<lparr>trace_id = trace_id x, span_id = span_id x, trace_flags = trace_flags x, tracestate = None\<rparr>"
    by simp
  with x ctx_valid_tracestate [of None x] assms show ?thesis
    by (simp add: otel_parallel_get_leader_context_def otel_parallel_publish_leader_context_def Let_def
        INVALID_PROC_NUMBER_def)
next
  case False
  then show ?thesis
    using assms by (auto simp: otel_parallel_get_leader_context_def otel_parallel_publish_leader_context_def
        Let_def INVALID_PROC_NUMBER_def split: option.split)
qed

lemma publish_get_other:
  assumes "p \<noteq> q"
  shows "otel_parallel_get_leader_context q (otel_parallel_publish_leader_context p c (Some a)) =
     otel_parallel_get_leader_context q (Some a)"
proof (cases "p < 0 \<or> int (length a) \<le> p \<or> q < 0")
  case True
  then show ?thesis
    by (auto simp: otel_parallel_get_leader_context_def otel_parallel_publish_leader_context_def Let_def
        split: option.split)
next
  case False
  with assms have "nat p \<noteq> nat q" by auto
  with False show ?thesis
    by (cases c) (simp_all add: otel_parallel_get_leader_context_def otel_parallel_publish_leader_context_def
        Let_def)
qed

lemma publish_length:
  "\<exists>b. otel_parallel_publish_leader_context p c (Some a) = Some b \<and> length b = length a"
  by (auto simp: otel_parallel_publish_leader_context_def Let_def split: option.split)

lemma event_step:
  assumes "0 \<le> q" "q < int (length a)"
  shows "\<exists>b. parallel_event_step e (Some a) = Some b \<and> length b = length a \<and>
     otel_parallel_get_leader_context q (Some b) =
       (if event_backend e = q then offered e else otel_parallel_get_leader_context q (Some a))"
proof -
  define arg where "arg = (case e of Publish p c \<Rightarrow> c | _ \<Rightarrow> None)"
  obtain p c where e: "parallel_event_step e = otel_parallel_publish_leader_context p c" "event_backend e = p"
      "offered e = (case c of Some x \<Rightarrow> if otel_span_context_is_valid x then Some (x\<lparr>tracestate := None\<rparr>) else None | None \<Rightarrow> None)"
    by (rule that [of "event_backend e" arg]) (cases e; auto simp: arg_def parallel_event_step_def
        event_backend_def offered_def otel_parallel_clear_leader_context_def
        otel_parallel_proc_exit_cb_def fun_eq_iff split: option.split)+
  show ?thesis
    using publish_length [of p c a] publish_get_same [OF assms, of c] publish_get_other [of p q c a]
    by (auto simp: e)
qed

lemma last_offer_snoc: "last_offer p (es @ [e]) = (if event_backend e = p then offered e else last_offer p es)"
  by (induction es) auto

lemma events_get:
  assumes "0 \<le> q" "q < int n"
  shows "\<exists>b. fold parallel_event_step es (otel_parallel_shmem_startup n None) = Some b \<and> length b = n \<and>
    otel_parallel_get_leader_context q (Some b) = last_offer q es"
proof (induction es rule: rev_induct)
  case Nil
  show ?case
    using assms by (simp add: otel_parallel_shmem_startup_def otel_parallel_get_leader_context_def
        zero_parallel_slot_def)
next
  case (snoc e es)
  then obtain b where b: "fold parallel_event_step es (otel_parallel_shmem_startup n None) = Some b"
      "length b = n" "otel_parallel_get_leader_context q (Some b) = last_offer q es" by blast
  from event_step [of q b e] assms b show ?case
    by (auto simp: last_offer_snoc)
qed

text \<open>However the backends' publications, clears and exits interleave, a parallel worker
  reads exactly what its own leader offered last: the valid context it published and has
  not cleared since (without tracestate), or nothing; other backends never disturb it.\<close>

theorem worker_reads_leader_offer:
  assumes "0 \<le> leader" and "leader < int max_backends"
  shows "otel_parallel_get_leader_context leader
      (fold parallel_event_step es (otel_parallel_shmem_startup max_backends None)) = last_offer leader es"
  using events_get [OF assms, of es] by auto

theorem worker_reads_leader_offer_witness:
  "otel_parallel_get_leader_context 1 (fold parallel_event_step
     [Publish 1 (Some \<lparr>trace_id = replicate 16 1, span_id = replicate 8 2, trace_flags = 1, tracestate = None\<rparr>),
      Exit 0] (otel_parallel_shmem_startup 2 None))
   = Some \<lparr>trace_id = replicate 16 1, span_id = replicate 8 2, trace_flags = 1, tracestate = None\<rparr>"
proof -
  let ?c = "\<lparr>trace_id = replicate 16 1, span_id = replicate 8 2, trace_flags = 1, tracestate = None\<rparr>"
  have "last_offer 1 [Publish 1 (Some ?c), Exit 0] = Some ?c"
    by (simp add: event_backend_def offered_def otel_span_context_is_valid_def trace_id_valid_iff span_id_valid_iff)
  then show ?thesis
    using worker_reads_leader_offer [of 1 2 "[Publish 1 (Some ?c), Exit 0]"] by (simp del: fold_simps)
qed

text \<open>A process that is no parallel worker, or whose leader number is out of range, reads
  nothing, and neither publishing nor reading touches an array that was never allocated.\<close>

theorem non_worker_reads_nothing:
  "otel_parallel_get_leader_context INVALID_PROC_NUMBER slots = None \<and>
   otel_parallel_publish_leader_context p c None = None \<and>
   otel_parallel_get_leader_context p None = None \<and>
   otel_parallel_get_leader_context (int (length a)) (Some a) = None \<and>
   otel_parallel_publish_leader_context (int (length a)) c (Some a) = Some a"
  by (auto simp: otel_parallel_get_leader_context_def otel_parallel_publish_leader_context_def
      INVALID_PROC_NUMBER_def split: option.split)

end
