(* ===== verification/Slots.thy ===== *)
theory Slots
  imports Api_Tables Root_Context
begin

text \<open>
  The span slot of \<open>otel_api/otel_producer.c\<close> and the functions that work on one slot: copying
  strings and growing arrays under the per-span byte limit, attributes, events, links,
  captured errors.  The slot's arrays are lists (an array and its used count); the two
  views \<open>slot->attrs\<close> and \<open>slot->span.attrs\<close> of the C struct are the same list here.

  Whether an allocation succeeds is an oracle: the \<open>n\<close>-th attempt of the span with generation
  \<open>g\<close> at site \<open>x\<close> succeeds when \<open>e_alloc_ok env x g n\<close>; \<open>s_tries\<close> counts the attempts.  This
  covers both an exhausted allocator and the source's injection points.
\<close>

section \<open>Counters and allocation sites\<close>

datatype counter_id =
    C_spans_started | C_spans_unsampled | C_spans_emitted | C_spans_discarded
  | C_start_no_slot | C_start_no_session_slot | C_start_stack_full | C_start_bad_args
  | C_in_crit_section | C_in_emit_hook | C_stale_handle | C_non_lifo_end | C_unwound
  | C_leaked_at_commit | C_dropped_in_dispatch | C_open_at_exit
  | C_attr_truncated | C_attr_dropped | C_event_dropped | C_link_dropped
  | C_error_capture_failed | C_emit_hook_errors
  | C_activate_not_detached | C_activate_already_active | C_deactivate_not_active
  | C_activation_unwound | C_activation_leaked_at_commit

datatype site =
    S_name | S_tracestate | S_attr_key | S_attr_value | S_event_name | S_status_description
  | S_error_message | S_error_detail | S_error_hint | S_error_filename | S_error_funcname
  | S_attrs | S_events | S_links | S_exception_attrs | S_event_attrs | S_vprintf

section \<open>The environment of a call\<close>

text \<open>
  What an emit hook does with a span: how many producer calls it makes that have to be
  refused, and how control leaves it.
\<close>

datatype hook_exit = Hook_return | Hook_error | Hook_fatal

record hook_run =
  hr_refused_calls :: nat
  hr_exit :: hook_exit

type_synonym owner = nat

record span_event =
  ev_name :: string
  ev_time :: int
  ev_attrs :: "attribute list"

record otel_span =
  sp_kind :: span_kind
  sp_scope :: "instrumentation_scope option"
  sp_trace_id :: trace_id
  sp_span_id :: span_id
  sp_parent_span_id :: span_id
  sp_trace_flags :: u8
  sp_tracestate :: "string option"
  sp_name :: string
  sp_status :: span_status
  sp_decision :: sampler_decision
  sp_description :: "string option"
  sp_start_time :: int
  sp_end_time :: int
  sp_attrs :: "attribute list"
  sp_dropped_attrs :: u32
  sp_events :: "span_event list"
  sp_dropped_events :: u32
  sp_links :: "span_context list"
  sp_dropped_links :: u32

text \<open>
  Everything a call reads from outside \<open>otel_producer.c\<close>: the backend (critical section,
  current resource owner, transaction nesting, process), the oracles, the root and leader
  contexts, the sampler, the registered consumer and the limits.  \<open>e_now env g\<close> is the clock
  as read for the span of generation \<open>g\<close>; \<open>e_seed\<close> is what seeding the generator yields: its
  first 32-bit number and the 64-bit numbers that follow.
\<close>

record env =
  e_crit :: bool
  e_owner :: "owner option"
  e_level :: int
  e_pid :: int
  e_seed :: "u32 \<times> u64 list"
  e_now :: "u32 \<Rightarrow> int"
  e_alloc_ok :: "site \<Rightarrow> u32 \<Rightarrow> nat \<Rightarrow> bool"
  e_pool_ok :: bool
  e_enlarge_ok :: bool
  e_slot_cxt_ok :: bool
  e_tracer_ok :: bool
  e_forget_ok :: "i64 \<Rightarrow> bool"
  e_leader_ctx :: "span_context option"
  e_root :: root_state
  e_sampler :: sampler_mode
  e_sampler_arg :: int
  e_hook :: "(otel_span \<Rightarrow> hook_run) option"
  e_emit_to_log :: bool
  e_log_ok :: "otel_span \<Rightarrow> bool"
  e_max_open_spans :: nat
  e_max_session_spans :: int
  e_attr_value_max :: nat
  e_max_span_bytes :: nat
  e_mbcliplen :: "string \<Rightarrow> nat \<Rightarrow> nat"

section \<open>Slots\<close>

record slot_error =
  er_elevel :: int
  er_lineno :: int
  er_sqlstate :: string
  er_time :: int
  er_message :: "string option"
  er_detail :: "string option"
  er_hint :: "string option"
  er_filename :: "string option"
  er_funcname :: "string option"

record otel_slot =
  s_span :: otel_span
  s_gen :: u32
  s_owner_released_gen :: u32
  s_next_free :: int
  s_detached :: bool
  s_session :: bool
  s_leaked :: bool
  s_dispatching :: bool
  s_owner :: "owner option"
  s_cxt :: bool
  s_bytes :: nat
  s_attrs_cap :: nat
  s_events_cap :: nat
  s_links_cap :: nat
  s_err :: "slot_error option"
  s_tries :: nat

definition OTEL_SLOT_INLINE_ATTRS :: nat where
  "OTEL_SLOT_INLINE_ATTRS = 12"

text \<open>\<open>memset\<close> of a slot: every field zero.\<close>

definition zero_span :: otel_span where
  "zero_span =
     \<lparr>sp_kind = KIND_INTERNAL, sp_scope = None, sp_trace_id = zero_trace_id, sp_span_id = zero_span_id,
      sp_parent_span_id = zero_span_id, sp_trace_flags = 0, sp_tracestate = None, sp_name = [],
      sp_status = STATUS_UNSET, sp_decision = SAMPLE_DROP, sp_description = None,
      sp_start_time = 0, sp_end_time = 0, sp_attrs = [], sp_dropped_attrs = 0,
      sp_events = [], sp_dropped_events = 0, sp_links = [], sp_dropped_links = 0\<rparr>"

definition zero_slot :: otel_slot where
  "zero_slot =
     \<lparr>s_span = zero_span, s_gen = 0, s_owner_released_gen = 0, s_next_free = 0, s_detached = False,
      s_session = False, s_leaked = False, s_dispatching = False, s_owner = None, s_cxt = False,
      s_bytes = 0, s_attrs_cap = 0, s_events_cap = 0, s_links_cap = 0, s_err = None, s_tries = 0\<rparr>"

definition sizeof_OtelAttribute :: nat where
  "sizeof_OtelAttribute = 24"

definition sizeof_OtelSpanEvent :: nat where
  "sizeof_OtelSpanEvent = 32"

definition sizeof_OtelSpanContext :: nat where
  "sizeof_OtelSpanContext = 40"

definition upd_span :: "(otel_span \<Rightarrow> otel_span) \<Rightarrow> otel_slot \<Rightarrow> otel_slot" where
  "upd_span f slot = slot\<lparr>s_span := f (s_span slot)\<rparr>"

section \<open>Allocation in a slot\<close>

definition slot_alloc :: "env \<Rightarrow> site \<Rightarrow> otel_slot \<Rightarrow> bool \<times> otel_slot" where
  "slot_alloc env x slot =
     (e_alloc_ok env x (s_gen slot) (s_tries slot), slot\<lparr>s_tries := Suc (s_tries slot)\<rparr>)"

text \<open>\<open>maxlen = None\<close> is the source's \<open>-1\<close>, no limit.  The result: copy, truncated flag, slot.\<close>

definition slot_strdup ::
    "env \<Rightarrow> site \<Rightarrow> nat option \<Rightarrow> string \<Rightarrow> otel_slot \<Rightarrow> string option \<times> bool \<times> otel_slot" where
  "slot_strdup env x maxlen str slot =
     (let clip = (case maxlen of None \<Rightarrow> False | Some m \<Rightarrow> length str > m);
          len = (if clip then e_mbcliplen env str (the maxlen) else length str)
      in if s_bytes slot + len + 1 > e_max_span_bytes env then (None, clip, slot)
         else (let (ok, slot1) = slot_alloc env x slot in
               if \<not> ok then (None, clip, slot1)
               else (Some (take len str), clip, slot1\<lparr>s_bytes := s_bytes slot1 + len + 1\<rparr>)))"

text \<open>The result: whether the array can hold \<open>want\<close> elements, and its capacity.\<close>

definition slot_grow :: "env \<Rightarrow> site \<Rightarrow> nat \<Rightarrow> nat \<Rightarrow> nat \<Rightarrow> otel_slot \<Rightarrow> bool \<times> nat \<times> otel_slot" where
  "slot_grow env x cap want elemsize slot =
     (if want \<le> cap then (True, cap, slot)
      else let newcap = max (max want (cap * 2)) 4 in
           if s_bytes slot + (newcap - cap) * elemsize > e_max_span_bytes env then (False, cap, slot)
           else (let (ok, slot1) = slot_alloc env x slot in
                 if \<not> ok then (False, cap, slot1)
                 else (True, newcap, slot1\<lparr>s_bytes := s_bytes slot1 + (newcap - cap) * elemsize\<rparr>)))"

section \<open>Attributes\<close>

text \<open>Operations on a slot return the counters they bump, for the caller to add up.\<close>

type_synonym 'a slot_op = "otel_slot \<Rightarrow> 'a \<times> counter_id list \<times> otel_slot"

fun find_attr :: "string \<Rightarrow> attribute list \<Rightarrow> nat option" where
  "find_attr key [] = None"
| "find_attr key (a # as) = (if at_key a = key then Some 0 else map_option Suc (find_attr key as))"

definition drop_attr :: "otel_slot \<Rightarrow> otel_slot" where
  "drop_attr = upd_span (\<lambda>s. s\<lparr>sp_dropped_attrs := sp_dropped_attrs s + 1\<rparr>)"

definition slot_attr :: "env \<Rightarrow> string \<Rightarrow> nat option slot_op" where
  "slot_attr env key slot =
     (case find_attr key (sp_attrs (s_span slot)) of
        Some i \<Rightarrow> (Some i, [], slot)
      | None \<Rightarrow>
          (let n = length (sp_attrs (s_span slot));
               (grown, cap, slot1) = slot_grow env S_attrs (s_attrs_cap slot) (n + 1) sizeof_OtelAttribute slot;
               slot2 = slot1\<lparr>s_attrs_cap := cap\<rparr>
           in if \<not> grown then (None, [C_attr_dropped], drop_attr slot2)
              else (case slot_strdup env S_attr_key None key slot2 of
                      (None, _, slot3) \<Rightarrow> (None, [C_attr_dropped], drop_attr slot3)
                    | (Some k, _, slot3) \<Rightarrow>
                        (Some n, [],
                         upd_span (\<lambda>s. s\<lparr>sp_attrs := sp_attrs s @ [\<lparr>at_key = k, at_val = ATTR_INT 0\<rparr>]\<rparr>) slot3))))"

definition put_attr :: "nat \<Rightarrow> attr_value \<Rightarrow> otel_slot \<Rightarrow> otel_slot" where
  "put_attr i v = upd_span (\<lambda>s. s\<lparr>sp_attrs := (sp_attrs s)[i := (sp_attrs s ! i)\<lparr>at_val := v\<rparr>]\<rparr>)"

definition set_value_internal :: "env \<Rightarrow> string \<Rightarrow> attr_value \<Rightarrow> unit slot_op" where
  "set_value_internal env key v slot =
     (case slot_attr env key slot of
        (None, cs, slot1) \<Rightarrow> ((), cs, slot1)
      | (Some i, cs, slot1) \<Rightarrow> ((), cs, put_attr i v slot1))"

definition set_str_internal :: "env \<Rightarrow> string \<Rightarrow> string option \<Rightarrow> unit slot_op" where
  "set_str_internal env key val slot =
     (case val of None \<Rightarrow> ((), [], slot)
      | Some v \<Rightarrow>
          (case slot_attr env key slot of
             (None, cs, slot1) \<Rightarrow> ((), cs, slot1)
           | (Some i, cs, slot1) \<Rightarrow>
               (case slot_strdup env S_attr_value (Some (e_attr_value_max env)) v slot1 of
                  (None, _, slot2) \<Rightarrow>
                    ((), cs @ [C_attr_dropped],
                     drop_attr (upd_span (\<lambda>s. s\<lparr>sp_attrs := butlast (sp_attrs s)\<rparr>) slot2))
                | (Some copy, truncated, slot2) \<Rightarrow>
                    ((), cs @ (if truncated then [C_attr_truncated] else []),
                     put_attr i (ATTR_STRING (Some copy)) slot2))))"

text \<open>
  \<open>otel_span_set_printf\<close>: \<open>out\<close> is what \<open>pg_vsnprintf\<close> produces without a size limit.  The
  stack buffer holds 1023 characters; longer output needs a buffer in the slot's context.
\<close>

definition set_vprintf_internal :: "env \<Rightarrow> string \<Rightarrow> string \<Rightarrow> unit slot_op" where
  "set_vprintf_internal env key out slot =
     (let small = (\<lambda>cs0 slot. case set_str_internal env key (Some (take 1023 out)) slot of
                     (u, cs, slot') \<Rightarrow> (u, cs0 @ cs, slot')) in
      if length out \<ge> 1024
      then if e_attr_value_max env \<ge> 1024
           then (let (ok, slot1) = slot_alloc env S_vprintf slot in
                 if ok then set_str_internal env key (Some out) slot1
                 else small [C_attr_truncated] slot1)
           else small [C_attr_truncated] slot
      else small [] slot)"

section \<open>Name and status\<close>

definition set_name_internal :: "env \<Rightarrow> string option \<Rightarrow> unit slot_op" where
  "set_name_internal env name slot =
     (case name of None \<Rightarrow> ((), [], slot)
      | Some nm \<Rightarrow>
          (case slot_strdup env S_name (Some (e_attr_value_max env)) nm slot of
             (None, _, slot1) \<Rightarrow> ((), [], slot1)
           | (Some copy, _, slot1) \<Rightarrow> ((), [], upd_span (\<lambda>s. s\<lparr>sp_name := copy\<rparr>) slot1)))"

definition set_status_internal :: "env \<Rightarrow> span_status \<Rightarrow> string option \<Rightarrow> unit slot_op" where
  "set_status_internal env code description slot =
     (let slot0 = upd_span (\<lambda>s. s\<lparr>sp_status := code\<rparr>) slot in
      case description of
        None \<Rightarrow> ((), [], upd_span (\<lambda>s. s\<lparr>sp_description := None\<rparr>) slot0)
      | Some d \<Rightarrow>
          (case slot_strdup env S_status_description (Some (e_attr_value_max env)) d slot0 of
             (copy, _, slot1) \<Rightarrow> ((), [], upd_span (\<lambda>s. s\<lparr>sp_description := copy\<rparr>) slot1)))"

section \<open>Events and links\<close>

text \<open>The copying loop: both strings of an attribute are copied before either is checked.\<close>

fun copy_event_attrs :: "env \<Rightarrow> attribute list \<Rightarrow> otel_slot \<Rightarrow> attribute list option \<times> otel_slot" where
  "copy_event_attrs env [] slot = (Some [], slot)"
| "copy_event_attrs env (a # as) slot =
     (case slot_strdup env S_attr_key None (at_key a) slot of (k, _, slot1) \<Rightarrow>
      (case (case at_val a of
               ATTR_STRING (Some t) \<Rightarrow>
                 (case slot_strdup env S_attr_value (Some (e_attr_value_max env)) t slot1 of
                    (c, _, slot2) \<Rightarrow> (map_option (\<lambda>x. ATTR_STRING (Some x)) c, slot2))
             | v \<Rightarrow> (Some v, slot1)) of
         (v, slot2) \<Rightarrow>
           (case (k, v) of
              (Some k', Some v') \<Rightarrow>
                (case copy_event_attrs env as slot2 of
                   (None, slot3) \<Rightarrow> (None, slot3)
                 | (Some rest, slot3) \<Rightarrow> (Some (\<lparr>at_key = k', at_val = v'\<rparr> # rest), slot3))
            | _ \<Rightarrow> (None, slot2))))"

definition drop_event :: "otel_slot \<Rightarrow> otel_slot" where
  "drop_event = upd_span (\<lambda>s. s\<lparr>sp_dropped_events := sp_dropped_events s + 1\<rparr>)"

definition push_event :: "span_event \<Rightarrow> otel_slot \<Rightarrow> otel_slot" where
  "push_event ev = upd_span (\<lambda>s. s\<lparr>sp_events := sp_events s @ [ev]\<rparr>)"

definition add_event_internal ::
    "env \<Rightarrow> string option \<Rightarrow> int \<Rightarrow> attribute list \<Rightarrow> unit slot_op" where
  "add_event_internal env name ts attrs slot =
     (case name of None \<Rightarrow> ((), [], slot)
      | Some nm \<Rightarrow>
          (let dropped = (\<lambda>slot. ((), [C_event_dropped], drop_event slot));
               (grown, cap, slot1) = slot_grow env S_events (s_events_cap slot)
                  (length (sp_events (s_span slot)) + 1) sizeof_OtelSpanEvent slot;
               slot2 = slot1\<lparr>s_events_cap := cap\<rparr>;
               finish = (\<lambda>ename copy slot.
                  ((), [], push_event \<lparr>ev_name = ename,
                        ev_time = (if ts \<noteq> 0 then ts else e_now env (s_gen slot)), ev_attrs = copy\<rparr> slot))
           in if \<not> grown then dropped slot2
              else (case slot_strdup env S_event_name (Some (e_attr_value_max env)) nm slot2 of
                      (None, _, slot3) \<Rightarrow> dropped slot3
                    | (Some ename, _, slot3) \<Rightarrow>
                        if attrs = [] then finish ename [] slot3
                        else (let sz = sizeof_OtelAttribute * length attrs in
                              if s_bytes slot3 + sz > e_max_span_bytes env then dropped slot3
                              else (let (ok, slot4) = slot_alloc env S_event_attrs slot3 in
                                    if \<not> ok then dropped slot4
                                    else (case copy_event_attrs env attrs
                                                 (slot4\<lparr>s_bytes := s_bytes slot4 + sz\<rparr>) of
                                            (None, slot5) \<Rightarrow> dropped slot5
                                          | (Some copy, slot5) \<Rightarrow> finish ename copy slot5))))))"

definition add_link_internal :: "env \<Rightarrow> span_context option \<Rightarrow> unit slot_op" where
  "add_link_internal env target slot =
     (case target of None \<Rightarrow> ((), [], slot)
      | Some c \<Rightarrow>
          if \<not> otel_span_context_is_valid c then ((), [], slot)
          else (let (grown, cap, slot1) = slot_grow env S_links (s_links_cap slot)
                       (length (sp_links (s_span slot)) + 1) sizeof_OtelSpanContext slot;
                    slot2 = slot1\<lparr>s_links_cap := cap\<rparr>
                in if \<not> grown
                   then ((), [C_link_dropped],
                         upd_span (\<lambda>s. s\<lparr>sp_dropped_links := sp_dropped_links s + 1\<rparr>) slot2)
                   else ((), [], upd_span (\<lambda>s. s\<lparr>sp_links := sp_links s @ [c\<lparr>tracestate := None\<rparr>]\<rparr>) slot2)))"

section \<open>Captured errors\<close>

text \<open>
  PostgreSQL's \<open>ErrorData\<close>, with the SQLSTATE already unpacked to its five characters, and
  the two severities of core the code compares with.
\<close>

record error_data =
  ed_elevel :: int
  ed_sqlstate :: string
  ed_message :: "string option"
  ed_detail :: "string option"
  ed_hint :: "string option"
  ed_filename :: "string option"
  ed_funcname :: "string option"
  ed_lineno :: int

definition WARNING_level :: int where
  "WARNING_level = 19"

definition ERROR_level :: int where
  "ERROR_level = 21"

definition ERRCODE_OUT_OF_MEMORY :: string where
  "ERRCODE_OUT_OF_MEMORY = ''53200''"

text \<open>\<open>if (x) copy = slot_strdup(...)\<close> for the fields of an error.\<close>

definition dup_field ::
    "env \<Rightarrow> site \<Rightarrow> nat option \<Rightarrow> string option \<Rightarrow> otel_slot \<Rightarrow> string option \<times> otel_slot" where
  "dup_field env x maxlen field slot =
     (case field of None \<Rightarrow> (None, slot)
      | Some t \<Rightarrow> (case slot_strdup env x maxlen t slot of (c, _, slot') \<Rightarrow> (c, slot')))"

definition slot_record_error :: "env \<Rightarrow> error_data \<Rightarrow> unit slot_op" where
  "slot_record_error env ed slot =
     (if (case s_err slot of None \<Rightarrow> False | Some err \<Rightarrow> ed_elevel ed < er_elevel err) then ((), [], slot)
      else let oom = (ed_sqlstate ed = ERRCODE_OUT_OF_MEMORY);
               err0 = \<lparr>er_elevel = ed_elevel ed, er_lineno = ed_lineno ed, er_sqlstate = take 5 (ed_sqlstate ed),
                       er_time = e_now env (s_gen slot), er_message = None, er_detail = None,
                       er_hint = None, er_filename = None, er_funcname = None\<rparr>;
               lim = Some (e_attr_value_max env);
               (err1, cs, slot1) =
                 (if \<not> oom
                  then (let (m, sm) = dup_field env S_error_message lim (ed_message ed) slot;
                            (d, sd) = dup_field env S_error_detail lim (ed_detail ed) sm;
                            (h, sh) = dup_field env S_error_hint lim (ed_hint ed) sd;
                            (fi, sf) = dup_field env S_error_filename None (ed_filename ed) sh;
                            (fu, su) = dup_field env S_error_funcname None (ed_funcname ed) sf
                        in (err0\<lparr>er_message := m, er_detail := d, er_hint := h, er_filename := fi, er_funcname := fu\<rparr>,
                            (if (ed_message ed \<noteq> None \<and> m = None) \<or> (ed_detail ed \<noteq> None \<and> d = None) \<or>
                                (ed_hint ed \<noteq> None \<and> h = None) then [C_error_capture_failed] else []),
                            su))
                  else (err0, [C_error_capture_failed], slot));
               slot2 = slot1\<lparr>s_err := Some err1\<rparr>
           in ((), cs,
               (if ed_elevel ed \<ge> ERROR_level then upd_span (\<lambda>s. s\<lparr>sp_status := STATUS_ERROR\<rparr>) slot2 else slot2)))"

definition error_description ::
    "env \<Rightarrow> string \<Rightarrow> string option \<Rightarrow> otel_slot \<Rightarrow> string option \<times> otel_slot" where
  "error_description env sqlstate message slot =
     (let (ok, slot1) = slot_alloc env S_status_description slot in
      (if \<not> ok then None
       else Some (take 255 (case message of None \<Rightarrow> sqlstate | Some m \<Rightarrow> sqlstate @ '' / '' @ m)),
       slot1))"

definition exception_attrs :: "slot_error \<Rightarrow> attribute list" where
  "exception_attrs err =
     (let str = (\<lambda>k v. case v of None \<Rightarrow> [] | Some t \<Rightarrow> [\<lparr>at_key = k, at_val = ATTR_STRING (Some t)\<rparr>]) in
      [\<lparr>at_key = ''exception.type'', at_val = ATTR_STRING (Some (er_sqlstate err))\<rparr>]
      @ str ''exception.message'' (er_message err)
      @ [\<lparr>at_key = ''pg.error.elevel'', at_val = ATTR_INT (of_int (er_elevel err))\<rparr>]
      @ str ''pg.error.detail'' (er_detail err)
      @ str ''pg.error.hint'' (er_hint err)
      @ str ''code.function.name'' (er_funcname err)
      @ str ''code.file.path'' (er_filename err)
      @ [\<lparr>at_key = ''code.line.number'', at_val = ATTR_INT (of_int (er_lineno err))\<rparr>])"

definition lower_error_event :: "env \<Rightarrow> slot_error \<Rightarrow> otel_slot \<Rightarrow> otel_slot" where
  "lower_error_event env err slot =
     (let (grown, cap, slot1) = slot_grow env S_events (s_events_cap slot)
             (length (sp_events (s_span slot)) + 1) sizeof_OtelSpanEvent slot;
          slot2 = slot1\<lparr>s_events_cap := cap\<rparr>;
          slot3 = (if grown
                   then (let (ok, sl) = slot_alloc env S_exception_attrs slot2 in
                         push_event \<lparr>ev_name = ''exception'', ev_time = er_time err,
                                     ev_attrs = (if ok then exception_attrs err else [])\<rparr> sl)
                   else drop_event slot2)
      in if sp_status (s_span slot3) = STATUS_ERROR \<and> sp_description (s_span slot3) = None
         then (let (desc, slot4) = error_description env (er_sqlstate err) (er_message err) slot3 in
               upd_span (\<lambda>s. s\<lparr>sp_description := desc\<rparr>) slot4)
         else slot3)"

end
