(* ===== verification/Slot_Facts.thy ===== *)
theory Slot_Facts
  imports Slots
begin

text \<open>
  What the slot operations guarantee: they stay within the byte limit, keep counts within
  capacities and attribute keys distinct, and never touch what identifies the span or ties
  it to its owner; which attribute, event, link or error they store on each branch.
\<close>

section \<open>The invariant of one slot\<close>

definition slot_ok :: "nat \<Rightarrow> otel_slot \<Rightarrow> bool" where
  "slot_ok limit slot \<longleftrightarrow>
     s_bytes slot \<le> limit \<and>
     length (sp_attrs (s_span slot)) \<le> s_attrs_cap slot \<and>
     length (sp_events (s_span slot)) \<le> s_events_cap slot \<and>
     length (sp_links (s_span slot)) \<le> s_links_cap slot \<and>
     distinct (map at_key (sp_attrs (s_span slot))) \<and>
     (\<forall>c\<in>set (sp_links (s_span slot)). otel_span_context_is_valid c)"

text \<open>The fields a setter must leave alone.\<close>

definition slot_core where
  "slot_core slot =
     (let p = s_span slot in
      (s_gen slot, s_owner_released_gen slot, s_next_free slot, s_detached slot, s_session slot,
       s_leaked slot, s_dispatching slot, s_owner slot, s_cxt slot,
       sp_kind p, sp_scope p, sp_trace_id p, sp_span_id p, sp_parent_span_id p, sp_trace_flags p,
       sp_tracestate p, sp_start_time p, sp_decision p))"

definition evolves :: "nat \<Rightarrow> otel_slot \<Rightarrow> otel_slot \<Rightarrow> bool" where
  "evolves limit s t \<longleftrightarrow> slot_core t = slot_core s \<and> (slot_ok limit s \<longrightarrow> slot_ok limit t)"

lemma evolves_refl [simp]: "evolves limit s s"
  by (simp add: evolves_def)

lemma evolves_trans: "evolves limit s t \<Longrightarrow> evolves limit t u \<Longrightarrow> evolves limit s u"
  by (simp add: evolves_def)

lemma core_fields:
  assumes "slot_core t = slot_core s"
  shows "s_gen t = s_gen s" "s_owner_released_gen t = s_owner_released_gen s" "s_next_free t = s_next_free s"
    "s_detached t = s_detached s" "s_session t = s_session s" "s_leaked t = s_leaked s"
    "s_dispatching t = s_dispatching s" "s_owner t = s_owner s" "s_cxt t = s_cxt s"
    "sp_trace_id (s_span t) = sp_trace_id (s_span s)" "sp_span_id (s_span t) = sp_span_id (s_span s)"
    "sp_parent_span_id (s_span t) = sp_parent_span_id (s_span s)"
    "sp_trace_flags (s_span t) = sp_trace_flags (s_span s)" "sp_tracestate (s_span t) = sp_tracestate (s_span s)"
    "sp_start_time (s_span t) = sp_start_time (s_span s)" "sp_decision (s_span t) = sp_decision (s_span s)"
  using assms by (simp_all add: slot_core_def Let_def)

text \<open>Allocation touches only the byte count and the attempt counter.\<close>

lemma tries_bytes_evolve:
  "(s_bytes s \<le> limit \<Longrightarrow> b \<le> limit) \<Longrightarrow> evolves limit s (s\<lparr>s_tries := n, s_bytes := b\<rparr>)"
  by (simp add: evolves_def slot_core_def Let_def slot_ok_def)

definition alloc_only :: "nat \<Rightarrow> otel_slot \<Rightarrow> otel_slot \<Rightarrow> bool" where
  "alloc_only limit s t \<longleftrightarrow>
     t = s\<lparr>s_tries := s_tries t, s_bytes := s_bytes t\<rparr> \<and> (s_bytes s \<le> limit \<longrightarrow> s_bytes t \<le> limit)"

lemma alloc_only_evolves: "alloc_only limit s t \<Longrightarrow> evolves limit s t"
  unfolding alloc_only_def by (metis tries_bytes_evolve)

lemma alloc_only_refl [simp]: "alloc_only limit s s"
  by (simp add: alloc_only_def)

lemma alloc_only_trans:
  assumes "alloc_only limit s t" and "alloc_only limit t u"
  shows "alloc_only limit s u"
proof -
  have t: "t = s\<lparr>s_tries := s_tries t, s_bytes := s_bytes t\<rparr>"
    and u: "u = t\<lparr>s_tries := s_tries u, s_bytes := s_bytes u\<rparr>"
    using assms by (simp_all add: alloc_only_def)
  have "t\<lparr>s_tries := n, s_bytes := b\<rparr> = s\<lparr>s_tries := n, s_bytes := b\<rparr>" for n b
    by (subst t) simp
  with u have "u = s\<lparr>s_tries := s_tries u, s_bytes := s_bytes u\<rparr>" by simp
  with assms show ?thesis by (simp add: alloc_only_def)
qed

lemma alloc_only_same:
  assumes "alloc_only limit s t"
  shows "s_span t = s_span s" "s_attrs_cap t = s_attrs_cap s" "s_events_cap t = s_events_cap s"
    "s_links_cap t = s_links_cap s" "s_err t = s_err s" "s_gen t = s_gen s"
proof -
  have t: "t = s\<lparr>s_tries := s_tries t, s_bytes := s_bytes t\<rparr>"
    using assms by (simp add: alloc_only_def)
  show "s_span t = s_span s" "s_attrs_cap t = s_attrs_cap s" "s_events_cap t = s_events_cap s"
    "s_links_cap t = s_links_cap s" "s_err t = s_err s" "s_gen t = s_gen s"
    by (subst t, simp)+
qed

lemma alloc_shape: "slot_alloc env x s = (ok, t) \<Longrightarrow> alloc_only limit s t"
  by (auto simp: slot_alloc_def alloc_only_def)

lemma strdup_shape:
  assumes "slot_strdup env x m str s = (r, tr, t)"
  shows "alloc_only (e_max_span_bytes env) s t"
  using assms
  by (auto simp: slot_strdup_def slot_alloc_def Let_def alloc_only_def simp del: One_nat_def split: if_split_asm)

lemma strdup_evolves:
  assumes "slot_strdup env x m str s = (r, tr, t)"
  shows "evolves (e_max_span_bytes env) s t \<and> s_span t = s_span s \<and> s_attrs_cap t = s_attrs_cap s \<and>
    s_events_cap t = s_events_cap s \<and> s_links_cap t = s_links_cap s \<and> s_err t = s_err s \<and> s_gen t = s_gen s"
  using alloc_only_evolves [OF strdup_shape [OF assms]] alloc_only_same [OF strdup_shape [OF assms]] by simp

lemma alloc_evolves:
  assumes "slot_alloc env x s = (ok, t)"
  shows "evolves limit s t \<and> s_span t = s_span s \<and> s_attrs_cap t = s_attrs_cap s \<and>
    s_events_cap t = s_events_cap s \<and> s_links_cap t = s_links_cap s \<and> s_err t = s_err s \<and> s_gen t = s_gen s"
  using alloc_only_evolves [OF alloc_shape [OF assms]] alloc_only_same [OF alloc_shape [OF assms]] by simp

lemma strdup_unlimited: "slot_strdup env x None str s = (Some c, tr, t) \<Longrightarrow> c = str \<and> \<not> tr"
  by (auto simp: slot_strdup_def slot_alloc_def Let_def split: if_splits)

lemma grow_shape:
  assumes "slot_grow env x cap want sz s = (grown, cap', t)"
  shows "alloc_only (e_max_span_bytes env) s t \<and> cap \<le> cap' \<and> (grown \<longrightarrow> want \<le> cap')"
proof (cases "want \<le> cap")
  case True
  with assms show ?thesis by (auto simp: slot_grow_def alloc_only_def)
next
  case False
  with assms show ?thesis
    by (auto simp: slot_grow_def slot_alloc_def Let_def alloc_only_def split: if_split_asm)
qed

lemma grow_evolves:
  assumes "slot_grow env x cap want sz s = (grown, cap', t)"
  shows "evolves (e_max_span_bytes env) s t" "s_span t = s_span s" "s_attrs_cap t = s_attrs_cap s"
    "s_events_cap t = s_events_cap s" "s_links_cap t = s_links_cap s" "s_err t = s_err s" "s_gen t = s_gen s"
    "cap \<le> cap'" "grown \<Longrightarrow> want \<le> cap'"
  using grow_shape [OF assms] by (simp_all add: alloc_only_evolves alloc_only_same [of "e_max_span_bytes env"])

lemma caps_evolve:
  "s_attrs_cap s \<le> n \<Longrightarrow> evolves limit s (s\<lparr>s_attrs_cap := n\<rparr>)"
  "s_events_cap s \<le> n \<Longrightarrow> evolves limit s (s\<lparr>s_events_cap := n\<rparr>)"
  "s_links_cap s \<le> n \<Longrightarrow> evolves limit s (s\<lparr>s_links_cap := n\<rparr>)"
  by (auto simp: evolves_def slot_core_def Let_def slot_ok_def)

lemma upd_evolves [simp]:
  "evolves limit s (drop_attr s)" "evolves limit s (drop_event s)"
  "evolves limit s (upd_span (\<lambda>p. p\<lparr>sp_dropped_links := d p\<rparr>) s)"
  "evolves limit s (upd_span (\<lambda>p. p\<lparr>sp_name := nm p\<rparr>) s)"
  "evolves limit s (upd_span (\<lambda>p. p\<lparr>sp_status := st\<rparr>) s)"
  "evolves limit s (upd_span (\<lambda>p. p\<lparr>sp_description := de\<rparr>) s)"
  "evolves limit s (s\<lparr>s_err := er\<rparr>)"
  by (auto simp: evolves_def slot_core_def Let_def slot_ok_def drop_attr_def drop_event_def upd_span_def)

section \<open>Attributes\<close>

lemma find_attr_None: "find_attr key as = None \<longleftrightarrow> key \<notin> at_key ` set as"
  by (induction as) auto

lemma find_attr_Some: "find_attr key as = Some i \<Longrightarrow> i < length as \<and> at_key (as ! i) = key"
  by (induction as arbitrary: i) (auto split: if_splits)

lemma keys_put: "map at_key (as[i := (as ! i)\<lparr>at_val := v\<rparr>]) = map at_key as"
proof (rule nth_equalityI)
  fix j assume "j < length (map at_key (as[i := (as ! i)\<lparr>at_val := v\<rparr>]))"
  then show "map at_key (as[i := (as ! i)\<lparr>at_val := v\<rparr>]) ! j = map at_key as ! j"
    by (cases "j = i") simp_all
qed simp

lemma put_evolves [simp]: "evolves limit s (put_attr i v s)"
  by (auto simp: evolves_def slot_core_def Let_def slot_ok_def put_attr_def upd_span_def keys_put)

lemma push_attr_evolves:
  "key \<notin> at_key ` set (sp_attrs (s_span s)) \<Longrightarrow> length (sp_attrs (s_span s)) < s_attrs_cap s \<Longrightarrow>
     evolves limit s (upd_span (\<lambda>p. p\<lparr>sp_attrs := sp_attrs p @ [\<lparr>at_key = key, at_val = v\<rparr>]\<rparr>) s)"
  by (simp add: evolves_def slot_ok_def slot_core_def Let_def upd_span_def)

lemma slot_attr_evolves:
  assumes "slot_attr env key s = (r, cs, t)"
  shows "evolves (e_max_span_bytes env) s t"
proof (cases "find_attr key (sp_attrs (s_span s))")
  case (Some i)
  with assms show ?thesis by (simp add: slot_attr_def)
next
  case None
  obtain grown cap s1 where g: "slot_grow env S_attrs (s_attrs_cap s) (length (sp_attrs (s_span s)) + 1) sizeof_OtelAttribute s
      = (grown, cap, s1)" by (metis prod_cases3)
  note ge = grow_evolves [OF g]
  let ?s2 = "s1\<lparr>s_attrs_cap := cap\<rparr>"
  have e2: "evolves (e_max_span_bytes env) s ?s2"
    using ge by (intro evolves_trans [OF ge(1) caps_evolve(1)]) simp
  show ?thesis
  proof (cases grown)
    case False
    with assms None g e2 show ?thesis
      by (auto simp: slot_attr_def Let_def intro: evolves_trans)
  next
    case True
    obtain k tr s3 where k: "slot_strdup env S_attr_key None key ?s2 = (k, tr, s3)" by (metis prod_cases3)
    note ke = strdup_evolves [OF k]
    have e3: "evolves (e_max_span_bytes env) s s3" using e2 ke by (blast intro: evolves_trans)
    show ?thesis
    proof (cases k)
      case None': None
      with assms None g k True e3 show ?thesis
        by (auto simp: slot_attr_def Let_def intro: evolves_trans)
    next
      case (Some k')
      then have "k' = key" using strdup_unlimited k by blast
      moreover have "key \<notin> at_key ` set (sp_attrs (s_span s))" using None by (simp add: find_attr_None)
      moreover have "length (sp_attrs (s_span s)) + 1 \<le> cap" using ge(9) True by simp
      ultimately have "evolves (e_max_span_bytes env) s3
          (upd_span (\<lambda>p. p\<lparr>sp_attrs := sp_attrs p @ [\<lparr>at_key = k', at_val = ATTR_INT 0\<rparr>]\<rparr>) s3)"
        using ke ge(2) by (intro push_attr_evolves) simp_all
      moreover have "t = upd_span (\<lambda>p. p\<lparr>sp_attrs := sp_attrs p @ [\<lparr>at_key = k', at_val = ATTR_INT 0\<rparr>]\<rparr>) s3"
        using assms None g k True Some by (simp add: slot_attr_def Let_def)
      ultimately show ?thesis
        by (simp only: evolves_trans [OF e3])
    qed
  qed
qed

lemma butlast_evolves: "evolves limit s (upd_span (\<lambda>p. p\<lparr>sp_attrs := butlast (sp_attrs p)\<rparr>) s)"
  by (auto simp: evolves_def slot_core_def Let_def slot_ok_def upd_span_def map_butlast distinct_butlast)

lemma set_value_evolves:
  "set_value_internal env key v s = (u, cs, t) \<Longrightarrow> evolves (e_max_span_bytes env) s t"
  by (auto simp: set_value_internal_def split: prod.splits option.splits
      dest!: slot_attr_evolves intro: evolves_trans)

lemma set_str_evolves:
  "set_str_internal env key v s = (u, cs, t) \<Longrightarrow> evolves (e_max_span_bytes env) s t"
  by (auto simp: set_str_internal_def split: prod.splits option.splits
      dest!: slot_attr_evolves dest: strdup_evolves intro!: evolves_trans [OF _ upd_evolves(1)]
      evolves_trans [OF _ butlast_evolves] evolves_trans [OF _ put_evolves] intro: evolves_trans)

lemma set_vprintf_evolves:
  "set_vprintf_internal env key out s = (u, cs, t) \<Longrightarrow> evolves (e_max_span_bytes env) s t"
  by (auto simp: set_vprintf_internal_def Let_def split: prod.splits if_splits
      dest!: set_str_evolves dest: alloc_evolves intro: evolves_trans)

lemma set_name_evolves:
  "set_name_internal env nm s = (u, cs, t) \<Longrightarrow> evolves (e_max_span_bytes env) s t"
  by (auto simp: set_name_internal_def split: prod.splits option.splits
      dest!: strdup_evolves intro!: evolves_trans [OF _ upd_evolves(4)])

lemma set_status_evolves:
  "set_status_internal env code d s = (u, cs, t) \<Longrightarrow> evolves (e_max_span_bytes env) s t"
  by (auto simp: set_status_internal_def Let_def split: prod.splits option.splits
      dest!: strdup_evolves intro!: evolves_trans [OF _ upd_evolves(6)] intro: evolves_trans [OF upd_evolves(5)])

section \<open>Events, links and errors\<close>

lemma push_event_evolves:
  "length (sp_events (s_span s)) < s_events_cap s \<Longrightarrow> evolves limit s (push_event ev s)"
  by (simp add: evolves_def slot_core_def Let_def slot_ok_def push_event_def upd_span_def)

lemma copy_event_attrs_alloc:
  "copy_event_attrs env as s = (r, t) \<Longrightarrow> alloc_only (e_max_span_bytes env) s t"
proof (induction env as s arbitrary: r t rule: copy_event_attrs.induct)
  case (1 env s)
  then show ?case by (simp add: alloc_only_def)
next
  case (2 env a as s)
  obtain k trk s1 where k: "slot_strdup env S_attr_key None (at_key a) s = (k, trk, s1)"
    by (metis prod_cases3)
  obtain v s2 where v: "(case at_val a of
               ATTR_STRING (Some t) \<Rightarrow>
                 (case slot_strdup env S_attr_value (Some (e_attr_value_max env)) t s1 of
                    (c, _, slot2) \<Rightarrow> (map_option (\<lambda>x. ATTR_STRING (Some x)) c, slot2))
             | v \<Rightarrow> (Some v, s1)) = (v, s2)" by (metis surj_pair)
  have same: "alloc_only (e_max_span_bytes env) x x" for x by (simp add: alloc_only_def)
  have "alloc_only (e_max_span_bytes env) s1 s2"
    using v same [of s1] by (auto split: attr_value.splits option.splits prod.splits dest: strdup_shape)
  then have s2: "alloc_only (e_max_span_bytes env) s s2"
    using alloc_only_trans strdup_shape [OF k] by blast
  show ?case
  proof (cases "k = None \<or> v = None")
    case True
    then have "t = s2" using "2.prems" k v by (auto split: option.splits)
    with s2 show ?thesis by simp
  next
    case False
    then obtain k' v' where kv: "k = Some k'" "v = Some v'" by auto
    obtain q s3 where rest: "copy_event_attrs env as s2 = (q, s3)" by (metis surj_pair)
    have "alloc_only (e_max_span_bytes env) s2 s3"
      using "2.IH" [OF k [symmetric] refl v [symmetric] refl kv(1) kv(2) rest] by simp
    moreover have "t = s3" using "2.prems" k v kv rest by (auto split: option.splits)
    ultimately show ?thesis using s2 alloc_only_trans by blast
  qed
qed

lemma add_event_evolves:
  assumes "add_event_internal env name ts attrs s = (u, cs, t)"
  shows "evolves (e_max_span_bytes env) s t"
proof (cases name)
  case None
  with assms show ?thesis by (simp add: add_event_internal_def)
next
  case (Some nm)
  let ?E = "evolves (e_max_span_bytes env)"
  obtain grown cap s1 where g: "slot_grow env S_events (s_events_cap s) (Suc (length (sp_events (s_span s))))
      sizeof_OtelSpanEvent s = (grown, cap, s1)" by (metis prod_cases3)
  note ge = grow_evolves [OF g]
  define s2 where "s2 = s1\<lparr>s_events_cap := cap\<rparr>"
  have e2: "?E s s2"
    unfolding s2_def using ge by (intro evolves_trans [OF ge(1) caps_evolve(2)]) simp
  obtain n tr s3 where n: "slot_strdup env S_event_name (Some (e_attr_value_max env)) nm s2 = (n, tr, s3)"
    by (metis prod_cases3)
  have a3: "alloc_only (e_max_span_bytes env) s2 s3" using n by (rule strdup_shape)
  obtain ok s4 where al: "slot_alloc env S_event_attrs s3 = (ok, s4)" by (metis surj_pair)
  define sz where "sz = sizeof_OtelAttribute * length attrs"
  define s4' where "s4' = s4\<lparr>s_bytes := s_bytes s4 + sz\<rparr>"
  obtain c s5 where cp: "copy_event_attrs env attrs s4' = (c, s5)" by (metis surj_pair)
  have a4: "alloc_only (e_max_span_bytes env) s3 s4" using al by (rule alloc_shape)
  have a4': "alloc_only (e_max_span_bytes env) s4 s4'" if "s_bytes s3 + sz \<le> e_max_span_bytes env"
    using al that by (auto simp: s4'_def alloc_only_def slot_alloc_def)
  have a5: "alloc_only (e_max_span_bytes env) s4' s5" using cp by (rule copy_event_attrs_alloc)
  have room: "length (sp_events (s_span x)) < s_events_cap x" if "alloc_only (e_max_span_bytes env) s2 x" grown for x
    using alloc_only_same [OF that(1)] ge(2,9) that(2) by (simp add: s2_def)
  have fin: "?E s (push_event ev x)" if "alloc_only (e_max_span_bytes env) s2 x" grown for x ev
    using e2 alloc_only_evolves [OF that(1)] push_event_evolves [OF room [OF that]] by (blast intro: evolves_trans)
  have drp: "?E s (drop_event x)" if "alloc_only (e_max_span_bytes env) s2 x" for x
    using e2 alloc_only_evolves [OF that] by (blast intro: evolves_trans upd_evolves(2))
  have refl2: "alloc_only (e_max_span_bytes env) s2 s2" by (simp add: alloc_only_def)
  have a34: "alloc_only (e_max_span_bytes env) s2 s4" using a3 a4 by (rule alloc_only_trans)
  show ?thesis
  proof (cases "grown \<and> n \<noteq> None \<and> attrs \<noteq> [] \<and> s_bytes s3 + sz \<le> e_max_span_bytes env \<and> ok")
    case True
    then obtain ename where "n = Some ename" by blast
    have a35: "alloc_only (e_max_span_bytes env) s2 s5"
      using alloc_only_trans [OF alloc_only_trans [OF a34 a4'] a5] True by blast
    show ?thesis
      using assms True drp [OF a35] fin [OF a35] cp Some
      by (cases c) (auto simp: add_event_internal_def Let_def g n al s2_def [symmetric] sz_def [symmetric]
          s4'_def [symmetric])
  next
    case False
    then show ?thesis
      using assms drp [OF a3] drp [OF a34] drp [OF refl2] fin [OF a3] Some
      by (cases n) (auto simp: add_event_internal_def Let_def g n al s2_def [symmetric] sz_def [symmetric]
          split: if_splits)
  qed
qed

lemma add_link_evolves:
  assumes "add_link_internal env target s = (u, cs, t)"
  shows "evolves (e_max_span_bytes env) s t"
proof (cases "\<exists>c. target = Some c \<and> otel_span_context_is_valid c")
  case False
  with assms show ?thesis by (auto simp: add_link_internal_def split: option.splits if_splits)
next
  case True
  then obtain c where c: "target = Some c" "otel_span_context_is_valid c" by blast
  obtain grown cap s1 where g: "slot_grow env S_links (s_links_cap s) (Suc (length (sp_links (s_span s))))
      sizeof_OtelSpanContext s = (grown, cap, s1)" by (metis prod_cases3)
  note ge = grow_evolves [OF g]
  have e2: "evolves (e_max_span_bytes env) s (s1\<lparr>s_links_cap := cap\<rparr>)"
    using ge by (intro evolves_trans [OF ge(1) caps_evolve(3)]) simp
  show ?thesis
  proof (cases grown)
    case False
    with assms c g show ?thesis
      by (auto simp: add_link_internal_def Let_def intro: evolves_trans [OF e2])
  next
    case True
    have "otel_span_context_is_valid (c\<lparr>tracestate := None\<rparr>)"
      using c(2) by (simp add: otel_span_context_is_valid_def)
    then have "evolves (e_max_span_bytes env) (s1\<lparr>s_links_cap := cap\<rparr>)
        (upd_span (\<lambda>p. p\<lparr>sp_links := sp_links p @ [c\<lparr>tracestate := None\<rparr>]\<rparr>) (s1\<lparr>s_links_cap := cap\<rparr>))"
      using ge(2,9) True by (simp add: evolves_def slot_core_def Let_def slot_ok_def upd_span_def)
    with assms c g True show ?thesis
      by (auto simp: add_link_internal_def Let_def intro: evolves_trans [OF e2])
  qed
qed

lemma dup_field_alloc: "dup_field env x m f s = (r, t) \<Longrightarrow> alloc_only (e_max_span_bytes env) s t"
  by (auto simp: dup_field_def split: option.splits prod.splits dest: strdup_shape)

lemma record_error_evolves:
  assumes "slot_record_error env ed s = (u, cs, t)"
  shows "evolves (e_max_span_bytes env) s t"
proof -
  obtain m s1 where d1: "dup_field env S_error_message (Some (e_attr_value_max env)) (ed_message ed) s = (m, s1)"
    by (metis surj_pair)
  obtain d s2 where d2: "dup_field env S_error_detail (Some (e_attr_value_max env)) (ed_detail ed) s1 = (d, s2)"
    by (metis surj_pair)
  obtain h s3 where d3: "dup_field env S_error_hint (Some (e_attr_value_max env)) (ed_hint ed) s2 = (h, s3)"
    by (metis surj_pair)
  obtain fi s4 where d4: "dup_field env S_error_filename None (ed_filename ed) s3 = (fi, s4)"
    by (metis surj_pair)
  obtain fu s5 where d5: "dup_field env S_error_funcname None (ed_funcname ed) s4 = (fu, s5)"
    by (metis surj_pair)
  have "alloc_only (e_max_span_bytes env) s s5"
    using d1 d2 d3 d4 d5 by (meson alloc_only_trans dup_field_alloc)
  then have e5: "evolves (e_max_span_bytes env) s s5" by (rule alloc_only_evolves)
  have fin: "evolves (e_max_span_bytes env) s (upd_span (\<lambda>p. p\<lparr>sp_status := st\<rparr>) (x\<lparr>s_err := er\<rparr>))"
      "evolves (e_max_span_bytes env) s (x\<lparr>s_err := er\<rparr>)"
    if "evolves (e_max_span_bytes env) s x" for x st er
    using that by (blast intro: evolves_trans upd_evolves(5,7))+
  show ?thesis
    using assms fin [OF e5] fin [OF evolves_refl]
    by (auto simp: slot_record_error_def d1 d2 d3 d4 d5 Let_def split: if_splits option.splits)
qed

section \<open>Sequences of setter calls\<close>

datatype slot_action =
    Set_str string "string option" | Set_value string attr_value | Set_printf string string
  | Set_name "string option" | Set_status span_status "string option"
  | Add_event "string option" int "attribute list" | Add_link "span_context option"
  | Record_error error_data

fun run_action :: "env \<Rightarrow> slot_action \<Rightarrow> unit slot_op" where
  "run_action env (Set_str key val) = set_str_internal env key val"
| "run_action env (Set_value key v) = set_value_internal env key v"
| "run_action env (Set_printf key out) = set_vprintf_internal env key out"
| "run_action env (Set_name nm) = set_name_internal env nm"
| "run_action env (Set_status code d) = set_status_internal env code d"
| "run_action env (Add_event nm ts as) = add_event_internal env nm ts as"
| "run_action env (Add_link c) = add_link_internal env c"
| "run_action env (Record_error ed) = slot_record_error env ed"

lemma run_action_evolves:
  "run_action env a s = (u, cs, t) \<Longrightarrow> evolves (e_max_span_bytes env) s t"
  by (cases a) (auto intro: set_str_evolves set_value_evolves set_vprintf_evolves set_name_evolves
      set_status_evolves add_event_evolves add_link_evolves record_error_evolves)

definition run_actions :: "env \<Rightarrow> slot_action list \<Rightarrow> otel_slot \<Rightarrow> otel_slot" where
  "run_actions env as s = fold (\<lambda>a s. snd (snd (run_action env a s))) as s"

lemma run_actions_evolve: "evolves (e_max_span_bytes env) s (run_actions env as s)"
  unfolding run_actions_def
proof (induction as arbitrary: s)
  case (Cons a as)
  obtain u cs t where "run_action env a s = (u, cs, t)" by (metis prod_cases3)
  with Cons [of t] show ?case
    by (auto intro: evolves_trans run_action_evolves)
qed simp

section \<open>What is stored\<close>

definition attr_map :: "otel_slot \<Rightarrow> string \<Rightarrow> attr_value option" where
  "attr_map s = map_of (map (\<lambda>a. (at_key a, at_val a)) (sp_attrs (s_span s)))"

lemma attr_map_same: "s_span t = s_span s \<Longrightarrow> attr_map t = attr_map s"
  by (simp add: attr_map_def)

lemma attr_map_None: "attr_map s key = None \<longleftrightarrow> key \<notin> at_key ` set (sp_attrs (s_span s))"
  by (auto simp: attr_map_def map_of_eq_None_iff image_iff)

lemma map_of_put:
  assumes "distinct (map at_key as)" and "i < length as"
  shows "map_of (map (\<lambda>a. (at_key a, at_val a)) (as[i := (as ! i)\<lparr>at_val := v\<rparr>]))
       = (map_of (map (\<lambda>a. (at_key a, at_val a)) as))(at_key (as ! i) \<mapsto> v)"
  using assms
proof (induction as arbitrary: i)
  case (Cons a as)
  show ?case
  proof (cases i)
    case 0
    then show ?thesis by (auto simp: fun_eq_iff)
  next
    case (Suc j)
    with Cons.prems have "at_key a \<noteq> at_key (as ! j)" by (auto simp: image_iff)
    with Suc Cons show ?thesis by (auto simp: fun_eq_iff)
  qed
qed simp

lemma attr_map_put:
  "distinct (map at_key (sp_attrs (s_span s))) \<Longrightarrow> i < length (sp_attrs (s_span s)) \<Longrightarrow>
     attr_map (put_attr i v s) = (attr_map s)(at_key (sp_attrs (s_span s) ! i) \<mapsto> v)"
  by (simp add: attr_map_def put_attr_def upd_span_def map_of_put)

lemma map_of_snoc:
  assumes "map_of xs k = None"
  shows "map_of (xs @ [(k, v)]) = (map_of xs)(k \<mapsto> v)"
proof
  fix x
  show "map_of (xs @ [(k, v)]) x = ((map_of xs)(k \<mapsto> v)) x"
    using assms by (cases "map_of xs x") (auto simp: map_add_def)
qed

text \<open>The three ways \<open>slot_attr\<close> ends: an existing entry, a new last entry, or a counted drop.\<close>

lemma slot_attr_cases:
  assumes "slot_attr env key s = (r, cs, t)"
  obtains (existing) i where "r = Some i" "cs = []" "t = s" "i < length (sp_attrs (s_span s))"
      "at_key (sp_attrs (s_span s) ! i) = key"
  | (fresh) "r = Some (length (sp_attrs (s_span s)))" "cs = []" "attr_map s key = None"
      "sp_attrs (s_span t) = sp_attrs (s_span s) @ [\<lparr>at_key = key, at_val = ATTR_INT 0\<rparr>]"
      "sp_dropped_attrs (s_span t) = sp_dropped_attrs (s_span s)"
  | (dropped) "r = None" "cs = [C_attr_dropped]" "attr_map s key = None"
      "sp_attrs (s_span t) = sp_attrs (s_span s)"
      "sp_dropped_attrs (s_span t) = sp_dropped_attrs (s_span s) + 1"
proof (cases "find_attr key (sp_attrs (s_span s))")
  case (Some i)
  with assms find_attr_Some [OF Some] show thesis
    by (intro existing [of i]) (auto simp: slot_attr_def)
next
  case None
  then have fresh_key: "attr_map s key = None" by (simp add: attr_map_None find_attr_None)
  obtain grown cap s1 where g: "slot_grow env S_attrs (s_attrs_cap s) (Suc (length (sp_attrs (s_span s))))
      sizeof_OtelAttribute s = (grown, cap, s1)" by (metis prod_cases3)
  obtain k tr s3 where k: "slot_strdup env S_attr_key None key (s1\<lparr>s_attrs_cap := cap\<rparr>) = (k, tr, s3)"
    by (metis prod_cases3)
  have same: "s_span s1 = s_span s" "s_span s3 = s_span s"
    using grow_evolves [OF g] strdup_evolves [OF k] by simp_all
  show thesis
  proof (cases "grown \<and> k \<noteq> None")
    case True
    then have "k = Some key" using strdup_unlimited k by blast
    with assms None g k True same fresh_key show thesis
      by (intro fresh) (auto simp: slot_attr_def Let_def upd_span_def)
  next
    case False
    with assms None g k same fresh_key show thesis
      by (intro dropped) (auto simp: slot_attr_def Let_def upd_span_def drop_attr_def split: if_splits option.splits)
  qed
qed

lemma set_value_stores:
  assumes "set_value_internal env key v s = (u, cs, t)" and keys: "distinct (map at_key (sp_attrs (s_span s)))"
  shows "(cs = [] \<and> attr_map t = (attr_map s)(key \<mapsto> v)) \<or>
         (cs = [C_attr_dropped] \<and> attr_map t = attr_map s \<and> attr_map s key = None \<and>
          sp_dropped_attrs (s_span t) = sp_dropped_attrs (s_span s) + 1)"
proof -
  obtain r cs1 s1 where a: "slot_attr env key s = (r, cs1, s1)" by (metis prod_cases3)
  from a show ?thesis
  proof (cases rule: slot_attr_cases)
    case (existing i)
    with assms a attr_map_put [OF keys, of i v] show ?thesis by (auto simp: set_value_internal_def)
  next
    case fresh
    then have "attr_map s1 = (attr_map s)(key \<mapsto> ATTR_INT 0)"
      by (simp add: attr_map_def map_of_snoc del: map_of_append)
    moreover have "distinct (map at_key (sp_attrs (s_span s1)))"
      using fresh keys by (auto simp: attr_map_None image_iff)
    ultimately have "attr_map (put_attr (length (sp_attrs (s_span s))) v s1) = (attr_map s)(key \<mapsto> v)"
      using attr_map_put [of s1 "length (sp_attrs (s_span s))" v] fresh by simp
    with assms a fresh show ?thesis by (simp add: set_value_internal_def)
  next
    case dropped
    with assms a show ?thesis by (simp add: set_value_internal_def attr_map_def)
  qed
qed

section \<open>Captured errors\<close>

lemma record_error_err:
  "slot_record_error env ed s = (u, cs, t) \<Longrightarrow>
     map_option er_elevel (s_err t) =
       (case s_err s of
          Some e \<Rightarrow> Some (max (er_elevel e) (ed_elevel ed)) | None \<Rightarrow> Some (ed_elevel ed)) \<and>
     map_option er_sqlstate (s_err t) =
       (case s_err s of
          Some e \<Rightarrow> Some (if ed_elevel ed < er_elevel e then er_sqlstate e else take 5 (ed_sqlstate ed))
        | None \<Rightarrow> Some (take 5 (ed_sqlstate ed)))"
  by (auto simp: slot_record_error_def upd_span_def Let_def max_def split: if_splits option.splits prod.splits)

definition record_errors :: "env \<Rightarrow> error_data list \<Rightarrow> otel_slot \<Rightarrow> otel_slot" where
  "record_errors env eds s = run_actions env (map Record_error eds) s"

text \<open>The error a list of errors should leave: the last of those with the highest level.\<close>

definition most_severe :: "error_data list \<Rightarrow> error_data" where
  "most_severe eds = last (filter (\<lambda>e. \<forall>d\<in>set eds. ed_elevel d \<le> ed_elevel e) eds)"

lemma most_severe_single: "most_severe [e] = e"
  by (simp add: most_severe_def)

lemma severe_exists:
  assumes "eds \<noteq> []"
  shows "filter (\<lambda>e. \<forall>d\<in>set eds. ed_elevel d \<le> ed_elevel e) eds \<noteq> []"
proof -
  have "Max (ed_elevel ` set eds) \<in> ed_elevel ` set eds"
    using assms by (intro Max_in) auto
  then obtain e where "e \<in> set eds" "ed_elevel e = Max (ed_elevel ` set eds)" by auto
  then have "\<forall>d\<in>set eds. ed_elevel d \<le> ed_elevel e" by simp
  with \<open>e \<in> set eds\<close> show ?thesis by (auto simp: filter_empty_conv)
qed

lemma most_severe_max: "eds \<noteq> [] \<Longrightarrow> most_severe eds \<in> set eds \<and> (\<forall>d\<in>set eds. ed_elevel d \<le> ed_elevel (most_severe eds))"
  using last_in_set [OF severe_exists [of eds]] by (auto simp: most_severe_def)

lemma most_severe_snoc:
  assumes "eds \<noteq> []"
  shows "most_severe (eds @ [e]) =
    (if ed_elevel e < ed_elevel (most_severe eds) then most_severe eds else e)"
proof (cases "ed_elevel e < ed_elevel (most_severe eds)")
  case True
  have "(\<forall>d\<in>set (eds @ [e]). ed_elevel d \<le> ed_elevel x) \<longleftrightarrow> (\<forall>d\<in>set eds. ed_elevel d \<le> ed_elevel x)"
    if "x \<in> set eds" for x
    using True most_severe_max [OF assms] by force
  then have "filter (\<lambda>x. \<forall>d\<in>set (eds @ [e]). ed_elevel d \<le> ed_elevel x) eds
      = filter (\<lambda>x. \<forall>d\<in>set eds. ed_elevel d \<le> ed_elevel x) eds"
    by (intro filter_cong) auto
  moreover have "\<not> (\<forall>d\<in>set (eds @ [e]). ed_elevel d \<le> ed_elevel e)"
    using True most_severe_max [OF assms] by (metis UnI1 linorder_not_le set_append)
  ultimately show ?thesis
    using True by (simp add: most_severe_def)
next
  case False
  then have "\<forall>d\<in>set (eds @ [e]). ed_elevel d \<le> ed_elevel e"
    using most_severe_max [OF assms] by force
  with False show ?thesis by (simp add: most_severe_def)
qed

lemma record_errors_severe:
  assumes "s_err s = None" and "eds \<noteq> []"
  shows "map_option er_elevel (s_err (record_errors env eds s)) = Some (ed_elevel (most_severe eds)) \<and>
     map_option er_sqlstate (s_err (record_errors env eds s)) = Some (take 5 (ed_sqlstate (most_severe eds)))"
  using assms(2)
proof (induction eds rule: rev_induct)
  case (snoc e eds)
  let ?s = "record_errors env eds s"
  obtain u cs t where r: "slot_record_error env e ?s = (u, cs, t)" by (metis prod_cases3)
  have t: "record_errors env (eds @ [e]) s = t"
    using r by (simp add: record_errors_def run_actions_def)
  show ?case
  proof (cases "eds = []")
    case True
    with record_error_err [OF r] assms(1) t show ?thesis
      by (simp add: most_severe_single record_errors_def run_actions_def)
  next
    case False
    with snoc.IH obtain er where er: "s_err ?s = Some er" "er_elevel er = ed_elevel (most_severe eds)"
        "er_sqlstate er = take 5 (ed_sqlstate (most_severe eds))"
      by (auto simp: map_option_case split: option.splits)
    with record_error_err [OF r] t most_severe_snoc [OF False, of e] show ?thesis
      by (auto simp: max_def)
  qed
qed simp

section \<open>Properties\<close>

text \<open>A backend for examples: every allocation succeeds, the default limits, no consumer.\<close>

definition sample_env :: env where
  "sample_env =
     \<lparr>e_crit = False, e_owner = Some 1, e_level = 1, e_pid = 42, e_seed = (5, []), e_now = (\<lambda>g. 1000),
      e_alloc_ok = (\<lambda>x g n. True), e_pool_ok = True, e_enlarge_ok = True, e_slot_cxt_ok = True,
      e_tracer_ok = True, e_forget_ok = (\<lambda>h. True), e_leader_ctx = None, e_root = fresh_root,
      e_sampler = SAMPLER_PARENTBASED_ALWAYS_ON, e_sampler_arg = ratio_one,
      e_hook = Some (\<lambda>sp. \<lparr>hr_refused_calls = 0, hr_exit = Hook_return\<rparr>), e_emit_to_log = False,
      e_log_ok = (\<lambda>sp. True), e_max_open_spans = 64, e_max_session_spans = 16,
      e_attr_value_max = 4096, e_max_span_bytes = 65536, e_mbcliplen = (\<lambda>s n. n)\<rparr>"

definition sample_slot :: otel_slot where
  "sample_slot = zero_slot\<lparr>s_gen := 7, s_attrs_cap := 12, s_cxt := True\<rparr>"

lemma sample_slot_ok: "slot_ok n sample_slot"
  by (simp add: slot_ok_def sample_slot_def zero_slot_def zero_span_def)

text \<open>C31: Whatever setters a producer calls and wherever allocation fails, a span never holds
  more than otel_api.max_span_bytes, its counts stay within its arrays, its attribute keys
  stay distinct and its links valid, and its identity, ownership and place in the free
  list do not change.\<close>

theorem setters_within_budget:
  assumes "slot_ok (e_max_span_bytes env) s"
  shows "slot_ok (e_max_span_bytes env) (run_actions env as s) \<and>
         slot_core (run_actions env as s) = slot_core s"
  using run_actions_evolve [of env s as] assms by (simp add: evolves_def)

theorem setters_within_budget_witness:
  "slot_ok 65536 (run_actions sample_env
     [Set_str ''k'' (Some ''v''), Add_event (Some ''e'') 0 [], Set_value ''n'' (ATTR_INT 3)] sample_slot)"
proof -
  have "slot_ok (e_max_span_bytes sample_env) sample_slot" by (rule sample_slot_ok)
  from setters_within_budget [OF this] show ?thesis by (simp add: sample_env_def)
qed

text \<open>Setting an integer, double or boolean attribute sets exactly that key and no other,
  without counting anything; or, only for a key not yet there, drops it, leaves every
  attribute as it was and counts the drop both in the span and in the backend's counters.\<close>

theorem set_value_sets_or_counts:
  assumes "set_value_internal env key v s = (u, cs, t)" and "slot_ok limit s"
  shows "(cs = [] \<and> attr_map t = (attr_map s)(key \<mapsto> v)) \<or>
         (cs = [C_attr_dropped] \<and> attr_map t = attr_map s \<and> attr_map s key = None \<and>
          sp_dropped_attrs (s_span t) = sp_dropped_attrs (s_span s) + 1)"
  using set_value_stores [OF assms(1)] assms(2) by (simp add: slot_ok_def)

theorem set_value_sets_or_counts_witness:
  "attr_map (snd (snd (set_value_internal sample_env ''k'' (ATTR_BOOL True) sample_slot))) ''k'' = Some (ATTR_BOOL True)"
proof -
  obtain u cs t where r: "set_value_internal sample_env ''k'' (ATTR_BOOL True) sample_slot = (u, cs, t)"
    by (metis prod_cases3)
  have "fst (snd (set_value_internal sample_env ''k'' (ATTR_BOOL True) sample_slot)) = []"
    by (simp add: set_value_internal_def slot_attr_def slot_grow_def slot_strdup_def slot_alloc_def
        sample_slot_def zero_slot_def zero_span_def sample_env_def sizeof_OtelAttribute_def)
  with r set_value_sets_or_counts [OF r sample_slot_ok] show ?thesis by simp
qed

text \<open>Setting a string attribute that already exists, when the new value cannot be copied,
  loses a different attribute: the last one of the span disappears, and the attribute that
  was to be set keeps its old value.\<close>

theorem failed_overwrite_loses_last_attribute:
  assumes "slot_ok limit s" and "sp_attrs (s_span s) = as @ b # bs @ [c]" and "at_key b = key"
    and "slot_strdup env S_attr_value (Some (e_attr_value_max env)) v s = (None, tr, s')"
    and "set_str_internal env key (Some v) s = (u, cs, t)"
  shows "sp_attrs (s_span t) = as @ b # bs \<and> attr_map t (at_key c) = None \<and> attr_map t key = attr_map s key"
proof -
  have keys: "distinct (map at_key (as @ b # bs @ [c]))"
    using assms(1,2) by (simp add: slot_ok_def)
  have "find_attr key (sp_attrs (s_span s)) \<noteq> None"
    using assms(2,3) by (auto simp: find_attr_None)
  then obtain i where i: "find_attr key (sp_attrs (s_span s)) = Some i" by blast
  have "s_span s' = s_span s" using strdup_evolves [OF assms(4)] by simp
  then have t: "sp_attrs (s_span t) = as @ b # bs"
    using assms(2,4,5) i by (auto simp: set_str_internal_def slot_attr_def drop_attr_def upd_span_def butlast_append)
  have b: "map_of (map (\<lambda>a. (at_key a, at_val a)) (as @ b # bs @ x)) key = Some (at_val b)" for x
  proof -
    have "map_of (map (\<lambda>a. (at_key a, at_val a)) as) key = None"
      using keys assms(3) by (auto simp: map_of_eq_None_iff image_iff)
    then show ?thesis using assms(3) by (simp add: map_add_def)
  qed
  have "attr_map t (at_key c) = None"
    using keys by (auto simp: attr_map_None t)
  moreover have "attr_map t key = attr_map s key"
    using b [of "[]"] b [of "[c]"] by (simp add: attr_map_def t assms(2))
  ultimately show ?thesis using t by simp
qed

theorem failed_overwrite_loses_last_attribute_witness:
  "attr_map (snd (snd (set_str_internal (sample_env\<lparr>e_alloc_ok := (\<lambda>x g n. x \<noteq> S_attr_value)\<rparr>) ''a'' (Some ''new'')
     (upd_span (\<lambda>p. p\<lparr>sp_attrs := [\<lparr>at_key = ''a'', at_val = ATTR_INT 1\<rparr>, \<lparr>at_key = ''b'', at_val = ATTR_INT 2\<rparr>]\<rparr>) sample_slot))))
   ''b'' = None"
proof -
  let ?env = "sample_env\<lparr>e_alloc_ok := (\<lambda>x g n. x \<noteq> S_attr_value)\<rparr>"
  let ?s = "upd_span (\<lambda>p. p\<lparr>sp_attrs := [\<lparr>at_key = ''a'', at_val = ATTR_INT 1\<rparr>, \<lparr>at_key = ''b'', at_val = ATTR_INT 2\<rparr>]\<rparr>) sample_slot"
  have ok: "slot_ok 0 ?s"
    by (simp add: slot_ok_def upd_span_def sample_slot_def zero_slot_def zero_span_def)
  have attrs: "sp_attrs (s_span ?s) = [] @ \<lparr>at_key = ''a'', at_val = ATTR_INT 1\<rparr> # [] @ [\<lparr>at_key = ''b'', at_val = ATTR_INT 2\<rparr>]"
    by (simp add: upd_span_def)
  have "fst (slot_strdup ?env S_attr_value (Some (e_attr_value_max ?env)) ''new'' ?s) = None"
    by (simp add: slot_strdup_def slot_alloc_def Let_def)
  then obtain tr s' where fails: "slot_strdup ?env S_attr_value (Some (e_attr_value_max ?env)) ''new'' ?s = (None, tr, s')"
    by (metis prod_cases3 fst_conv)
  obtain u cs t where r: "set_str_internal ?env ''a'' (Some ''new'') ?s = (u, cs, t)"
    by (metis prod_cases3)
  from failed_overwrite_loses_last_attribute [OF ok attrs _ fails r] show ?thesis
    by (simp add: r)
qed

text \<open>Of the errors recorded on a span, the most severe one is kept, and on a tie the
  latest: its severity and SQLSTATE are what the exception event will report.\<close>

theorem most_severe_error_kept:
  assumes "s_err s = None" and "eds \<noteq> []"
  shows "map_option er_elevel (s_err (record_errors env eds s)) = Some (ed_elevel (most_severe eds)) \<and>
     map_option er_sqlstate (s_err (record_errors env eds s)) = Some (take 5 (ed_sqlstate (most_severe eds)))"
  using assms by (rule record_errors_severe)

theorem most_severe_error_kept_witness:
  "map_option er_sqlstate (s_err (record_errors sample_env
     [\<lparr>ed_elevel = 21, ed_sqlstate = ''22012'', ed_message = None, ed_detail = None, ed_hint = None,
       ed_filename = None, ed_funcname = None, ed_lineno = 1\<rparr>,
      \<lparr>ed_elevel = 19, ed_sqlstate = ''01000'', ed_message = None, ed_detail = None, ed_hint = None,
       ed_filename = None, ed_funcname = None, ed_lineno = 2\<rparr>] sample_slot)) = Some ''22012''"
  (is "map_option _ (s_err (record_errors _ ?eds _)) = _")
proof -
  have "s_err sample_slot = None"
    by (simp add: sample_slot_def zero_slot_def)
  from most_severe_error_kept [OF this, of ?eds sample_env] show ?thesis
    by (simp add: most_severe_def)
qed

end
