(* ===== verification/Producer.thy ===== *)
theory Producer
  imports Slot_Facts Parallel Resource
begin

text \<open>
  The span machinery of \<open>otel_api/otel_producer.c\<close>: handles, the active stack, slot and
  non-recording entries with their free lists, starting, ending and dispatching spans, the
  resource-owner and transaction callbacks, the log hook, and the producer API.  The state
  record holds the file's static variables.  Three fields are not in the C code: \<open>st_ledger\<close>
  is what PostgreSQL's resource owners remember on this file's behalf, \<open>st_exported\<close> the
  spans handed to a consumer, \<open>st_prng\<close> the numbers the generator has still to yield.

  An index into the slot array is valid when it lies in the list: a handle whose index has
  its top bit set is treated as stale (the C code compares it as a negative \<open>int\<close>).
\<close>

section \<open>State\<close>

definition OTEL_MAX_STACK_DEPTH :: nat where
  "OTEL_MAX_STACK_DEPTH = 128"

definition OTEL_GEN_MASK :: u32 where
  "OTEL_GEN_MASK = 0x7fffffff"

record otel_nrec =
  n_gen :: u32
  n_owner_released_gen :: u32
  n_next_free :: int
  n_nest_level :: int
  n_detached :: bool
  n_have_span_id :: bool
  n_ctx :: span_context

definition zero_nrec :: otel_nrec where
  "zero_nrec = \<lparr>n_gen = 0, n_owner_released_gen = 0, n_next_free = 0, n_nest_level = 0,
     n_detached = False, n_have_span_id = False, n_ctx = zero_ctx\<rparr>"

text \<open>\<open>span_stack\<close> and \<open>span_stack_meta\<close>, which run in parallel, bottom first.\<close>

record stack_entry =
  se_entry :: int
  se_is_activation :: bool
  se_nest_level :: int

record producer =
  st_stack :: "stack_entry list"
  st_slots :: "otel_slot list"
  st_pool :: bool
  st_nslots :: nat
  st_slot_free_head :: int
  st_session_open :: int
  st_dispatch_depth :: nat
  st_nrecs :: "otel_nrec list"
  st_nrec_free_head :: int
  st_gen_counter :: u32
  st_prng :: "u64 list"
  st_prng_pid :: int
  st_counters :: "counter_id \<Rightarrow> u64"
  st_non_lifo_warned :: bool
  st_exit_registered :: bool
  st_tracers :: "nat \<Rightarrow> instrumentation_scope option"
  st_ledger :: "(owner \<times> i64) list"
  st_exported :: "otel_span list"

definition initial_producer :: producer where
  "initial_producer =
     \<lparr>st_stack = [], st_slots = [], st_pool = False, st_nslots = 0, st_slot_free_head = -1,
      st_session_open = 0, st_dispatch_depth = 0, st_nrecs = [], st_nrec_free_head = -1,
      st_gen_counter = 0, st_prng = [], st_prng_pid = 0, st_counters = (\<lambda>c. 0),
      st_non_lifo_warned = False, st_exit_registered = False, st_tracers = (\<lambda>t. None),
      st_ledger = [], st_exported = []\<rparr>"

definition bump :: "counter_id \<Rightarrow> producer \<Rightarrow> producer" where
  "bump c st = st\<lparr>st_counters := (st_counters st)(c := st_counters st c + 1)\<rparr>"

definition upd_slot :: "nat \<Rightarrow> (otel_slot \<Rightarrow> otel_slot) \<Rightarrow> producer \<Rightarrow> producer" where
  "upd_slot i f st = st\<lparr>st_slots := (st_slots st)[i := f (st_slots st ! i)]\<rparr>"

definition upd_nrec :: "nat \<Rightarrow> (otel_nrec \<Rightarrow> otel_nrec) \<Rightarrow> producer \<Rightarrow> producer" where
  "upd_nrec i f st = st\<lparr>st_nrecs := (st_nrecs st)[i := f (st_nrecs st ! i)]\<rparr>"

section \<open>Handles and IDs\<close>

definition make_ref :: "u32 \<Rightarrow> nat \<Rightarrow> bool \<Rightarrow> i64" where
  "make_ref gen idx recording =
     (let v = push_bit 32 (ucast gen) OR ucast (of_nat idx :: u32)
      in if recording then v else - v)"

definition ref_abs :: "i64 \<Rightarrow> i64" where
  "ref_abs v = (if v <s 0 then - v else v)"

definition ref_gen :: "i64 \<Rightarrow> u32" where
  "ref_gen v = ucast (drop_bit 32 (ref_abs v))"

definition ref_idx :: "i64 \<Rightarrow> int" where
  "ref_idx v = sint (ucast (ref_abs v) :: u32)"

definition seed_prng_if_needed :: "env \<Rightarrow> producer \<Rightarrow> producer" where
  "seed_prng_if_needed env st =
     (if st_prng_pid st = e_pid env then st
      else st\<lparr>st_prng := snd (e_seed env), st_prng_pid := e_pid env,
              st_gen_counter := fst (e_seed env) AND OTEL_GEN_MASK\<rparr>)"

definition next_gen :: "producer \<Rightarrow> u32 \<times> producer" where
  "next_gen st =
     (let g = (st_gen_counter st + 1) AND OTEL_GEN_MASK;
          g' = (if g = 0 then 1 else g)
      in (g', st\<lparr>st_gen_counter := g'\<rparr>))"

fun draw_nonzero :: "u64 list \<Rightarrow> (u64 \<times> u64 list) option" where
  "draw_nonzero [] = None"
| "draw_nonzero (v # vs) = (if v = 0 then draw_nonzero vs else Some (v, vs))"

fun draw_nonzero_pair :: "u64 list \<Rightarrow> (u64 \<times> u64 \<times> u64 list) option" where
  "draw_nonzero_pair (v # w # vs) = (if v = 0 \<and> w = 0 then draw_nonzero_pair vs else Some (v, w, vs))"
| "draw_nonzero_pair _ = None"

definition new_span_id :: "(producer, span_id) op" where
  "new_span_id st =
     (case draw_nonzero (st_prng st) of
        None \<Rightarrow> (Spin, st)
      | Some (v, vs) \<Rightarrow> (Ret (bytes_of_u64 8 v), st\<lparr>st_prng := vs\<rparr>))"

definition new_trace_id :: "(producer, trace_id) op" where
  "new_trace_id st =
     (case draw_nonzero_pair (st_prng st) of
        None \<Rightarrow> (Spin, st)
      | Some (v, w, vs) \<Rightarrow> (Ret (bytes_of_u64 8 v @ bytes_of_u64 8 w), st\<lparr>st_prng := vs\<rparr>))"

text \<open>The index a handle names, when it is current.\<close>

definition slot_for_ref :: "i64 \<Rightarrow> producer \<Rightarrow> nat option \<times> producer" where
  "slot_for_ref s st =
     (let idx = ref_idx s; gen = ref_gen s; valid = (0 \<le> idx \<and> idx < int (length (st_slots st))) in
      if valid \<and> s_gen (st_slots st ! nat idx) = gen then (Some (nat idx), st)
      else if valid \<and> s_owner_released_gen (st_slots st ! nat idx) = gen then (None, st)
      else (None, bump C_stale_handle st))"

definition nrec_for_ref :: "i64 \<Rightarrow> producer \<Rightarrow> nat option \<times> producer" where
  "nrec_for_ref s st =
     (let idx = ref_idx s; gen = ref_gen s; valid = (0 \<le> idx \<and> idx < int (length (st_nrecs st))) in
      if valid \<and> n_gen (st_nrecs st ! nat idx) = gen then (Some (nat idx), st)
      else if valid \<and> n_owner_released_gen (st_nrecs st ! nat idx) = gen then (None, st)
      else (None, bump C_stale_handle st))"

section \<open>The active stack\<close>

definition stack_entry_for_slot :: "nat \<Rightarrow> int" where
  "stack_entry_for_slot idx = int idx"

definition stack_entry_for_nrec :: "nat \<Rightarrow> int" where
  "stack_entry_for_nrec idx = - int idx - 1"

definition stack_find :: "int \<Rightarrow> producer \<Rightarrow> nat option" where
  "stack_find entry st = find_top (\<lambda>e. se_entry e = entry) (st_stack st)"

definition stack_push :: "int \<Rightarrow> bool \<Rightarrow> int \<Rightarrow> producer \<Rightarrow> producer" where
  "stack_push entry is_activation nest_level st =
     st\<lparr>st_stack := st_stack st @
          [\<lparr>se_entry = entry, se_is_activation = is_activation, se_nest_level = nest_level\<rparr>]\<rparr>"

definition stack_remove_at :: "nat \<Rightarrow> producer \<Rightarrow> producer" where
  "stack_remove_at pos st = st\<lparr>st_stack := remove_at pos (st_stack st)\<rparr>"

definition stack_pop :: "producer \<Rightarrow> producer" where
  "stack_pop st = st\<lparr>st_stack := butlast (st_stack st)\<rparr>"

definition nonlifo_warning :: "producer \<Rightarrow> producer" where
  "nonlifo_warning st = (bump C_non_lifo_end st)\<lparr>st_non_lifo_warned := True\<rparr>"

definition free_nrec :: "nat \<Rightarrow> bool \<Rightarrow> producer \<Rightarrow> producer" where
  "free_nrec idx by_owner st =
     (upd_nrec idx (\<lambda>n. (if by_owner then n\<lparr>n_owner_released_gen := n_gen n\<rparr> else n)
                           \<lparr>n_gen := 0, n_next_free := st_nrec_free_head st\<rparr>) st)
       \<lparr>st_nrec_free_head := int idx\<rparr>"

section \<open>Releasing slots\<close>

text \<open>\<open>ResourceOwnerForget\<close>: it raises ERROR once the owner has started releasing.\<close>

definition owner_forget :: "env \<Rightarrow> owner \<Rightarrow> i64 \<Rightarrow> (producer, unit) op" where
  "owner_forget env owner h st =
     (if \<not> e_forget_ok env h then (Throw, st)
      else (Ret (), st\<lparr>st_ledger := remove1 (owner, h) (st_ledger st)\<rparr>))"

definition reset_slot :: "nat \<Rightarrow> u32 \<Rightarrow> producer \<Rightarrow> producer" where
  "reset_slot idx released st =
     (let slot = st_slots st ! idx;
          st1 = (if s_session slot then st\<lparr>st_session_open := st_session_open st - 1\<rparr> else st)
      in (upd_slot idx (\<lambda>s. zero_slot\<lparr>s_cxt := s_cxt s, s_owner_released_gen := released,
                                     s_next_free := st_slot_free_head st\<rparr>) st1)
           \<lparr>st_slot_free_head := int idx\<rparr>)"

definition release_slot :: "env \<Rightarrow> nat \<Rightarrow> bool \<Rightarrow> (producer, unit) op" where
  "release_slot env idx by_owner st =
     (let slot = st_slots st ! idx;
          released = (if by_owner then s_gen slot else s_owner_released_gen slot);
          forget = (case s_owner slot of
                      Some ow \<Rightarrow> if \<not> by_owner then owner_forget env ow (make_ref (s_gen slot) idx True) else ret ()
                    | None \<Rightarrow> ret ())
      in and_then forget (\<lambda>_. modify (reset_slot idx released)) st)"

section \<open>Ending and dispatching\<close>

fun bump_n :: "nat \<Rightarrow> counter_id \<Rightarrow> producer \<Rightarrow> producer" where
  "bump_n 0 c st = st"
| "bump_n (Suc n) c st = bump_n n c (bump c st)"

text \<open>
  The consumer's run: what the hook does, then the log line, in a \<open>PG_TRY\<close>.  An ERROR is
  swallowed with \<open>dispatch_depth\<close> restored; a FATAL never comes back, so the depth stays
  raised.
\<close>

definition dispatch_span :: "env \<Rightarrow> otel_span \<Rightarrow> (producer, unit) op" where
  "dispatch_span env sp st =
     (if e_hook env = None \<and> \<not> e_emit_to_log env then (Ret (), st)
      else
        let save_depth = st_dispatch_depth st;
            st1 = st\<lparr>st_dispatch_depth := save_depth + 1, st_exported := st_exported st @ [sp]\<rparr>;
            run = (case e_hook env of None \<Rightarrow> \<lparr>hr_refused_calls = 0, hr_exit = Hook_return\<rparr> | Some h \<Rightarrow> h sp);
            st2 = bump_n (hr_refused_calls run) C_in_emit_hook st1;
            failed = (\<lambda>st. (Ret (), bump C_spans_emitted
                              (bump C_emit_hook_errors (st\<lparr>st_dispatch_depth := save_depth\<rparr>))))
        in case hr_exit run of
             Hook_fatal \<Rightarrow> (Fatal, st2)
           | Hook_error \<Rightarrow> failed st2
           | Hook_return \<Rightarrow>
               if e_emit_to_log env \<and> \<not> e_log_ok env sp then failed st2
               else (Ret (), bump C_spans_emitted (st2\<lparr>st_dispatch_depth := st_dispatch_depth st2 - 1\<rparr>)))"

text \<open>The slot as it is handed to the consumer.\<close>

definition finish_slot :: "env \<Rightarrow> int \<Rightarrow> string option \<Rightarrow> otel_slot \<Rightarrow> otel_slot" where
  "finish_slot env end_time unwind_reason slot =
     (let s1 = (case unwind_reason of
                  None \<Rightarrow> slot
                | Some reason \<Rightarrow>
                    (let s = upd_span (\<lambda>p. p\<lparr>sp_status := STATUS_ERROR\<rparr>) slot in
                     if s_err s = None \<and> sp_description (s_span s) = None
                     then upd_span (\<lambda>p. p\<lparr>sp_description := Some reason\<rparr>) s else s));
          s2 = upd_span (\<lambda>p. p\<lparr>sp_end_time := (if end_time \<noteq> 0 then end_time else e_now env (s_gen slot))\<rparr>) s1;
          s3 = (case s_err s2 of None \<Rightarrow> s2 | Some err \<Rightarrow> lower_error_event env err s2)
      in s3\<lparr>s_dispatching := True\<rparr>)"

text \<open>\<open>unwind_reason = None\<close> is the source's \<open>unwinding = false\<close>.\<close>

definition end_slot :: "env \<Rightarrow> nat \<Rightarrow> int \<Rightarrow> string option \<Rightarrow> (producer, unit) op" where
  "end_slot env idx end_time unwind_reason st =
     (let slot = st_slots st ! idx;
          forget = (case s_owner slot of
                      Some ow \<Rightarrow> and_then (owner_forget env ow (make_ref (s_gen slot) idx True))
                                  (\<lambda>_. modify (upd_slot idx (\<lambda>s. s\<lparr>s_owner := None\<rparr>)))
                    | None \<Rightarrow> ret ())
      in and_then forget (\<lambda>_.
         and_then (modify (\<lambda>st. (if unwind_reason \<noteq> None then bump C_unwound st else st))) (\<lambda>_.
         and_then (modify (upd_slot idx (finish_slot env end_time unwind_reason))) (\<lambda>_.
         and_then (\<lambda>st. dispatch_span env (s_span (st_slots st ! idx)) st) (\<lambda>_.
         and_then (modify (upd_slot idx (\<lambda>s. s\<lparr>s_dispatching := False\<rparr>))) (\<lambda>_.
         release_slot env idx False))))) st)"

text \<open>
  The unwinding loop: \<open>end_slot\<close> leaves the stack alone (\<open>end_slot_outcome\<close> in theory
  \<open>Producer_Ending\<close>), so it runs once for each entry above \<open>pos\<close>, counted at the start.
\<close>

fun unwind_entries :: "env \<Rightarrow> string \<Rightarrow> nat \<Rightarrow> (producer, unit) op" where
  "unwind_entries env reason 0 st = (Ret (), st)"
| "unwind_entries env reason (Suc n) st =
     (let e = last (st_stack st); st1 = stack_pop st in
      if se_is_activation e then unwind_entries env reason n (bump C_activation_unwound st1)
      else if se_entry e \<ge> 0
           then and_then (end_slot env (nat (se_entry e)) 0 (Some reason))
                  (\<lambda>_. unwind_entries env reason n) st1
           else unwind_entries env reason n (free_nrec (nat (- se_entry e - 1)) False st1))"

definition stack_unwind_above :: "env \<Rightarrow> nat \<Rightarrow> string \<Rightarrow> (producer, unit) op" where
  "stack_unwind_above env pos reason st =
     unwind_entries env reason (length (st_stack st) - (pos + 1)) st"

end
