(* ===== verification/Producer_Api.thy ===== *)
theory Producer_Api
  imports Producer
begin

text \<open>
  The producer API of \<open>otel_api/otel_producer.c\<close>: starting spans (parents, sampling, slot
  allocation), ending, setters, contexts, activation, and the callbacks core makes at
  resource-owner release, transaction end, error emission and exit.  Each \<open>api_\<close> operation
  is the C function of that name; the inline wrappers of \<open>otel_producer.h\<close> are at the end.
\<close>

section \<open>Parents\<close>

datatype resolved_parent = P_none | P_remote span_context | P_slot nat | P_nrec nat

datatype span_parent = PARENT_ACTIVE | PARENT_CONTEXT | PARENT_SPAN | PARENT_ROOT

datatype owner_arg = OWNER_DEFAULT | OWNER_SESSION | OWNER_GIVEN owner

record tracer =
  tr_id :: nat
  tr_name :: "string option"
  tr_version :: "string option"
  tr_schema_url :: "string option"

record start_args =
  sa_struct_size :: nat
  sa_tracer :: "tracer option"
  sa_name :: "string option"
  sa_kind :: span_kind
  sa_parent :: span_parent
  sa_parent_ctx :: "span_context option"
  sa_parent_span :: i64
  sa_owner :: owner_arg
  sa_detached :: bool
  sa_scoped :: bool
  sa_start_time :: int
  sa_force_sample :: bool

definition sizeof_OtelSpanStartArgs :: nat where
  "sizeof_OtelSpanStartArgs = 80"

definition resolve_from_entry :: "int \<Rightarrow> resolved_parent" where
  "resolve_from_entry e = (if e \<ge> 0 then P_slot (nat e) else P_nrec (nat (- e - 1)))"

definition resolve_active_parent :: "env \<Rightarrow> producer \<Rightarrow> resolved_parent" where
  "resolve_active_parent env st =
     (if st_stack st \<noteq> [] then resolve_from_entry (se_entry (last (st_stack st)))
      else case e_leader_ctx env of
             Some c \<Rightarrow> P_remote c
           | None \<Rightarrow>
               if rc_is_set (rs_root (e_root env)) then P_remote (rc_ctx (api_get_root_context (e_root env)))
               else P_none)"

definition resolve_parent :: "env \<Rightarrow> start_args \<Rightarrow> producer \<Rightarrow> resolved_parent option \<times> producer" where
  "resolve_parent env args st =
     (case sa_parent args of
        PARENT_ACTIVE \<Rightarrow> (Some (resolve_active_parent env st), st)
      | PARENT_CONTEXT \<Rightarrow>
          (case sa_parent_ctx args of
             Some c \<Rightarrow> if otel_span_context_is_valid c then (Some (P_remote c), st) else (Some P_none, st)
           | None \<Rightarrow> (Some P_none, st))
      | PARENT_SPAN \<Rightarrow>
          if 0 <s sa_parent_span args
          then (case slot_for_ref (sa_parent_span args) st of
                  (None, st1) \<Rightarrow> (None, st1) | (Some i, st1) \<Rightarrow> (Some (P_slot i), st1))
          else if sa_parent_span args <s 0
          then (case nrec_for_ref (sa_parent_span args) st of
                  (None, st1) \<Rightarrow> (None, st1) | (Some i, st1) \<Rightarrow> (Some (P_nrec i), st1))
          else (Some P_none, st)
      | PARENT_ROOT \<Rightarrow> (Some P_none, st))"

section \<open>Slot allocation\<close>

definition ensure_pool :: "env \<Rightarrow> producer \<Rightarrow> bool \<times> producer" where
  "ensure_pool env st =
     (if st_pool st then (True, st)
      else let st1 = st\<lparr>st_nslots := e_max_open_spans env\<rparr> in
           if \<not> e_pool_ok env then (False, st1) else (True, st1\<lparr>st_pool := True\<rparr>))"

definition take_slot :: "env \<Rightarrow> (producer, nat option) op" where
  "take_slot env st =
     (let found =
        (if st_slot_free_head st \<ge> 0
         then (let idx = nat (st_slot_free_head st)
               in Some (idx, st\<lparr>st_slot_free_head := s_next_free (st_slots st ! idx)\<rparr>))
         else if length (st_slots st) < st_nslots st
         then Some (length (st_slots st), st\<lparr>st_slots := st_slots st @ [zero_slot]\<rparr>)
         else None)
      in case found of
           None \<Rightarrow> (Ret None, st)
         | Some (idx, st1) \<Rightarrow>
             if s_cxt (st_slots st1 ! idx) then (Ret (Some idx), st1)
             else if e_slot_cxt_ok env then (Ret (Some idx), upd_slot idx (\<lambda>s. s\<lparr>s_cxt := True\<rparr>) st1)
             else (Throw, (upd_slot idx (\<lambda>s. s\<lparr>s_next_free := st_slot_free_head st1\<rparr>) st1)
                            \<lparr>st_slot_free_head := int idx\<rparr>))"

text \<open>Take a non-recording entry, from the free list or the unused rest of the array.\<close>

definition take_nrec :: "producer \<Rightarrow> (nat \<times> producer) option" where
  "take_nrec st =
     (if st_nrec_free_head st \<ge> 0
      then (let idx = nat (st_nrec_free_head st)
            in Some (idx, st\<lparr>st_nrec_free_head := n_next_free (st_nrecs st ! idx)\<rparr>))
      else if length (st_nrecs st) < OTEL_MAX_STACK_DEPTH
      then Some (length (st_nrecs st), st\<lparr>st_nrecs := st_nrecs st @ [zero_nrec]\<rparr>)
      else None)"

definition start_nrec :: "env \<Rightarrow> start_args \<Rightarrow> trace_id \<Rightarrow> u8 \<Rightarrow> producer \<Rightarrow> i64 \<times> producer" where
  "start_nrec env args tid random_flag st =
     (if \<not> sa_detached args \<and> length (st_stack st) \<ge> OTEL_MAX_STACK_DEPTH
      then (0, bump C_start_stack_full st)
      else case take_nrec st of
             None \<Rightarrow> (0, bump C_start_stack_full st)
           | Some (idx, st1) \<Rightarrow>
               (let (g, st2) = next_gen st1;
                    level = (if sa_owner args = OWNER_SESSION \<or>
                                (sa_owner args = OWNER_DEFAULT \<and> e_owner env = None)
                             then 0 else e_level env);
                    st3 = upd_nrec idx (\<lambda>n. n\<lparr>n_gen := g, n_nest_level := level,
                             n_detached := sa_detached args, n_have_span_id := False,
                             n_ctx := \<lparr>trace_id = tid, span_id = zero_span_id, trace_flags = random_flag,
                                       tracestate = None\<rparr>\<rparr>) st2;
                    st4 = (if \<not> sa_detached args then stack_push (stack_entry_for_nrec idx) False 0 st3 else st3)
                in (make_ref g idx False, bump C_spans_unsampled st4)))"

section \<open>Starting a span\<close>

definition call_refused :: "env \<Rightarrow> bool \<Rightarrow> producer \<Rightarrow> bool \<times> producer" where
  "call_refused env read_only st =
     (if e_crit env then (True, bump C_in_crit_section st)
      else if st_dispatch_depth st > 0 \<and> \<not> read_only then (True, bump C_in_emit_hook st)
      else (False, st))"

text \<open>The switch on the parent: trace ID, parent flags, sampling decision.  A non-recording
  parent is handled by the caller.\<close>

definition start_decision ::
    "env \<Rightarrow> start_args \<Rightarrow> resolved_parent \<Rightarrow> (producer, trace_id \<times> u8 \<times> sampler_decision) op" where
  "start_decision env args p st =
     (case p of
        P_slot i \<Rightarrow>
          (let sp = s_span (st_slots st ! i) in
           (Ret (sp_trace_id sp, sp_trace_flags sp,
                 if sp_trace_flags sp AND OTEL_TRACE_FLAG_SAMPLED \<noteq> 0 then SAMPLE_RECORD_AND_SAMPLE
                 else SAMPLE_RECORD_ONLY), st))
      | P_remote c \<Rightarrow>
          (Ret (trace_id c, trace_flags c,
                otel_run_sampler (e_sampler env) (e_sampler_arg env) (trace_id c) False
                  (otel_span_context_sampled c)), st)
      | _ \<Rightarrow>
          and_then new_trace_id
            (\<lambda>tid. ret (tid, OTEL_TRACE_FLAG_RANDOM,
               if sa_force_sample args then SAMPLE_RECORD_AND_SAMPLE
               else otel_run_sampler (e_sampler env) (e_sampler_arg env) tid True False)) st)"

definition start_owner :: "env \<Rightarrow> start_args \<Rightarrow> owner option" where
  "start_owner env args =
     (case sa_owner args of OWNER_SESSION \<Rightarrow> None | OWNER_GIVEN ow \<Rightarrow> Some ow | OWNER_DEFAULT \<Rightarrow> e_owner env)"

text \<open>Registering the tracer's scope on first use; the scope the span gets.\<close>

definition start_scope :: "env \<Rightarrow> start_args \<Rightarrow> (producer, instrumentation_scope option) op" where
  "start_scope env args st =
     (case sa_tracer args of
        None \<Rightarrow> (Ret None, st)
      | Some t \<Rightarrow>
          if st_tracers st (tr_id t) = None \<and> tr_name t \<noteq> None
          then if \<not> e_tracer_ok env then (Throw, st)
               else (case otel_tracer_register (tr_name t) (tr_version t) (tr_schema_url t) of
                       None \<Rightarrow> (Throw, st)
                     | Some sc \<Rightarrow> (Ret (Some sc), st\<lparr>st_tracers := (st_tracers st)(tr_id t := Some sc)\<rparr>))
          else (Ret (st_tracers st (tr_id t)), st))"

definition parent_tracestate :: "resolved_parent \<Rightarrow> producer \<Rightarrow> string option" where
  "parent_tracestate p st =
     (case p of
        P_slot i \<Rightarrow> sp_tracestate (s_span (st_slots st ! i))
      | P_remote c \<Rightarrow> tracestate c
      | _ \<Rightarrow> None)"

definition parent_span_id :: "resolved_parent \<Rightarrow> producer \<Rightarrow> span_id" where
  "parent_span_id p st =
     (case p of
        P_slot i \<Rightarrow> sp_span_id (s_span (st_slots st ! i))
      | P_remote c \<Rightarrow> span_id c
      | _ \<Rightarrow> zero_span_id)"

text \<open>Filling a freshly taken slot, once its generation and span ID are known.\<close>

definition fill_slot ::
    "env \<Rightarrow> start_args \<Rightarrow> trace_id \<Rightarrow> u8 \<Rightarrow> sampler_decision \<Rightarrow> instrumentation_scope option
       \<Rightarrow> span_id \<Rightarrow> string option \<Rightarrow> span_id \<Rightarrow> otel_slot \<Rightarrow> otel_slot" where
  "fill_slot env args tid parent_flags decision scope parent_id parent_ts sid slot =
     (let s1 = upd_span (\<lambda>p. p\<lparr>sp_kind := sa_kind args, sp_scope := scope, sp_trace_id := tid, sp_span_id := sid,
                 sp_parent_span_id := parent_id\<rparr>) slot;
          s2 = (case parent_ts of None \<Rightarrow> s1
                | Some t \<Rightarrow> (case slot_strdup env S_tracestate None t s1 of
                              (c, _, s) \<Rightarrow> upd_span (\<lambda>p. p\<lparr>sp_tracestate := c\<rparr>) s));
          s3 = upd_span (\<lambda>p. p\<lparr>sp_trace_flags := (parent_flags AND NOT OTEL_TRACE_FLAG_SAMPLED) OR
                    (if decision = SAMPLE_RECORD_AND_SAMPLE then OTEL_TRACE_FLAG_SAMPLED else 0),
                 sp_decision := decision\<rparr>) s2
      in case slot_strdup env S_name (Some (e_attr_value_max env)) (the (sa_name args)) s3 of
           (c, _, s4) \<Rightarrow>
             upd_span (\<lambda>p. p\<lparr>sp_name := (case c of Some n \<Rightarrow> n | None \<Rightarrow> ''(out of memory)''),
               sp_start_time := (if sa_start_time args \<noteq> 0 then sa_start_time args
                                 else e_now env (s_gen s4))\<rparr>) s4)"

definition init_slot ::
    "env \<Rightarrow> start_args \<Rightarrow> resolved_parent \<Rightarrow> trace_id \<Rightarrow> u8 \<Rightarrow> sampler_decision
       \<Rightarrow> instrumentation_scope option \<Rightarrow> nat \<Rightarrow> (producer, i64) op" where
  "init_slot env args p tid parent_flags decision scope idx st =
     (let owner = start_owner env args;
          (g, st1) = next_gen st;
          st2 = upd_slot idx (\<lambda>s. s\<lparr>s_gen := g, s_detached := sa_detached args, s_session := (owner = None),
                  s_owner := owner, s_attrs_cap := OTEL_SLOT_INLINE_ATTRS\<rparr>) st1;
          ref = make_ref g idx True
      in and_then new_span_id (\<lambda>sid.
         and_then (\<lambda>st. modify (upd_slot idx (fill_slot env args tid parent_flags decision scope
                     (parent_span_id p st) (parent_tracestate p st) sid)) st) (\<lambda>_.
         and_then (modify (\<lambda>st. if \<not> sa_detached args then stack_push (stack_entry_for_slot idx) False 0 st else st)) (\<lambda>_.
         and_then (modify (\<lambda>st. case owner of
              Some ow \<Rightarrow> st\<lparr>st_ledger := (ow, ref) # st_ledger st\<rparr>
            | None \<Rightarrow> st\<lparr>st_session_open := st_session_open st + 1, st_exit_registered := True\<rparr>)) (\<lambda>_.
         and_then (modify (bump C_spans_started)) (\<lambda>_.
         ret ref))))) st2)"

definition start_recording ::
    "env \<Rightarrow> start_args \<Rightarrow> resolved_parent \<Rightarrow> trace_id \<Rightarrow> u8 \<Rightarrow> sampler_decision \<Rightarrow> (producer, i64) op" where
  "start_recording env args p tid parent_flags decision st =
     (let owner = start_owner env args in
      if owner = None \<and> st_session_open st \<ge> e_max_session_spans env
      then (Ret 0, bump C_start_no_session_slot st)
      else if \<not> sa_detached args \<and> length (st_stack st) \<ge> OTEL_MAX_STACK_DEPTH
      then (Ret 0, bump C_start_stack_full st)
      else case ensure_pool env st of
             (False, st1) \<Rightarrow> (Ret 0, bump C_start_no_slot st1)
           | (True, st1) \<Rightarrow>
               and_then (start_scope env args) (\<lambda>scope.
               and_then (\<lambda>st. if owner \<noteq> None \<and> \<not> e_enlarge_ok env then (Throw, st) else (Ret (), st)) (\<lambda>_.
               and_then (take_slot env) (\<lambda>found.
               case found of
                 None \<Rightarrow> and_then (modify (bump C_start_no_slot)) (\<lambda>_. ret 0)
               | Some idx \<Rightarrow> init_slot env args p tid parent_flags decision scope idx))) st1)"

definition api_span_start :: "env \<Rightarrow> start_args option \<Rightarrow> (producer, i64) op" where
  "api_span_start env args0 st =
     (case call_refused env False st of
        (True, st1) \<Rightarrow> (Ret 0, st1)
      | (False, st1) \<Rightarrow>
          (case args0 of
             None \<Rightarrow> (Ret 0, bump C_start_bad_args st1)
           | Some args \<Rightarrow>
               if sa_struct_size args < sizeof_OtelSpanStartArgs \<or> sa_name args = None
               then (Ret 0, bump C_start_bad_args st1)
               else (case resolve_parent env args (seed_prng_if_needed env st1) of
                       (None, st2) \<Rightarrow> (Ret 0, bump C_start_bad_args st2)
                     | (Some (P_nrec i), st2) \<Rightarrow>
                         (let c = n_ctx (st_nrecs st2 ! i);
                              (ref, st3) = start_nrec env args (trace_id c)
                                             (trace_flags c AND OTEL_TRACE_FLAG_RANDOM) st2
                          in (Ret ref, st3))
                     | (Some p, st2) \<Rightarrow>
                         and_then (start_decision env args p) (\<lambda>(tid, parent_flags, decision).
                           if decision = SAMPLE_DROP
                           then (\<lambda>st. let (ref, st3) = start_nrec env args tid
                                                          (parent_flags AND OTEL_TRACE_FLAG_RANDOM) st
                                      in (Ret ref, st3))
                           else start_recording env args p tid parent_flags decision) st2)))"

section \<open>Ending a span\<close>

text \<open>Taking an entry off the stack, unwinding what lies above it.\<close>

definition leave_stack :: "env \<Rightarrow> int \<Rightarrow> string \<Rightarrow> (producer, unit) op" where
  "leave_stack env entry reason st =
     (case stack_find entry st of
        None \<Rightarrow> (Ret (), st)
      | Some pos \<Rightarrow>
          and_then (\<lambda>st. if pos \<noteq> length (st_stack st) - 1
                         then stack_unwind_above env pos reason (nonlifo_warning st)
                         else (Ret (), st)) (\<lambda>_.
          modify stack_pop) st)"

definition api_span_end :: "env \<Rightarrow> i64 \<Rightarrow> int \<Rightarrow> (producer, unit) op" where
  "api_span_end env s end_time st =
     (case call_refused env False st of
        (True, st1) \<Rightarrow> (Ret (), st1)
      | (False, st1) \<Rightarrow>
          if s = 0 then (Ret (), st1)
          else if s <s 0
          then (case nrec_for_ref s st1 of
                  (None, st2) \<Rightarrow> (Ret (), st2)
                | (Some idx, st2) \<Rightarrow>
                    and_then (leave_stack env (stack_entry_for_nrec idx) ''parent span ended first'')
                      (\<lambda>_. modify (free_nrec idx False)) st2)
          else (case slot_for_ref s st1 of
                  (None, st2) \<Rightarrow> (Ret (), st2)
                | (Some idx, st2) \<Rightarrow>
                    and_then (leave_stack env (stack_entry_for_slot idx) ''parent span ended first'')
                      (\<lambda>_. end_slot env idx end_time None) st2))"

section \<open>Setters\<close>

definition setter_slot :: "env \<Rightarrow> i64 \<Rightarrow> producer \<Rightarrow> nat option \<times> producer" where
  "setter_slot env s st =
     (case call_refused env False st of
        (True, st1) \<Rightarrow> (None, st1)
      | (False, st1) \<Rightarrow> if s \<le>s 0 then (None, st1) else slot_for_ref s st1)"

definition apply_setter :: "env \<Rightarrow> i64 \<Rightarrow> unit slot_op \<Rightarrow> producer \<Rightarrow> producer" where
  "apply_setter env s f st =
     (case setter_slot env s st of
        (None, st1) \<Rightarrow> st1
      | (Some idx, st1) \<Rightarrow>
          (case f (st_slots st1 ! idx) of
             (_, cs, slot) \<Rightarrow> fold bump cs (upd_slot idx (\<lambda>_. slot) st1)))"

definition api_span_set_str :: "env \<Rightarrow> i64 \<Rightarrow> string \<Rightarrow> string option \<Rightarrow> producer \<Rightarrow> producer" where
  "api_span_set_str env s key val = apply_setter env s (set_str_internal env key val)"

definition api_span_set_int :: "env \<Rightarrow> i64 \<Rightarrow> string \<Rightarrow> i64 \<Rightarrow> producer \<Rightarrow> producer" where
  "api_span_set_int env s key val = apply_setter env s (set_value_internal env key (ATTR_INT val))"

definition api_span_set_double :: "env \<Rightarrow> i64 \<Rightarrow> string \<Rightarrow> u64 \<Rightarrow> producer \<Rightarrow> producer" where
  "api_span_set_double env s key val = apply_setter env s (set_value_internal env key (ATTR_DOUBLE val))"

definition api_span_set_bool :: "env \<Rightarrow> i64 \<Rightarrow> string \<Rightarrow> bool \<Rightarrow> producer \<Rightarrow> producer" where
  "api_span_set_bool env s key val = apply_setter env s (set_value_internal env key (ATTR_BOOL val))"

definition api_span_set_vprintf :: "env \<Rightarrow> i64 \<Rightarrow> string \<Rightarrow> string \<Rightarrow> producer \<Rightarrow> producer" where
  "api_span_set_vprintf env s key out = apply_setter env s (set_vprintf_internal env key out)"

definition api_span_set_name :: "env \<Rightarrow> i64 \<Rightarrow> string option \<Rightarrow> producer \<Rightarrow> producer" where
  "api_span_set_name env s name = apply_setter env s (set_name_internal env name)"

definition api_span_set_status :: "env \<Rightarrow> i64 \<Rightarrow> span_status \<Rightarrow> string option \<Rightarrow> producer \<Rightarrow> producer" where
  "api_span_set_status env s code desc = apply_setter env s (set_status_internal env code desc)"

definition api_span_add_event :: "env \<Rightarrow> i64 \<Rightarrow> string option \<Rightarrow> int \<Rightarrow> attribute list \<Rightarrow> producer \<Rightarrow> producer" where
  "api_span_add_event env s name ts attrs = apply_setter env s (add_event_internal env name ts attrs)"

definition api_span_add_link :: "env \<Rightarrow> i64 \<Rightarrow> span_context option \<Rightarrow> producer \<Rightarrow> producer" where
  "api_span_add_link env s target = apply_setter env s (add_link_internal env target)"

definition api_span_record_error :: "env \<Rightarrow> i64 \<Rightarrow> error_data option \<Rightarrow> producer \<Rightarrow> producer" where
  "api_span_record_error env s ed =
     apply_setter env s (case ed of None \<Rightarrow> (\<lambda>slot. ((), [], slot)) | Some e \<Rightarrow> slot_record_error env e)"

text \<open>
  \<open>handled\<close> is the error being handled; \<open>copy_ok\<close> whether \<open>CopyErrorData\<close> succeeds.  An
  out-of-memory error is recorded from its code alone.
\<close>

definition oom_error :: error_data where
  "oom_error = \<lparr>ed_elevel = ERROR_level, ed_sqlstate = ERRCODE_OUT_OF_MEMORY, ed_message = None,
     ed_detail = None, ed_hint = None, ed_filename = None, ed_funcname = None, ed_lineno = 0\<rparr>"

definition api_span_capture_error :: "env \<Rightarrow> i64 \<Rightarrow> error_data \<Rightarrow> bool \<Rightarrow> (producer, unit) op" where
  "api_span_capture_error env s handled copy_ok st =
     (case setter_slot env s st of
        (None, st1) \<Rightarrow> (Ret (), st1)
      | (Some idx, st1) \<Rightarrow>
          if ed_sqlstate handled \<noteq> ERRCODE_OUT_OF_MEMORY \<and> \<not> copy_ok then (Throw, st1)
          else (let ed = (if ed_sqlstate handled = ERRCODE_OUT_OF_MEMORY then oom_error else handled) in
                case slot_record_error env ed (st_slots st1 ! idx) of
                  (_, cs, slot) \<Rightarrow> (Ret (), fold bump cs (upd_slot idx (\<lambda>_. slot) st1))))"

section \<open>The current span and contexts\<close>

definition entry_ref :: "int \<Rightarrow> producer \<Rightarrow> i64" where
  "entry_ref e st =
     (if e \<ge> 0 then make_ref (s_gen (st_slots st ! nat e)) (nat e) True
      else make_ref (n_gen (st_nrecs st ! nat (- e - 1))) (nat (- e - 1)) False)"

definition api_span_current :: "env \<Rightarrow> producer \<Rightarrow> i64 \<times> producer" where
  "api_span_current env st =
     (case call_refused env True st of
        (True, st1) \<Rightarrow> (0, st1)
      | (False, st1) \<Rightarrow>
          if st_stack st1 = [] then (0, st1) else (entry_ref (se_entry (last (st_stack st1))) st1, st1))"

definition nrec_context :: "env \<Rightarrow> nat \<Rightarrow> (producer, span_context) op" where
  "nrec_context env idx st =
     and_then (if \<not> n_have_span_id (st_nrecs st ! idx)
               then (\<lambda>st. and_then new_span_id
                  (\<lambda>sid. modify (upd_nrec idx (\<lambda>n. n\<lparr>n_ctx := (n_ctx n)\<lparr>span_id := sid\<rparr>, n_have_span_id := True\<rparr>)))
                  (seed_prng_if_needed env st))
               else ret ()) (\<lambda>_ st. (Ret (n_ctx (st_nrecs st ! idx)), st)) st"

definition slot_context :: "otel_slot \<Rightarrow> span_context" where
  "slot_context slot =
     (let p = s_span slot in
      \<lparr>trace_id = sp_trace_id p, span_id = sp_span_id p, trace_flags = sp_trace_flags p,
       tracestate = sp_tracestate p\<rparr>)"

definition context_of_ref :: "env \<Rightarrow> i64 \<Rightarrow> (producer, span_context option) op" where
  "context_of_ref env s st =
     (if 0 <s s
      then (case slot_for_ref s st of
              (None, st1) \<Rightarrow> (Ret None, st1)
            | (Some i, st1) \<Rightarrow> (Ret (Some (slot_context (st_slots st1 ! i))), st1))
      else (case nrec_for_ref s st of
              (None, st1) \<Rightarrow> (Ret None, st1)
            | (Some i, st1) \<Rightarrow> and_then (nrec_context env i) (\<lambda>c. ret (Some c)) st1))"

definition otel_span_context_of_internal :: "env \<Rightarrow> i64 \<Rightarrow> (producer, span_context option) op" where
  "otel_span_context_of_internal env s st =
     (if s = 0
      then (case resolve_active_parent env st of
              P_slot i \<Rightarrow> context_of_ref env (make_ref (s_gen (st_slots st ! i)) i True) st
            | P_nrec i \<Rightarrow> and_then (nrec_context env i) (\<lambda>c. ret (Some c)) st
            | P_remote c \<Rightarrow> (Ret (Some c), st)
            | P_none \<Rightarrow> (Ret None, st))
      else context_of_ref env s st)"

definition api_span_context_of :: "env \<Rightarrow> i64 \<Rightarrow> (producer, span_context option) op" where
  "api_span_context_of env s st =
     (case call_refused env True st of
        (True, st1) \<Rightarrow> (Ret None, st1)
      | (False, st1) \<Rightarrow> otel_span_context_of_internal env s st1)"

text \<open>\<open>otel_api.c\<close>: the trace context put into the commit record.\<close>

definition otel_commit_trace_context_cb :: "env \<Rightarrow> (producer, span_context option) op" where
  "otel_commit_trace_context_cb env =
     and_then (otel_span_context_of_internal env 0)
       (\<lambda>c. ret (case c of
                    Some x \<Rightarrow> if otel_span_context_sampled x then Some (x\<lparr>tracestate := None\<rparr>) else None
                  | None \<Rightarrow> None))"

definition api_resource_add ::
    "env \<Rightarrow> string option \<Rightarrow> string option \<Rightarrow> producer \<times> resource_attrs \<Rightarrow> producer \<times> resource_attrs" where
  "api_resource_add env key value s =
     (case call_refused env False (fst s) of
        (True, st1) \<Rightarrow> (st1, snd s)
      | (False, st1) \<Rightarrow> (st1, otel_resource_attr_add key value (snd s)))"

section \<open>Discarding, activating, deactivating\<close>

definition drop_entry :: "int \<Rightarrow> producer \<Rightarrow> producer" where
  "drop_entry entry st =
     (case stack_find entry st of None \<Rightarrow> st | Some pos \<Rightarrow> stack_remove_at pos st)"

definition api_span_discard :: "env \<Rightarrow> i64 \<Rightarrow> (producer, unit) op" where
  "api_span_discard env s st =
     (case call_refused env False st of
        (True, st1) \<Rightarrow> (Ret (), st1)
      | (False, st1) \<Rightarrow>
          if s = 0 then (Ret (), st1)
          else if s <s 0
          then (case nrec_for_ref s st1 of
                  (None, st2) \<Rightarrow> (Ret (), st2)
                | (Some idx, st2) \<Rightarrow>
                    (Ret (), bump C_spans_discarded
                       (free_nrec idx False (drop_entry (stack_entry_for_nrec idx) st2))))
          else (case slot_for_ref s st1 of
                  (None, st2) \<Rightarrow> (Ret (), st2)
                | (Some idx, st2) \<Rightarrow>
                    and_then (release_slot env idx False) (\<lambda>_. modify (bump C_spans_discarded))
                      (drop_entry (stack_entry_for_slot idx) st2)))"

definition activate_entry ::
    "env \<Rightarrow> bool \<Rightarrow> int \<Rightarrow> u32 \<Rightarrow> nat \<Rightarrow> bool \<Rightarrow> producer \<Rightarrow> i64 \<times> producer" where
  "activate_entry env detached entry gen idx recording st =
     (if \<not> detached then (0, bump C_activate_not_detached st)
      else if stack_find entry st \<noteq> None then (0, bump C_activate_already_active st)
      else if length (st_stack st) \<ge> OTEL_MAX_STACK_DEPTH then (0, bump C_start_stack_full st)
      else (make_ref gen idx recording, stack_push entry True (e_level env) st))"

definition api_span_activate :: "env \<Rightarrow> i64 \<Rightarrow> producer \<Rightarrow> i64 \<times> producer" where
  "api_span_activate env s st =
     (case call_refused env False st of
        (True, st1) \<Rightarrow> (0, st1)
      | (False, st1) \<Rightarrow>
          if s = 0 then (0, st1)
          else if 0 <s s
          then (case slot_for_ref s st1 of
                  (None, st2) \<Rightarrow> (0, st2)
                | (Some idx, st2) \<Rightarrow>
                    activate_entry env (s_detached (st_slots st2 ! idx)) (stack_entry_for_slot idx)
                      (s_gen (st_slots st2 ! idx)) idx True st2)
          else (case nrec_for_ref s st1 of
                  (None, st2) \<Rightarrow> (0, st2)
                | (Some idx, st2) \<Rightarrow>
                    activate_entry env (n_detached (st_nrecs st2 ! idx)) (stack_entry_for_nrec idx)
                      (n_gen (st_nrecs st2 ! idx)) idx False st2))"

definition deactivate_entry :: "env \<Rightarrow> int \<Rightarrow> (producer, unit) op" where
  "deactivate_entry env entry st =
     (if stack_find entry st = None then (Ret (), bump C_deactivate_not_active st)
      else leave_stack env entry ''parent activation deactivated first'' st)"

definition api_span_deactivate :: "env \<Rightarrow> i64 \<Rightarrow> (producer, unit) op" where
  "api_span_deactivate env tok st =
     (case call_refused env False st of
        (True, st1) \<Rightarrow> (Ret (), st1)
      | (False, st1) \<Rightarrow>
          if tok = 0 then (Ret (), st1)
          else if 0 <s tok
          then (case slot_for_ref tok st1 of
                  (None, st2) \<Rightarrow> (Ret (), st2)
                | (Some idx, st2) \<Rightarrow> deactivate_entry env (stack_entry_for_slot idx) st2)
          else (case nrec_for_ref tok st1 of
                  (None, st2) \<Rightarrow> (Ret (), st2)
                | (Some idx, st2) \<Rightarrow> deactivate_entry env (stack_entry_for_nrec idx) st2))"

end
