(* ===== verification/Producer_Callbacks.thy ===== *)
theory Producer_Callbacks
  imports Producer_Api
begin

text \<open>
  The calls core makes into \<open>otel_api/otel_producer.c\<close>: release and debug print of a
  remembered span, transaction and subtransaction end, the error log hook and process exit;
  and the inline entry points of \<open>otel_producer.h\<close>, through which producers call.
\<close>

section \<open>Resource owners\<close>

text \<open>\<open>DebugPrint\<close>: called only for a span leaked at commit, which it marks.\<close>

definition handle_slot :: "i64 \<Rightarrow> producer \<Rightarrow> nat option" where
  "handle_slot h st =
     (let idx = ref_idx h in
      if 0 \<le> idx \<and> idx < int (length (st_slots st)) \<and> s_gen (st_slots st ! nat idx) = ref_gen h
      then Some (nat idx) else None)"

definition otel_span_debug_print :: "i64 \<Rightarrow> producer \<Rightarrow> string \<times> producer" where
  "otel_span_debug_print h st =
     (case handle_slot h st of
        Some i \<Rightarrow> (''otel_api span '' @ CHR 0x22 # sp_name (s_span (st_slots st ! i)) @ [CHR 0x22],
                   upd_slot i (\<lambda>s. s\<lparr>s_leaked := True\<rparr>) st)
      | None \<Rightarrow> (''otel_api span (stale)'', st))"

definition otel_span_release_resource :: "env \<Rightarrow> i64 \<Rightarrow> (producer, unit) op" where
  "otel_span_release_resource env h st =
     (case handle_slot h st of
        None \<Rightarrow> (Ret (), st)
      | Some idx \<Rightarrow>
          (let st1 = drop_entry (stack_entry_for_slot idx) (upd_slot idx (\<lambda>s. s\<lparr>s_owner := None\<rparr>) st);
               slot = st_slots st1 ! idx
           in if s_leaked slot \<or> s_dispatching slot
              then release_slot env idx True
                     (bump (if s_leaked slot then C_leaked_at_commit else C_dropped_in_dispatch) st1)
              else and_then (end_slot env idx 0 (Some ''ended by transaction or subtransaction abort''))
                     (\<lambda>_. modify (upd_slot idx (\<lambda>s. s\<lparr>s_owner_released_gen := s_gen slot\<rparr>))) st1))"

text \<open>
  What core does with one remembered entry when it releases an owner: on commit it calls
  DebugPrint first; it forgets the entry after ReleaseResource has returned.
\<close>

definition owner_releases :: "env \<Rightarrow> bool \<Rightarrow> owner \<Rightarrow> i64 \<Rightarrow> (producer, unit) op" where
  "owner_releases env is_commit ow h st =
     and_then (otel_span_release_resource env h)
       (\<lambda>_. modify (\<lambda>st. st\<lparr>st_ledger := remove1 (ow, h) (st_ledger st)\<rparr>))
       (if is_commit then snd (otel_span_debug_print h st) else st)"

section \<open>Transaction end\<close>

definition drop_nrecs_from_level :: "int \<Rightarrow> producer \<Rightarrow> producer" where
  "drop_nrecs_from_level level st =
     (let high = (\<lambda>e. se_entry e < 0 \<and> n_nest_level (st_nrecs st ! nat (- se_entry e - 1)) \<ge> level);
          st1 = st\<lparr>st_stack := drop_down high (length (st_stack st)) (st_stack st)\<rparr>
      in fold (\<lambda>i st. if n_gen (st_nrecs st ! i) \<noteq> 0 \<and> n_nest_level (st_nrecs st ! i) \<ge> level
                      then free_nrec i True st else st)
           [0..<length (st_nrecs st1)] st1)"

definition drop_activations_from_level :: "int \<Rightarrow> bool \<Rightarrow> producer \<Rightarrow> producer" where
  "drop_activations_from_level level is_leak st =
     (let high = (\<lambda>e. se_is_activation e \<and> se_nest_level e \<ge> level);
          st1 = (if is_leak then bump_n (length (filter high (st_stack st))) C_activation_leaked_at_commit st else st)
      in st1\<lparr>st_stack := drop_down high (length (st_stack st1)) (st_stack st1)\<rparr>)"

datatype xact_event =
    XACT_COMMIT | XACT_PARALLEL_COMMIT | XACT_ABORT | XACT_PARALLEL_ABORT | XACT_PREPARE
  | XACT_PRE_COMMIT | XACT_PARALLEL_PRE_COMMIT | XACT_PRE_PREPARE

definition otel_xact_callback :: "xact_event \<Rightarrow> producer \<Rightarrow> producer" where
  "otel_xact_callback event st =
     (case event of
        XACT_COMMIT \<Rightarrow> drop_activations_from_level 1 True (drop_nrecs_from_level 1 st)
      | XACT_PARALLEL_COMMIT \<Rightarrow> drop_activations_from_level 1 True (drop_nrecs_from_level 1 st)
      | XACT_PREPARE \<Rightarrow> drop_activations_from_level 1 True (drop_nrecs_from_level 1 st)
      | XACT_ABORT \<Rightarrow> drop_activations_from_level 1 False (drop_nrecs_from_level 1 st)
      | XACT_PARALLEL_ABORT \<Rightarrow> drop_activations_from_level 1 False (drop_nrecs_from_level 1 st)
      | _ \<Rightarrow> st)"

datatype subxact_event = SUBXACT_START | SUBXACT_COMMIT | SUBXACT_ABORT | SUBXACT_PRE_COMMIT

definition otel_subxact_callback :: "env \<Rightarrow> subxact_event \<Rightarrow> producer \<Rightarrow> producer" where
  "otel_subxact_callback env event st =
     (if event = SUBXACT_ABORT
      then drop_activations_from_level (e_level env) False (drop_nrecs_from_level (e_level env) st)
      else st)"

definition otel_producer_shmem_exit :: "producer \<Rightarrow> producer" where
  "otel_producer_shmem_exit st =
     st\<lparr>st_counters := (st_counters st)(C_open_at_exit :=
          st_counters st C_open_at_exit + of_int (st_session_open st))\<rparr>"

section \<open>The error log hook\<close>

text \<open>The walk down the stack; \<open>recorded\<close> says the exception event has found its span.\<close>

definition record_into :: "env \<Rightarrow> error_data \<Rightarrow> nat \<Rightarrow> producer \<Rightarrow> producer" where
  "record_into env ed i st =
     (case slot_record_error env ed (st_slots st ! i) of
        (_, cs, slot) \<Rightarrow> fold bump cs (upd_slot i (\<lambda>_. slot) st))"

definition mark_error :: "env \<Rightarrow> error_data \<Rightarrow> otel_slot \<Rightarrow> otel_slot" where
  "mark_error env ed slot =
     (let s1 = upd_span (\<lambda>p. p\<lparr>sp_status := STATUS_ERROR\<rparr>) slot in
      if sp_description (s_span s1) = None \<and> ed_sqlstate ed \<noteq> ERRCODE_OUT_OF_MEMORY
      then (let (desc, s2) = error_description env (take 5 (ed_sqlstate ed)) (ed_message ed) s1
            in upd_span (\<lambda>p. p\<lparr>sp_description := desc\<rparr>) s2)
      else s1)"

fun log_walk :: "env \<Rightarrow> error_data \<Rightarrow> bool \<Rightarrow> int list \<Rightarrow> producer \<Rightarrow> producer" where
  "log_walk env ed recorded [] st = st"
| "log_walk env ed recorded (e # es) st =
     (if e < 0 \<or> s_dispatching (st_slots st ! nat e) then log_walk env ed recorded es st
      else if ed_elevel ed < ERROR_level then record_into env ed (nat e) st
      else if s_session (st_slots st ! nat e) then log_walk env ed recorded es st
      else if \<not> recorded then log_walk env ed True es (record_into env ed (nat e) st)
      else log_walk env ed recorded es (upd_slot (nat e) (mark_error env ed) st))"

definition otel_emit_log_hook :: "env \<Rightarrow> error_data \<Rightarrow> producer \<Rightarrow> producer" where
  "otel_emit_log_hook env ed st =
     (if ed_elevel ed \<ge> WARNING_level \<and> \<not> e_crit env
      then log_walk env ed False (map se_entry (rev (st_stack st))) st
      else st)"

section \<open>The inline entry points\<close>

text \<open>
  \<open>loaded\<close> says whether \<open>otel_producer_api()\<close> returned a table, \<open>possible\<close> is the
  recording-possible flag behind the table's pointer.  A handle other than 0 can only come
  from a loaded otel_api, so the remaining wrappers need no check.
\<close>

definition otel_recording_possible :: "bool \<Rightarrow> bool \<Rightarrow> bool" where
  "otel_recording_possible loaded possible \<longleftrightarrow> loaded \<and> possible"

definition otel_span_start :: "env \<Rightarrow> bool \<Rightarrow> bool \<Rightarrow> start_args \<Rightarrow> (producer, i64) op" where
  "otel_span_start env loaded possible args st =
     (if otel_recording_possible loaded possible
      then api_span_start env (Some (args\<lparr>sa_struct_size := sizeof_OtelSpanStartArgs\<rparr>)) st
      else (Ret 0, st))"

definition otel_span_recording :: "i64 \<Rightarrow> bool" where
  "otel_span_recording s \<longleftrightarrow> 0 <s s"

definition otel_span_end_at :: "env \<Rightarrow> i64 \<Rightarrow> int \<Rightarrow> (producer, unit) op" where
  "otel_span_end_at env s end_time st = (if s \<noteq> 0 then api_span_end env s end_time st else (Ret (), st))"

definition otel_span_end :: "env \<Rightarrow> i64 \<Rightarrow> (producer, unit) op" where
  "otel_span_end env s st = (if s \<noteq> 0 then api_span_end env s 0 st else (Ret (), st))"

definition otel_span_discard :: "env \<Rightarrow> i64 \<Rightarrow> (producer, unit) op" where
  "otel_span_discard env s st = (if s \<noteq> 0 then api_span_discard env s st else (Ret (), st))"

definition otel_span_activate :: "env \<Rightarrow> bool \<Rightarrow> i64 \<Rightarrow> producer \<Rightarrow> i64 \<times> producer" where
  "otel_span_activate env loaded s st =
     (if \<not> loaded \<or> s = 0 then (0, st) else api_span_activate env s st)"

definition otel_span_deactivate :: "env \<Rightarrow> i64 \<Rightarrow> (producer, unit) op" where
  "otel_span_deactivate env tok st = (if tok \<noteq> 0 then api_span_deactivate env tok st else (Ret (), st))"

definition otel_span_set_str :: "env \<Rightarrow> i64 \<Rightarrow> string \<Rightarrow> string option \<Rightarrow> producer \<Rightarrow> producer" where
  "otel_span_set_str env s key val st = (if 0 <s s then api_span_set_str env s key val st else st)"

definition otel_span_set_int :: "env \<Rightarrow> i64 \<Rightarrow> string \<Rightarrow> i64 \<Rightarrow> producer \<Rightarrow> producer" where
  "otel_span_set_int env s key val st = (if 0 <s s then api_span_set_int env s key val st else st)"

definition otel_span_set_bool :: "env \<Rightarrow> i64 \<Rightarrow> string \<Rightarrow> bool \<Rightarrow> producer \<Rightarrow> producer" where
  "otel_span_set_bool env s key val st = (if 0 <s s then api_span_set_bool env s key val st else st)"

definition otel_span_set_name :: "env \<Rightarrow> i64 \<Rightarrow> string option \<Rightarrow> producer \<Rightarrow> producer" where
  "otel_span_set_name env s name st = (if 0 <s s then api_span_set_name env s name st else st)"

definition otel_span_set_status :: "env \<Rightarrow> i64 \<Rightarrow> span_status \<Rightarrow> string option \<Rightarrow> producer \<Rightarrow> producer" where
  "otel_span_set_status env s code desc st = (if 0 <s s then api_span_set_status env s code desc st else st)"

definition otel_span_add_event :: "env \<Rightarrow> i64 \<Rightarrow> string option \<Rightarrow> int \<Rightarrow> attribute list \<Rightarrow> producer \<Rightarrow> producer" where
  "otel_span_add_event env s name ts attrs st = (if 0 <s s then api_span_add_event env s name ts attrs st else st)"

definition otel_span_record_error :: "env \<Rightarrow> i64 \<Rightarrow> error_data option \<Rightarrow> producer \<Rightarrow> producer" where
  "otel_span_record_error env s ed st = (if 0 <s s then api_span_record_error env s ed st else st)"

definition otel_span_current :: "env \<Rightarrow> bool \<Rightarrow> producer \<Rightarrow> i64 \<times> producer" where
  "otel_span_current env loaded st = (if loaded then api_span_current env st else (0, st))"

definition otel_span_context_of :: "env \<Rightarrow> bool \<Rightarrow> i64 \<Rightarrow> (producer, span_context option) op" where
  "otel_span_context_of env loaded s st =
     (if \<not> loaded then (Ret None, st) else api_span_context_of env s st)"

end
