(* ===== verification/Span_Log.thy ===== *)
theory Span_Log
  imports Producer_Callbacks
begin

text \<open>
  The log emitter of \<open>otel_producer.c\<close> (\<open>append_json_attrs\<close>, \<open>otel_emit_span_as_log_line\<close>), which
  writes a finished span as one line of JSON, the counters function \<open>otel_api_counters\<close>, and the
  inline wrappers of \<open>otel_producer.h\<close> for the remaining setters.  Core's \<open>escape_json\<close> and
  \<open>timestamptz_to_str\<close> and the C library's \<open>%.17g\<close> are parameters.  A grammar of JSON texts
  says what the line has to be.
\<close>

section \<open>Decimal numbers\<close>

definition digit :: "nat \<Rightarrow> char" where
  "digit n = ''0123456789'' ! n"

definition is_digit :: "char \<Rightarrow> bool" where
  "is_digit c \<longleftrightarrow> c \<in> set ''0123456789''"

fun show_nat :: "nat \<Rightarrow> string" where
  "show_nat n = (if n < 10 then [digit n] else show_nat (n div 10) @ [digit (n mod 10)])"

declare show_nat.simps [simp del]

definition show_int :: "int \<Rightarrow> string" where
  "show_int i = (if i < 0 then CHR ''-'' # show_nat (nat (- i)) else show_nat (nat i))"

section \<open>The emitter\<close>

record log_format =
  lf_escape_json :: "string \<Rightarrow> string"
  lf_double :: "u64 \<Rightarrow> string"
  lf_timestamp :: "int \<Rightarrow> string"

definition quoted :: "string \<Rightarrow> string" where
  "quoted s = CHR 0x22 # s @ [CHR 0x22]"

definition json_attr_value :: "log_format \<Rightarrow> attr_value \<Rightarrow> string" where
  "json_attr_value lf v =
     (case v of
        ATTR_STRING (Some s) \<Rightarrow> lf_escape_json lf s
      | ATTR_STRING None \<Rightarrow> ''null''
      | ATTR_INT i \<Rightarrow> show_int (sint i)
      | ATTR_DOUBLE d \<Rightarrow> lf_double lf d
      | ATTR_BOOL b \<Rightarrow> (if b then ''true'' else ''false''))"

text \<open>The loops' \<open>i > 0\<close> is the flag \<open>later\<close>.\<close>

fun json_attr_items :: "log_format \<Rightarrow> bool \<Rightarrow> attribute list \<Rightarrow> string" where
  "json_attr_items lf later [] = []"
| "json_attr_items lf later (a # as) =
     (if later then '','' else []) @ lf_escape_json lf (at_key a) @ '':'' @ json_attr_value lf (at_val a)
       @ json_attr_items lf True as"

definition append_json_attrs :: "log_format \<Rightarrow> attribute list \<Rightarrow> string" where
  "append_json_attrs lf attrs = ''{'' @ json_attr_items lf False attrs @ ''}''"

fun json_event_items :: "log_format \<Rightarrow> bool \<Rightarrow> span_event list \<Rightarrow> string" where
  "json_event_items lf later [] = []"
| "json_event_items lf later (e # es) =
     (if later then '','' else []) @ ''{'' @ quoted ''name'' @ '':'' @ lf_escape_json lf (ev_name e) @
       '','' @ quoted ''time'' @ '':'' @ quoted (lf_timestamp lf (ev_time e)) @
       '','' @ quoted ''attributes'' @ '':'' @ append_json_attrs lf (ev_attrs e) @ ''}'' @ json_event_items lf True es"

fun json_link_items :: "bool \<Rightarrow> span_context list \<Rightarrow> string" where
  "json_link_items later [] = []"
| "json_link_items later (l # ls) =
     (if later then '','' else []) @ ''{'' @ quoted ''trace_id'' @ '':'' @ quoted (otel_trace_id_to_hex (trace_id l)) @
       '','' @ quoted ''span_id'' @ '':'' @ quoted (otel_span_id_to_hex (span_id l)) @ ''}'' @ json_link_items True ls"

fun kind_code :: "span_kind \<Rightarrow> nat" where
  "kind_code KIND_INTERNAL = 0"
| "kind_code KIND_SERVER = 1"
| "kind_code KIND_CLIENT = 2"
| "kind_code KIND_PRODUCER = 3"
| "kind_code KIND_CONSUMER = 4"

fun status_code :: "span_status \<Rightarrow> nat" where
  "status_code STATUS_UNSET = 0"
| "status_code STATUS_OK = 1"
| "status_code STATUS_ERROR = 2"

definition span_json :: "log_format \<Rightarrow> otel_span \<Rightarrow> string" where
  "span_json lf sp =
     ''{'' @ quoted ''trace_id'' @ '':'' @ quoted (otel_trace_id_to_hex (sp_trace_id sp)) @
     '','' @ quoted ''span_id'' @ '':'' @ quoted (otel_span_id_to_hex (sp_span_id sp)) @
     '','' @ quoted ''parent_span_id'' @ '':'' @
       quoted (if otel_span_id_is_valid (sp_parent_span_id sp) then otel_span_id_to_hex (sp_parent_span_id sp) else []) @
     '','' @ quoted ''trace_flags'' @ '':'' @ quoted (otel_bytes_to_hex [sp_trace_flags sp]) @
     '','' @ quoted ''name'' @ '':'' @ lf_escape_json lf (sp_name sp) @
     '','' @ quoted ''kind'' @ '':'' @ show_nat (kind_code (sp_kind sp)) @
     '','' @ quoted ''status'' @ '':'' @ show_nat (status_code (sp_status sp)) @
     (case sp_description sp of None \<Rightarrow> []
      | Some d \<Rightarrow> '','' @ quoted ''status_description'' @ '':'' @ lf_escape_json lf d) @
     (case sp_scope sp of None \<Rightarrow> []
      | Some sc \<Rightarrow> '','' @ quoted ''scope'' @ '':'' @ lf_escape_json lf (sc_name sc)) @
     '','' @ quoted ''start_time'' @ '':'' @ quoted (lf_timestamp lf (sp_start_time sp)) @
     '','' @ quoted ''end_time'' @ '':'' @ quoted (lf_timestamp lf (sp_end_time sp)) @
     '','' @ quoted ''attributes'' @ '':'' @ append_json_attrs lf (sp_attrs sp) @
     '','' @ quoted ''events'' @ '':['' @ json_event_items lf False (sp_events sp) @ '']'' @
     '','' @ quoted ''links'' @ '':['' @ json_link_items False (sp_links sp) @ '']'' @
     '','' @ quoted ''dropped_attributes'' @ '':'' @ show_nat (unat (sp_dropped_attrs sp)) @
     '','' @ quoted ''dropped_events'' @ '':'' @ show_nat (unat (sp_dropped_events sp)) @
     '','' @ quoted ''dropped_links'' @ '':'' @ show_nat (unat (sp_dropped_links sp)) @ ''}''"

definition otel_emit_span_as_log_line :: "log_format \<Rightarrow> otel_span \<Rightarrow> string" where
  "otel_emit_span_as_log_line lf sp = ''otel-span: '' @ span_json lf sp"

section \<open>JSON texts\<close>

definition json_number :: "string \<Rightarrow> bool" where
  "json_number s \<longleftrightarrow>
     (let body = (case s of c # cs \<Rightarrow> if c = CHR ''-'' then cs else s | [] \<Rightarrow> s);
          whole = takeWhile is_digit body;
          r1 = dropWhile is_digit body;
          (frac_ok, r2) = (case r1 of CHR ''.'' # cs \<Rightarrow> (takeWhile is_digit cs \<noteq> [], dropWhile is_digit cs) | _ \<Rightarrow> (True, r1))
      in whole \<noteq> [] \<and> (hd whole = CHR ''0'' \<longrightarrow> length whole = 1) \<and> frac_ok \<and>
         (case r2 of
            [] \<Rightarrow> True
          | e # cs \<Rightarrow> e \<in> {CHR ''e'', CHR ''E''} \<and>
              (let ds = (case cs of [] \<Rightarrow> cs | d # ds \<Rightarrow> if d \<in> {CHR ''+'', CHR ''-''} then ds else cs)
               in ds \<noteq> [] \<and> dropWhile is_digit ds = [])))"

text \<open>The inside of a string literal.\<close>

fun json_chars :: "string \<Rightarrow> bool" where
  "json_chars [] = True"
| "json_chars (c # cs) =
     (if c = CHR 0x5C
      then (case cs of
              [] \<Rightarrow> False
            | d # ds \<Rightarrow>
                if d = CHR ''u''
                then (case ds of
                        h1 # h2 # h3 # h4 # es \<Rightarrow>
                          (\<forall>h\<in>set [h1, h2, h3, h4]. h \<in> set ''0123456789abcdefABCDEF'') \<and> json_chars es
                      | _ \<Rightarrow> False)
                else (d = CHR 0x22 \<or> d = CHR 0x5C \<or> d \<in> set ''/bfnrt'') \<and> json_chars ds)
      else c \<noteq> CHR 0x22 \<and> 32 \<le> (of_char c :: nat) \<and> json_chars cs)"

fun commas :: "string list \<Rightarrow> string" where
  "commas [] = []"
| "commas [x] = x"
| "commas (x # y # ys) = x @ '','' @ commas (y # ys)"

inductive json :: "string \<Rightarrow> bool" where
  j_null: "json ''null''"
| j_true: "json ''true''"
| j_false: "json ''false''"
| j_number: "json s" if "json_number s"
| j_string: "json (quoted s)" if "json_chars s"
| j_array: "json (''['' @ commas xs @ '']'')" if "\<forall>x\<in>set xs. json x"
| j_object: "json (''{'' @ commas (map (\<lambda>(k, v). quoted k @ '':'' @ v) ms) @ ''}'')"
    if "\<forall>m\<in>set ms. json_chars (fst m) \<and> json (snd m)"

section \<open>What is printed is JSON\<close>

lemma digit_props: "n < 10 \<Longrightarrow> is_digit (digit n) \<and> (digit n = CHR ''0'' \<longleftrightarrow> n = 0)"
proof -
  assume "n < 10"
  then have "n \<in> {0, 1, 2, 3, 4, 5, 6, 7, 8, 9}" by auto
  then show ?thesis by (elim insertE emptyE) (simp_all add: digit_def is_digit_def)
qed

lemma show_nat_props:
  "show_nat n \<noteq> [] \<and> (\<forall>c\<in>set (show_nat n). is_digit c) \<and> (hd (show_nat n) = CHR ''0'' \<longleftrightarrow> n = 0)"
proof (induction n rule: show_nat.induct)
  case (1 n)
  show ?case
  proof (cases "n < 10")
    case True
    then show ?thesis using digit_props [OF True] by (simp add: show_nat.simps [of n])
  next
    case False
    then have s: "show_nat n = show_nat (n div 10) @ [digit (n mod 10)]" by (simp add: show_nat.simps [of n])
    have "n div 10 \<noteq> 0" "n \<noteq> 0" using False by simp_all
    then show ?thesis using 1 [OF False] digit_props [of "n mod 10"] unfolding s by (simp add: hd_append ball_Un)
  qed
qed

lemma show_nat_zero: "show_nat 0 = ''0''"
  by (simp add: show_nat.simps [of 0] digit_def)

lemma json_number_digits:
  assumes "s \<noteq> []" and "\<forall>c\<in>set s. is_digit c" and "hd s = CHR ''0'' \<longrightarrow> length s = 1"
  shows "json_number s" and "json_number (CHR ''-'' # s)"
proof -
  have t: "takeWhile is_digit s = s" "dropWhile is_digit s = []" using assms(2) by (auto simp: takeWhile_eq_all_conv)
  have nd: "\<not> is_digit (CHR ''-'')" by (simp add: is_digit_def)
  then have m: "hd s \<noteq> CHR ''-''" using assms(1,2) by (metis hd_in_set)
  obtain c cs where s: "s = c # cs" using assms(1) by (cases s) auto
  have b: "(case s of c # cs \<Rightarrow> if c = CHR ''-'' then cs else s | [] \<Rightarrow> s) = s" using m by (simp add: s)
  show "json_number s" unfolding json_number_def b t Let_def using assms(1,3) by simp
  show "json_number (CHR ''-'' # s)" unfolding json_number_def list.case t Let_def if_P [OF refl] using assms(1,3) by simp
qed

lemma show_nat_json: "json (show_nat n)" "json (CHR ''-'' # show_nat (Suc m))"
proof -
  have "hd (show_nat k) = CHR ''0'' \<longrightarrow> length (show_nat k) = 1" for k
    using show_nat_props [of k] show_nat_zero by auto
  then show "json (show_nat n)" "json (CHR ''-'' # show_nat (Suc m))"
    using show_nat_props by (blast intro: j_number json_number_digits)+
qed

lemma show_int_json: "json (show_int i)"
proof (cases "i < 0")
  case True
  then obtain m where "nat (- i) = Suc m" by (metis Suc_pred' neg_0_less_iff_less zero_less_nat_eq)
  then show ?thesis using True show_nat_json(2) [of m] by (simp add: show_int_def)
qed (simp add: show_int_def show_nat_json)

definition plain :: "char \<Rightarrow> bool" where
  "plain c \<longleftrightarrow> c \<noteq> CHR 0x5C \<and> c \<noteq> CHR 0x22 \<and> 32 \<le> (of_char c :: nat)"

lemma json_chars_plain: "\<forall>c\<in>set s. plain c \<Longrightarrow> json_chars s"
  by (induction s) (auto simp: plain_def)

lemma hexdigit_plain: "unat n < 16 \<Longrightarrow> plain (hexdigit n)"
proof -
  assume "unat n < 16"
  then have "hexdigit n \<in> set ''0123456789abcdef''" unfolding hexdigit_def by (intro nth_mem) simp
  moreover have "\<forall>c\<in>set ''0123456789abcdef''. plain c" by (simp add: plain_def)
  ultimately show ?thesis by blast
qed

lemma hex_plain: "c \<in> set (otel_bytes_to_hex bs) \<Longrightarrow> plain c"
  by (induction bs) (use hexdigit_plain nibbles_small in auto)

lemma hex_chars: "json_chars (otel_bytes_to_hex bs)"
  by (intro json_chars_plain) (simp add: hex_plain)

lemma commas_Cons: "commas (x # xs) = x @ (if xs = [] then [] else '','' @ commas xs)"
  by (cases xs) simp_all

text \<open>What the printers below are relied on for.\<close>

definition string_literal :: "string \<Rightarrow> bool" where
  "string_literal s \<longleftrightarrow> json_chars (butlast (tl s)) \<and> s = quoted (butlast (tl s))"

fun double_values :: "attribute list \<Rightarrow> u64 set" where
  "double_values [] = {}"
| "double_values (a # as) = (case at_val a of ATTR_DOUBLE d \<Rightarrow> insert d (double_values as) | _ \<Rightarrow> double_values as)"

definition span_doubles :: "otel_span \<Rightarrow> u64 set" where
  "span_doubles sp = double_values (sp_attrs sp) \<union> (\<Union>e\<in>set (sp_events sp). double_values (ev_attrs e))"

definition printers_ok :: "log_format \<Rightarrow> bool" where
  "printers_ok lf \<longleftrightarrow> (\<forall>s. string_literal (lf_escape_json lf s)) \<and> (\<forall>t. json_chars (lf_timestamp lf t))"

definition lit :: "log_format \<Rightarrow> string \<Rightarrow> string" where
  "lit lf s = butlast (tl (lf_escape_json lf s))"

lemma printers_okD:
  assumes "printers_ok lf"
  shows "lf_escape_json lf s = quoted (lit lf s)" "json_chars (lit lf s)" "json (lf_escape_json lf s)"
    "json (quoted (lf_timestamp lf t))"
  using assms by (auto simp: printers_ok_def string_literal_def lit_def intro: json.intros)
    (metis j_string)

lemma attr_items_commas:
  "printers_ok lf \<Longrightarrow> json_attr_items lf b as = (if b \<and> as \<noteq> [] then '','' else []) @
     commas (map (\<lambda>(k, v). quoted k @ '':'' @ v) (map (\<lambda>a. (lit lf (at_key a), json_attr_value lf (at_val a))) as))"
  by (induction lf b as rule: json_attr_items.induct) (simp_all add: commas_Cons printers_okD(1))

lemma attr_values_json:
  "printers_ok lf \<Longrightarrow> \<forall>d\<in>double_values as. json_number (lf_double lf d) \<Longrightarrow> a \<in> set as \<Longrightarrow> json (json_attr_value lf (at_val a))"
  by (induction as) (auto simp: json_attr_value_def j_null j_true j_false show_int_json printers_okD(3) j_number split: attr_value.splits option.split)

lemma attrs_json:
  assumes "printers_ok lf" and "\<forall>d\<in>double_values as. json_number (lf_double lf d)"
  shows "json (append_json_attrs lf as)"
proof -
  have "json (''{'' @ commas (map (\<lambda>(k, v). quoted k @ '':'' @ v)
      (map (\<lambda>a. (lit lf (at_key a), json_attr_value lf (at_val a))) as)) @ ''}'')"
    using attr_values_json [OF assms] by (intro j_object) (auto simp: printers_okD(2) [OF assms(1)])
  then show ?thesis by (simp add: append_json_attrs_def attr_items_commas [OF assms(1)])
qed

text \<open>An object of three or two named members.\<close>

lemma json_members:
  "json_chars k1 \<Longrightarrow> json v1 \<Longrightarrow> json_chars k2 \<Longrightarrow> json v2 \<Longrightarrow>
     json (''{'' @ quoted k1 @ '':'' @ v1 @ '','' @ quoted k2 @ '':'' @ v2 @ ''}'')"
  "json_chars k1 \<Longrightarrow> json v1 \<Longrightarrow> json_chars k2 \<Longrightarrow> json v2 \<Longrightarrow> json_chars k3 \<Longrightarrow> json v3 \<Longrightarrow>
     json (''{'' @ quoted k1 @ '':'' @ v1 @ '','' @ quoted k2 @ '':'' @ v2 @ '','' @ quoted k3 @ '':'' @ v3 @ ''}'')"
  using j_object [of "[(k1, v1), (k2, v2)]"] j_object [of "[(k1, v1), (k2, v2), (k3, v3)]"] by simp_all

definition event_json :: "log_format \<Rightarrow> span_event \<Rightarrow> string" where
  "event_json lf e = ''{'' @ quoted ''name'' @ '':'' @ lf_escape_json lf (ev_name e) @
       '','' @ quoted ''time'' @ '':'' @ quoted (lf_timestamp lf (ev_time e)) @
       '','' @ quoted ''attributes'' @ '':'' @ append_json_attrs lf (ev_attrs e) @ ''}''"

definition link_json :: "span_context \<Rightarrow> string" where
  "link_json l = ''{'' @ quoted ''trace_id'' @ '':'' @ quoted (otel_trace_id_to_hex (trace_id l)) @
       '','' @ quoted ''span_id'' @ '':'' @ quoted (otel_span_id_to_hex (span_id l)) @ ''}''"

lemma event_items_commas:
  "json_event_items lf b es = (if b \<and> es \<noteq> [] then '','' else []) @ commas (map (event_json lf) es)"
  by (induction lf b es rule: json_event_items.induct) (simp_all add: commas_Cons event_json_def)

lemma link_items_commas:
  "json_link_items b ls = (if b \<and> ls \<noteq> [] then '','' else []) @ commas (map link_json ls)"
  by (induction b ls rule: json_link_items.induct) (simp_all add: commas_Cons link_json_def)

lemma event_json_ok:
  "printers_ok lf \<Longrightarrow> \<forall>d\<in>double_values (ev_attrs e). json_number (lf_double lf d) \<Longrightarrow> json (event_json lf e)"
  unfolding event_json_def by (intro json_members printers_okD attrs_json) (simp_all add: printers_okD)

lemma link_json_ok: "json (link_json l)"
  unfolding link_json_def otel_trace_id_to_hex_def otel_span_id_to_hex_def
  by (intro json_members j_string hex_chars) simp_all

definition span_members :: "log_format \<Rightarrow> otel_span \<Rightarrow> (string \<times> string) list" where
  "span_members lf sp =
     [(''trace_id'', quoted (otel_trace_id_to_hex (sp_trace_id sp))),
      (''span_id'', quoted (otel_span_id_to_hex (sp_span_id sp))),
      (''parent_span_id'', quoted (if otel_span_id_is_valid (sp_parent_span_id sp)
                                   then otel_span_id_to_hex (sp_parent_span_id sp) else [])),
      (''trace_flags'', quoted (otel_bytes_to_hex [sp_trace_flags sp])),
      (''name'', lf_escape_json lf (sp_name sp)),
      (''kind'', show_nat (kind_code (sp_kind sp))),
      (''status'', show_nat (status_code (sp_status sp)))] @
     (case sp_description sp of None \<Rightarrow> [] | Some d \<Rightarrow> [(''status_description'', lf_escape_json lf d)]) @
     (case sp_scope sp of None \<Rightarrow> [] | Some sc \<Rightarrow> [(''scope'', lf_escape_json lf (sc_name sc))]) @
     [(''start_time'', quoted (lf_timestamp lf (sp_start_time sp))),
      (''end_time'', quoted (lf_timestamp lf (sp_end_time sp))),
      (''attributes'', append_json_attrs lf (sp_attrs sp)),
      (''events'', ''['' @ commas (map (event_json lf) (sp_events sp)) @ '']''),
      (''links'', ''['' @ commas (map link_json (sp_links sp)) @ '']''),
      (''dropped_attributes'', show_nat (unat (sp_dropped_attrs sp))),
      (''dropped_events'', show_nat (unat (sp_dropped_events sp))),
      (''dropped_links'', show_nat (unat (sp_dropped_links sp)))]"

lemma span_json_members:
  "span_json lf sp = ''{'' @ commas (map (\<lambda>(k, v). quoted k @ '':'' @ v) (span_members lf sp)) @ ''}''"
proof -
  have a: "'':['' @ x = '':'' @ ''['' @ x" for x by simp
  show ?thesis
    by (cases "sp_description sp"; cases "sp_scope sp")
       (simp_all only: span_json_def span_members_def event_items_commas link_items_commas a option.case
         append.simps append_assoc list.map commas.simps prod.case simp_thms if_False)
qed

lemma name_chars: "json_chars ''trace_id''" "json_chars ''span_id''" "json_chars ''parent_span_id''"
  "json_chars ''trace_flags''" "json_chars ''name''" "json_chars ''kind''" "json_chars ''status''"
  "json_chars ''status_description''" "json_chars ''scope''" "json_chars ''start_time''" "json_chars ''end_time''"
  "json_chars ''attributes''" "json_chars ''events''" "json_chars ''links''" "json_chars ''dropped_attributes''"
  "json_chars ''dropped_events''" "json_chars ''dropped_links''"
  by simp_all

lemma span_members_json:
  assumes "printers_ok lf" and "\<forall>d\<in>span_doubles sp. json_number (lf_double lf d)" and "m \<in> set (span_members lf sp)"
  shows "json_chars (fst m) \<and> json (snd m)"
proof -
  have ev: "json (''['' @ commas (map (event_json lf) (sp_events sp)) @ '']'')"
    by (rule j_array) (use assms(1,2) in \<open>auto simp: span_doubles_def intro!: event_json_ok\<close>)
  have ln: "json (''['' @ commas (map link_json (sp_links sp)) @ '']'')"
    by (rule j_array) (auto simp: link_json_ok)
  have at: "json (append_json_attrs lf (sp_attrs sp))"
    using assms(1,2) by (intro attrs_json) (auto simp: span_doubles_def)
  have hex: "json (quoted (otel_trace_id_to_hex t))" "json (quoted (otel_span_id_to_hex i))"
    "json (quoted (otel_bytes_to_hex b))" "json (quoted [])" for t i b
    unfolding otel_trace_id_to_hex_def otel_span_id_to_hex_def by (intro j_string hex_chars, intro j_string hex_chars, intro j_string hex_chars, intro j_string json_chars.simps(1) [THEN iffD2] TrueI)
  note ps = printers_okD(3,4) [OF assms(1)]
  show ?thesis
    using assms(3) unfolding span_members_def set_append list.set Un_iff insert_iff empty_iff
    by (elim disjE; cases "sp_description sp"; cases "sp_scope sp")
       (simp_all only: fst_conv snd_conv name_chars ev ln at hex ps show_nat_json(1) option.case list.set empty_iff insert_iff
         if_split simp_thms, (simp_all add: name_chars hex ps)?)
qed

text \<open>C23: A span's log line is the prefix and one well-formed JSON object, whatever the span
  holds, when its string attributes are printed by a correct \<open>escape_json\<close> and none of its
  floating-point attributes prints as something other than a JSON number.\<close>

theorem log_line_is_json:
  assumes "printers_ok lf" and "\<forall>d\<in>span_doubles sp. json_number (lf_double lf d)"
  shows "\<exists>text. otel_emit_span_as_log_line lf sp = ''otel-span: '' @ text \<and> json text \<and> hd text = CHR ''{''"
proof -
  have "json (span_json lf sp)"
    unfolding span_json_members using span_members_json [OF assms] by (intro j_object) blast
  then show ?thesis
    by (intro exI [of _ "span_json lf sp"]) (simp add: otel_emit_span_as_log_line_def span_json_def)
qed

text \<open>Printers for a run: they echo plain text and drop what would need an escape.\<close>

definition echo_format :: log_format where
  "echo_format = \<lparr>lf_escape_json = (\<lambda>s. quoted (filter plain s)), lf_double = (\<lambda>d. ''0.5''), lf_timestamp = (\<lambda>t. ''now'')\<rparr>"

lemma echo_format_ok: "printers_ok echo_format"
proof -
  have "json_chars (filter plain s)" for s by (rule json_chars_plain) simp
  moreover have "butlast (tl (quoted x)) = x" for x by (simp add: quoted_def)
  ultimately show ?thesis by (simp add: printers_ok_def string_literal_def echo_format_def)
qed

theorem log_line_is_json_witness:
  "\<exists>text. otel_emit_span_as_log_line echo_format
      (zero_span\<lparr>sp_attrs := [\<lparr>at_key = ''x'', at_val = ATTR_DOUBLE 1\<rparr>]\<rparr>) = ''otel-span: '' @ text \<and> json text \<and> hd text = CHR ''{''"
  by (rule log_line_is_json [OF echo_format_ok]) (simp add: span_doubles_def echo_format_def zero_span_def json_number_def is_digit_def)

section \<open>The counters function\<close>

definition counter_fields :: "(string \<times> counter_id) list" where
  "counter_fields =
       [(''spans_started'', C_spans_started), (''spans_unsampled'', C_spans_unsampled),
        (''spans_emitted'', C_spans_emitted), (''spans_discarded'', C_spans_discarded),
        (''start_no_slot'', C_start_no_slot), (''start_no_session_slot'', C_start_no_session_slot),
        (''start_stack_full'', C_start_stack_full), (''in_crit_section'', C_in_crit_section),
        (''in_emit_hook'', C_in_emit_hook), (''start_bad_args'', C_start_bad_args),
        (''stale_handle'', C_stale_handle), (''non_lifo_end'', C_non_lifo_end), (''unwound'', C_unwound),
        (''leaked_at_commit'', C_leaked_at_commit), (''dropped_in_dispatch'', C_dropped_in_dispatch),
        (''open_at_exit'', C_open_at_exit), (''attr_truncated'', C_attr_truncated),
        (''attr_dropped'', C_attr_dropped), (''event_dropped'', C_event_dropped),
        (''link_dropped'', C_link_dropped), (''error_capture_failed'', C_error_capture_failed),
        (''emit_hook_errors'', C_emit_hook_errors), (''activate_not_detached'', C_activate_not_detached),
        (''activate_already_active'', C_activate_already_active),
        (''deactivate_not_active'', C_deactivate_not_active), (''activation_unwound'', C_activation_unwound),
        (''activation_leaked_at_commit'', C_activation_leaked_at_commit)]"

definition otel_api_counters :: "(counter_id \<Rightarrow> u64) \<Rightarrow> (string \<times> i64) list" where
  "otel_api_counters counters = map (\<lambda>(n, c). (n, counters c)) counter_fields"

text \<open>Every counter there is has its row.\<close>

lemma counters_complete: "\<exists>n. (n, counters c) \<in> set (otel_api_counters counters)"
proof -
  have "c \<in> snd ` set counter_fields" by (cases c) (simp_all add: counter_fields_def)
  then show ?thesis by (force simp: otel_api_counters_def)
qed

section \<open>The remaining inline wrappers\<close>

definition otel_span_set_double :: "env \<Rightarrow> i64 \<Rightarrow> string \<Rightarrow> u64 \<Rightarrow> producer \<Rightarrow> producer" where
  "otel_span_set_double env s key val st = (if 0 <s s then api_span_set_double env s key val st else st)"

definition otel_span_set_printf :: "env \<Rightarrow> i64 \<Rightarrow> string \<Rightarrow> string \<Rightarrow> producer \<Rightarrow> producer" where
  "otel_span_set_printf env s key out st = (if 0 <s s then api_span_set_vprintf env s key out st else st)"

definition otel_span_add_link :: "env \<Rightarrow> i64 \<Rightarrow> span_context option \<Rightarrow> producer \<Rightarrow> producer" where
  "otel_span_add_link env s target st = (if 0 <s s then api_span_add_link env s target st else st)"

definition otel_span_capture_error :: "env \<Rightarrow> i64 \<Rightarrow> error_data \<Rightarrow> bool \<Rightarrow> (producer, unit) op" where
  "otel_span_capture_error env s handled copy_ok st =
     (if 0 <s s then api_span_capture_error env s handled copy_ok st else (Ret (), st))"

definition otel_resource_add ::
    "env \<Rightarrow> bool \<Rightarrow> string option \<Rightarrow> string option \<Rightarrow> producer \<times> resource_attrs \<Rightarrow> producer \<times> resource_attrs" where
  "otel_resource_add env loaded key value s = (if loaded then api_resource_add env key value s else s)"

definition api_get_counters :: "producer \<Rightarrow> counter_id \<Rightarrow> u64" where
  "api_get_counters st = st_counters st"

end
