(* ===== verification/Free_List.thy ===== *)
theory Free_List
  imports Producer_Callbacks
begin

text \<open>
  The two pools of \<open>otel_producer.c\<close>, slots and non-recording entries, are arrays whose free
  cells are linked through \<open>next_free\<close>.  Their common contract: a cell is free exactly when
  its generation is 0, and the free cells are exactly those on the chain from the head.  The
  locale states what taking and freeing do to the links; its lemmas keep the contract.
  Also here: handles name the cell they were made from.
\<close>

section \<open>Chains\<close>

fun chain :: "(nat \<Rightarrow> int) \<Rightarrow> int \<Rightarrow> nat list \<Rightarrow> bool" where
  "chain nx h [] \<longleftrightarrow> h = -1"
| "chain nx h (i # is) \<longleftrightarrow> h = int i \<and> chain nx (nx i) is"

definition pool_ok :: "nat \<Rightarrow> (nat \<Rightarrow> u32) \<Rightarrow> (nat \<Rightarrow> int) \<Rightarrow> int \<Rightarrow> bool" where
  "pool_ok n gen nx head \<longleftrightarrow>
     (\<exists>fs. chain nx head fs \<and> distinct fs \<and> set fs = {i. i < n \<and> gen i = 0})"

lemma chain_cong: "(\<And>i. i \<in> set fs \<Longrightarrow> nx i = nx' i) \<Longrightarrow> chain nx h fs = chain nx' h fs"
  by (induction fs arbitrary: h) auto

lemma pool_ok_cong:
  assumes "\<And>i. i < n \<Longrightarrow> gen i = gen' i" and "\<And>i. i < n \<Longrightarrow> nx i = nx' i"
  shows "pool_ok n gen nx h = pool_ok n gen' nx' h"
proof -
  have "{i. i < n \<and> gen i = 0} = {i. i < n \<and> gen' i = 0}" using assms(1) by auto
  moreover have "chain nx h fs = chain nx' h fs" if "set fs = {i. i < n \<and> gen' i = 0}" for fs
    using that assms(2) by (intro chain_cong) auto
  ultimately show ?thesis by (auto simp: pool_ok_def)
qed

lemma pool_ok_empty: "pool_ok 0 gen nx (-1)"
  by (auto simp: pool_ok_def intro: exI [of _ "[]"])

lemma pool_ok_free:
  assumes "pool_ok n gen nx h" and "i < n" and "gen i \<noteq> 0"
    and "gen' i = 0" "nx' i = h" and "\<And>j. j \<noteq> i \<Longrightarrow> gen' j = gen j \<and> nx' j = nx j"
  shows "pool_ok n gen' nx' (int i)"
proof -
  from assms(1) obtain fs where fs: "chain nx h fs" "distinct fs" "set fs = {j. j < n \<and> gen j = 0}"
    by (auto simp: pool_ok_def)
  have i: "i \<notin> set fs" using fs(3) assms(3) by simp
  then have "chain nx h fs = chain nx' h fs"
    using assms(6) by (intro chain_cong) metis
  moreover have "set (i # fs) = {j. j < n \<and> gen' j = 0}"
  proof -
    have "(j < n \<and> gen' j = 0) = (j = i \<or> j \<in> set fs)" for j
      using assms(2,4) assms(6) [of j] fs(3) by (cases "j = i") auto
    then show ?thesis by auto
  qed
  ultimately show ?thesis
    using fs i assms(5) unfolding pool_ok_def by (intro exI [of _ "i # fs"]) auto
qed

lemma pool_ok_pop:
  assumes "pool_ok n gen nx h" and "0 \<le> h"
  shows "nat h < n \<and> gen (nat h) = 0 \<and>
    (\<forall>gen' nx'. gen' (nat h) \<noteq> 0 \<longrightarrow> (\<forall>j. j \<noteq> nat h \<longrightarrow> gen' j = gen j \<and> nx' j = nx j) \<longrightarrow>
       pool_ok n gen' nx' (nx (nat h)))"
proof -
  from assms obtain i fs where fs: "chain nx h (i # fs)" "distinct (i # fs)" "set (i # fs) = {j. j < n \<and> gen j = 0}"
    unfolding pool_ok_def by (metis chain.simps(1) list.exhaust not_one_le_zero neg_0_le_iff_le of_nat_0_le_iff)
  then have h: "h = int i" "i < n" "gen i = 0" "chain nx (nx i) fs" by auto
  have "pool_ok n gen' nx' (nx i)"
    if g: "gen' i \<noteq> 0" and same: "\<forall>j. j \<noteq> i \<longrightarrow> gen' j = gen j \<and> nx' j = nx j" for gen' nx'
  proof -
    have "chain nx' (nx i) fs"
      using h(4) fs(2) same chain_cong [of fs nx nx'] by (metis distinct.simps(2))
    moreover have "set fs = {j. j < n \<and> gen' j = 0}"
    proof -
      have "(j < n \<and> gen' j = 0) = (j \<in> set fs)" for j
        using g same fs(2,3) by (cases "j = i") (auto simp: set_eq_iff)
      then show ?thesis by auto
    qed
    ultimately show ?thesis using fs(2) unfolding pool_ok_def by (intro exI [of _ fs]) auto
  qed
  with h show ?thesis by auto
qed

lemma pool_ok_full: "pool_ok n gen nx h \<Longrightarrow> h < 0 \<Longrightarrow> i < n \<Longrightarrow> gen i \<noteq> 0"
proof -
  assume "pool_ok n gen nx h" "h < 0" "i < n"
  then obtain fs where "chain nx h fs" "set fs = {j. j < n \<and> gen j = 0}" by (auto simp: pool_ok_def)
  moreover from this \<open>h < 0\<close> have "fs = []" by (cases fs) auto
  ultimately show ?thesis using \<open>i < n\<close> by auto
qed

lemma pool_ok_grow:
  assumes "pool_ok n gen nx h" and "gen' n \<noteq> 0" and "\<And>j. j < n \<Longrightarrow> gen' j = gen j \<and> nx' j = nx j"
  shows "pool_ok (Suc n) gen' nx' h"
proof -
  from assms(1) obtain fs where fs: "chain nx h fs" "distinct fs" "set fs = {j. j < n \<and> gen j = 0}"
    by (auto simp: pool_ok_def)
  have "chain nx' h fs"
    using fs assms(3) chain_cong [of fs nx nx'] by auto
  moreover have "set fs = {j. j < Suc n \<and> gen' j = 0}"
    using assms(2,3) fs(3) by (auto simp: less_Suc_eq)
  ultimately show ?thesis using fs(2) by (auto simp: pool_ok_def)
qed

section \<open>The pool contract\<close>

locale free_list_pool =
  fixes cells :: "'s \<Rightarrow> nat" and gen_at :: "'s \<Rightarrow> nat \<Rightarrow> u32" and next_at :: "'s \<Rightarrow> nat \<Rightarrow> int"
    and head :: "'s \<Rightarrow> int" and free_cell :: "nat \<Rightarrow> 's \<Rightarrow> 's"
  assumes free_cells: "cells (free_cell i s) = cells s"
    and free_here: "i < cells s \<Longrightarrow> gen_at (free_cell i s) i = 0 \<and> next_at (free_cell i s) i = head s"
    and free_head: "head (free_cell i s) = int i"
    and free_others: "j \<noteq> i \<Longrightarrow> gen_at (free_cell i s) j = gen_at s j \<and> next_at (free_cell i s) j = next_at s j"
begin

definition free_list_ok :: "'s \<Rightarrow> bool" where
  "free_list_ok s \<longleftrightarrow> pool_ok (cells s) (gen_at s) (next_at s) (head s)"

definition live :: "'s \<Rightarrow> nat \<Rightarrow> bool" where
  "live s i \<longleftrightarrow> i < cells s \<and> gen_at s i \<noteq> 0"

lemma freeing_keeps: "free_list_ok s \<Longrightarrow> live s i \<Longrightarrow> free_list_ok (free_cell i s)"
  unfolding free_list_ok_def live_def free_cells free_head
  by (rule pool_ok_free) (use free_here free_others in auto)

lemma freeing_live: "live s i \<Longrightarrow> live (free_cell i s) j \<longleftrightarrow> live s j \<and> j \<noteq> i"
  using free_here [of i s] free_others [of j i s] by (cases "j = i") (auto simp: live_def free_cells)

lemma free_head_dead: "free_list_ok s \<Longrightarrow> 0 \<le> head s \<Longrightarrow> nat (head s) < cells s \<and> \<not> live s (nat (head s))"
  using pool_ok_pop [of "cells s" "gen_at s" "next_at s" "head s"] by (simp add: free_list_ok_def live_def)

lemma exhausted_all_live: "free_list_ok s \<Longrightarrow> head s < 0 \<Longrightarrow> i < cells s \<Longrightarrow> live s i"
  using pool_ok_full [of "cells s" "gen_at s" "next_at s" "head s" i] by (simp add: free_list_ok_def live_def)

lemma unlinked_keeps:
  "free_list_ok s \<Longrightarrow> 0 \<le> head s \<Longrightarrow> cells t = cells s \<Longrightarrow> head t = next_at s (nat (head s)) \<Longrightarrow>
     gen_at t (nat (head s)) \<noteq> 0 \<Longrightarrow>
     (\<And>j. j \<noteq> nat (head s) \<Longrightarrow> gen_at t j = gen_at s j \<and> next_at t j = next_at s j) \<Longrightarrow> free_list_ok t"
  using pool_ok_pop [of "cells s" "gen_at s" "next_at s" "head s"] by (simp add: free_list_ok_def)

lemma grown_keeps:
  "free_list_ok s \<Longrightarrow> cells t = Suc (cells s) \<Longrightarrow> head t = head s \<Longrightarrow> gen_at t (cells s) \<noteq> 0 \<Longrightarrow>
     (\<And>j. j < cells s \<Longrightarrow> gen_at t j = gen_at s j \<and> next_at t j = next_at s j) \<Longrightarrow> free_list_ok t"
  using pool_ok_grow [of "cells s" "gen_at s" "next_at s" "head s" "gen_at t" "next_at t"]
  by (simp add: free_list_ok_def)

lemma same_links_keep:
  "free_list_ok s \<Longrightarrow> cells t = cells s \<Longrightarrow> head t = head s \<Longrightarrow>
     (\<And>j. j < cells s \<Longrightarrow> gen_at t j = gen_at s j \<and> next_at t j = next_at s j) \<Longrightarrow> free_list_ok t"
  using pool_ok_cong [of "cells s" "gen_at s" "gen_at t" "next_at s" "next_at t" "head s"]
  by (simp add: free_list_ok_def)

end

definition slot_gen :: "producer \<Rightarrow> nat \<Rightarrow> u32" where
  "slot_gen st i = s_gen (st_slots st ! i)"

definition slot_next :: "producer \<Rightarrow> nat \<Rightarrow> int" where
  "slot_next st i = s_next_free (st_slots st ! i)"

definition nrec_gen :: "producer \<Rightarrow> nat \<Rightarrow> u32" where
  "nrec_gen st i = n_gen (st_nrecs st ! i)"

definition nrec_next :: "producer \<Rightarrow> nat \<Rightarrow> int" where
  "nrec_next st i = n_next_free (st_nrecs st ! i)"

lemmas cell_defs = slot_gen_def slot_next_def nrec_gen_def nrec_next_def

interpretation slot_pool: free_list_pool
  "\<lambda>st. length (st_slots st)" slot_gen slot_next st_slot_free_head "\<lambda>i. reset_slot i r"
  for r
  by unfold_locales (auto simp: cell_defs reset_slot_def upd_slot_def Let_def zero_slot_def)

interpretation nrec_pool: free_list_pool
  "\<lambda>st. length (st_nrecs st)" nrec_gen nrec_next st_nrec_free_head "\<lambda>i. free_nrec i by_owner"
  for by_owner
  by unfold_locales (auto simp: cell_defs free_nrec_def upd_nrec_def)

section \<open>Handles\<close>

lemma ref_bits:
  "bit (push_bit 32 (ucast (g :: u32)) OR ucast (w :: u32) :: u64) n \<longleftrightarrow>
     n < 64 \<and> (if n < 32 then bit w n else bit g (n - 32))"
  by (auto simp: bit_simps dest: bit_imp_le_length)

lemma gen_top_bit: "unat (g :: u32) < 2 ^ 31 \<Longrightarrow> \<not> bit g 31"
proof -
  assume "unat g < 2 ^ 31"
  then have "\<not> bit (unat g) 31" by (simp add: bit_iff_odd)
  then show ?thesis by (simp add: bit_unsigned_iff)
qed

lemma ref_abs_ref:
  assumes "unat (g :: u32) < 2 ^ 31" and "g \<noteq> 0"
    and v_def: "v = (push_bit 32 (ucast g) OR ucast (of_nat i :: u32) :: u64)"
  shows "ref_abs v = v" "ref_abs (- v) = v" "0 <s v" "- v <s 0"
proof -
  have top: "\<not> bit v 63"
    using gen_top_bit [OF assms(1)] by (simp add: v_def ref_bits)
  then have nonneg: "0 \<le> sint v"
    using bit_last_iff [of v] by simp
  obtain n where "bit g n" using assms(2) by (metis bit_eqI bit_0_eq bot_apply bot_bool_def)
  then have "bit v (n + 32)" by (auto simp: v_def ref_bits dest: bit_imp_le_length)
  then have "v \<noteq> 0" by auto
  then have pos: "0 < sint v" using nonneg by (metis order_le_less sint_0 signed_word_eqI)
  have "sint v < 2 ^ 63" using sint_lt [of v] by simp
  have neg: "sint (- v) = - sint v"
    unfolding sint_word_ariths using pos \<open>sint v < 2 ^ 63\<close> by (simp add: signed_take_bit_int_eq_self)
  show "0 <s v" using pos by (simp add: word_sless_alt)
  show "- v <s 0" using pos neg by (simp add: word_sless_alt)
  then show "ref_abs (- v) = v" by (simp add: ref_abs_def)
  show "ref_abs v = v" using nonneg by (simp add: ref_abs_def word_sless_alt)
qed

lemma ref_halves:
  "ucast (drop_bit 32 (push_bit 32 (ucast (g :: u32)) OR ucast (w :: u32) :: u64)) = g"
  "ucast (push_bit 32 (ucast (g :: u32)) OR ucast (w :: u32) :: u64) = w"
proof -
  have high: "\<not> bit w (32 + n)" for n
    using bit_imp_le_length [of w "32 + n"] by auto
  show "ucast (drop_bit 32 (push_bit 32 (ucast g) OR ucast w :: u64)) = g"
    by (rule bit_eqI) (auto simp: bit_simps high)
  show "ucast (push_bit 32 (ucast g) OR ucast w :: u64) = w"
    by (rule bit_eqI) (auto simp: bit_simps)
qed

lemma make_ref_fields:
  assumes "unat g < 2 ^ 31" and "g \<noteq> 0" and "i < 2 ^ 31"
  shows "ref_gen (make_ref g i r) = g" "ref_idx (make_ref g i r) = int i"
    "0 <s make_ref g i r \<longleftrightarrow> r" "make_ref g i r <s 0 \<longleftrightarrow> \<not> r" "make_ref g i r \<noteq> 0"
proof -
  note v = ref_abs_ref [OF assms(1,2) refl, of i]
  have "sint (of_nat i :: u32) = int i"
    using assms(3) by (simp add: signed_of_nat signed_take_bit_int_eq_self)
  then show "ref_idx (make_ref g i r) = int i"
    using v by (cases r) (simp_all only: ref_idx_def make_ref_def Let_def ref_halves if_True if_False)
  show "ref_gen (make_ref g i r) = g"
    using v by (cases r) (simp_all only: ref_gen_def make_ref_def Let_def ref_halves if_True if_False)
  show "0 <s make_ref g i r \<longleftrightarrow> r" "make_ref g i r <s 0 \<longleftrightarrow> \<not> r" "make_ref g i r \<noteq> 0"
    using v(3,4) by (auto simp: make_ref_def Let_def word_sless_alt)
qed

end
