(* ===== verification/Producer_Invariant.thy ===== *)
theory Producer_Invariant
  imports Free_List
begin

text \<open>
  The invariant of the span machinery and its preservation by every operation: the stack
  holds distinct open entries, activations being exactly the detached ones; both pools'
  free lists are intact; the session count and the resource owners' records agree with the
  slots; generations stay in range; open spans have valid IDs.
\<close>

section \<open>The invariant\<close>

definition open_slot :: "producer \<Rightarrow> nat \<Rightarrow> bool" where
  "open_slot st i \<longleftrightarrow> i < length (st_slots st) \<and> s_gen (st_slots st ! i) \<noteq> 0"

definition open_nrec :: "producer \<Rightarrow> nat \<Rightarrow> bool" where
  "open_nrec st i \<longleftrightarrow> i < length (st_nrecs st) \<and> n_gen (st_nrecs st ! i) \<noteq> 0"

definition entry_nrec :: "int \<Rightarrow> nat" where
  "entry_nrec e = nat (- e - 1)"

definition entry_open :: "producer \<Rightarrow> int \<Rightarrow> bool" where
  "entry_open st e \<longleftrightarrow> (if 0 \<le> e then open_slot st (nat e) else open_nrec st (entry_nrec e))"

definition entry_detached :: "producer \<Rightarrow> int \<Rightarrow> bool" where
  "entry_detached st e \<longleftrightarrow>
     (if 0 \<le> e then s_detached (st_slots st ! nat e) else n_detached (st_nrecs st ! entry_nrec e))"

definition wf_stack :: "producer \<Rightarrow> bool" where
  "wf_stack st \<longleftrightarrow>
     distinct (map se_entry (st_stack st)) \<and> length (st_stack st) \<le> OTEL_MAX_STACK_DEPTH \<and>
     (\<forall>e\<in>set (st_stack st). entry_open st (se_entry e) \<and>
        (se_is_activation e \<longleftrightarrow> entry_detached st (se_entry e)))"

definition wf_pools :: "producer \<Rightarrow> bool" where
  "wf_pools st \<longleftrightarrow>
     pool_ok (length (st_slots st)) (slot_gen st) (slot_next st) (st_slot_free_head st) \<and>
     pool_ok (length (st_nrecs st)) (nrec_gen st) (nrec_next st) (st_nrec_free_head st) \<and>
     length (st_nrecs st) \<le> OTEL_MAX_STACK_DEPTH \<and>
     length (st_slots st) \<le> st_nslots st \<and> st_nslots st < 2 ^ 31 \<and> (st_slots st = [] \<or> st_pool st)"

definition session_count :: "producer \<Rightarrow> nat" where
  "session_count st = length (filter (\<lambda>s. s_gen s \<noteq> 0 \<and> s_session s) (st_slots st))"

definition wf_session :: "producer \<Rightarrow> bool" where
  "wf_session st \<longleftrightarrow> st_session_open st = int (session_count st) \<and>
     (\<forall>i. open_slot st i \<longrightarrow> s_session (st_slots st ! i) \<longrightarrow> s_owner (st_slots st ! i) = None)"

definition wf_gens :: "producer \<Rightarrow> bool" where
  "wf_gens st \<longleftrightarrow>
     unat (st_gen_counter st) < 2 ^ 31 \<and>
     (\<forall>s\<in>set (st_slots st). unat (s_gen s) < 2 ^ 31) \<and> (\<forall>n\<in>set (st_nrecs st). unat (n_gen n) < 2 ^ 31)"

definition slot_handle :: "producer \<Rightarrow> nat \<Rightarrow> i64" where
  "slot_handle st i = make_ref (s_gen (st_slots st ! i)) i True"

definition wf_ledger :: "producer \<Rightarrow> bool" where
  "wf_ledger st \<longleftrightarrow>
     (\<forall>i ow. open_slot st i \<longrightarrow> s_owner (st_slots st ! i) = Some ow \<longrightarrow> (ow, slot_handle st i) \<in> set (st_ledger st))"

definition trace_id_ok :: "trace_id \<Rightarrow> bool" where
  "trace_id_ok t \<longleftrightarrow> length t = 16 \<and> otel_trace_id_is_valid t"

definition span_id_ok :: "span_id \<Rightarrow> bool" where
  "span_id_ok i \<longleftrightarrow> length i = 8 \<and> otel_span_id_is_valid i"

definition wf_ids :: "producer \<Rightarrow> bool" where
  "wf_ids st \<longleftrightarrow>
     (\<forall>i. open_slot st i \<longrightarrow> trace_id_ok (sp_trace_id (s_span (st_slots st ! i))) \<and>
                            span_id_ok (sp_span_id (s_span (st_slots st ! i)))) \<and>
     (\<forall>i. open_nrec st i \<longrightarrow> trace_id_ok (trace_id (n_ctx (st_nrecs st ! i))) \<and>
                            (n_have_span_id (st_nrecs st ! i) \<longrightarrow> span_id_ok (span_id (n_ctx (st_nrecs st ! i)))) \<and>
                            \<not> otel_span_context_sampled (n_ctx (st_nrecs st ! i)))"

definition wf :: "producer \<Rightarrow> bool" where
  "wf st \<longleftrightarrow> wf_stack st \<and> wf_pools st \<and> wf_session st \<and> wf_gens st \<and> wf_ledger st \<and> wf_ids st"

lemmas wf_defs = wf_def wf_stack_def wf_pools_def wf_session_def wf_gens_def wf_ledger_def wf_ids_def

section \<open>What the invariant depends on\<close>

definition slot_shape where
  "slot_shape s = (s_gen s, s_next_free s, s_detached s, s_session s, s_owner s,
     sp_trace_id (s_span s), sp_span_id (s_span s))"

definition skeleton where
  "skeleton st = (st_stack st, map slot_shape (st_slots st), st_nslots st, st_slot_free_head st,
     st_session_open st, st_nrecs st, st_nrec_free_head st, st_ledger st, st_pool st)"

lemma slot_shape_core: "slot_core t = slot_core s \<Longrightarrow> slot_shape t = slot_shape s"
  by (simp add: slot_core_def slot_shape_def Let_def)

lemma shape_nth:
  assumes "map slot_shape xs = map slot_shape ys"
  shows "length xs = length ys" and "i < length ys \<Longrightarrow> slot_shape (xs ! i) = slot_shape (ys ! i)"
  using assms by (auto dest: map_eq_imp_length_eq) (metis length_map nth_map)

lemma shape_sel:
  "slot_shape s = slot_shape t \<Longrightarrow> s_gen s = s_gen t \<and> s_next_free s = s_next_free t \<and>
     s_detached s = s_detached t \<and> s_session s = s_session t \<and> s_owner s = s_owner t \<and>
     sp_trace_id (s_span s) = sp_trace_id (s_span t) \<and> sp_span_id (s_span s) = sp_span_id (s_span t)"
  by (simp add: slot_shape_def)

lemma session_count_shape:
  "session_count st = length (filter (\<lambda>(g, _, _, ses, _). g \<noteq> 0 \<and> ses) (map slot_shape (st_slots st)))"
  by (simp add: session_count_def length_filter_map o_def slot_shape_def case_prod_beta)

lemma wf_skeleton:
  assumes "skeleton s = skeleton t" and "unat (st_gen_counter s) < 2 ^ 31" and "wf t"
  shows "wf s"
proof -
  have eqs: "st_stack s = st_stack t" "st_nslots s = st_nslots t" "st_slot_free_head s = st_slot_free_head t"
      "st_session_open s = st_session_open t" "st_nrecs s = st_nrecs t"
      "st_nrec_free_head s = st_nrec_free_head t" "st_ledger s = st_ledger t" "st_pool s = st_pool t"
    and m: "map slot_shape (st_slots s) = map slot_shape (st_slots t)"
    using assms(1) by (simp_all add: skeleton_def)
  note len = shape_nth(1) [OF m]
  have at: "s_gen (st_slots s ! i) = s_gen (st_slots t ! i) \<and> s_next_free (st_slots s ! i) = s_next_free (st_slots t ! i)
      \<and> s_detached (st_slots s ! i) = s_detached (st_slots t ! i) \<and> s_session (st_slots s ! i) = s_session (st_slots t ! i)
      \<and> s_owner (st_slots s ! i) = s_owner (st_slots t ! i)
      \<and> sp_trace_id (s_span (st_slots s ! i)) = sp_trace_id (s_span (st_slots t ! i))
      \<and> sp_span_id (s_span (st_slots s ! i)) = sp_span_id (s_span (st_slots t ! i))"
    if "i < length (st_slots t)" for i
    using shape_sel [OF shape_nth(2) [OF m that]] .
  have op: "open_slot s i = open_slot t i" "open_nrec s i = open_nrec t i" for i
    using at [of i] by (auto simp: open_slot_def open_nrec_def len eqs)
  have det: "entry_detached s e = entry_detached t e" if "entry_open t e" for e
    using that at [of "nat e"] by (auto simp: entry_detached_def entry_open_def open_slot_def eqs)
  have "wf_stack s" using \<open>wf t\<close> det by (auto simp: wf_def wf_stack_def eqs entry_open_def op)
  moreover have "pool_ok (length (st_slots s)) (slot_gen s) (slot_next s) (st_slot_free_head s)"
    using \<open>wf t\<close> at pool_ok_cong [of "length (st_slots t)" "slot_gen s" "slot_gen t" "slot_next s" "slot_next t"]
    by (simp add: wf_def wf_pools_def len eqs slot_gen_def slot_next_def)
  then have "wf_pools s"
    using \<open>wf t\<close> len by (auto simp: wf_def wf_pools_def eqs nrec_gen_def [abs_def] nrec_next_def [abs_def])
  moreover have "session_count s = session_count t"
    by (simp only: session_count_shape m)
  then have "wf_session s"
    using \<open>wf t\<close> at by (auto simp: wf_def wf_session_def eqs op open_slot_def len)
  moreover have "wf_gens s"
    using \<open>wf t\<close> assms(2) at by (fastforce simp: wf_def wf_gens_def eqs len in_set_conv_nth)
  moreover have "wf_ledger s"
    using \<open>wf t\<close> at by (auto simp: wf_def wf_ledger_def eqs op slot_handle_def open_slot_def len)
  moreover have "wf_ids s"
    using \<open>wf t\<close> at by (auto simp: wf_def wf_ids_def eqs op open_slot_def len)
  ultimately show ?thesis by (simp add: wf_def)
qed

section \<open>Steps that leave the skeleton alone\<close>

lemma skeleton_bump [simp]: "skeleton (bump c st) = skeleton st"
  by (simp add: skeleton_def bump_def)

lemma bump_frame [simp]:
  "st_stack (bump c st) = st_stack st" "st_slots (bump c st) = st_slots st" "st_nrecs (bump c st) = st_nrecs st"
  "st_gen_counter (bump c st) = st_gen_counter st" "st_ledger (bump c st) = st_ledger st"
  "st_exported (bump c st) = st_exported st" "st_dispatch_depth (bump c st) = st_dispatch_depth st"
  "st_prng (bump c st) = st_prng st" "st_session_open (bump c st) = st_session_open st"
  "st_pool (bump c st) = st_pool st" "st_nslots (bump c st) = st_nslots st"
  "st_slot_free_head (bump c st) = st_slot_free_head st" "st_nrec_free_head (bump c st) = st_nrec_free_head st"
  by (simp_all add: bump_def)

lemma bump_n_frame [simp]:
  "skeleton (bump_n n c st) = skeleton st" "st_stack (bump_n n c st) = st_stack st"
  "st_slots (bump_n n c st) = st_slots st" "st_nrecs (bump_n n c st) = st_nrecs st"
  "st_gen_counter (bump_n n c st) = st_gen_counter st" "st_exported (bump_n n c st) = st_exported st"
  "st_dispatch_depth (bump_n n c st) = st_dispatch_depth st" "st_ledger (bump_n n c st) = st_ledger st"
  by (induction n c st rule: bump_n.induct) simp_all

lemma fold_bump_frame [simp]:
  "skeleton (fold bump cs st) = skeleton st" "st_stack (fold bump cs st) = st_stack st"
  "st_slots (fold bump cs st) = st_slots st" "st_nrecs (fold bump cs st) = st_nrecs st"
  "st_gen_counter (fold bump cs st) = st_gen_counter st" "st_exported (fold bump cs st) = st_exported st"
  "st_dispatch_depth (fold bump cs st) = st_dispatch_depth st" "st_ledger (fold bump cs st) = st_ledger st"
  by (induction cs arbitrary: st) simp_all

lemma wf_gen_bound: "wf st \<Longrightarrow> unat (st_gen_counter st) < 2 ^ 31"
  by (simp add: wf_def wf_gens_def)

lemma wf_same:
  "skeleton s = skeleton t \<Longrightarrow> st_gen_counter s = st_gen_counter t \<Longrightarrow> wf t \<Longrightarrow> wf s"
  using wf_skeleton [of s t] wf_gen_bound [of t] by simp

lemma wf_eqI: "skeleton s = skeleton t \<Longrightarrow> st_gen_counter s = st_gen_counter t \<Longrightarrow> wf s = wf t"
  by (metis wf_same)

lemma wf_bump [simp]: "wf (bump c st) = wf st" "wf (bump_n n c st) = wf st" "wf (fold bump cs st) = wf st"
  by (rule wf_eqI; simp)+

lemma skeleton_frame [simp]:
  "skeleton (st\<lparr>st_dispatch_depth := d\<rparr>) = skeleton st" "skeleton (st\<lparr>st_exported := x\<rparr>) = skeleton st"
  "skeleton (st\<lparr>st_prng := v\<rparr>) = skeleton st" "skeleton (st\<lparr>st_prng_pid := p\<rparr>) = skeleton st"
  "skeleton (st\<lparr>st_gen_counter := g\<rparr>) = skeleton st" "skeleton (st\<lparr>st_counters := c\<rparr>) = skeleton st"
  "skeleton (st\<lparr>st_non_lifo_warned := b\<rparr>) = skeleton st" "skeleton (st\<lparr>st_exit_registered := b\<rparr>) = skeleton st"
  "skeleton (st\<lparr>st_tracers := tr\<rparr>) = skeleton st"
  by (simp_all add: skeleton_def)

lemma skeleton_upd_slot:
  "slot_shape (f (st_slots st ! i)) = slot_shape (st_slots st ! i) \<Longrightarrow> skeleton (upd_slot i f st) = skeleton st"
  by (cases "i < length (st_slots st)") (simp_all add: skeleton_def upd_slot_def map_update list_update_same_conv list_update_beyond)

lemma upd_slot_frame [simp]:
  "st_stack (upd_slot i f st) = st_stack st" "st_nrecs (upd_slot i f st) = st_nrecs st"
  "st_gen_counter (upd_slot i f st) = st_gen_counter st" "st_ledger (upd_slot i f st) = st_ledger st"
  "st_exported (upd_slot i f st) = st_exported st" "st_dispatch_depth (upd_slot i f st) = st_dispatch_depth st"
  "length (st_slots (upd_slot i f st)) = length (st_slots st)" "(st_slots (upd_slot i f st) = []) = (st_slots st = [])"
  "st_pool (upd_slot i f st) = st_pool st"
  "st_session_open (upd_slot i f st) = st_session_open st" "st_nslots (upd_slot i f st) = st_nslots st"
  "st_slot_free_head (upd_slot i f st) = st_slot_free_head st"
  "st_nrec_free_head (upd_slot i f st) = st_nrec_free_head st" "st_prng (upd_slot i f st) = st_prng st"
  by (simp_all add: upd_slot_def)

lemma upd_slot_nth: "st_slots (upd_slot i f st) ! j =
    (if j = i \<and> i < length (st_slots st) then f (st_slots st ! i) else st_slots st ! j)"
  by (cases "i < length (st_slots st)"; cases "j = i") (simp_all add: upd_slot_def list_update_beyond)

lemma wf_upd_slot:
  "slot_shape (f (st_slots st ! i)) = slot_shape (st_slots st ! i) \<Longrightarrow> wf st \<Longrightarrow> wf (upd_slot i f st)"
  by (rule wf_same [OF skeleton_upd_slot]) simp_all

lemma open_slot_skeleton:
  "skeleton s = skeleton t \<Longrightarrow> open_slot s i = open_slot t i"
  "skeleton s = skeleton t \<Longrightarrow> open_nrec s i = open_nrec t i"
proof -
  assume "skeleton s = skeleton t"
  then have m: "map slot_shape (st_slots s) = map slot_shape (st_slots t)" "st_nrecs s = st_nrecs t"
    by (simp_all add: skeleton_def)
  show "open_slot s i = open_slot t i"
    using shape_nth(1) [OF m(1)] shape_sel [OF shape_nth(2) [OF m(1)], of i] by (auto simp: open_slot_def)
  show "open_nrec s i = open_nrec t i" by (simp add: open_nrec_def m)
qed

lemma mark_error_core: "slot_core (mark_error env ed s) = slot_core s"
  by (simp add: mark_error_def error_description_def slot_alloc_def slot_core_def upd_span_def Let_def)

lemma lower_error_core: "slot_core (lower_error_event env err s) = slot_core s"
proof -
  obtain g cap s1 where g: "slot_grow env S_events (s_events_cap s) (Suc (length (sp_events (s_span s))))
      sizeof_OtelSpanEvent s = (g, cap, s1)" by (metis prod_cases3)
  have "slot_core s1 = slot_core s" using grow_evolves(1) [OF g] by (simp add: evolves_def)
  then show ?thesis
    by (simp add: lower_error_event_def g Let_def error_description_def slot_alloc_def slot_core_def upd_span_def
        push_event_def drop_event_def)
qed

lemma finish_shape: "slot_shape (finish_slot env t r s) = slot_shape s"
proof -
  have upd: "slot_shape (upd_span (\<lambda>p. p\<lparr>sp_status := a\<rparr>) x) = slot_shape x"
      "slot_shape (upd_span (\<lambda>p. p\<lparr>sp_description := b\<rparr>) x) = slot_shape x"
      "slot_shape (upd_span (\<lambda>p. p\<lparr>sp_end_time := c\<rparr>) x) = slot_shape x"
      "slot_shape (x\<lparr>s_dispatching := d\<rparr>) = slot_shape x" for a b c d x
    by (simp_all add: slot_shape_def upd_span_def)
  show ?thesis
    by (simp add: finish_slot_def Let_def upd slot_shape_core [OF lower_error_core] split: option.split)
qed

lemma dispatch_cases:
  obtains (silent) "dispatch_span env sp st = (Ret (), st)" "e_hook env = None" "\<not> e_emit_to_log env"
  | (returned) n es where "dispatch_span env sp st = (Ret (),
        (fold bump es (bump_n n C_in_emit_hook (st\<lparr>st_dispatch_depth := st_dispatch_depth st + 1,
           st_exported := st_exported st @ [sp]\<rparr>)))\<lparr>st_dispatch_depth := st_dispatch_depth st\<rparr>)"
  | (fatal) n where "dispatch_span env sp st = (Fatal, bump_n n C_in_emit_hook
        (st\<lparr>st_dispatch_depth := st_dispatch_depth st + 1, st_exported := st_exported st @ [sp]\<rparr>))"
proof (cases "e_hook env = None \<and> \<not> e_emit_to_log env")
  case True
  then show thesis by (intro silent) (auto simp: dispatch_span_def)
next
  case False
  define run where "run = (case e_hook env of None \<Rightarrow> \<lparr>hr_refused_calls = 0, hr_exit = Hook_return\<rparr> | Some h \<Rightarrow> h sp)"
  let ?t = "bump_n (hr_refused_calls run) C_in_emit_hook
      (st\<lparr>st_dispatch_depth := st_dispatch_depth st + 1, st_exported := st_exported st @ [sp]\<rparr>)"
  have comm: "bump c (x\<lparr>st_dispatch_depth := d\<rparr>) = (bump c x)\<lparr>st_dispatch_depth := d\<rparr>" for c x d
    by (simp add: bump_def)
  have d: "dispatch_span env sp st =
      (case hr_exit run of
         Hook_fatal \<Rightarrow> (Fatal, ?t)
       | Hook_error \<Rightarrow> (Ret (), (fold bump [C_emit_hook_errors, C_spans_emitted] ?t)\<lparr>st_dispatch_depth := st_dispatch_depth st\<rparr>)
       | Hook_return \<Rightarrow>
           if e_emit_to_log env \<and> \<not> e_log_ok env sp
           then (Ret (), (fold bump [C_emit_hook_errors, C_spans_emitted] ?t)\<lparr>st_dispatch_depth := st_dispatch_depth st\<rparr>)
           else (Ret (), (fold bump [C_spans_emitted] ?t)\<lparr>st_dispatch_depth := st_dispatch_depth st\<rparr>))"
    using False unfolding dispatch_span_def run_def [symmetric] Let_def
    by (cases "hr_exit run") (auto simp: comm)
  consider "dispatch_span env sp st = (Fatal, ?t)"
    | es where "dispatch_span env sp st = (Ret (), (fold bump es ?t)\<lparr>st_dispatch_depth := st_dispatch_depth st\<rparr>)"
    unfolding d by (cases "hr_exit run"; cases "e_emit_to_log env \<and> \<not> e_log_ok env sp";
        simp only: hook_exit.case if_True if_False simp_thms; blast)
  then show thesis by cases (rule fatal, assumption, rule returned, assumption)
qed

lemma dispatch_frame:
  assumes "dispatch_span env sp st = (r, t)"
  shows "skeleton t = skeleton st" "st_gen_counter t = st_gen_counter st" "st_slots t = st_slots st"
    "r = Ret () \<or> r = Fatal" "r = Ret () \<Longrightarrow> st_dispatch_depth t = st_dispatch_depth st"
    "st_nrecs t = st_nrecs st" "st_stack t = st_stack st" "st_ledger t = st_ledger st"
  by (cases rule: dispatch_cases [of env sp st]; use assms in simp)+

section \<open>Taking entries off the stack\<close>

lemma wf_shrink:
  assumes "wf st" and "set xs \<subseteq> set (st_stack st)" and "distinct (map se_entry xs)"
    and "length xs \<le> length (st_stack st)"
  shows "wf (st\<lparr>st_stack := xs\<rparr>)"
proof -
  have op: "entry_open (st\<lparr>st_stack := xs\<rparr>) e = entry_open st e"
      "entry_detached (st\<lparr>st_stack := xs\<rparr>) e = entry_detached st e"
      "open_slot (st\<lparr>st_stack := xs\<rparr>) i = open_slot st i" "open_nrec (st\<lparr>st_stack := xs\<rparr>) i = open_nrec st i" for e i
    by (simp_all add: entry_open_def entry_detached_def open_slot_def open_nrec_def)
  have "wf_stack (st\<lparr>st_stack := xs\<rparr>)"
    using assms unfolding wf_def wf_stack_def op by auto
  with assms(1) show ?thesis
    by (simp add: wf_def wf_pools_def wf_session_def wf_gens_def wf_ledger_def wf_ids_def op session_count_def
        slot_handle_def slot_gen_def [abs_def] slot_next_def [abs_def] nrec_gen_def [abs_def] nrec_next_def [abs_def])
qed

lemma wf_pop: "wf st \<Longrightarrow> wf (stack_pop st)"
  unfolding stack_pop_def
  by (rule wf_shrink) (auto simp: wf_def wf_stack_def map_butlast distinct_butlast dest: in_set_butlastD)

lemma wf_remove_at: "wf st \<Longrightarrow> i < length (st_stack st) \<Longrightarrow> wf (stack_remove_at i st)"
  unfolding stack_remove_at_def
  using set_remove_at [of i "st_stack st"]
  by (intro wf_shrink) (auto simp: wf_def wf_stack_def map_remove_at distinct_remove_at length_remove_at)

lemma wf_filter: "wf st \<Longrightarrow> wf (st\<lparr>st_stack := filter P (st_stack st)\<rparr>)"
  by (rule wf_shrink) (auto simp: wf_def wf_stack_def distinct_map_filter)

definition off_stack :: "int \<Rightarrow> producer \<Rightarrow> bool" where
  "off_stack e st \<longleftrightarrow> e \<notin> se_entry ` set (st_stack st)"

lemma stack_find_None: "stack_find e st = None \<longleftrightarrow> off_stack e st"
  by (auto simp: stack_find_def off_stack_def)

lemma stack_find_Some:
  assumes "stack_find e st = Some pos"
  shows "pos < length (st_stack st)" "se_entry (st_stack st ! pos) = e"
  using find_top_Some [of "\<lambda>x. se_entry x = e" "st_stack st" pos] assms by (simp_all add: stack_find_def)

lemma drop_entry_wf: "wf st \<Longrightarrow> wf (drop_entry e st)"
  by (auto simp: drop_entry_def dest: stack_find_Some intro: wf_remove_at split: option.split)

lemma drop_entry_off:
  assumes "wf st"
  shows "off_stack e (drop_entry e st)"
proof (cases "stack_find e st")
  case None
  then show ?thesis by (simp add: drop_entry_def) (simp flip: stack_find_None)
next
  case (Some pos)
  note pos = stack_find_Some [OF Some]
  have "distinct (map se_entry (st_stack st))" using assms by (simp add: wf_def wf_stack_def)
  then have "set (remove_at pos (map se_entry (st_stack st))) = set (map se_entry (st_stack st)) - {e}"
    using remove_at_set_distinct [of "map se_entry (st_stack st)" pos] pos by simp
  then show ?thesis
    using Some by (simp add: drop_entry_def off_stack_def stack_remove_at_def map_remove_at [symmetric]
        flip: set_map)
qed

lemma drop_entry_frame [simp]:
  "st_slots (drop_entry e st) = st_slots st" "st_nrecs (drop_entry e st) = st_nrecs st"
  "st_ledger (drop_entry e st) = st_ledger st" "st_exported (drop_entry e st) = st_exported st"
  "st_dispatch_depth (drop_entry e st) = st_dispatch_depth st"
  by (simp_all add: drop_entry_def stack_remove_at_def split: option.split)

lemma pop_frame [simp]:
  "st_slots (stack_pop st) = st_slots st" "st_nrecs (stack_pop st) = st_nrecs st"
  "st_ledger (stack_pop st) = st_ledger st" "st_exported (stack_pop st) = st_exported st"
  by (simp_all add: stack_pop_def)

section \<open>Freeing\<close>

lemma slots_free_list: "wf_pools st = (slot_pool.free_list_ok st \<and> nrec_pool.free_list_ok st \<and>
     length (st_nrecs st) \<le> OTEL_MAX_STACK_DEPTH \<and> length (st_slots st) \<le> st_nslots st \<and> st_nslots st < 2 ^ 31 \<and>
     (st_slots st = [] \<or> st_pool st))"
  by (simp add: wf_pools_def slot_pool.free_list_ok_def nrec_pool.free_list_ok_def)

lemma open_live: "slot_pool.live st i = open_slot st i" "nrec_pool.live st i = open_nrec st i"
  by (simp_all add: slot_pool.live_def nrec_pool.live_def open_slot_def open_nrec_def slot_gen_def nrec_gen_def)

lemma free_nrec_frame [simp]:
  "st_stack (free_nrec i b st) = st_stack st" "st_slots (free_nrec i b st) = st_slots st"
  "length (st_nrecs (free_nrec i b st)) = length (st_nrecs st)" "st_ledger (free_nrec i b st) = st_ledger st"
  "st_exported (free_nrec i b st) = st_exported st" "st_session_open (free_nrec i b st) = st_session_open st"
  "st_gen_counter (free_nrec i b st) = st_gen_counter st" "st_nslots (free_nrec i b st) = st_nslots st"
  "st_slot_free_head (free_nrec i b st) = st_slot_free_head st" "st_dispatch_depth (free_nrec i b st) = st_dispatch_depth st"
  "st_pool (free_nrec i b st) = st_pool st"
  by (simp_all add: free_nrec_def upd_nrec_def)

lemma free_nrec_nth:
  "j \<noteq> i \<Longrightarrow> st_nrecs (free_nrec i b st) ! j = st_nrecs st ! j"
  "i < length (st_nrecs st) \<Longrightarrow> n_gen (st_nrecs (free_nrec i b st) ! i) = 0"
  by (simp_all add: free_nrec_def upd_nrec_def)

lemma free_nrec_open: "open_nrec st i \<Longrightarrow> open_nrec (free_nrec i b st) j = (open_nrec st j \<and> j \<noteq> i)"
  using nrec_pool.freeing_live [of st i b j] by (simp add: open_live)

lemma entry_nrec_for: "entry_nrec (stack_entry_for_nrec i) = i" "stack_entry_for_nrec i < 0"
    "e < 0 \<Longrightarrow> stack_entry_for_nrec (entry_nrec e) = e"
  by (simp_all add: entry_nrec_def stack_entry_for_nrec_def)

lemma wf_free_nrec:
  assumes "wf st" and "open_nrec st i" and "off_stack (stack_entry_for_nrec i) st"
  shows "wf (free_nrec i b st)"
proof -
  let ?t = "free_nrec i b st"
  have slots: "open_slot ?t j = open_slot st j" for j by (simp add: open_slot_def)
  have nrecs: "open_nrec ?t j = (open_nrec st j \<and> j \<noteq> i)" for j by (rule free_nrec_open [OF assms(2)])
  have entry: "entry_open ?t (se_entry e) \<and> entry_detached ?t (se_entry e) = entry_detached st (se_entry e)"
    if "e \<in> set (st_stack st)" "entry_open st (se_entry e)" for e
  proof (cases "0 \<le> se_entry e")
    case True
    with that(2) show ?thesis by (simp add: entry_open_def entry_detached_def slots)
  next
    case False
    have "entry_nrec (se_entry e) \<noteq> i"
      using assms(3) that(1) False entry_nrec_for(3) [of "se_entry e"] by (auto simp: off_stack_def)
    with that(2) False show ?thesis
      by (simp add: entry_open_def entry_detached_def nrecs free_nrec_nth)
  qed
  have "wf_stack ?t"
    using assms(1) entry by (simp add: wf_def wf_stack_def)
  moreover have "wf_pools ?t"
  proof -
    have "slot_pool.free_list_ok ?t"
      by (rule slot_pool.same_links_keep [of st]) (use assms(1) in \<open>simp_all add: wf_def slots_free_list slot_gen_def slot_next_def\<close>)
    moreover have "nrec_pool.free_list_ok ?t"
      by (rule nrec_pool.freeing_keeps) (use assms(1,2) in \<open>simp_all add: wf_def slots_free_list open_live\<close>)
    ultimately show ?thesis using assms(1) by (simp add: wf_def slots_free_list)
  qed
  moreover have "wf_session ?t" using assms(1) by (simp add: wf_def wf_session_def session_count_def slots)
  moreover have "wf_gens ?t"
  proof -
    have "unat (n_gen (st_nrecs ?t ! j)) < 2 ^ 31" if "j < length (st_nrecs st)" for j
      using assms(1) that free_nrec_nth(1) [of j i b st] free_nrec_nth(2) [of i st b]
      by (cases "j = i") (auto simp: wf_def wf_gens_def)
    with assms(1) show ?thesis by (auto simp: wf_def wf_gens_def in_set_conv_nth)
  qed
  moreover have "wf_ledger ?t" using assms(1) by (simp add: wf_def wf_ledger_def slots slot_handle_def)
  moreover have "wf_ids ?t"
    using assms(1) by (auto simp: wf_def wf_ids_def slots nrecs free_nrec_nth)
  ultimately show ?thesis by (simp add: wf_def)
qed

lemma reset_slot_frame [simp]:
  "st_stack (reset_slot i r st) = st_stack st" "st_nrecs (reset_slot i r st) = st_nrecs st"
  "length (st_slots (reset_slot i r st)) = length (st_slots st)" "st_ledger (reset_slot i r st) = st_ledger st"
  "st_exported (reset_slot i r st) = st_exported st" "st_gen_counter (reset_slot i r st) = st_gen_counter st"
  "st_nslots (reset_slot i r st) = st_nslots st" "st_nrec_free_head (reset_slot i r st) = st_nrec_free_head st"
  "st_dispatch_depth (reset_slot i r st) = st_dispatch_depth st" "st_pool (reset_slot i r st) = st_pool st"
  "(st_slots (reset_slot i r st) = []) = (st_slots st = [])"
  "st_session_open (reset_slot i r st) = st_session_open st - (if s_session (st_slots st ! i) then 1 else 0)"
  by (simp_all add: reset_slot_def upd_slot_def Let_def)

lemma reset_slot_nth:
  "j \<noteq> i \<Longrightarrow> st_slots (reset_slot i r st) ! j = st_slots st ! j"
  "i < length (st_slots st) \<Longrightarrow> s_gen (st_slots (reset_slot i r st) ! i) = 0"
  "i < length (st_slots st) \<Longrightarrow> s_owner_released_gen (st_slots (reset_slot i r st) ! i) = r"
  by (simp_all add: reset_slot_def upd_slot_def Let_def zero_slot_def)

lemma reset_slot_open: "open_slot st i \<Longrightarrow> open_slot (reset_slot i r st) j = (open_slot st j \<and> j \<noteq> i)"
  using slot_pool.freeing_live [of st i r j] by (simp add: open_live)

lemma reset_slot_session:
  assumes "open_slot st i"
  shows "session_count (reset_slot i r st) = session_count st - (if s_session (st_slots st ! i) then 1 else 0)"
proof -
  let ?z = "zero_slot\<lparr>s_cxt := s_cxt (st_slots st ! i), s_owner_released_gen := r, s_next_free := st_slot_free_head st\<rparr>"
  have "st_slots (reset_slot i r st) = (st_slots st)[i := ?z]"
    by (simp add: reset_slot_def upd_slot_def Let_def)
  moreover have "length (filter (\<lambda>s. s_gen s \<noteq> 0 \<and> s_session s) ((st_slots st)[i := ?z])) + (if s_session (st_slots st ! i) then 1 else 0)
      = length (filter (\<lambda>s. s_gen s \<noteq> 0 \<and> s_session s) (st_slots st))"
    using count_filter_update [of i "st_slots st" "\<lambda>s. s_gen s \<noteq> 0 \<and> s_session s" ?z] assms
    by (simp add: open_slot_def zero_slot_def)
  ultimately show ?thesis unfolding session_count_def by (simp split: if_splits)
qed

lemma session_pos: "open_slot st i \<Longrightarrow> s_session (st_slots st ! i) \<Longrightarrow> 0 < session_count st"
  unfolding session_count_def open_slot_def by (intro filter_pos_of_mem [of "st_slots st ! i"]) auto

lemma wf_reset_slot:
  assumes "wf st" and "open_slot st i" and "off_stack (stack_entry_for_slot i) st"
    and ledger: "\<And>j ow. open_slot st j \<Longrightarrow> j \<noteq> i \<Longrightarrow> s_owner (st_slots st ! j) = Some ow \<Longrightarrow> (ow, slot_handle st j) \<in> set L"
  shows "wf (reset_slot i r (st\<lparr>st_ledger := L\<rparr>))"
proof -
  let ?s = "st\<lparr>st_ledger := L\<rparr>"
  let ?t = "reset_slot i r ?s"
  have op: "open_slot ?s j = open_slot st j" for j by (simp add: open_slot_def)
  have slots: "open_slot ?t j = (open_slot st j \<and> j \<noteq> i)" for j
    using reset_slot_open [of ?s i r j] assms(2) by (simp add: op)
  have nrecs: "open_nrec ?t j = open_nrec st j" for j by (simp add: open_nrec_def)
  have nth: "st_slots ?t ! j = st_slots st ! j" if "j \<noteq> i" for j
    using reset_slot_nth(1) [OF that, of r ?s] by simp
  have entry: "entry_open ?t (se_entry e) \<and> entry_detached ?t (se_entry e) = entry_detached st (se_entry e)"
    if "e \<in> set (st_stack st)" "entry_open st (se_entry e)" for e
  proof (cases "0 \<le> se_entry e")
    case True
    have "nat (se_entry e) \<noteq> i"
      using assms(3) that(1) True by (auto simp: off_stack_def stack_entry_for_slot_def)
    with that(2) True show ?thesis by (simp add: entry_open_def entry_detached_def slots nth)
  next
    case False
    with that(2) show ?thesis by (simp add: entry_open_def entry_detached_def nrecs)
  qed
  have "wf_stack ?t" using assms(1) entry by (simp add: wf_def wf_stack_def)
  moreover have "wf_pools ?t"
  proof -
    have old: "slot_pool.free_list_ok st" "nrec_pool.free_list_ok st"
      using assms(1) by (simp_all add: wf_def slots_free_list)
    have "slot_pool.free_list_ok ?s"
      by (rule slot_pool.same_links_keep [OF old(1)]) (simp_all add: slot_gen_def slot_next_def)
    then have "slot_pool.free_list_ok ?t"
      by (rule slot_pool.freeing_keeps) (simp add: open_live op assms(2))
    moreover have "nrec_pool.free_list_ok ?t"
      by (rule nrec_pool.same_links_keep [OF old(2)]) (simp_all add: nrec_gen_def nrec_next_def)
    ultimately show ?thesis using assms(1) by (simp add: wf_def slots_free_list)
  qed
  moreover have "wf_session ?t"
  proof -
    have "session_count ?s = session_count st" by (simp add: session_count_def)
    then show ?thesis
      using assms(1) reset_slot_session [of ?s i r] session_pos [OF assms(2)] assms(2) nth
      by (auto simp: wf_def wf_session_def slots op)
  qed
  moreover have "wf_gens ?t"
  proof -
    have "unat (s_gen (st_slots ?t ! j)) < 2 ^ 31" if "j < length (st_slots st)" for j
      using assms(1) that nth [of j] reset_slot_nth(2) [of i ?s r]
      by (cases "j = i") (auto simp: wf_def wf_gens_def)
    with assms(1) show ?thesis by (auto simp: wf_def wf_gens_def in_set_conv_nth)
  qed
  moreover have "wf_ledger ?t"
    using ledger by (auto simp: wf_ledger_def slots nth slot_handle_def)
  moreover have "wf_ids ?t"
    using assms(1) by (auto simp: wf_def wf_ids_def slots nrecs nth)
  ultimately show ?thesis by (simp add: wf_def)
qed

end
