(* ===== verification/Producer_Ending.thy ===== *)
theory Producer_Ending
  imports Producer_Invariant
begin

text \<open>
  How \<open>end_slot\<close>, \<open>release_slot\<close> and the unwinding loop act on the state and that they
  keep the invariant: forgetting the resource owner, finishing the span, handing it over,
  and resetting the slot.
\<close>

section \<open>Forgetting the owner\<close>

definition forget_owner :: "nat \<Rightarrow> producer \<Rightarrow> producer" where
  "forget_owner i st =
     (case s_owner (st_slots st ! i) of
        None \<Rightarrow> st
      | Some ow \<Rightarrow> upd_slot i (\<lambda>s. s\<lparr>s_owner := None\<rparr>)
                    (st\<lparr>st_ledger := remove1 (ow, slot_handle st i) (st_ledger st)\<rparr>))"

definition forget_refused :: "env \<Rightarrow> nat \<Rightarrow> producer \<Rightarrow> bool" where
  "forget_refused env i st \<longleftrightarrow>
     s_owner (st_slots st ! i) \<noteq> None \<and> \<not> e_forget_ok env (slot_handle st i)"

lemma wf_gen_of: "wf st \<Longrightarrow> i < length (st_slots st) \<Longrightarrow> unat (s_gen (st_slots st ! i)) < 2 ^ 31"
    "wf st \<Longrightarrow> i < length (st_nrecs st) \<Longrightarrow> unat (n_gen (st_nrecs st ! i)) < 2 ^ 31"
  by (simp_all add: wf_def wf_gens_def)

lemma wf_owner_cleared:
  assumes "wf st" and ledger: "\<And>j ow. open_slot st j \<Longrightarrow> j \<noteq> i \<Longrightarrow> s_owner (st_slots st ! j) = Some ow \<Longrightarrow>
    (ow, slot_handle st j) \<in> set L"
  shows "wf (upd_slot i (\<lambda>s. s\<lparr>s_owner := None\<rparr>) (st\<lparr>st_ledger := L\<rparr>))"
proof (cases "i < length (st_slots st)")
  case True
  let ?t = "upd_slot i (\<lambda>s. s\<lparr>s_owner := None\<rparr>) (st\<lparr>st_ledger := L\<rparr>)"
  have nth: "st_slots ?t ! j = (if j = i then (st_slots st ! i)\<lparr>s_owner := None\<rparr> else st_slots st ! j)" for j
    using True by (simp add: upd_slot_def)
  have op: "open_slot ?t j = open_slot st j" "open_nrec ?t j = open_nrec st j" for j
    by (auto simp: open_slot_def open_nrec_def nth)
  have "wf_stack ?t"
  proof -
    have "entry_open ?t e = entry_open st e" "entry_detached ?t e = entry_detached st e" for e
      by (simp_all add: entry_open_def entry_detached_def op nth)
    with assms(1) show ?thesis by (simp add: wf_def wf_stack_def)
  qed
  moreover have "wf_pools ?t"
  proof -
    have "slot_pool.free_list_ok ?t"
      by (rule slot_pool.same_links_keep [of st]) (use assms(1) in \<open>simp_all add: wf_def slots_free_list slot_gen_def slot_next_def nth\<close>)
    moreover have "nrec_pool.free_list_ok ?t"
      by (rule nrec_pool.same_links_keep [of st]) (use assms(1) in \<open>simp_all add: wf_def slots_free_list nrec_gen_def nrec_next_def\<close>)
    ultimately show ?thesis using assms(1) by (simp add: wf_def slots_free_list)
  qed
  moreover have "session_count ?t = session_count st"
    using count_filter_update [OF True, of "\<lambda>s. s_gen s \<noteq> 0 \<and> s_session s" "(st_slots st ! i)\<lparr>s_owner := None\<rparr>"]
    by (auto simp: session_count_def upd_slot_def)
  then have "wf_session ?t" using assms(1) by (simp add: wf_def wf_session_def op nth)
  moreover have "wf_gens ?t" 
    using wf_gen_of [OF assms(1)] wf_gen_bound [OF assms(1)] by (auto simp: wf_gens_def in_set_conv_nth nth)
  moreover have "wf_ledger ?t" using ledger by (auto simp: wf_ledger_def op nth slot_handle_def)
  moreover have "wf_ids ?t" using assms(1) by (simp add: wf_def wf_ids_def op nth)
  ultimately show ?thesis by (simp add: wf_def)
next
  case False
  then have t: "upd_slot i (\<lambda>s. s\<lparr>s_owner := None\<rparr>) (st\<lparr>st_ledger := L\<rparr>) = st\<lparr>st_ledger := L\<rparr>"
    by (simp add: upd_slot_def list_update_beyond)
  have op: "open_slot (st\<lparr>st_ledger := L\<rparr>) j = open_slot st j" "open_nrec (st\<lparr>st_ledger := L\<rparr>) j = open_nrec st j" for j
    by (simp_all add: open_slot_def open_nrec_def)
  have "wf_ledger (st\<lparr>st_ledger := L\<rparr>)"
    using ledger False by (fastforce simp: wf_ledger_def op slot_handle_def open_slot_def)
  then show ?thesis
    using assms(1) unfolding t
    by (simp add: wf_def wf_stack_def wf_pools_def wf_session_def wf_gens_def wf_ids_def op session_count_def
        entry_open_def entry_detached_def slot_gen_def [abs_def] slot_next_def [abs_def] nrec_gen_def [abs_def] nrec_next_def [abs_def])
qed

lemma wf_index_bound: "wf st \<Longrightarrow> i < length (st_slots st) \<Longrightarrow> i < 2 ^ 31"
    "wf st \<Longrightarrow> i < length (st_nrecs st) \<Longrightarrow> i < 2 ^ 31"
  by (simp_all add: wf_def wf_pools_def OTEL_MAX_STACK_DEPTH_def)

lemma slot_handle_fields:
  assumes "wf st" and "open_slot st i"
  shows "ref_gen (slot_handle st i) = s_gen (st_slots st ! i)" "ref_idx (slot_handle st i) = int i"
    "0 <s slot_handle st i" "slot_handle st i \<noteq> 0"
  using make_ref_fields [OF wf_gen_of(1) _ wf_index_bound(1), of st i st i True] assms
  by (simp_all add: slot_handle_def open_slot_def)

lemma slot_handle_inj: "wf st \<Longrightarrow> open_slot st i \<Longrightarrow> open_slot st j \<Longrightarrow> slot_handle st i = slot_handle st j \<Longrightarrow> i = j"
  using slot_handle_fields(2) by (metis of_nat_eq_iff)

lemma wf_ledgerD: "wf st \<Longrightarrow> open_slot st i \<Longrightarrow> s_owner (st_slots st ! i) = Some ow \<Longrightarrow> (ow, slot_handle st i) \<in> set (st_ledger st)"
  by (simp add: wf_def wf_ledger_def)

lemma wf_forget_owner:
  assumes "wf st" and "open_slot st i"
  shows "wf (forget_owner i st)"
proof (cases "s_owner (st_slots st ! i)")
  case None
  with assms(1) show ?thesis by (simp add: forget_owner_def)
next
  case (Some ow)
  have "(ow', slot_handle st j) \<in> set (remove1 (ow, slot_handle st i) (st_ledger st))"
    if "open_slot st j" "j \<noteq> i" "s_owner (st_slots st ! j) = Some ow'" for j ow'
    using wf_ledgerD [OF assms(1) that(1,3)] slot_handle_inj [OF assms that(1)] that(2)
    by (metis Pair_inject in_set_remove1)
  then have "wf (upd_slot i (\<lambda>s. s\<lparr>s_owner := None\<rparr>) (st\<lparr>st_ledger := remove1 (ow, slot_handle st i) (st_ledger st)\<rparr>))"
    by (intro wf_owner_cleared [OF assms(1)])
  with Some show ?thesis by (simp add: forget_owner_def)
qed

lemma forget_owner_frame [simp]:
  "st_stack (forget_owner i st) = st_stack st" "st_nrecs (forget_owner i st) = st_nrecs st"
  "length (st_slots (forget_owner i st)) = length (st_slots st)" "st_exported (forget_owner i st) = st_exported st"
  "st_dispatch_depth (forget_owner i st) = st_dispatch_depth st" "st_session_open (forget_owner i st) = st_session_open st"
  "st_gen_counter (forget_owner i st) = st_gen_counter st" "st_counters (forget_owner i st) = st_counters st"
  by (simp_all add: forget_owner_def upd_slot_def split: option.split)

lemma forget_owner_nth:
  "i < length (st_slots st) \<Longrightarrow> st_slots (forget_owner i st) ! j = (if j = i then (st_slots st ! i)\<lparr>s_owner := None\<rparr> else st_slots st ! j)"
  by (auto simp: forget_owner_def upd_slot_def nth_list_update split: option.split)

section \<open>Ending a slot\<close>

text \<open>The span as \<open>end_slot\<close> hands it to the consumer, and the state it does so in.\<close>

definition finished_state :: "env \<Rightarrow> nat \<Rightarrow> int \<Rightarrow> string option \<Rightarrow> producer \<Rightarrow> producer" where
  "finished_state env i e r st =
     upd_slot i (finish_slot env e r)
       (if r \<noteq> None then bump C_unwound (forget_owner i st) else forget_owner i st)"

definition finished_span :: "env \<Rightarrow> nat \<Rightarrow> int \<Rightarrow> string option \<Rightarrow> producer \<Rightarrow> otel_span" where
  "finished_span env i e r st = s_span (finish_slot env e r ((st_slots st ! i)\<lparr>s_owner := None\<rparr>))"

lemma finish_slot_fields:
  "s_owner (finish_slot env t r s) = s_owner s" "s_gen (finish_slot env t r s) = s_gen s"
  "s_session (finish_slot env t r s) = s_session s"
  using shape_sel [OF finish_shape [of env t r s]] by simp_all

lemma and_then_cases:
  "m s = (Ret a, t) \<Longrightarrow> and_then m f s = f a t" "m s = (Throw, t) \<Longrightarrow> and_then m f s = (Throw, t)"
  "m s = (Fatal, t) \<Longrightarrow> and_then m f s = (Fatal, t)"
  by (simp_all add: and_then_def)

lemma release_unowned:
  "s_owner (st_slots st ! i) = None \<Longrightarrow> release_slot env i b st =
     (Ret (), reset_slot i (if b then s_gen (st_slots st ! i) else s_owner_released_gen (st_slots st ! i)) st)"
  by (simp add: release_slot_def Let_def op_simps)

lemma reset_slot_upd: "i < length (st_slots st) \<Longrightarrow>
    s_session (f (st_slots st ! i)) = s_session (st_slots st ! i) \<Longrightarrow> s_cxt (f (st_slots st ! i)) = s_cxt (st_slots st ! i) \<Longrightarrow>
    reset_slot i r (upd_slot i f st) = reset_slot i r st"
  by (simp add: reset_slot_def upd_slot_def Let_def)

lemma end_slot_eq:
  assumes "i < length (st_slots st)"
  shows "end_slot env i e r st =
    (if forget_refused env i st then (Throw, st)
     else case dispatch_span env (finished_span env i e r st) (finished_state env i e r st) of
            (Ret u, t) \<Rightarrow> (Ret (), reset_slot i (s_owner_released_gen (st_slots t ! i)) t)
          | x \<Rightarrow> x)"
proof (cases "forget_refused env i st")
  case True
  then show ?thesis
    by (auto simp: end_slot_def Let_def forget_refused_def owner_forget_def slot_handle_def and_then_def)
next
  case False
  let ?s1 = "forget_owner i st"
  let ?s2 = "finished_state env i e r st"
  define g where "g = (case s_owner (st_slots st ! i) of
       Some ow \<Rightarrow> and_then (owner_forget env ow (make_ref (s_gen (st_slots st ! i)) i True))
                    (\<lambda>_. modify (upd_slot i (\<lambda>s. s\<lparr>s_owner := None\<rparr>)))
     | None \<Rightarrow> ret ())"
  have fo: "g st = (Ret (), ?s1)"
    using False by (auto simp: g_def forget_refused_def owner_forget_def slot_handle_def op_simps forget_owner_def
        and_then_def split: option.split)
  have sp: "s_span (st_slots ?s2 ! i) = finished_span env i e r st"
    using assms by (simp add: finished_state_def finished_span_def upd_slot_nth forget_owner_nth)
  have run: "end_slot env i e r st =
     and_then (dispatch_span env (finished_span env i e r st)) (\<lambda>_.
       and_then (modify (upd_slot i (\<lambda>s. s\<lparr>s_dispatching := False\<rparr>))) (\<lambda>_. release_slot env i False)) ?s2"
    unfolding end_slot_def Let_def g_def [symmetric] and_then_cases(1) [of g st "()" ?s1, OF fo] and_then_modify
      finished_state_def [symmetric]
    using sp by (simp add: and_then_def)
  show ?thesis
  proof (cases rule: dispatch_cases [of env "finished_span env i e r st" "?s2"])
    case fatal
    then show ?thesis using False by (simp add: run and_then_def)
  next
    case silent
    have "s_owner (st_slots (upd_slot i (\<lambda>s. s\<lparr>s_dispatching := False\<rparr>) ?s2) ! i) = None"
      using assms by (simp add: finished_state_def upd_slot_nth forget_owner_nth finish_slot_fields)
    from release_unowned [OF this, of env False] show ?thesis
      using False silent(1) assms by (simp add: run and_then_def modify_run reset_slot_upd upd_slot_nth)
        (simp add: finished_state_def)
  next
    case (returned n es)
    let ?t = "snd (dispatch_span env (finished_span env i e r st) ?s2)"
    have sl: "st_slots ?t = st_slots ?s2" by (simp add: returned)
    have "s_owner (st_slots (upd_slot i (\<lambda>s. s\<lparr>s_dispatching := False\<rparr>) ?t) ! i) = None"
      using assms by (simp add: upd_slot_nth sl) (simp add: finished_state_def upd_slot_nth forget_owner_nth finish_slot_fields)
    from release_unowned [OF this, of env False] show ?thesis
      using False returned assms sl by (simp add: run and_then_def modify_run reset_slot_upd upd_slot_nth)
        (simp add: finished_state_def)
  qed
qed

lemma wf_reset_slot_same:
  assumes "wf st" and "open_slot st i" and "off_stack (stack_entry_for_slot i) st"
  shows "wf (reset_slot i r st)"
  using wf_reset_slot [OF assms, of "st_ledger st" r] wf_ledgerD [OF assms(1)] by simp

lemma finished_state_frame [simp]:
  "st_stack (finished_state env i e r st) = st_stack st" "st_nrecs (finished_state env i e r st) = st_nrecs st"
  "length (st_slots (finished_state env i e r st)) = length (st_slots st)"
  "st_exported (finished_state env i e r st) = st_exported st"
  "st_dispatch_depth (finished_state env i e r st) = st_dispatch_depth st"
  "st_gen_counter (finished_state env i e r st) = st_gen_counter st"
  by (simp_all add: finished_state_def)

lemma finished_state_nth:
  "i < length (st_slots st) \<Longrightarrow> st_slots (finished_state env i e r st) ! j =
     (if j = i then finish_slot env e r ((st_slots st ! i)\<lparr>s_owner := None\<rparr>) else st_slots st ! j)"
  by (simp add: finished_state_def upd_slot_nth forget_owner_nth)

lemma wf_finished_state: "wf st \<Longrightarrow> open_slot st i \<Longrightarrow> wf (finished_state env i e r st)"
  unfolding finished_state_def by (rule wf_upd_slot) (simp_all add: finish_shape wf_forget_owner)

lemma finish_owner_released: "s_owner_released_gen (finish_slot env e r s) = s_owner_released_gen s"
proof -
  have "s_owner_released_gen (lower_error_event env err x) = s_owner_released_gen x" for err x
    using core_fields(2) [OF lower_error_core] by simp
  moreover have "s_owner_released_gen (upd_span f x) = s_owner_released_gen x" for f x
    by (simp add: upd_span_def)
  ultimately show ?thesis by (simp add: finish_slot_def Let_def split: option.split)
qed

text \<open>What one \<open>end_slot\<close> does to the rest of the state.\<close>

definition only_slot :: "nat \<Rightarrow> producer \<Rightarrow> producer \<Rightarrow> bool" where
  "only_slot i st t \<longleftrightarrow>
     st_stack t = st_stack st \<and> st_nrecs t = st_nrecs st \<and> length (st_slots t) = length (st_slots st) \<and>
     (\<forall>j. j \<noteq> i \<longrightarrow> st_slots t ! j = st_slots st ! j)"

lemma only_slot_refl [simp]: "only_slot i st st"
  by (simp add: only_slot_def)

lemma end_slot_outcome:
  assumes "wf st" and "open_slot st i" and "off_stack (stack_entry_for_slot i) st"
    and run: "end_slot env i e r st = (x, t)"
  shows "wf t" "only_slot i st t" "x = Ret () \<or> x = Throw \<and> t = st \<or> x = Fatal"
    "x = Ret () \<Longrightarrow> \<not> open_slot t i \<and> st_dispatch_depth t = st_dispatch_depth st"
    "x = Ret () \<Longrightarrow> s_owner_released_gen (st_slots t ! i) = s_owner_released_gen (st_slots st ! i)"
proof -
  have i: "i < length (st_slots st)" using assms(2) by (simp add: open_slot_def)
  let ?f = "finished_state env i e r st"
  obtain y u where d: "dispatch_span env (finished_span env i e r st) ?f = (y, u)" by (metis surj_pair)
  note fr = dispatch_frame [OF d]
  have "wf u" using wf_same [OF fr(1,2) wf_finished_state [OF assms(1,2)]] .
  have opu: "open_slot u i"
    using assms(2) i by (simp add: open_slot_def fr(3) finished_state_nth finish_slot_fields)
  have off: "off_stack (stack_entry_for_slot i) u" using assms(3) by (simp add: off_stack_def fr(7))
  have nthu: "st_slots u ! j = st_slots st ! j" if "j \<noteq> i" for j using that i by (simp add: fr(3) finished_state_nth)
  have ou: "only_slot i st u"
    using nthu by (auto simp: only_slot_def fr(6,7) arg_cong [OF fr(3), of length])
  consider "forget_refused env i st" "x = Throw" "t = st"
    | "\<not> forget_refused env i st" "y = Ret ()" "x = Ret ()" "t = reset_slot i (s_owner_released_gen (st_slots u ! i)) u"
    | "\<not> forget_refused env i st" "y = Fatal" "x = Fatal" "t = u"
    using run d fr(4) unfolding end_slot_eq [OF i] by (auto split: if_splits outcome.splits)
  then have "wf t \<and> only_slot i st t \<and> (x = Ret () \<or> x = Throw \<and> t = st \<or> x = Fatal) \<and>
    (x = Ret () \<longrightarrow> \<not> open_slot t i \<and> st_dispatch_depth t = st_dispatch_depth st \<and>
       s_owner_released_gen (st_slots t ! i) = s_owner_released_gen (st_slots st ! i))"
  proof cases
    case 2
    have "wf t" unfolding 2 by (rule wf_reset_slot_same [OF \<open>wf u\<close> opu off])
    moreover have "only_slot i st t" using ou by (simp add: 2 only_slot_def reset_slot_nth(1))
    moreover have "\<not> open_slot t i" unfolding 2 reset_slot_open [OF opu] by simp
    moreover have "st_dispatch_depth t = st_dispatch_depth st" using fr(5) 2 by simp
    moreover have "s_owner_released_gen (st_slots t ! i) = s_owner_released_gen (st_slots st ! i)"
      using i by (simp add: 2 reset_slot_nth(3) fr(3) finished_state_nth finish_owner_released)
    ultimately show ?thesis by (simp add: 2)
  qed (simp_all add: assms(1) ou \<open>wf u\<close>)
  then show "wf t" "only_slot i st t" "x = Ret () \<or> x = Throw \<and> t = st \<or> x = Fatal"
    "x = Ret () \<Longrightarrow> \<not> open_slot t i \<and> st_dispatch_depth t = st_dispatch_depth st"
    "x = Ret () \<Longrightarrow> s_owner_released_gen (st_slots t ! i) = s_owner_released_gen (st_slots st ! i)"
    by auto
qed

definition has_consumer :: "env \<Rightarrow> bool" where
  "has_consumer env \<longleftrightarrow> e_hook env \<noteq> None \<or> e_emit_to_log env"

lemma dispatch_exports:
  assumes "dispatch_span env sp st = (x, t)"
  shows "st_exported t = st_exported st @ (if has_consumer env then [sp] else [])"
proof (cases "has_consumer env")
  case True
  then show ?thesis
    by (cases rule: dispatch_cases [of env sp st]; use assms in \<open>auto simp: has_consumer_def\<close>)
next
  case False
  with assms show ?thesis by (simp add: dispatch_span_def has_consumer_def)
qed

lemma end_slot_exports:
  assumes "i < length (st_slots st)" and "end_slot env i e r st = (x, t)"
  shows "st_exported t = st_exported st @
    (if x \<noteq> Throw \<and> has_consumer env then [finished_span env i e r st] else [])"
proof -
  obtain y u where d: "dispatch_span env (finished_span env i e r st) (finished_state env i e r st) = (y, u)"
    by (metis surj_pair)
  show ?thesis
    using assms(2) dispatch_exports [OF d] dispatch_frame(4) [OF d]
    unfolding end_slot_eq [OF assms(1)] d by (auto split: if_splits outcome.splits)
qed

lemma end_slot_refusal:
  assumes "i < length (st_slots st)" and "end_slot env i e r st = (x, t)"
  shows "x = Throw \<longleftrightarrow> forget_refused env i st"
proof -
  obtain y u where d: "dispatch_span env (finished_span env i e r st) (finished_state env i e r st) = (y, u)"
    by (metis surj_pair)
  show ?thesis
    using assms(2) dispatch_frame(4) [OF d]
    unfolding end_slot_eq [OF assms(1)] d by (auto split: if_splits outcome.splits)
qed

section \<open>Unwinding\<close>

definition spares :: "int set \<Rightarrow> producer \<Rightarrow> producer \<Rightarrow> bool" where
  "spares E st t \<longleftrightarrow>
     length (st_slots t) = length (st_slots st) \<and> length (st_nrecs t) = length (st_nrecs st) \<and>
     (\<forall>j. stack_entry_for_slot j \<notin> E \<longrightarrow> st_slots t ! j = st_slots st ! j) \<and>
     (\<forall>j. stack_entry_for_nrec j \<notin> E \<longrightarrow> st_nrecs t ! j = st_nrecs st ! j)"

lemma spares_refl: "st_slots t = st_slots st \<Longrightarrow> st_nrecs t = st_nrecs st \<Longrightarrow> spares E st t"
  by (simp add: spares_def)

lemma spares_trans: "spares E st t \<Longrightarrow> spares F t u \<Longrightarrow> E \<union> F \<subseteq> G \<Longrightarrow> spares G st u"
  unfolding spares_def by (metis Un_iff subsetD)

lemma spares_mono: "spares E st t \<Longrightarrow> E \<subseteq> F \<Longrightarrow> spares F st t"
  by (auto simp: spares_def)

lemma only_slot_spares: "only_slot i st t \<Longrightarrow> spares {stack_entry_for_slot i} st t"
  by (auto simp: only_slot_def spares_def stack_entry_for_slot_def)

lemma free_nrec_spares: "spares {stack_entry_for_nrec i} st (free_nrec i b st)"
  by (auto simp: spares_def stack_entry_for_nrec_def free_nrec_nth)

text \<open>The spans that unwinding a part of the stack ends, and those it exports.\<close>

definition unwound_slots :: "stack_entry list \<Rightarrow> nat list" where
  "unwound_slots es = map (\<lambda>e. nat (se_entry e)) (filter (\<lambda>e. \<not> se_is_activation e \<and> 0 \<le> se_entry e) (rev es))"

lemma stack_last_off:
  assumes "wf st" and "st_stack st \<noteq> []"
  shows "off_stack (se_entry (last (st_stack st))) (stack_pop st)"
proof -
  have "distinct (map se_entry (butlast (st_stack st) @ [last (st_stack st)]))"
    using assms by (simp add: wf_def wf_stack_def)
  then show ?thesis by (auto simp: off_stack_def stack_pop_def)
qed

lemma pop_open [simp]: "open_slot (stack_pop st) i = open_slot st i" "open_nrec (stack_pop st) i = open_nrec st i"
  by (simp_all add: open_slot_def open_nrec_def)

lemma pop_dispatch [simp]: "st_dispatch_depth (stack_pop st) = st_dispatch_depth st"
  by (simp add: stack_pop_def)

lemma last_entry_open: "wf st \<Longrightarrow> st_stack st \<noteq> [] \<Longrightarrow> entry_open st (se_entry (last (st_stack st)))"
  by (simp add: wf_def wf_stack_def)

lemma unwind_outcome:
  assumes "wf st" and "n \<le> length (st_stack st)" and "unwind_entries env reason n st = (x, t)"
  shows "wf t \<and> (x = Ret () \<or> x = Throw \<or> x = Fatal) \<and>
     spares (se_entry ` set (drop (length (st_stack st) - n) (st_stack st))) st t \<and>
     (x = Ret () \<longrightarrow> st_stack t = take (length (st_stack st) - n) (st_stack st) \<and>
        st_dispatch_depth t = st_dispatch_depth st \<and>
        st_exported t = st_exported st @ (if has_consumer env
          then map (\<lambda>i. finished_span env i 0 (Some reason) st)
                 (unwound_slots (drop (length (st_stack st) - n) (st_stack st))) else []))"
  using assms
proof (induction n arbitrary: st)
  case 0
  then show ?case by (simp add: spares_refl unwound_slots_def)
next
  case (Suc n)
  let ?e = "last (st_stack st)" and ?s = "stack_pop st" and ?k = "length (st_stack st) - Suc n"
  have ne: "st_stack st \<noteq> []" using Suc.prems(2) by auto
  have stk: "st_stack ?s = butlast (st_stack st)" by (simp add: stack_pop_def)
  have k: "length (st_stack ?s) - n = ?k" using ne by (simp add: stk)
  have n: "n \<le> length (st_stack ?s)" using Suc.prems(2) ne by (simp add: stk)
  have top: "drop ?k (st_stack st) = drop ?k (st_stack ?s) @ [?e]"
  proof -
    have "drop ?k (butlast (st_stack st) @ [?e]) = drop ?k (butlast (st_stack st)) @ [?e]"
      using Suc.prems(2) by simp
    then show ?thesis using ne by (simp add: stk)
  qed
  have bottom: "take ?k (st_stack st) = take ?k (st_stack ?s)"
    using Suc.prems(2) ne by (simp add: stk take_butlast)
  have wfs: "wf ?s" by (rule wf_pop [OF Suc.prems(1)])
  have off: "off_stack (se_entry ?e) ?s" by (rule stack_last_off [OF Suc.prems(1) ne])
  note op = last_entry_open [OF Suc.prems(1) ne]
  show ?case
  proof (cases "se_is_activation ?e")
    case True
    then have run: "unwind_entries env reason n (bump C_activation_unwound ?s) = (x, t)"
      using Suc.prems(3) by (simp add: Let_def)
    have "finished_span env j 0 (Some reason) (bump C_activation_unwound ?s) = finished_span env j 0 (Some reason) st" for j
      by (simp add: finished_span_def)
    moreover note ih = Suc.IH [OF _ _ run, unfolded bump_frame wf_bump k pop_frame pop_dispatch, OF wfs n]
    moreover have "spares (se_entry ` set (drop ?k (st_stack ?s))) st t"
      using ih by (simp add: spares_def)
    then have "spares (se_entry ` set (drop ?k (st_stack st))) st t"
      by (rule spares_mono) (auto simp: top)
    moreover have "unwound_slots (drop ?k (st_stack st)) = unwound_slots (drop ?k (st_stack ?s))"
      using True by (simp add: top unwound_slots_def)
    ultimately show ?thesis by (simp add: bottom)
  next
    case act: False
    show ?thesis
    proof (cases "0 \<le> se_entry ?e")
      case True
      let ?i = "nat (se_entry ?e)"
      have i: "open_slot ?s ?i" "off_stack (stack_entry_for_slot ?i) ?s"
        using op True off by (simp_all add: entry_open_def stack_entry_for_slot_def)
      obtain y u where e: "end_slot env ?i 0 (Some reason) ?s = (y, u)" by (metis surj_pair)
      note eo = end_slot_outcome [OF wfs i e]
      have sp: "spares {se_entry ?e} st u"
        using only_slot_spares [OF eo(2)] True by (simp add: spares_def stack_entry_for_slot_def)
      have stu: "st_stack u = st_stack ?s" using eo(2) by (simp add: only_slot_def)
      show ?thesis
      proof (cases "y = Ret ()")
        case False
        then have "x = y" "t = u" "y = Throw \<or> y = Fatal"
          using Suc.prems(3) act True e eo(3) by (auto simp: Let_def and_then_def split: outcome.splits)
        moreover have "spares (se_entry ` set (drop ?k (st_stack st))) st u"
          using sp by (rule spares_mono) (simp add: top)
        ultimately show ?thesis using eo(1) by auto
      next
        case ry: True
        then have "unwind_entries env reason n u = (x, t)"
          using Suc.prems(3) act True e by (simp add: Let_def and_then_def)
        note ih = Suc.IH [OF eo(1) _ this, unfolded stu k, OF n]
        have fin: "finished_span env j 0 (Some reason) u = finished_span env j 0 (Some reason) st"
          if "j \<in> set (unwound_slots (drop ?k (st_stack ?s)))" for j
        proof -
          from that obtain a where "a \<in> set (st_stack ?s)" "se_entry a = stack_entry_for_slot j"
            by (auto simp: unwound_slots_def stack_entry_for_slot_def dest: in_set_dropD)
          then have "stack_entry_for_slot j \<noteq> se_entry ?e"
            using off by (metis off_stack_def image_eqI)
          with sp show ?thesis by (simp add: finished_span_def spares_def)
        qed
        have ex: "st_exported u = st_exported st @ (if has_consumer env then [finished_span env ?i 0 (Some reason) st] else [])"
          using end_slot_exports [OF _ e] i(1) ry by (simp add: open_slot_def finished_span_def)
        have "map (\<lambda>j. finished_span env j 0 (Some reason) u) (unwound_slots (drop ?k (st_stack ?s)))
            = map (\<lambda>j. finished_span env j 0 (Some reason) st) (unwound_slots (drop ?k (st_stack ?s)))"
          using fin by simp
        moreover have "unwound_slots (drop ?k (st_stack st)) = ?i # unwound_slots (drop ?k (st_stack ?s))"
          using act True by (simp add: top unwound_slots_def)
        moreover have "spares (se_entry ` set (drop ?k (st_stack st))) st t"
          using ih by (intro spares_trans [OF sp, of "se_entry ` set (drop ?k (st_stack ?s))"]) (auto simp: top)
        ultimately show ?thesis using ih ex eo(4) [OF ry] by (simp add: bottom)
      qed
    next
      case False
      let ?i = "entry_nrec (se_entry ?e)" and ?u = "free_nrec (entry_nrec (se_entry ?e)) False ?s"
      have i: "open_nrec ?s ?i" "off_stack (stack_entry_for_nrec ?i) ?s" "stack_entry_for_nrec ?i = se_entry ?e"
        using op False off by (simp_all add: entry_open_def entry_nrec_for)
      have run: "unwind_entries env reason n ?u = (x, t)"
        using Suc.prems(3) act False by (simp add: Let_def entry_nrec_def)
      have sp: "spares {se_entry ?e} st ?u"
        using free_nrec_spares [of ?i ?s False] i(3) by (simp add: spares_def)
      note ih = Suc.IH [OF wf_free_nrec [OF wfs i(1,2)] _ run, unfolded free_nrec_frame k, OF n]
      have "spares (se_entry ` set (drop ?k (st_stack st))) st t"
        using ih by (intro spares_trans [OF sp, of "se_entry ` set (drop ?k (st_stack ?s))"]) (auto simp: top)
      then show ?thesis using ih act False by (simp add: bottom top unwound_slots_def finished_span_def)
    qed
  qed
qed

section \<open>Leaving the stack\<close>

definition above :: "int \<Rightarrow> producer \<Rightarrow> stack_entry list" where
  "above e st = (case stack_find e st of None \<Rightarrow> [] | Some pos \<Rightarrow> drop (Suc pos) (st_stack st))"

definition below :: "int \<Rightarrow> producer \<Rightarrow> stack_entry list" where
  "below e st = (case stack_find e st of None \<Rightarrow> st_stack st | Some pos \<Rightarrow> take pos (st_stack st))"

lemma above_below_off:
  assumes "wf st"
  shows "e \<notin> se_entry ` set (above e st)" "e \<notin> se_entry ` set (below e st)"
    "se_entry ` set (above e st) \<inter> se_entry ` set (below e st) = {}"
proof -
  have "e \<notin> se_entry ` set (above e st) \<and> e \<notin> se_entry ` set (below e st) \<and>
      se_entry ` set (above e st) \<inter> se_entry ` set (below e st) = {}"
  proof (cases "stack_find e st")
    case None
    moreover have "off_stack e st" using None by (simp add: stack_find_None)
    ultimately show ?thesis by (simp add: above_def below_def off_stack_def)
  next
    case (Some pos)
    note pos = stack_find_Some [OF Some]
    have "distinct (map se_entry (st_stack st))" using assms by (simp add: wf_def wf_stack_def)
    then have "distinct (map se_entry (take pos (st_stack st) @ st_stack st ! pos # drop (Suc pos) (st_stack st)))"
      using id_take_nth_drop [OF pos(1)] by metis
    then show ?thesis using pos(2) Some by (auto simp: above_def below_def)
  qed
  then show "e \<notin> se_entry ` set (above e st)" "e \<notin> se_entry ` set (below e st)"
    "se_entry ` set (above e st) \<inter> se_entry ` set (below e st) = {}" by auto
qed

lemma nonlifo_frame [simp]:
  "skeleton (nonlifo_warning st) = skeleton st" "st_stack (nonlifo_warning st) = st_stack st"
  "st_slots (nonlifo_warning st) = st_slots st" "st_nrecs (nonlifo_warning st) = st_nrecs st"
  "st_exported (nonlifo_warning st) = st_exported st" "st_dispatch_depth (nonlifo_warning st) = st_dispatch_depth st"
  "st_gen_counter (nonlifo_warning st) = st_gen_counter st"
  by (simp_all add: nonlifo_warning_def)

lemma wf_nonlifo [simp]: "wf (nonlifo_warning st) = wf st"
  by (rule wf_eqI) simp_all

lemma leave_stack_outcome:
  assumes "wf st" and "leave_stack env e reason st = (x, t)"
  shows "wf t \<and> (x = Ret () \<or> x = Throw \<or> x = Fatal) \<and> spares (se_entry ` set (above e st)) st t \<and>
     (x = Ret () \<longrightarrow> st_stack t = below e st \<and> st_dispatch_depth t = st_dispatch_depth st \<and>
        st_exported t = st_exported st @ (if has_consumer env
          then map (\<lambda>i. finished_span env i 0 (Some reason) st) (unwound_slots (above e st)) else []))"
proof (cases "stack_find e st")
  case None
  with assms show ?thesis by (auto simp: leave_stack_def above_def below_def spares_refl unwound_slots_def)
next
  case (Some pos)
  note pos = stack_find_Some [OF Some]
  have ab: "above e st = drop (Suc pos) (st_stack st)" "below e st = take pos (st_stack st)"
    by (simp_all add: above_def below_def Some)
  show ?thesis
  proof (cases "pos = length (st_stack st) - 1")
    case True
    then have "(x, t) = (Ret (), stack_pop st)"
      using assms(2) Some by (simp add: leave_stack_def and_then_def modify_def)
    moreover have "st_stack (stack_pop st) = take pos (st_stack st)"
      using True by (simp add: stack_pop_def butlast_conv_take)
    ultimately show ?thesis using True wf_pop [OF assms(1)] by (simp add: ab spares_refl unwound_slots_def)
  next
    case False
    let ?s = "nonlifo_warning st" and ?n = "length (st_stack st) - (pos + 1)"
    obtain y u where u: "unwind_entries env reason ?n ?s = (y, u)" by (metis surj_pair)
    have k: "length (st_stack st) - ?n = Suc pos" using pos(1) by simp
    have fin: "finished_span env i 0 (Some reason) ?s = finished_span env i 0 (Some reason) st" for i
      by (simp add: finished_span_def)
    have spn: "spares E ?s u = spares E st u" for E by (simp add: spares_def)
    note o = unwind_outcome [OF _ _ u, unfolded wf_nonlifo nonlifo_frame k fin spn, OF assms(1)]
    have run: "(x, t) = (case y of Ret _ \<Rightarrow> (Ret (), stack_pop u) | Throw \<Rightarrow> (Throw, u) | Fatal \<Rightarrow> (Fatal, u) | Spin \<Rightarrow> (Spin, u))"
      using assms(2) Some False u
      by (cases y) (auto simp: leave_stack_def and_then_def modify_def stack_unwind_above_def)
    show ?thesis
    proof (cases "y = Ret ()")
      case True
      have "st_stack (stack_pop u) = take pos (st_stack st)"
        using o True pos(1) by (simp add: stack_pop_def butlast_take)
      moreover have "spares E st (stack_pop u) = spares E st u" for E by (simp add: spares_def)
      ultimately show ?thesis using o True run wf_pop [of u] by (simp add: ab)
    next
      case no: False
      with o have "y = Throw \<or> y = Fatal" by auto
      then show ?thesis using o run no by (auto simp: ab)
    qed
  qed
qed

lemma leave_stack_keeps_slot:
  assumes "wf st" and "leave_stack env (stack_entry_for_slot i) reason st = (Ret u, t)"
  shows "st_slots t ! i = st_slots st ! i" "open_slot t i = open_slot st i" "off_stack (stack_entry_for_slot i) t"
proof -
  note o = leave_stack_outcome [OF assms]
  have "stack_entry_for_slot i \<notin> se_entry ` set (above (stack_entry_for_slot i) st)"
    by (rule above_below_off(1) [OF assms(1)])
  with o show sl: "st_slots t ! i = st_slots st ! i" by (simp add: spares_def)
  show "open_slot t i = open_slot st i" using o by (simp add: open_slot_def spares_def sl)
  show "off_stack (stack_entry_for_slot i) t" using o above_below_off(2) [OF assms(1)] by (simp add: off_stack_def)
qed

lemma leave_stack_keeps_nrec:
  assumes "wf st" and "leave_stack env (stack_entry_for_nrec i) reason st = (Ret u, t)"
  shows "st_nrecs t ! i = st_nrecs st ! i" "open_nrec t i = open_nrec st i" "off_stack (stack_entry_for_nrec i) t"
proof -
  note o = leave_stack_outcome [OF assms]
  have "stack_entry_for_nrec i \<notin> se_entry ` set (above (stack_entry_for_nrec i) st)"
    by (rule above_below_off(1) [OF assms(1)])
  with o show sl: "st_nrecs t ! i = st_nrecs st ! i" by (simp add: spares_def)
  show "open_nrec t i = open_nrec st i" using o by (simp add: open_nrec_def spares_def sl)
  show "off_stack (stack_entry_for_nrec i) t" using o above_below_off(2) [OF assms(1)] by (simp add: off_stack_def)
qed

end
