(* ===== verification/Producer_Preserve.thy ===== *)
theory Producer_Preserve
  imports Producer_Ending
begin

text \<open>
  Every operation that ends, drops, changes or looks at a span keeps the invariant: the
  producer API from \<open>api_span_end\<close> on, the resource-owner and transaction callbacks and
  the log hook.  Handles are assumed genuine: 0 or with a generation other than 0, as
  \<open>make_ref\<close> always gives them.
\<close>

section \<open>Refusals and handles\<close>

definition genuine :: "i64 \<Rightarrow> bool" where
  "genuine s \<longleftrightarrow> s = 0 \<or> ref_gen s \<noteq> 0"

lemma call_refused_cases:
  obtains (refused) c where "call_refused env ro st = (True, bump c st)"
      "c = C_in_crit_section \<and> e_crit env \<or> c = C_in_emit_hook \<and> 0 < st_dispatch_depth st \<and> \<not> ro"
  | (allowed) "call_refused env ro st = (False, st)" "\<not> e_crit env" "ro \<or> st_dispatch_depth st = 0"
proof -
  consider "e_crit env" | "\<not> e_crit env" "0 < st_dispatch_depth st" "\<not> ro" | "\<not> e_crit env" "ro \<or> st_dispatch_depth st = 0"
    by blast
  then show thesis
    by cases (rule refused [of C_in_crit_section], auto simp: call_refused_def intro: refused [of C_in_emit_hook] allowed)
qed

lemma slot_for_ref_cases:
  obtains (found) i where "slot_for_ref s st = (Some i, st)" "i < length (st_slots st)"
      "s_gen (st_slots st ! i) = ref_gen s" "ref_idx s = int i"
  | (quiet) "slot_for_ref s st = (None, st)" "handle_slot s st = None"
      "\<exists>i. i < length (st_slots st) \<and> ref_idx s = int i \<and> s_owner_released_gen (st_slots st ! i) = ref_gen s"
  | (stale) "slot_for_ref s st = (None, bump C_stale_handle st)" "handle_slot s st = None"
proof (cases "0 \<le> ref_idx s \<and> ref_idx s < int (length (st_slots st))")
  case False
  then show thesis by (intro stale) (auto simp: slot_for_ref_def handle_slot_def Let_def)
next
  case True
  then have n: "nat (ref_idx s) < length (st_slots st)" "ref_idx s = int (nat (ref_idx s))" by linarith+
  consider "s_gen (st_slots st ! nat (ref_idx s)) = ref_gen s"
    | "s_gen (st_slots st ! nat (ref_idx s)) \<noteq> ref_gen s" "s_owner_released_gen (st_slots st ! nat (ref_idx s)) = ref_gen s"
    | "s_gen (st_slots st ! nat (ref_idx s)) \<noteq> ref_gen s" "s_owner_released_gen (st_slots st ! nat (ref_idx s)) \<noteq> ref_gen s"
    by blast
  then show thesis
  proof cases
    case 1
    with True have "slot_for_ref s st = (Some (nat (ref_idx s)), st)" by (simp add: slot_for_ref_def Let_def)
    from found [OF this n(1) 1 n(2)] show ?thesis .
  next
    case 2
    with True have "slot_for_ref s st = (None, st)" "handle_slot s st = None"
      by (simp_all add: slot_for_ref_def handle_slot_def Let_def)
    from quiet [OF this] n 2(2) show ?thesis by blast
  next
    case 3
    with True show ?thesis by (intro stale) (auto simp: slot_for_ref_def handle_slot_def Let_def)
  qed
qed

lemma nrec_for_ref_cases:
  obtains (found) i where "nrec_for_ref s st = (Some i, st)" "i < length (st_nrecs st)"
      "n_gen (st_nrecs st ! i) = ref_gen s" "ref_idx s = int i"
  | (quiet) "nrec_for_ref s st = (None, st)"
  | (stale) "nrec_for_ref s st = (None, bump C_stale_handle st)"
proof -
  consider "nrec_for_ref s st = (None, st)" | "nrec_for_ref s st = (None, bump C_stale_handle st)"
    | "nrec_for_ref s st = (Some (nat (ref_idx s)), st)" "0 \<le> ref_idx s" "ref_idx s < int (length (st_nrecs st))"
      "n_gen (st_nrecs st ! nat (ref_idx s)) = ref_gen s"
    by (simp add: nrec_for_ref_def Let_def) metis
  then show thesis
  proof cases
    case 3
    then show ?thesis by (intro found [of "nat (ref_idx s)"]) (simp_all add: nat_less_iff)
  qed (fact quiet stale)+
qed

lemma found_open:
  "genuine s \<Longrightarrow> s \<noteq> 0 \<Longrightarrow> i < length (st_slots st) \<Longrightarrow> s_gen (st_slots st ! i) = ref_gen s \<Longrightarrow> open_slot st i"
  "genuine s \<Longrightarrow> s \<noteq> 0 \<Longrightarrow> i < length (st_nrecs st) \<Longrightarrow> n_gen (st_nrecs st ! i) = ref_gen s \<Longrightarrow> open_nrec st i"
  by (simp_all add: genuine_def open_slot_def open_nrec_def)

section \<open>Ending, discarding, deactivating\<close>

lemma snd_and_then_wf:
  "(\<And>x t. m st = (x, t) \<Longrightarrow> wf t) \<Longrightarrow> (\<And>a t. m st = (Ret a, t) \<Longrightarrow> wf (snd (f a t))) \<Longrightarrow> wf (snd (and_then m f st))"
  by (cases "m st") (auto simp: and_then_def split: outcome.split)

lemma end_span_wf:
  assumes "wf st" and "open_slot st i"
  shows "wf (snd (and_then (leave_stack env (stack_entry_for_slot i) reason) (\<lambda>_. end_slot env i e r) st))"
proof (rule snd_and_then_wf)
  fix x t assume "leave_stack env (stack_entry_for_slot i) reason st = (x, t)"
  with leave_stack_outcome [OF assms(1)] show "wf t" by blast
next
  fix u t assume l: "leave_stack env (stack_entry_for_slot i) reason st = (Ret u, t)"
  note k = leave_stack_keeps_slot [OF assms(1) l]
  have "wf t" using leave_stack_outcome [OF assms(1) l] by blast
  then show "wf (snd (end_slot env i e r t))"
    using end_slot_outcome(1) [of t i env e r] k assms(2) by (metis prod.collapse)
qed

lemma end_nrec_wf:
  assumes "wf st" and "open_nrec st i"
  shows "wf (snd (and_then (leave_stack env (stack_entry_for_nrec i) reason) (\<lambda>_. modify (free_nrec i False)) st))"
proof (rule snd_and_then_wf)
  fix x t assume "leave_stack env (stack_entry_for_nrec i) reason st = (x, t)"
  with leave_stack_outcome [OF assms(1)] show "wf t" by blast
next
  fix u t assume l: "leave_stack env (stack_entry_for_nrec i) reason st = (Ret u, t)"
  note k = leave_stack_keeps_nrec [OF assms(1) l]
  have "wf t" using leave_stack_outcome [OF assms(1) l] by blast
  then show "wf (snd (modify (free_nrec i False) t))"
    using wf_free_nrec k assms(2) by (simp add: modify_def)
qed

lemma api_span_end_wf:
  assumes "wf st" and "genuine s"
  shows "wf (snd (api_span_end env s e st))"
proof (cases rule: call_refused_cases [of env False st])
  case (refused c)
  then show ?thesis using assms(1) by (simp add: api_span_end_def)
next
  case allowed
  show ?thesis
  proof (cases "s = 0")
    case True
    then show ?thesis using assms(1) allowed by (simp add: api_span_end_def)
  next
    case False
    show ?thesis
    proof (cases "s <s 0")
      case True
      then show ?thesis
        by (cases rule: nrec_for_ref_cases [of s st])
           (use assms False allowed in \<open>simp_all add: api_span_end_def end_nrec_wf found_open\<close>)
    next
      case pos: False
      then show ?thesis
        by (cases rule: slot_for_ref_cases [of s st])
           (use assms False allowed in \<open>simp_all add: api_span_end_def end_span_wf found_open\<close>)
    qed
  qed
qed

lemma release_wf:
  assumes "wf st" and "open_slot st i" and "off_stack (stack_entry_for_slot i) st"
  shows "wf (snd (release_slot env i b st))"
proof (cases "b \<or> s_owner (st_slots st ! i) = None")
  case True
  then have "release_slot env i b st =
      (Ret (), reset_slot i (if b then s_gen (st_slots st ! i) else s_owner_released_gen (st_slots st ! i)) st)"
    by (auto simp: release_slot_def Let_def op_simps split: option.split)
  then show ?thesis using wf_reset_slot_same [OF assms] by simp
next
  case False
  then obtain ow where ow: "s_owner (st_slots st ! i) = Some ow" and "\<not> b" by auto
  let ?h = "slot_handle st i"
  have "(ow', slot_handle st j) \<in> set (remove1 (ow, ?h) (st_ledger st))"
    if "open_slot st j" "j \<noteq> i" "s_owner (st_slots st ! j) = Some ow'" for j ow'
    using wf_ledgerD [OF assms(1) that(1,3)] slot_handle_inj [OF assms(1,2) that(1)] that(2)
    by (metis Pair_inject in_set_remove1)
  then have "wf (reset_slot i r (st\<lparr>st_ledger := remove1 (ow, ?h) (st_ledger st)\<rparr>))" for r
    by (intro wf_reset_slot [OF assms])
  then show ?thesis
    using ow \<open>\<not> b\<close> assms(1) by (simp add: release_slot_def Let_def owner_forget_def slot_handle_def op_simps and_then_def)
qed

lemma drop_entry_open [simp]:
  "open_slot (drop_entry e st) i = open_slot st i" "open_nrec (drop_entry e st) i = open_nrec st i"
  by (simp_all add: open_slot_def open_nrec_def)

lemma api_span_discard_wf:
  assumes "wf st" and "genuine s"
  shows "wf (snd (api_span_discard env s st))"
proof (cases rule: call_refused_cases [of env False st])
  case (refused c)
  then show ?thesis using assms(1) by (simp add: api_span_discard_def)
next
  case allowed
  show ?thesis
  proof (cases "s = 0")
    case True
    then show ?thesis using assms(1) allowed by (simp add: api_span_discard_def)
  next
    case nz: False
    show ?thesis
    proof (cases "s <s 0")
      case True
      then show ?thesis
        by (cases rule: nrec_for_ref_cases [of s st])
           (use assms nz allowed in \<open>simp_all add: api_span_discard_def wf_free_nrec drop_entry_wf drop_entry_off found_open\<close>)
    next
      case pos: False
      show ?thesis
      proof (cases rule: slot_for_ref_cases [of s st])
        case (found i)
        let ?d = "drop_entry (stack_entry_for_slot i) st"
        have "wf (snd (release_slot env i False ?d))"
          using found_open(1) [OF assms(2) nz found(2,3)] assms(1)
          by (intro release_wf) (simp_all add: drop_entry_wf drop_entry_off)
        then show ?thesis using found allowed nz pos
          by (simp add: api_span_discard_def snd_and_then_cases modify_def split: outcome.split)
      qed (use assms allowed nz pos in \<open>simp_all add: api_span_discard_def\<close>)
    qed
  qed
qed

lemma api_span_deactivate_wf:
  assumes "wf st"
  shows "wf (snd (api_span_deactivate env tok st))"
proof -
  have leave: "wf (snd (deactivate_entry env e t))" if "wf t" for e t
    using that leave_stack_outcome [OF that, of env e] unfolding deactivate_entry_def
    by (cases "leave_stack env e ''parent activation deactivated first'' t") auto
  show ?thesis
  proof (cases rule: call_refused_cases [of env False st])
    case (refused c)
    then show ?thesis using assms by (simp add: api_span_deactivate_def)
  next
    case allowed
    show ?thesis
      by (cases rule: slot_for_ref_cases [of tok st]; cases rule: nrec_for_ref_cases [of tok st])
         (use assms allowed leave in \<open>simp_all add: api_span_deactivate_def\<close>)
  qed
qed

section \<open>Resource owners and transaction end\<close>

lemma handle_slot_Some:
  "handle_slot h st = Some i \<Longrightarrow> i < length (st_slots st) \<and> s_gen (st_slots st ! i) = ref_gen h \<and> ref_idx h = int i"
  by (auto simp: handle_slot_def Let_def split: if_splits)

lemma handle_slot_of_open:
  "wf st \<Longrightarrow> open_slot st i \<Longrightarrow> handle_slot (slot_handle st i) st = Some i"
  using slot_handle_fields [of st i] by (simp add: handle_slot_def open_slot_def)

lemma wf_clear_owner: "wf st \<Longrightarrow> wf (upd_slot i (\<lambda>s. s\<lparr>s_owner := None\<rparr>) st)"
  using wf_owner_cleared [of st i "st_ledger st"] wf_ledgerD [of st] by simp

lemma wf_upd_owner_released: "wf (upd_slot i (\<lambda>s. s\<lparr>s_owner_released_gen := g\<rparr>) st) = wf st"
  by (rule wf_eqI [OF skeleton_upd_slot]) (simp_all add: slot_shape_def)

lemma upd_slot_gen_open:
  "(\<And>s. s_gen (f s) = s_gen s) \<Longrightarrow> open_slot (upd_slot i f st) j = open_slot st j"
  by (auto simp: open_slot_def upd_slot_nth)

lemma open_nrec_upd_slot [simp]: "open_nrec (upd_slot i f st) j = open_nrec st j"
  by (simp add: open_nrec_def)

lemma release_resource_cases:
  assumes "wf st" and "ref_gen h \<noteq> 0"
  obtains (gone) "handle_slot h st = None" "otel_span_release_resource env h st = (Ret (), st)"
  | (dropped) i c where "handle_slot h st = Some i" "open_slot st i" "s_leaked (st_slots st ! i) \<or> s_dispatching (st_slots st ! i)"
      "c = (if s_leaked (st_slots st ! i) then C_leaked_at_commit else C_dropped_in_dispatch)"
      "otel_span_release_resource env h st = (Ret (), reset_slot i (ref_gen h)
         (bump c (drop_entry (stack_entry_for_slot i) (upd_slot i (\<lambda>s. s\<lparr>s_owner := None\<rparr>) st))))"
  | (ended) i x t where "handle_slot h st = Some i" "open_slot st i" "\<not> s_leaked (st_slots st ! i)" "\<not> s_dispatching (st_slots st ! i)"
      "end_slot env i 0 (Some ''ended by transaction or subtransaction abort'')
         (drop_entry (stack_entry_for_slot i) (upd_slot i (\<lambda>s. s\<lparr>s_owner := None\<rparr>) st)) = (x, t)"
      "otel_span_release_resource env h st =
         (x, if x = Ret () then upd_slot i (\<lambda>s. s\<lparr>s_owner_released_gen := ref_gen h\<rparr>) t else t)"
proof (cases "handle_slot h st")
  case None
  then show thesis by (intro gone) (simp_all add: otel_span_release_resource_def)
next
  case (Some i)
  note i = handle_slot_Some [OF Some]
  let ?u = "drop_entry (stack_entry_for_slot i) (upd_slot i (\<lambda>s. s\<lparr>s_owner := None\<rparr>) st)"
  have slot: "st_slots ?u ! i = (st_slots st ! i)\<lparr>s_owner := None\<rparr>" using i by (simp add: upd_slot_nth)
  have op: "open_slot st i" using i assms(2) by (simp add: open_slot_def)
  show thesis
  proof (cases "s_leaked (st_slots st ! i) \<or> s_dispatching (st_slots st ! i)")
    case True
    then show ?thesis
      using Some i op by (intro dropped [of i]) (auto simp: otel_span_release_resource_def Let_def slot release_unowned upd_slot_nth)
  next
    case False
    obtain x t where e: "end_slot env i 0 (Some ''ended by transaction or subtransaction abort'') ?u = (x, t)" by (metis surj_pair)
    have "otel_span_release_resource env h st =
         (x, if x = Ret () then upd_slot i (\<lambda>s. s\<lparr>s_owner_released_gen := ref_gen h\<rparr>) t else t)"
      using Some False i e by (cases x) (simp_all add: otel_span_release_resource_def Let_def slot and_then_def modify_def upd_slot_nth)
    with Some op False e show ?thesis by (intro ended [of i x t]) auto
  qed
qed

lemma release_resource_outcome:
  assumes "wf st" and "ref_gen h \<noteq> 0" and run: "otel_span_release_resource env h st = (x, t)"
  shows "wf t" "x = Ret () \<or> x = Fatal" "x = Ret () \<Longrightarrow> handle_slot h t = None"
proof -
  have "wf t \<and> (x = Ret () \<or> x = Fatal) \<and> (x = Ret () \<longrightarrow> handle_slot h t = None)"
    using assms(1,2)
  proof (cases rule: release_resource_cases [where env = env])
    case gone
    with run assms(1) show ?thesis by simp
  next
    case (dropped i c)
    let ?s = "drop_entry (stack_entry_for_slot i) (upd_slot i (\<lambda>s. s\<lparr>s_owner := None\<rparr>) st)"
    have "wf ?s" by (intro drop_entry_wf wf_clear_owner assms(1))
    moreover have op: "open_slot (bump c ?s) i" using dropped(2) by (simp add: open_slot_def upd_slot_nth)
    moreover have "off_stack (stack_entry_for_slot i) (bump c ?s)"
      using drop_entry_off [OF wf_clear_owner [OF assms(1)]] by (simp add: off_stack_def)
    ultimately have "wf t" using run dropped(5) wf_reset_slot_same [of "bump c ?s" i] by auto
    moreover have "\<not> open_slot t i" using reset_slot_open [OF op, of "ref_gen h" i] run dropped(5) by simp
    ultimately show ?thesis
      using run dropped(5) assms(2) handle_slot_Some [OF dropped(1)] by (auto simp: handle_slot_def Let_def open_slot_def)
  next
    case (ended i x' t')
    let ?s = "drop_entry (stack_entry_for_slot i) (upd_slot i (\<lambda>s. s\<lparr>s_owner := None\<rparr>) st)"
    have w: "wf ?s" by (intro drop_entry_wf wf_clear_owner assms(1))
    have op: "open_slot ?s i" using ended(2) by (simp add: open_slot_def upd_slot_nth)
    have off: "off_stack (stack_entry_for_slot i) ?s" by (rule drop_entry_off [OF wf_clear_owner [OF assms(1)]])
    note eo = end_slot_outcome [OF w op off ended(5)]
    have i: "i < length (st_slots st)" using ended(2) by (simp add: open_slot_def)
    have "\<not> forget_refused env i ?s" using i by (simp add: forget_refused_def upd_slot_nth)
    then have x: "x' = Ret () \<or> x' = Fatal"
      using eo(3) end_slot_refusal [OF _ ended(5)] i by auto
    have t: "x = x'" "t = (if x' = Ret () then upd_slot i (\<lambda>s. s\<lparr>s_owner_released_gen := ref_gen h\<rparr>) t' else t')"
      using run ended(6) by auto
    have "handle_slot h t = None" if "x' = Ret ()"
    proof -
      have "\<not> open_slot t i" using eo(4) [OF that] that by (simp add: t upd_slot_gen_open)
      then show ?thesis using assms(2) handle_slot_Some [OF ended(1)] by (auto simp: handle_slot_def Let_def open_slot_def)
    qed
    then show ?thesis using eo(1) x by (auto simp: t wf_upd_owner_released)
  qed
  then show "wf t" "x = Ret () \<or> x = Fatal" "x = Ret () \<Longrightarrow> handle_slot h t = None" by auto
qed

lemma debug_print_wf: "wf st \<Longrightarrow> wf (snd (otel_span_debug_print h st))"
  by (auto simp: otel_span_debug_print_def slot_shape_def split: option.split intro: wf_upd_slot)

lemma wf_ledger_removed:
  assumes "wf st" and "handle_slot h st = None"
  shows "wf (st\<lparr>st_ledger := remove1 (ow, h) (st_ledger st)\<rparr>)"
proof -
  let ?i = "length (st_slots st)"
  have "wf (upd_slot ?i (\<lambda>s. s\<lparr>s_owner := None\<rparr>) (st\<lparr>st_ledger := remove1 (ow, h) (st_ledger st)\<rparr>))"
  proof (rule wf_owner_cleared [OF assms(1)])
    fix j ow' assume j: "open_slot st j" "s_owner (st_slots st ! j) = Some ow'"
    have "slot_handle st j \<noteq> h" using handle_slot_of_open [OF assms(1) j(1)] assms(2) by auto
    with wf_ledgerD [OF assms(1) j] show "(ow', slot_handle st j) \<in> set (remove1 (ow, h) (st_ledger st))"
      by (metis Pair_inject in_set_remove1)
  qed
  then show ?thesis by (simp add: upd_slot_def list_update_beyond)
qed

lemma owner_releases_wf:
  assumes "wf st" and "ref_gen h \<noteq> 0"
  shows "wf (snd (owner_releases env commit ow h st))"
proof -
  let ?s = "if commit then snd (otel_span_debug_print h st) else st"
  have "wf ?s" using assms(1) debug_print_wf by simp
  then have "wf (snd (and_then (otel_span_release_resource env h)
       (\<lambda>_. modify (\<lambda>st. st\<lparr>st_ledger := remove1 (ow, h) (st_ledger st)\<rparr>)) ?s))"
    by (intro snd_and_then_wf)
       (auto simp: modify_def intro: wf_ledger_removed release_resource_outcome(1) [OF _ assms(2)]
          release_resource_outcome(3) [OF _ assms(2)])
  then show ?thesis by (simp only: owner_releases_def)
qed

text \<open>Freeing, in index order, every open entry that satisfies a test on its level.\<close>

lemma free_nrecs_wf:
  assumes "wf st" and "\<forall>e\<in>set (st_stack st). se_entry e < 0 \<longrightarrow> \<not> level \<le> n_nest_level (st_nrecs st ! entry_nrec (se_entry e))"
    and "\<forall>i\<in>set ixs. i < length (st_nrecs st)"
  shows "wf (fold (\<lambda>i st. if n_gen (st_nrecs st ! i) \<noteq> 0 \<and> level \<le> n_nest_level (st_nrecs st ! i)
                      then free_nrec i True st else st) ixs st)"
  using assms
proof (induction ixs arbitrary: st)
  case (Cons i ixs)
  show ?case
  proof (cases "n_gen (st_nrecs st ! i) \<noteq> 0 \<and> level \<le> n_nest_level (st_nrecs st ! i)")
    case True
    have "off_stack (stack_entry_for_nrec i) st"
      unfolding off_stack_def
    proof
      assume "stack_entry_for_nrec i \<in> se_entry ` set (st_stack st)"
      then obtain e where "e \<in> set (st_stack st)" "se_entry e = stack_entry_for_nrec i" by auto
      with Cons.prems(2) True show False using entry_nrec_for(1,2) [of i] by fastforce
    qed
    moreover have op: "open_nrec st i" using True Cons.prems(3) by (simp add: open_nrec_def)
    ultimately have w: "wf (free_nrec i True st)" using Cons.prems(1) by (intro wf_free_nrec)
    have lv: "n_nest_level (st_nrecs (free_nrec i True st) ! j) = n_nest_level (st_nrecs st ! j)" for j
      by (cases "j < length (st_nrecs st)"; cases "j = i") (simp_all add: free_nrec_def upd_nrec_def list_update_beyond)
    have "\<forall>e\<in>set (st_stack (free_nrec i True st)). se_entry e < 0 \<longrightarrow>
        \<not> level \<le> n_nest_level (st_nrecs (free_nrec i True st) ! entry_nrec (se_entry e))"
      using Cons.prems(2) by (simp add: lv)
    from Cons.IH [OF w this] Cons.prems(3) True show ?thesis by simp
  next
    case False
    then have "fold (\<lambda>i st. if n_gen (st_nrecs st ! i) \<noteq> 0 \<and> level \<le> n_nest_level (st_nrecs st ! i)
                      then free_nrec i True st else st) (i # ixs) st
        = fold (\<lambda>i st. if n_gen (st_nrecs st ! i) \<noteq> 0 \<and> level \<le> n_nest_level (st_nrecs st ! i)
                      then free_nrec i True st else st) ixs st" by auto
    with Cons show ?thesis by simp
  qed
qed simp

lemma drop_nrecs_wf: "wf st \<Longrightarrow> wf (drop_nrecs_from_level level st)"
proof -
  assume w: "wf st"
  let ?P = "\<lambda>e. \<not> (se_entry e < 0 \<and> level \<le> n_nest_level (st_nrecs st ! nat (- se_entry e - 1)))"
  have "wf (st\<lparr>st_stack := filter ?P (st_stack st)\<rparr>)" by (rule wf_filter [OF w])
  then show ?thesis
    unfolding drop_nrecs_from_level_def Let_def drop_down_filter
    by (rule free_nrecs_wf) (auto simp: entry_nrec_def)
qed

lemma drop_activations_wf: "wf st \<Longrightarrow> wf (drop_activations_from_level level leak st)"
  unfolding drop_activations_from_level_def Let_def drop_down_filter by (rule wf_filter) simp

lemma xact_callback_wf: "wf st \<Longrightarrow> wf (otel_xact_callback ev st)"
  by (cases ev) (simp_all add: otel_xact_callback_def drop_nrecs_wf drop_activations_wf)

lemma subxact_callback_wf: "wf st \<Longrightarrow> wf (otel_subxact_callback env ev st)"
  by (simp add: otel_subxact_callback_def drop_nrecs_wf drop_activations_wf)

lemma shmem_exit_wf: "wf st \<Longrightarrow> wf (otel_producer_shmem_exit st)"
  by (erule wf_same [rotated 2]) (simp_all add: otel_producer_shmem_exit_def)

section \<open>Setters and the log hook\<close>

lemma wf_slot_replaced:
  assumes "wf st" and "slot_core slot = slot_core (st_slots st ! i)"
  shows "wf (fold bump cs (upd_slot i (\<lambda>_. slot) st))"
  using wf_upd_slot [of "\<lambda>_. slot" st i, OF slot_shape_core [OF assms(2)] assms(1)] by simp

definition keeps_core :: "unit slot_op \<Rightarrow> bool" where
  "keeps_core f \<longleftrightarrow> (\<forall>s. slot_core (snd (snd (f s))) = slot_core s)"

lemma keeps_coreI: "(\<And>s u cs t. f s = (u, cs, t) \<Longrightarrow> evolves limit s t) \<Longrightarrow> keeps_core f"
  by (metis keeps_core_def evolves_def prod.collapse)

lemma internal_setters_core:
  "keeps_core (set_str_internal env key sv)" "keeps_core (set_value_internal env key v)"
  "keeps_core (set_vprintf_internal env key out)" "keeps_core (set_name_internal env nm)"
  "keeps_core (set_status_internal env code d)" "keeps_core (add_event_internal env nm ts attrs)"
  "keeps_core (add_link_internal env target)" "keeps_core (slot_record_error env ed)"
  by (rule keeps_coreI, erule set_str_evolves set_value_evolves set_vprintf_evolves set_name_evolves
      set_status_evolves add_event_evolves add_link_evolves record_error_evolves)+

lemma apply_setter_wf:
  assumes "wf st" and "keeps_core f"
  shows "wf (apply_setter env s f st)"
proof -
  have done1: "wf (case f (st_slots t ! i) of (_, cs, slot) \<Rightarrow> fold bump cs (upd_slot i (\<lambda>_. slot) t))" if "wf t" for t i
    using wf_slot_replaced [OF that, of "snd (snd (f (st_slots t ! i)))" i] assms(2)
    by (simp add: keeps_core_def case_prod_beta)
  show ?thesis
    by (cases rule: call_refused_cases [of env False st]; cases rule: slot_for_ref_cases [of s st])
       (use assms(1) done1 in \<open>simp_all add: apply_setter_def setter_slot_def\<close>)
qed

lemmas setter_defs = api_span_set_str_def api_span_set_int_def api_span_set_double_def api_span_set_bool_def
  api_span_set_vprintf_def api_span_set_name_def api_span_set_status_def api_span_add_event_def
  api_span_add_link_def api_span_record_error_def

lemma api_setters_wf:
  assumes "wf st"
  shows "wf (api_span_set_str env s key sv st)" "wf (api_span_set_int env s key iv st)"
    "wf (api_span_set_double env s key dv st)" "wf (api_span_set_bool env s key bv st)"
    "wf (api_span_set_vprintf env s key out st)" "wf (api_span_set_name env s nm st)"
    "wf (api_span_set_status env s code d st)" "wf (api_span_add_event env s nm ts attrs st)"
    "wf (api_span_add_link env s target st)" "wf (api_span_record_error env s ed st)"
proof -
  have "keeps_core (\<lambda>slot. ((), [], slot))" by (simp add: keeps_core_def)
  then show "wf (api_span_record_error env s ed st)"
    unfolding setter_defs by (intro apply_setter_wf [OF assms]) (simp add: internal_setters_core split: option.split)
qed (simp_all add: setter_defs apply_setter_wf [OF assms] internal_setters_core)

lemma api_span_capture_error_wf:
  assumes "wf st"
  shows "wf (snd (api_span_capture_error env s ed ok st))"
proof -
  have rec1: "wf (snd (case slot_record_error env e (st_slots t ! i) of (_, cs, slot) \<Rightarrow> (Ret (), fold bump cs (upd_slot i (\<lambda>_. slot) t))))"
    if "wf t" for t i e
    using wf_slot_replaced [OF that, of "snd (snd (slot_record_error env e (st_slots t ! i)))" i] internal_setters_core(8) [of env e]
    by (simp add: keeps_core_def case_prod_beta)
  show ?thesis
    by (cases rule: call_refused_cases [of env False st]; cases rule: slot_for_ref_cases [of s st])
       (use assms rec1 in \<open>simp_all add: api_span_capture_error_def setter_slot_def Let_def\<close>)
qed

lemma record_into_wf: "wf st \<Longrightarrow> wf (record_into env ed i st)"
  using wf_slot_replaced [of st "snd (snd (slot_record_error env ed (st_slots st ! i)))" i] internal_setters_core(8) [of env ed]
  by (simp add: record_into_def keeps_core_def case_prod_beta)

lemma mark_error_wf: "wf st \<Longrightarrow> wf (upd_slot i (mark_error env ed) st)"
  by (rule wf_upd_slot) (simp_all add: slot_shape_core [OF mark_error_core])

lemma log_walk_wf: "wf st \<Longrightarrow> wf (log_walk env ed r es st)"
  by (induction env ed r es st rule: log_walk.induct) (simp_all add: record_into_wf mark_error_wf)

lemma otel_emit_log_hook_wf: "wf st \<Longrightarrow> wf (otel_emit_log_hook env ed st)"
  by (simp add: otel_emit_log_hook_def log_walk_wf)

end
