(* ===== verification/Producer_Starting.thy ===== *)
theory Producer_Starting
  imports Producer_Preserve
begin

text \<open>
  How starting and activating a span, and taking its context, act on the state, and that
  they keep the invariant: taking a free cell, filling it, pushing it on the stack and
  remembering it with its owner.
\<close>

section \<open>Handing out cells\<close>

lemma list_as_update:
  assumes "length xs = length ys" and "\<And>j. j \<noteq> i \<Longrightarrow> j < length ys \<Longrightarrow> xs ! j = ys ! j"
  shows "xs = ys[i := xs ! i]"
proof (rule nth_equalityI)
  fix j assume "j < length xs"
  then show "xs ! j = ys[i := xs ! i] ! j" using assms by (cases "j = i") simp_all
qed (simp add: assms(1))

lemma list_as_snoc:
  assumes "length xs = Suc (length ys)" and "\<And>j. j < length ys \<Longrightarrow> xs ! j = ys ! j"
  shows "xs = ys @ [xs ! length ys]"
proof (rule nth_equalityI)
  fix j assume "j < length xs"
  then show "xs ! j = (ys @ [xs ! length ys]) ! j"
    using assms by (cases "j = length ys") (simp_all add: nth_append)
qed (simp add: assms(1))

definition taken_slot :: "producer \<Rightarrow> nat \<Rightarrow> producer \<Rightarrow> bool" where
  "taken_slot st i t \<longleftrightarrow>
     (0 \<le> st_slot_free_head st \<and> i = nat (st_slot_free_head st) \<and> length (st_slots t) = length (st_slots st) \<and>
        st_slot_free_head t = slot_next st i \<or>
      st_slot_free_head st < 0 \<and> i = length (st_slots st) \<and> length (st_slots t) = Suc i \<and>
        st_slot_free_head t = st_slot_free_head st) \<and>
     (\<forall>j. j \<noteq> i \<longrightarrow> j < length (st_slots st) \<longrightarrow> st_slots t ! j = st_slots st ! j)"

lemma taken_slot_index: "wf st \<Longrightarrow> taken_slot st i t \<Longrightarrow> i < length (st_slots t) \<and> \<not> open_slot st i"
  using slot_pool.free_head_dead [of st]
  by (auto simp: taken_slot_def wf_def slots_free_list open_live) (simp_all add: open_slot_def)

lemma taken_slot_open:
  assumes "wf st" and "taken_slot st i t" and "s_gen (st_slots t ! i) \<noteq> 0"
  shows "open_slot t j = (open_slot st j \<or> j = i)"
  using taken_slot_index [OF assms(1,2)] assms(2,3)
  by (cases "j = i") (auto simp: taken_slot_def open_slot_def)

lemma taken_slot_pool:
  assumes "wf st" and t: "taken_slot st i t" and "s_gen (st_slots t ! i) \<noteq> 0"
  shows "slot_pool.free_list_ok t"
proof -
  have ok: "slot_pool.free_list_ok st" using assms(1) by (simp add: wf_def slots_free_list)
  have same: "\<And>j. j \<noteq> i \<Longrightarrow> j < length (st_slots st) \<Longrightarrow> st_slots t ! j = st_slots st ! j"
    using t by (simp add: taken_slot_def)
  from t consider "0 \<le> st_slot_free_head st" "i = nat (st_slot_free_head st)"
      "length (st_slots t) = length (st_slots st)" "st_slot_free_head t = slot_next st i"
    | "st_slot_free_head st < 0" "i = length (st_slots st)" "length (st_slots t) = Suc i"
      "st_slot_free_head t = st_slot_free_head st"
    by (auto simp: taken_slot_def)
  then show ?thesis
  proof cases
    case 1
    let ?u = "t\<lparr>st_slots := (st_slots st)[i := st_slots t ! i]\<rparr>"
    have i: "i < length (st_slots st)" using slot_pool.free_head_dead [OF ok 1(1)] 1(2) by simp
    have "st_slots t = (st_slots st)[i := st_slots t ! i]"
      by (rule list_as_update [OF 1(3) same])
    then have "t = ?u" by simp
    moreover have "slot_pool.free_list_ok ?u"
      by (rule slot_pool.unlinked_keeps [OF ok 1(1)])
         (use 1 i assms(3) in \<open>auto simp: slot_gen_def slot_next_def\<close>)
    ultimately show ?thesis by simp
  next
    case 2
    show ?thesis
      by (rule slot_pool.grown_keeps [OF ok]) (use 2 assms(3) same in \<open>auto simp: slot_gen_def slot_next_def\<close>)
  qed
qed

lemma taken_slot_count:
  assumes "wf st" and t: "taken_slot st i t" and g: "s_gen (st_slots t ! i) \<noteq> 0"
  shows "session_count t = session_count st + (if s_session (st_slots t ! i) then 1 else 0)"
proof -
  let ?P = "\<lambda>s. s_gen s \<noteq> 0 \<and> s_session s"
  have same: "\<And>j. j \<noteq> i \<Longrightarrow> j < length (st_slots st) \<Longrightarrow> st_slots t ! j = st_slots st ! j"
    using t by (simp add: taken_slot_def)
  from t consider "length (st_slots t) = length (st_slots st)" | "i = length (st_slots st)" "length (st_slots t) = Suc i"
    by (auto simp: taken_slot_def)
  then show ?thesis
  proof cases
    case 1
    have i: "i < length (st_slots st)" "\<not> ?P (st_slots st ! i)"
      using taken_slot_index [OF assms(1) t] 1 by (auto simp: open_slot_def)
    have "st_slots t = (st_slots st)[i := st_slots t ! i]"
      by (rule list_as_update [OF 1 same])
    then show ?thesis
      using count_filter_update [OF i(1), of ?P "st_slots t ! i"] i(2) g unfolding session_count_def by simp
  next
    case 2
    have "st_slots t = st_slots st @ [st_slots t ! i]"
      using list_as_snoc [of "st_slots t" "st_slots st"] 2 same by simp
    then have "filter ?P (st_slots t) = filter ?P (st_slots st) @ filter ?P [st_slots t ! i]"
      by (metis filter_append)
    then show ?thesis using g unfolding session_count_def by simp
  qed
qed

lemma wf_open_slot:
  assumes w: "wf st" and t: "taken_slot st i t"
    and g: "s_gen (st_slots t ! i) \<noteq> 0" "unat (s_gen (st_slots t ! i)) < 2 ^ 31"
    and ids: "trace_id_ok (sp_trace_id (s_span (st_slots t ! i)))" "span_id_ok (sp_span_id (s_span (st_slots t ! i)))"
    and ses: "s_session (st_slots t ! i) \<longleftrightarrow> s_owner (st_slots t ! i) = None"
    and rest: "st_stack t = st_stack st" "st_nrecs t = st_nrecs st" "st_nrec_free_head t = st_nrec_free_head st"
      "unat (st_gen_counter t) < 2 ^ 31" "length (st_slots t) \<le> st_nslots t" "st_nslots t < 2 ^ 31" "st_pool t"
    and session: "st_session_open t = st_session_open st + (if s_owner (st_slots t ! i) = None then 1 else 0)"
    and ledger: "set (st_ledger st) \<subseteq> set (st_ledger t)"
      "\<And>ow. s_owner (st_slots t ! i) = Some ow \<Longrightarrow> (ow, slot_handle t i) \<in> set (st_ledger t)"
  shows "wf t"
proof -
  note op = taken_slot_open [OF w t g(1)]
  have new: "\<not> open_slot st i" "i < length (st_slots t)" using taken_slot_index [OF w t] by auto
  have same: "st_slots t ! j = st_slots st ! j" if "open_slot st j" for j
  proof -
    have "j \<noteq> i" "j < length (st_slots st)" using that new(1) by (auto simp: open_slot_def)
    then show ?thesis using t by (simp add: taken_slot_def)
  qed
  have opn: "open_nrec t j = open_nrec st j" for j by (simp add: open_nrec_def rest)
  have "entry_open t e \<and> entry_detached t e = entry_detached st e" if "entry_open st e" for e
    using that same by (cases "0 \<le> e") (auto simp: entry_open_def entry_detached_def op opn rest)
  then have "wf_stack t" using w by (simp add: wf_def wf_stack_def rest)
  moreover have "nrec_pool.free_list_ok t"
    by (rule nrec_pool.same_links_keep [of st]) (use w in \<open>simp_all add: wf_def slots_free_list nrec_gen_def nrec_next_def rest\<close>)
  then have "wf_pools t" using taken_slot_pool [OF w t g(1)] rest w by (simp add: wf_def slots_free_list)
  moreover have "wf_session t"
    using w same ses session taken_slot_count [OF w t g(1)] by (auto simp: wf_def wf_session_def op)
  moreover have "unat (s_gen (st_slots t ! j)) < 2 ^ 31" if "j < length (st_slots t)" for j
    using that g(2) wf_gen_of(1) [OF w, of j] t by (cases "j = i") (auto simp: taken_slot_def less_Suc_eq)
  then have "wf_gens t"
    using w rest(4) by (auto simp: wf_def wf_gens_def rest(2) in_set_conv_nth)
  moreover have "wf_ledger t"
  proof -
    have "(ow, slot_handle t j) \<in> set (st_ledger t)" if "open_slot t j" "s_owner (st_slots t ! j) = Some ow" for j ow
    proof (cases "j = i")
      case False
      then have "open_slot st j" using that(1) op by simp
      with that(2) have "(ow, slot_handle st j) \<in> set (st_ledger st)" using wf_ledgerD [OF w] same by simp
      then show ?thesis using ledger(1) same [OF \<open>open_slot st j\<close>] by (auto simp: slot_handle_def)
    qed (use that ledger(2) in simp)
    then show ?thesis by (simp add: wf_ledger_def)
  qed
  moreover have "wf_ids t" using w ids same by (auto simp: wf_def wf_ids_def op opn rest)
  ultimately show ?thesis by (simp add: wf_def)
qed

definition taken_nrec :: "producer \<Rightarrow> nat \<Rightarrow> producer \<Rightarrow> bool" where
  "taken_nrec st i t \<longleftrightarrow>
     (0 \<le> st_nrec_free_head st \<and> i = nat (st_nrec_free_head st) \<and> length (st_nrecs t) = length (st_nrecs st) \<and>
        st_nrec_free_head t = nrec_next st i \<or>
      st_nrec_free_head st < 0 \<and> i = length (st_nrecs st) \<and> length (st_nrecs t) = Suc i \<and>
        i < OTEL_MAX_STACK_DEPTH \<and> st_nrec_free_head t = st_nrec_free_head st) \<and>
     (\<forall>j. j \<noteq> i \<longrightarrow> j < length (st_nrecs st) \<longrightarrow> st_nrecs t ! j = st_nrecs st ! j)"

lemma taken_nrec_index: "wf st \<Longrightarrow> taken_nrec st i t \<Longrightarrow> i < length (st_nrecs t) \<and> \<not> open_nrec st i"
  using nrec_pool.free_head_dead [of st]
  by (auto simp: taken_nrec_def wf_def slots_free_list open_live) (simp_all add: open_nrec_def)

lemma taken_nrec_pool:
  assumes "wf st" and t: "taken_nrec st i t" and "n_gen (st_nrecs t ! i) \<noteq> 0"
  shows "nrec_pool.free_list_ok t"
proof -
  have ok: "nrec_pool.free_list_ok st" using assms(1) by (simp add: wf_def slots_free_list)
  have same: "\<And>j. j \<noteq> i \<Longrightarrow> j < length (st_nrecs st) \<Longrightarrow> st_nrecs t ! j = st_nrecs st ! j"
    using t by (simp add: taken_nrec_def)
  from t consider "0 \<le> st_nrec_free_head st" "i = nat (st_nrec_free_head st)"
      "length (st_nrecs t) = length (st_nrecs st)" "st_nrec_free_head t = nrec_next st i"
    | "st_nrec_free_head st < 0" "i = length (st_nrecs st)" "length (st_nrecs t) = Suc i"
      "st_nrec_free_head t = st_nrec_free_head st"
    by (auto simp: taken_nrec_def)
  then show ?thesis
  proof cases
    case 1
    let ?u = "t\<lparr>st_nrecs := (st_nrecs st)[i := st_nrecs t ! i]\<rparr>"
    have i: "i < length (st_nrecs st)" using nrec_pool.free_head_dead [OF ok 1(1)] 1(2) by simp
    have "st_nrecs t = (st_nrecs st)[i := st_nrecs t ! i]"
      by (rule list_as_update [OF 1(3) same])
    then have "t = ?u" by simp
    moreover have "nrec_pool.free_list_ok ?u"
      by (rule nrec_pool.unlinked_keeps [OF ok 1(1)])
         (use 1 i assms(3) in \<open>auto simp: nrec_gen_def nrec_next_def\<close>)
    ultimately show ?thesis by simp
  next
    case 2
    show ?thesis
      by (rule nrec_pool.grown_keeps [OF ok]) (use 2 assms(3) same in \<open>auto simp: nrec_gen_def nrec_next_def\<close>)
  qed
qed

lemma wf_open_nrec:
  assumes w: "wf st" and t: "taken_nrec st i t"
    and g: "n_gen (st_nrecs t ! i) \<noteq> 0" "unat (n_gen (st_nrecs t ! i)) < 2 ^ 31"
    and ids: "trace_id_ok (trace_id (n_ctx (st_nrecs t ! i)))" "\<not> n_have_span_id (st_nrecs t ! i)"
      "\<not> otel_span_context_sampled (n_ctx (st_nrecs t ! i))"
    and rest: "st_stack t = st_stack st" "st_slots t = st_slots st" "st_slot_free_head t = st_slot_free_head st"
      "unat (st_gen_counter t) < 2 ^ 31" "st_nslots t = st_nslots st" "st_pool t = st_pool st"
      "st_session_open t = st_session_open st" "st_ledger t = st_ledger st"
  shows "wf t"
proof -
  have new: "\<not> open_nrec st i" "i < length (st_nrecs t)" using taken_nrec_index [OF w t] by auto
  have op: "open_nrec t j = (open_nrec st j \<or> j = i)" for j
    using new t g(1) by (cases "j = i") (auto simp: taken_nrec_def open_nrec_def)
  have same: "st_nrecs t ! j = st_nrecs st ! j" if "open_nrec st j" for j
  proof -
    have "j \<noteq> i" "j < length (st_nrecs st)" using that new(1) by (auto simp: open_nrec_def)
    then show ?thesis using t by (simp add: taken_nrec_def)
  qed
  have ops: "open_slot t j = open_slot st j" for j by (simp add: open_slot_def rest)
  have "entry_open t e \<and> entry_detached t e = entry_detached st e" if "entry_open st e" for e
    using that same by (cases "0 \<le> e") (auto simp: entry_open_def entry_detached_def op ops rest)
  then have "wf_stack t" using w by (simp add: wf_def wf_stack_def rest)
  moreover have "slot_pool.free_list_ok t"
    by (rule slot_pool.same_links_keep [of st]) (use w in \<open>simp_all add: wf_def slots_free_list slot_gen_def slot_next_def rest\<close>)
  then have "wf_pools t" using taken_nrec_pool [OF w t g(1)] rest w t by (auto simp: wf_def slots_free_list taken_nrec_def)
  moreover have "wf_session t" using w by (simp add: wf_def wf_session_def ops session_count_def rest)
  moreover have "unat (n_gen (st_nrecs t ! j)) < 2 ^ 31" if "j < length (st_nrecs t)" for j
    using that g(2) wf_gen_of(2) [OF w, of j] t by (cases "j = i") (auto simp: taken_nrec_def less_Suc_eq)
  then have "wf_gens t"
    using w rest(4) by (auto simp: wf_def wf_gens_def rest(2) in_set_conv_nth)
  moreover have "wf_ledger t" using w by (simp add: wf_def wf_ledger_def ops slot_handle_def rest)
  moreover have "wf_ids t" using w ids same by (auto simp: wf_def wf_ids_def op ops rest)
  ultimately show ?thesis by (simp add: wf_def)
qed

lemma wf_push:
  assumes "wf st" and "entry_open st e" and "off_stack e st" and "length (st_stack st) < OTEL_MAX_STACK_DEPTH"
    and "act \<longleftrightarrow> entry_detached st e"
  shows "wf (stack_push e act lvl st)"
proof -
  let ?t = "stack_push e act lvl st"
  have fr: "st_slots ?t = st_slots st" "st_nrecs ?t = st_nrecs st" "st_ledger ?t = st_ledger st"
      "st_gen_counter ?t = st_gen_counter st" "st_session_open ?t = st_session_open st" "st_nslots ?t = st_nslots st"
      "st_slot_free_head ?t = st_slot_free_head st" "st_nrec_free_head ?t = st_nrec_free_head st" "st_pool ?t = st_pool st"
    by (simp_all add: stack_push_def)
  have op: "open_slot ?t i = open_slot st i" "open_nrec ?t i = open_nrec st i" "entry_open ?t x = entry_open st x"
      "entry_detached ?t x = entry_detached st x" for i x
    by (simp_all add: open_slot_def open_nrec_def entry_open_def entry_detached_def fr)
  have stk: "st_stack ?t = st_stack st @ [\<lparr>se_entry = e, se_is_activation = act, se_nest_level = lvl\<rparr>]"
    by (simp add: stack_push_def)
  have "wf_stack ?t"
    unfolding wf_stack_def op stk using assms by (auto simp: wf_def wf_stack_def off_stack_def)
  moreover have "wf_pools ?t"
    using assms(1) by (simp add: wf_def wf_pools_def fr slot_gen_def [abs_def] slot_next_def [abs_def] nrec_gen_def [abs_def] nrec_next_def [abs_def])
  ultimately show ?thesis
    using assms(1) by (simp add: wf_def wf_session_def wf_gens_def wf_ledger_def wf_ids_def op fr session_count_def slot_handle_def)
qed

lemma activate_entry_wf:
  assumes "wf st" and "entry_open st e" and "d = entry_detached st e"
  shows "wf (snd (activate_entry env d e g i r st))"
  using assms by (auto simp: activate_entry_def stack_find_None intro: wf_push)

lemma api_span_activate_wf:
  assumes "wf st" and "genuine s"
  shows "wf (snd (api_span_activate env s st))"
proof (cases rule: call_refused_cases [of env False st])
  case (refused c)
  then show ?thesis using assms(1) by (simp add: api_span_activate_def)
next
  case allowed
  show ?thesis
  proof (cases "s = 0")
    case True
    then show ?thesis using assms(1) allowed by (simp add: api_span_activate_def)
  next
    case nz: False
    have slot: "wf (snd (activate_entry env (s_detached (st_slots st ! i)) (stack_entry_for_slot i) g i True st))"
      if "open_slot st i" for i g
      using that assms(1) by (intro activate_entry_wf) (simp_all add: entry_open_def entry_detached_def stack_entry_for_slot_def)
    have nrec: "wf (snd (activate_entry env (n_detached (st_nrecs st ! i)) (stack_entry_for_nrec i) g i False st))"
      if "open_nrec st i" for i g
      using that assms(1) entry_nrec_for(1,2) [of i]
      by (intro activate_entry_wf) (simp_all add: entry_open_def entry_detached_def)
    show ?thesis
      by (cases rule: slot_for_ref_cases [of s st]; cases rule: nrec_for_ref_cases [of s st])
         (use assms nz allowed slot nrec found_open [OF assms(2) nz] in \<open>simp_all add: api_span_activate_def\<close>)
  qed
qed

section \<open>Fresh generations and IDs\<close>

lemma seed_frame [simp]:
  "skeleton (seed_prng_if_needed env st) = skeleton st" "st_slots (seed_prng_if_needed env st) = st_slots st"
  "st_nrecs (seed_prng_if_needed env st) = st_nrecs st" "st_stack (seed_prng_if_needed env st) = st_stack st"
  "st_exported (seed_prng_if_needed env st) = st_exported st" "st_counters (seed_prng_if_needed env st) = st_counters st"
  by (simp_all add: seed_prng_if_needed_def)

lemma masked_gen: "unat (g AND OTEL_GEN_MASK) < 2 ^ 31"
proof -
  have "OTEL_GEN_MASK = mask 31" by (simp add: OTEL_GEN_MASK_def mask_eq_exp_minus_1)
  then have "g AND OTEL_GEN_MASK = take_bit 31 g" by (simp add: take_bit_eq_mask)
  then show ?thesis using take_bit_nat_less_exp [of 31 "unat g"] by (simp add: unsigned_take_bit_eq)
qed

lemma seed_wf: "wf st \<Longrightarrow> wf (seed_prng_if_needed env st)"
proof -
  assume w: "wf st"
  have "unat (st_gen_counter (seed_prng_if_needed env st)) < 2 ^ 31"
    using w wf_gen_bound [OF w] masked_gen [of "fst (e_seed env)"] by (simp add: seed_prng_if_needed_def)
  from wf_skeleton [OF _ this w] show ?thesis by simp
qed

lemma next_gen_facts:
  assumes "next_gen st = (g, t)"
  shows "g \<noteq> 0" "unat g < 2 ^ 31" "t = st\<lparr>st_gen_counter := g\<rparr>"
  using assms masked_gen [of "st_gen_counter st + 1"] by (auto simp: next_gen_def Let_def split: if_splits)

lemma draw_nonzero_value: "draw_nonzero vs = Some (v, ws) \<Longrightarrow> v \<noteq> 0"
  by (induction vs) (auto split: if_splits)

lemma draw_pair_value: "draw_nonzero_pair vs = Some (v, w, ws) \<Longrightarrow> v \<noteq> 0 \<or> w \<noteq> 0"
  by (induction vs rule: draw_nonzero_pair.induct) (auto split: if_splits)

lemma word_bytes_nonzero: "v \<noteq> 0 \<Longrightarrow> \<exists>b\<in>set (bytes_of_u64 8 v). b \<noteq> 0"
proof (rule ccontr)
  assume "v \<noteq> 0" "\<not> (\<exists>b\<in>set (bytes_of_u64 8 v). b \<noteq> 0)"
  then have "bytes_of_u64 8 v = replicate 8 0"
    by (intro replicate_eqI) auto
  then have "u64_of_bytes (bytes_of_u64 8 v) = u64_of_bytes (bytes_of_u64 8 0)"
    by (simp add: numeral_eq_Suc)
  then show False using \<open>v \<noteq> 0\<close> by (simp only: u64_of_bytes_of_u64)
qed

lemma span_id_ok_bytes: "v \<noteq> 0 \<Longrightarrow> span_id_ok (bytes_of_u64 8 v)"
  by (simp add: span_id_ok_def otel_span_id_is_valid_def u64_of_bytes_of_u64)

lemma trace_id_ok_bytes: "v \<noteq> 0 \<or> w \<noteq> 0 \<Longrightarrow> trace_id_ok (bytes_of_u64 8 v @ bytes_of_u64 8 w)"
  using word_bytes_nonzero [of v] word_bytes_nonzero [of w] by (auto simp: trace_id_ok_def trace_id_valid_iff)

lemma new_span_id_cases:
  obtains "new_span_id st = (Spin, st)"
  | v vs where "new_span_id st = (Ret (bytes_of_u64 8 v), st\<lparr>st_prng := vs\<rparr>)" "v \<noteq> 0"
  using draw_nonzero_value [of "st_prng st"]
  by (cases "draw_nonzero (st_prng st)") (auto simp: new_span_id_def)

lemma new_trace_id_cases:
  obtains "new_trace_id st = (Spin, st)"
  | tid vs where "new_trace_id st = (Ret tid, st\<lparr>st_prng := vs\<rparr>)" "trace_id_ok tid"
proof (cases "draw_nonzero_pair (st_prng st)")
  case None
  then show thesis by (intro that(1)) (simp add: new_trace_id_def)
next
  case (Some r)
  obtain v w vs where r: "r = (v, w, vs)" by (cases r)
  then have "trace_id_ok (bytes_of_u64 8 v @ bytes_of_u64 8 w)"
    using draw_pair_value Some by (intro trace_id_ok_bytes) blast
  then show thesis using Some r by (intro that(2)) (simp_all add: new_trace_id_def)
qed

section \<open>Contexts\<close>

lemma wf_upd_nrec_ids:
  assumes w: "wf st" and "open_nrec st i" and "span_id_ok sid"
  shows "wf (upd_nrec i (\<lambda>n. n\<lparr>n_ctx := (n_ctx n)\<lparr>span_id := sid\<rparr>, n_have_span_id := True\<rparr>) st)"
proof -
  let ?t = "upd_nrec i (\<lambda>n. n\<lparr>n_ctx := (n_ctx n)\<lparr>span_id := sid\<rparr>, n_have_span_id := True\<rparr>) st"
  have nth: "st_nrecs ?t ! j = (if j = i then (st_nrecs st ! i)\<lparr>n_ctx := (n_ctx (st_nrecs st ! i))\<lparr>span_id := sid\<rparr>,
      n_have_span_id := True\<rparr> else st_nrecs st ! j)" for j
    using assms(2) by (simp add: upd_nrec_def open_nrec_def)
  have fr: "st_slots ?t = st_slots st" "st_stack ?t = st_stack st" "length (st_nrecs ?t) = length (st_nrecs st)"
      "st_slot_free_head ?t = st_slot_free_head st" "st_nrec_free_head ?t = st_nrec_free_head st"
      "st_gen_counter ?t = st_gen_counter st" "st_nslots ?t = st_nslots st" "st_session_open ?t = st_session_open st"
      "st_ledger ?t = st_ledger st" "st_pool ?t = st_pool st"
    by (simp_all add: upd_nrec_def)
  have op: "open_slot ?t j = open_slot st j" "open_nrec ?t j = open_nrec st j" for j
    by (simp_all add: open_slot_def open_nrec_def nth fr)
  have "entry_open ?t e = entry_open st e" "entry_detached ?t e = entry_detached st e" for e
    by (simp_all add: entry_open_def entry_detached_def op nth fr)
  then have "wf_stack ?t" using w by (simp add: wf_def wf_stack_def fr)
  moreover have "slot_pool.free_list_ok ?t" "nrec_pool.free_list_ok ?t"
    by (rule slot_pool.same_links_keep [of st] nrec_pool.same_links_keep [of st],
        use w in \<open>simp_all add: wf_def slots_free_list cell_defs nth fr\<close>)+
  then have "wf_pools ?t" using w by (simp add: wf_def slots_free_list fr)
  moreover have "wf_session ?t" using w by (simp add: wf_def wf_session_def op session_count_def fr)
  moreover have "unat (n_gen (st_nrecs ?t ! j)) < 2 ^ 31" if "j < length (st_nrecs st)" for j
    using wf_gen_of(2) [OF w that] by (cases "j = i") (simp_all add: nth)
  then have "wf_gens ?t" using w by (auto simp: wf_def wf_gens_def fr in_set_conv_nth)
  moreover have "wf_ledger ?t" using w by (simp add: wf_def wf_ledger_def op slot_handle_def fr)
  moreover have "wf_ids ?t" using w assms(3)
    by (auto simp: wf_def wf_ids_def op nth fr otel_span_context_sampled_def)
  ultimately show ?thesis by (simp add: wf_def)
qed

lemma nrec_context_wf:
  assumes "wf st" and "open_nrec st i"
  shows "wf (snd (nrec_context env i st))"
proof (cases "n_have_span_id (st_nrecs st ! i)")
  case True
  then show ?thesis using assms(1) by (simp add: nrec_context_def op_simps)
next
  case False
  let ?s = "seed_prng_if_needed env st"
  show ?thesis
  proof (cases rule: new_span_id_cases [of ?s])
    case 1
    then show ?thesis using False seed_wf [OF assms(1)] by (simp add: nrec_context_def and_then_def)
  next
    case (2 v vs)
    let ?u = "?s\<lparr>st_prng := vs\<rparr>"
    have "wf ?u" by (rule wf_same [OF _ _ seed_wf [OF assms(1), of env]]) simp_all
    moreover have "open_nrec ?u i" using assms(2) by (simp add: open_nrec_def)
    ultimately show ?thesis
      using wf_upd_nrec_ids [of ?u i "bytes_of_u64 8 v"] span_id_ok_bytes 2 False
      by (simp add: nrec_context_def and_then_def modify_def)
  qed
qed

lemma resolve_active_open:
  assumes "wf st"
  shows "resolve_active_parent env st = P_slot i \<Longrightarrow> open_slot st i"
    and "resolve_active_parent env st = P_nrec i \<Longrightarrow> open_nrec st i"
  using last_entry_open [OF assms]
  by (auto simp: resolve_active_parent_def resolve_from_entry_def entry_open_def entry_nrec_def
      split: if_splits option.splits)

lemma context_of_ref_wf:
  assumes "wf st" and "genuine s" and "s \<noteq> 0"
  shows "wf (snd (context_of_ref env s st))"
proof -
  have nrec: "wf (snd (and_then (nrec_context env i) (\<lambda>c. ret (Some c)) st))" if "open_nrec st i" for i
    using nrec_context_wf [OF assms(1) that, of env] by (simp add: snd_and_then_cases ret_def split: outcome.split)
  show ?thesis
    by (cases rule: slot_for_ref_cases [of s st]; cases rule: nrec_for_ref_cases [of s st])
       (use assms nrec found_open [OF assms(2,3)] in \<open>simp_all add: context_of_ref_def\<close>)
qed

lemma api_span_context_of_wf:
  assumes "wf st" and "genuine s"
  shows "wf (snd (api_span_context_of env s st))" "wf (snd (otel_span_context_of_internal env s st))"
proof -
  have "wf (snd (otel_span_context_of_internal env s st))"
  proof (cases "s = 0")
    case True
    show ?thesis
    proof (cases "resolve_active_parent env st")
      case (P_slot i)
      then have op: "open_slot st i" by (rule resolve_active_open(1) [OF assms(1)])
      have "ref_gen (slot_handle st i) \<noteq> 0" using slot_handle_fields(1) [OF assms(1) op] op by (simp add: open_slot_def)
      then show ?thesis
        using True P_slot context_of_ref_wf [OF assms(1), of "slot_handle st i"] slot_handle_fields(4) [OF assms(1) op]
        by (simp add: otel_span_context_of_internal_def genuine_def slot_handle_def)
    next
      case (P_nrec i)
      then show ?thesis
        using True nrec_context_wf [OF assms(1) resolve_active_open(2) [OF assms(1) P_nrec]]
        by (simp add: otel_span_context_of_internal_def snd_and_then_cases ret_def split: outcome.split)
    qed (use True assms(1) in \<open>simp_all add: otel_span_context_of_internal_def\<close>)
  next
    case False
    then show ?thesis using context_of_ref_wf [OF assms] by (simp add: otel_span_context_of_internal_def)
  qed
  then show "wf (snd (otel_span_context_of_internal env s st))" "wf (snd (api_span_context_of env s st))"
    by (cases rule: call_refused_cases [of env True st]; use assms in \<open>simp add: api_span_context_of_def\<close>)+
qed

end
