(* ===== verification/Producer_Opening.thy ===== *)
theory Producer_Opening
  imports Producer_Starting
begin

text \<open>
  What \<open>api_span_start\<close> does on each of its paths: refusals, failures while a slot is
  being set up, a non-recording span, a recording span; and that it keeps the invariant.
\<close>

section \<open>Taking a slot\<close>

lemma pool_ok_grow_free:
  assumes "pool_ok n gen nx h" and "gen' n = 0" "nx' n = h" and "\<And>j. j < n \<Longrightarrow> gen' j = gen j \<and> nx' j = nx j"
  shows "pool_ok (Suc n) gen' nx' (int n)"
proof -
  from assms(1) obtain fs where fs: "chain nx h fs" "distinct fs" "set fs = {j. j < n \<and> gen j = 0}"
    by (auto simp: pool_ok_def)
  have "chain nx' h fs" using fs assms(4) chain_cong [of fs nx nx'] by auto
  moreover have "set (n # fs) = {j. j < Suc n \<and> gen' j = 0}"
    using fs(3) assms(2,4) by (auto simp: less_Suc_eq)
  ultimately show ?thesis
    using fs assms(3) unfolding pool_ok_def by (intro exI [of _ "n # fs"]) auto
qed

lemma wf_grow_free:
  assumes w: "wf st" and "length (st_slots st) < st_nslots st" and "st_pool st"
    and z: "s_gen z = 0" "s_next_free z = st_slot_free_head st"
  shows "wf (st\<lparr>st_slots := st_slots st @ [z], st_slot_free_head := int (length (st_slots st))\<rparr>)" (is "wf ?t")
proof -
  have nth: "st_slots ?t ! j = st_slots st ! j" if "j < length (st_slots st)" for j
    using that by (simp add: nth_append)
  have op: "open_slot ?t j = open_slot st j" "open_nrec ?t j = open_nrec st j" for j
    using nth z(1) by (auto simp: open_slot_def open_nrec_def nth_append less_Suc_eq)
  have same: "st_slots ?t ! j = st_slots st ! j" if "open_slot st j" for j
    using that nth by (simp add: open_slot_def)
  have "entry_open ?t e = entry_open st e" for e by (simp add: entry_open_def op)
  moreover have "entry_detached ?t e = entry_detached st e" if "entry_open st e" for e
    using that nth [of "nat e"] by (auto simp: entry_detached_def entry_open_def open_slot_def)
  ultimately have "wf_stack ?t" using w by (simp add: wf_def wf_stack_def)
  moreover have "slot_pool.free_list_ok ?t"
    unfolding slot_pool.free_list_ok_def
    using pool_ok_grow_free [of "length (st_slots st)" "slot_gen st" "slot_next st" "st_slot_free_head st" "slot_gen ?t" "slot_next ?t"]
      w z by (simp add: wf_def wf_pools_def slot_gen_def slot_next_def nth_append)
  moreover have "nrec_pool.free_list_ok ?t"
    by (rule nrec_pool.same_links_keep [of st]) (use w in \<open>simp_all add: wf_def slots_free_list cell_defs\<close>)
  ultimately have "wf_stack ?t" "wf_pools ?t" using w assms(2,3) by (simp_all add: wf_def slots_free_list)
  moreover have "session_count ?t = session_count st" using z(1) by (simp add: session_count_def)
  then have "wf_session ?t" using w same by (simp add: wf_def wf_session_def op)
  moreover have "wf_gens ?t" using w z(1) by (simp add: wf_def wf_gens_def)
  moreover have "wf_ledger ?t" using w same by (simp add: wf_def wf_ledger_def op slot_handle_def)
  moreover have "wf_ids ?t" using w same by (simp add: wf_def wf_ids_def op)
  ultimately show ?thesis by (simp add: wf_def)
qed

text \<open>Only the slot array and its free list differ.\<close>

definition slots_only :: "producer \<Rightarrow> producer \<Rightarrow> bool" where
  "slots_only st t \<longleftrightarrow>
     st_stack t = st_stack st \<and> st_nrecs t = st_nrecs st \<and> st_nrec_free_head t = st_nrec_free_head st \<and>
     st_gen_counter t = st_gen_counter st \<and> st_nslots t = st_nslots st \<and> st_pool t = st_pool st \<and>
     st_session_open t = st_session_open st \<and> st_ledger t = st_ledger st \<and> st_exported t = st_exported st \<and>
     st_counters t = st_counters st \<and> st_dispatch_depth t = st_dispatch_depth st \<and> st_prng t = st_prng st \<and>
     st_tracers t = st_tracers st"

lemma take_slot_cases:
  assumes w: "wf st" and pool: "st_pool st"
  obtains (full) "take_slot env st = (Ret None, st)"
  | (taken) i t where "take_slot env st = (Ret (Some i), t)" "taken_slot st i t" "slots_only st t"
      "length (st_slots t) \<le> st_nslots t"
  | (failed) t where "take_slot env st = (Throw, t)" "wf t" "slots_only st t"
proof -
  have nle: "length (st_slots st) \<le> st_nslots st" using w by (simp add: wf_def wf_pools_def)
  consider (head) "0 \<le> st_slot_free_head st" | (fresh) "st_slot_free_head st < 0" "length (st_slots st) < st_nslots st"
    | (none) "st_slot_free_head st < 0" "\<not> length (st_slots st) < st_nslots st" by linarith
  then show thesis
  proof cases
    case none
    then show ?thesis by (intro full) (simp add: take_slot_def)
  next
    case head
    let ?i = "nat (st_slot_free_head st)"
    let ?t = "st\<lparr>st_slot_free_head := s_next_free (st_slots st ! ?i)\<rparr>"
    let ?u = "upd_slot ?i (\<lambda>s. s\<lparr>s_cxt := True\<rparr>) ?t"
    have i: "?i < length (st_slots st)"
      using slot_pool.free_head_dead [of st] w head by (simp add: wf_def slots_free_list)
    have tk: "taken_slot st ?i ?t" "taken_slot st ?i ?u"
      using head i by (auto simp: taken_slot_def slot_next_def upd_slot_def)
    have so: "slots_only st ?t" "slots_only st ?u" "slots_only st st" by (simp_all add: slots_only_def upd_slot_def)
    have len: "length (st_slots ?t) \<le> st_nslots ?t" "length (st_slots ?u) \<le> st_nslots ?u"
      using nle by (simp_all add: upd_slot_def)
    have "(upd_slot ?i (\<lambda>s. s\<lparr>s_next_free := st_slot_free_head ?t\<rparr>) ?t)\<lparr>st_slot_free_head := int ?i\<rparr> = st"
      using head by (simp add: upd_slot_def)
    then have run: "take_slot env st =
        (if s_cxt (st_slots st ! ?i) then (Ret (Some ?i), ?t)
         else if e_slot_cxt_ok env then (Ret (Some ?i), ?u) else (Throw, st))"
      using head unfolding take_slot_def Let_def by simp
    show ?thesis
    proof (cases "s_cxt (st_slots st ! ?i)")
      case True
      then show ?thesis using run by (intro taken [OF _ tk(1) so(1) len(1)]) simp
    next
      case nocxt: False
      show ?thesis
      proof (cases "e_slot_cxt_ok env")
        case True
        then show ?thesis using run nocxt by (intro taken [OF _ tk(2) so(2) len(2)]) simp
      next
        case False
        then show ?thesis using run nocxt by (intro failed [OF _ w so(3)]) simp
      qed
    qed
  next
    case fresh
    let ?n = "length (st_slots st)"
    let ?t = "st\<lparr>st_slots := st_slots st @ [zero_slot]\<rparr>"
    let ?u = "upd_slot ?n (\<lambda>s. s\<lparr>s_cxt := True\<rparr>) ?t"
    let ?f = "st\<lparr>st_slots := st_slots st @ [zero_slot\<lparr>s_next_free := st_slot_free_head st\<rparr>], st_slot_free_head := int ?n\<rparr>"
    have tk: "taken_slot st ?n ?u"
      using fresh by (auto simp: taken_slot_def upd_slot_def nth_append)
    have so: "slots_only st ?u" "slots_only st ?f" by (simp_all add: slots_only_def upd_slot_def)
    have len: "length (st_slots ?u) \<le> st_nslots ?u" using fresh by (simp add: upd_slot_def)
    have wf: "wf ?f"
      by (rule wf_grow_free [OF w fresh(2) pool]) (simp_all add: zero_slot_def)
    have "(upd_slot ?n (\<lambda>s. s\<lparr>s_next_free := st_slot_free_head ?t\<rparr>) ?t)\<lparr>st_slot_free_head := int ?n\<rparr> = ?f"
      by (simp add: upd_slot_def)
    moreover have "\<not> s_cxt (st_slots ?t ! ?n)" by (simp add: zero_slot_def)
    ultimately have run: "take_slot env st =
        (if e_slot_cxt_ok env then (Ret (Some ?n), ?u) else (Throw, ?f))"
      using fresh unfolding take_slot_def Let_def by simp
    show ?thesis
    proof (cases "e_slot_cxt_ok env")
      case True
      then show ?thesis using run by (intro taken [OF _ tk so(1) len]) simp
    next
      case False
      then show ?thesis using run by (intro failed [OF _ wf so(2)]) simp
    qed
  qed
qed

section \<open>Filling the slot\<close>

definition start_flags :: "u8 \<Rightarrow> sampler_decision \<Rightarrow> u8" where
  "start_flags parent_flags decision =
     (parent_flags AND NOT OTEL_TRACE_FLAG_SAMPLED) OR
       (if decision = SAMPLE_RECORD_AND_SAMPLE then OTEL_TRACE_FLAG_SAMPLED else 0)"

lemma strdup_same:
  assumes "slot_strdup env x m str s = (r, tr, t)"
  shows "s_span t = s_span s" "s_gen t = s_gen s" "s_detached t = s_detached s" "s_session t = s_session s"
    "s_owner t = s_owner s"
  using strdup_evolves [OF assms] core_fields [of t s] by (simp_all add: evolves_def)

lemma fill_slot_fields:
  fixes env args tid pf dec sc pid ts sid s
  defines t_def: "t \<equiv> fill_slot env args tid pf dec sc pid ts sid s"
  shows "s_gen t = s_gen s" "s_detached t = s_detached s" "s_session t = s_session s" "s_owner t = s_owner s"
    "sp_trace_id (s_span t) = tid" "sp_span_id (s_span t) = sid" "sp_parent_span_id (s_span t) = pid"
    "sp_trace_flags (s_span t) = start_flags pf dec" "sp_decision (s_span t) = dec" "sp_kind (s_span t) = sa_kind args"
    "sp_scope (s_span t) = sc"
proof -
  let ?s1 = "upd_span (\<lambda>p. p\<lparr>sp_kind := sa_kind args, sp_scope := sc, sp_trace_id := tid, sp_span_id := sid,
                 sp_parent_span_id := pid\<rparr>) s"
  define s2 where "s2 = (case ts of None \<Rightarrow> ?s1 | Some x \<Rightarrow> (case slot_strdup env S_tracestate None x ?s1 of
                              (c, _, s) \<Rightarrow> upd_span (\<lambda>p. p\<lparr>sp_tracestate := c\<rparr>) s))"
  have s2: "s_gen s2 = s_gen s \<and> s_detached s2 = s_detached s \<and> s_session s2 = s_session s \<and> s_owner s2 = s_owner s \<and>
      sp_trace_id (s_span s2) = tid \<and> sp_span_id (s_span s2) = sid \<and> sp_parent_span_id (s_span s2) = pid \<and>
      sp_kind (s_span s2) = sa_kind args \<and> sp_scope (s_span s2) = sc"
  proof (cases ts)
    case None
    then show ?thesis by (simp add: s2_def upd_span_def)
  next
    case (Some x)
    obtain c tr u where u: "slot_strdup env S_tracestate None x ?s1 = (c, tr, u)" by (metis prod_cases3)
    from strdup_same [OF u] show ?thesis by (simp add: s2_def Some u) (simp add: upd_span_def)
  qed
  define s3 where "s3 = upd_span (\<lambda>p. p\<lparr>sp_trace_flags := start_flags pf dec, sp_decision := dec\<rparr>) s2"
  obtain c tr s4 where s4: "slot_strdup env S_name (Some (e_attr_value_max env)) (the (sa_name args)) s3 = (c, tr, s4)"
    by (metis prod_cases3)
  have "t = upd_span (\<lambda>p. p\<lparr>sp_name := (case c of Some n \<Rightarrow> n | None \<Rightarrow> ''(out of memory)''),
               sp_start_time := (if sa_start_time args \<noteq> 0 then sa_start_time args
                                 else e_now env (s_gen s4))\<rparr>) s4"
    unfolding t_def fill_slot_def Let_def start_flags_def [symmetric] s2_def [symmetric] s3_def [symmetric] s4 by simp
  then show "s_gen t = s_gen s" "s_detached t = s_detached s" "s_session t = s_session s" "s_owner t = s_owner s"
    "sp_trace_id (s_span t) = tid" "sp_span_id (s_span t) = sid" "sp_parent_span_id (s_span t) = pid"
    "sp_trace_flags (s_span t) = start_flags pf dec" "sp_decision (s_span t) = dec" "sp_kind (s_span t) = sa_kind args"
    "sp_scope (s_span t) = sc"
    using s2 strdup_same [OF s4] by (simp_all add: upd_span_def s3_def)
qed

section \<open>A recording span\<close>

text \<open>What a call that starts a recording span leaves behind.\<close>

definition started where
  "started env args p tid pf dec st ref u \<longleftrightarrow>
     (\<exists>i sc. \<not> open_slot st i \<and> open_slot u i \<and> ref = slot_handle u i \<and>
        (\<forall>j. open_slot st j \<longrightarrow> open_slot u j \<and> st_slots u ! j = st_slots st ! j) \<and> st_nrecs u = st_nrecs st \<and>
        st_stack u = st_stack st @ (if sa_detached args then []
          else [\<lparr>se_entry = stack_entry_for_slot i, se_is_activation = False, se_nest_level = 0\<rparr>]) \<and>
        st_exported u = st_exported st \<and>
        (let s = st_slots u ! i; sp = s_span s in
           s_detached s = sa_detached args \<and> s_owner s = start_owner env args \<and>
           sp_trace_id sp = tid \<and> sp_parent_span_id sp = parent_span_id p st \<and>
           sp_trace_flags sp = start_flags pf dec \<and> sp_decision sp = dec \<and> sp_kind sp = sa_kind args \<and>
           sp_scope sp = sc))"

definition parent_ok :: "resolved_parent \<Rightarrow> producer \<Rightarrow> bool" where
  "parent_ok p st \<longleftrightarrow>
     (case p of P_slot i \<Rightarrow> open_slot st i | P_nrec i \<Rightarrow> open_nrec st i
      | P_remote c \<Rightarrow> trace_id_ok (trace_id c) | P_none \<Rightarrow> True)"

lemma init_slot_outcome:
  assumes w: "wf st" and pool: "st_pool st" and tk: "taken_slot st i t" and so: "slots_only st t"
    and len: "length (st_slots t) \<le> st_nslots t" and tid: "trace_id_ok tid" and par: "parent_ok p st"
    and room: "sa_detached args \<or> length (st_stack st) < OTEL_MAX_STACK_DEPTH"
    and run: "init_slot env args p tid pf dec sc i t = (x, u)"
  shows "x = Spin \<or> (\<exists>ref. x = Ret ref \<and> wf u \<and> ref \<noteq> 0 \<and> genuine ref \<and> started env args p tid pf dec st ref u)"
proof -
  note fr = so [unfolded slots_only_def]
  obtain g st1 where ng: "next_gen t = (g, st1)" by (metis surj_pair)
  note gf = next_gen_facts [OF ng]
  have i: "i < length (st_slots t)" "\<not> open_slot st i" using taken_slot_index [OF w tk] by auto
  define base where "base = (st_slots t ! i)\<lparr>s_gen := g, s_detached := sa_detached args, s_session := (start_owner env args = None),
                  s_owner := start_owner env args, s_attrs_cap := OTEL_SLOT_INLINE_ATTRS\<rparr>"
  define st2 where "st2 = upd_slot i (\<lambda>s. s\<lparr>s_gen := g, s_detached := sa_detached args, s_session := (start_owner env args = None),
                  s_owner := start_owner env args, s_attrs_cap := OTEL_SLOT_INLINE_ATTRS\<rparr>) st1"
  show ?thesis
  proof (cases rule: new_span_id_cases [of st2])
    case 1
    then have "init_slot env args p tid pf dec sc i t = (Spin, st2)"
      by (simp add: init_slot_def Let_def ng st2_def [symmetric] and_then_def)
    with run show ?thesis by simp
  next
    case (2 v vs)
    let ?sid = "bytes_of_u64 8 v" and ?ref = "make_ref g i True"
    define st3 where "st3 = st2\<lparr>st_prng := vs\<rparr>"
    define slot where "slot = fill_slot env args tid pf dec sc (parent_span_id p st3) (parent_tracestate p st3) ?sid base"
    note ff = fill_slot_fields [of env args tid pf dec sc "parent_span_id p st3" "parent_tracestate p st3" ?sid base, folded slot_def]
    define X where "X = st3\<lparr>st_slots := (st_slots t)[i := slot],
        st_ledger := (case start_owner env args of Some ow \<Rightarrow> (ow, ?ref) # st_ledger st | None \<Rightarrow> st_ledger st),
        st_session_open := st_session_open st + (if start_owner env args = None then 1 else 0),
        st_exit_registered := (start_owner env args = None \<or> st_exit_registered t)\<rparr>"
    define Y where "Y = (if sa_detached args then X else stack_push (stack_entry_for_slot i) False 0 X)"
    have base3: "st_slots st3 ! i = base" "st_slots st3 = (st_slots t)[i := base]"
      using i(1) by (simp_all add: st3_def st2_def upd_slot_def gf(3) base_def)
    have X_fr: "st_stack X = st_stack st" "st_nrecs X = st_nrecs st" "st_nrec_free_head X = st_nrec_free_head st"
        "st_nslots X = st_nslots t" "st_pool X = st_pool st" "st_gen_counter X = g" "st_exported X = st_exported st"
        "st_slot_free_head X = st_slot_free_head t" "length (st_slots X) = length (st_slots t)"
        "st_slots X ! j = (if j = i then slot else st_slots t ! j)" for j
      using i(1) by (simp_all add: X_def st3_def st2_def gf(3) fr upd_slot_def)
    have sX: "st_slots X ! i = slot" by (simp add: X_fr(10))
    have u: "u = bump C_spans_started Y" "x = Ret ?ref"
    proof -
      have upd: "upd_slot i (fill_slot env args tid pf dec sc (parent_span_id p st3) (parent_tracestate p st3) ?sid) st3
          = st3\<lparr>st_slots := (st_slots t)[i := slot]\<rparr>"
        using i(1) by (simp add: upd_slot_def base3 slot_def)
      have fr3: "st_session_open st3 = st_session_open st" "st_ledger st3 = st_ledger st" "st_stack st3 = st_stack st"
          "st_exit_registered st3 = st_exit_registered t"
        by (simp_all add: st3_def st2_def gf(3) fr upd_slot_def)
      have "init_slot env args p tid pf dec sc i t = (Ret ?ref, bump C_spans_started Y)"
        unfolding init_slot_def Let_def ng prod.case st2_def [symmetric] and_then_def [of new_span_id] 2(1) outcome.case
          st3_def [symmetric] and_then_modify
        by (cases "start_owner env args"; cases "sa_detached args")
           (auto simp: and_then_def modify_def ret_def upd Y_def X_def stack_push_def fr3 intro!: arg_cong [of _ _ "bump C_spans_started"] producer.equality)
      with run show "u = bump C_spans_started Y" "x = Ret ?ref" by simp_all
    qed
    have tkX: "taken_slot st i X" using tk i(1) by (auto simp: taken_slot_def X_fr)
    have gen: "s_gen slot = g" by (simp add: ff base_def)
    have wX: "wf X"
    proof (rule wf_open_slot [OF w tkX])
      show "length (st_slots X) \<le> st_nslots X" "st_nslots X < 2 ^ 31" "st_pool X"
        using w len pool by (simp_all add: X_fr fr wf_def wf_pools_def)
      show "s_gen (st_slots X ! i) \<noteq> 0" "unat (s_gen (st_slots X ! i)) < 2 ^ 31" "unat (st_gen_counter X) < 2 ^ 31"
        using gf by (simp_all add: sX gen X_fr(6))
      show "trace_id_ok (sp_trace_id (s_span (st_slots X ! i)))" "span_id_ok (sp_span_id (s_span (st_slots X ! i)))"
        using tid 2(2) by (simp_all add: sX ff span_id_ok_bytes)
      show "s_session (st_slots X ! i) \<longleftrightarrow> s_owner (st_slots X ! i) = None" by (simp add: sX ff base_def)
      show "st_stack X = st_stack st" "st_nrecs X = st_nrecs st" "st_nrec_free_head X = st_nrec_free_head st" by (fact X_fr)+
      show "st_session_open X = st_session_open st + (if s_owner (st_slots X ! i) = None then 1 else 0)"
        by (simp add: sX ff base_def) (simp add: X_def)
      show "set (st_ledger st) \<subseteq> set (st_ledger X)" by (auto simp: X_def split: option.split)
      show "(ow, slot_handle X i) \<in> set (st_ledger X)" if "s_owner (st_slots X ! i) = Some ow" for ow
        using that by (simp add: sX ff base_def slot_handle_def gen) (simp add: X_def)
    qed
    have opX: "open_slot X j = (open_slot st j \<or> j = i)" for j
      by (rule taken_slot_open [OF w tkX]) (simp add: sX gen gf)
    have sameX: "st_slots X ! j = st_slots st ! j" if "open_slot st j" for j
    proof -
      have "j \<noteq> i" "j < length (st_slots st)" using that i(2) by (auto simp: open_slot_def)
      then show ?thesis using tkX by (simp add: taken_slot_def)
    qed
    have wY: "wf Y"
    proof (cases "sa_detached args")
      case False
      have "off_stack (stack_entry_for_slot i) X"
        using w i(2) by (auto simp: off_stack_def X_fr wf_def wf_stack_def entry_open_def stack_entry_for_slot_def)
          (metis nat_int of_nat_0_le_iff)
      then have "wf (stack_push (stack_entry_for_slot i) False 0 X)"
        using room False by (intro wf_push [OF wX])
          (simp_all add: entry_open_def stack_entry_for_slot_def opX X_fr entry_detached_def ff base_def)
      with False show ?thesis by (simp add: Y_def)
    qed (simp add: Y_def wX)
    have slotsY: "st_slots Y = st_slots X" by (simp add: Y_def stack_push_def)
    have opY: "open_slot u j = open_slot X j" for j by (simp add: u open_slot_def slotsY)
    have ref: "?ref = slot_handle u i" by (simp add: u slot_handle_def slotsY sX gen)
    have par3: "parent_span_id p st3 = parent_span_id p st"
    proof (cases p)
      case (P_slot j)
      with par have "open_slot st j" by (simp add: parent_ok_def)
      with i(2) have "j \<noteq> i" "st_slots X ! j = st_slots st ! j" using sameX by auto
      then show ?thesis by (simp add: P_slot parent_span_id_def base3(2) X_fr(10))
    qed (simp_all add: parent_span_id_def)
    have "started env args p tid pf dec st ?ref u"
    proof -
      have fu: "st_stack u = st_stack st @ (if sa_detached args then []
            else [\<lparr>se_entry = stack_entry_for_slot i, se_is_activation = False, se_nest_level = 0\<rparr>])"
          "st_nrecs u = st_nrecs st" "st_exported u = st_exported st" "st_slots u = st_slots X"
        by (simp_all add: u slotsY) (simp_all add: Y_def X_fr stack_push_def)
      have "open_slot u i" "\<forall>j. open_slot st j \<longrightarrow> open_slot u j \<and> st_slots u ! j = st_slots st ! j"
        using sameX by (simp_all add: opY opX fu)
      then show ?thesis
        unfolding started_def using i(2) ref
        by (intro exI [of _ i] exI [of _ sc]) (simp add: fu(1-3), simp add: fu(4) sX ff par3 base_def Let_def)
    qed
    moreover have "?ref \<noteq> 0" "ref_gen ?ref \<noteq> 0"
      using slot_handle_fields [of u i] wY u opY opX gf(1) by (simp_all add: ref slotsY sX gen)
    ultimately show ?thesis using u wY by (simp add: genuine_def)
  qed
qed

lemma ensure_pool_cases:
  assumes "wf st" and "e_max_open_spans env < 2 ^ 31"
  obtains (failed) t where "ensure_pool env st = (False, t)" "wf t" "st_counters t = st_counters st" "slots_only (t\<lparr>st_nslots := st_nslots st\<rparr>) st"
  | (ready) t where "ensure_pool env st = (True, t)" "wf t" "st_pool t" "st_slots t = st_slots st" "st_nrecs t = st_nrecs st"
      "st_stack t = st_stack st" "st_exported t = st_exported st" "st_tracers t = st_tracers st"
      "st_dispatch_depth t = st_dispatch_depth st" "st_prng t = st_prng st"
proof (cases "st_pool st")
  case True
  with assms(1) show thesis by (intro ready [of st]) (simp_all add: ensure_pool_def)
next
  case False
  have empty: "st_slots st = []" "st_slot_free_head st = -1"
  proof -
    show "st_slots st = []" using False assms(1) by (simp add: wf_def wf_pools_def)
    moreover have "pool_ok (length (st_slots st)) (slot_gen st) (slot_next st) (st_slot_free_head st)"
      using assms(1) by (simp add: wf_def wf_pools_def)
    ultimately show "st_slot_free_head st = -1" by (auto simp: pool_ok_def)
  qed
  let ?t = "st\<lparr>st_nslots := e_max_open_spans env\<rparr>"
  have w: "wf (?t\<lparr>st_pool := b\<rparr>)" for b
  proof -
    let ?u = "?t\<lparr>st_pool := b\<rparr>"
    have op: "open_slot ?u j = open_slot st j" "open_nrec ?u j = open_nrec st j" for j
      by (simp_all add: open_slot_def open_nrec_def)
    have "entry_open ?u e = entry_open st e" "entry_detached ?u e = entry_detached st e" for e
      by (simp_all add: entry_open_def entry_detached_def op)
    then have "wf_stack ?u" using assms(1) by (simp add: wf_def wf_stack_def)
    moreover have "wf_pools ?u"
      using assms empty pool_ok_empty by (simp add: wf_def wf_pools_def nrec_gen_def [abs_def] nrec_next_def [abs_def])
    ultimately show ?thesis
      using assms(1) by (simp add: wf_def wf_session_def wf_gens_def wf_ledger_def wf_ids_def op session_count_def slot_handle_def)
  qed
  show thesis
  proof (cases "e_pool_ok env")
    case True
    with False w [of True] show thesis by (intro ready [of "?t\<lparr>st_pool := True\<rparr>"]) (simp_all add: ensure_pool_def)
  next
    case no: False
    have "wf ?t" using w [of "st_pool st"] by simp
    with False no show thesis by (intro failed [of ?t]) (simp_all add: ensure_pool_def slots_only_def)
  qed
qed

lemma start_scope_cases:
  obtains "start_scope env args st = (Throw, st)"
  | sc trs where "start_scope env args st = (Ret sc, st\<lparr>st_tracers := trs\<rparr>)"
proof -
  have "\<exists>trs. st = st\<lparr>st_tracers := trs\<rparr>" by (rule exI [of _ "st_tracers st"]) simp
  then have "start_scope env args st = (Throw, st) \<or> (\<exists>sc trs. start_scope env args st = (Ret sc, st\<lparr>st_tracers := trs\<rparr>))"
    unfolding start_scope_def by (auto split: option.split)
  then show thesis using that by blast
qed

lemma start_recording_outcome:
  assumes w: "wf st" and max: "e_max_open_spans env < 2 ^ 31" and tid: "trace_id_ok tid" and par: "parent_ok p st"
    and run: "start_recording env args p tid pf dec st = (x, u)" and "x \<noteq> Spin"
  shows "wf u \<and> (x = Throw \<or> x = Ret 0 \<or> (\<exists>ref. x = Ret ref \<and> ref \<noteq> 0 \<and> genuine ref \<and> started env args p tid pf dec st ref u))"
proof -
  consider (sess) "start_owner env args = None \<and> e_max_session_spans env \<le> st_session_open st"
    | (full) "\<not> (start_owner env args = None \<and> e_max_session_spans env \<le> st_session_open st)"
        "\<not> sa_detached args \<and> OTEL_MAX_STACK_DEPTH \<le> length (st_stack st)"
    | (go) "\<not> (start_owner env args = None \<and> e_max_session_spans env \<le> st_session_open st)"
        "sa_detached args \<or> length (st_stack st) < OTEL_MAX_STACK_DEPTH" by linarith
  then show ?thesis
  proof cases
    case sess
    then show ?thesis using run w by (auto simp: start_recording_def Let_def)
  next
    case full
    then show ?thesis using run w by (auto simp: start_recording_def Let_def)
  next
    case go
    then have ng: "\<not> (\<not> sa_detached args \<and> OTEL_MAX_STACK_DEPTH \<le> length (st_stack st))" by auto
    show ?thesis
    proof (cases rule: ensure_pool_cases [OF w max])
      case (1 t)
      then show ?thesis using run go(1) ng by (auto simp: start_recording_def Let_def)
    next
      case (2 t)
      show ?thesis
      proof (cases rule: start_scope_cases [of env args t])
        case 1
        then show ?thesis using run go(1) ng 2 by (auto simp: start_recording_def Let_def and_then_def)
      next
        case (2 sc trs)
        note pool = \<open>ensure_pool env st = (True, t)\<close> \<open>wf t\<close> \<open>st_pool t\<close> \<open>st_slots t = st_slots st\<close> \<open>st_nrecs t = st_nrecs st\<close>
          \<open>st_stack t = st_stack st\<close> \<open>st_exported t = st_exported st\<close>
        let ?t = "t\<lparr>st_tracers := trs\<rparr>"
        have w': "wf ?t" by (rule wf_same [OF _ _ pool(2)]) simp_all
        have same: "open_slot ?t j = open_slot st j" "open_nrec ?t j = open_nrec st j" for j
          by (simp_all add: open_slot_def open_nrec_def pool)
        have par': "parent_ok p ?t" using par by (simp add: parent_ok_def same split: resolved_parent.splits)
        have pid: "parent_span_id p ?t = parent_span_id p st" by (simp add: parent_span_id_def pool split: resolved_parent.split)
        show ?thesis
        proof (cases "start_owner env args \<noteq> None \<and> \<not> e_enlarge_ok env")
          case True
          then show ?thesis using run go(1) ng 2 pool(1) w' by (auto simp: start_recording_def Let_def and_then_def)
        next
          case ok: False
          have run1: "(x, u) = and_then (take_slot env) (\<lambda>found. case found of
                 None \<Rightarrow> and_then (modify (bump C_start_no_slot)) (\<lambda>_. ret 0)
               | Some idx \<Rightarrow> init_slot env args p tid pf dec sc idx) ?t"
            using run go(1) ng 2 pool(1) ok by (auto simp: start_recording_def Let_def and_then_def)
          have "st_pool ?t" by (simp add: pool)
          with w' show ?thesis
          proof (cases rule: take_slot_cases [where env = env])
            case full
            then show ?thesis using run1 w' by (simp add: and_then_def modify_def ret_def)
          next
            case (taken i v)
            then have "init_slot env args p tid pf dec sc i v = (x, u)" using run1 by (simp add: and_then_def)
            from init_slot_outcome [OF w' \<open>st_pool ?t\<close> taken(2,3,4) tid par' _ this] go(2) pool \<open>x \<noteq> Spin\<close>
            obtain ref where "x = Ret ref" "wf u" "ref \<noteq> 0" "genuine ref" "started env args p tid pf dec ?t ref u" by auto
            moreover from this(5) have "started env args p tid pf dec st ref u"
              by (simp add: started_def same pid pool)
            ultimately show ?thesis by blast
          next
            case (failed v)
            then show ?thesis using run1 by (simp add: and_then_def)
          qed
        qed
      qed
    qed
  qed
qed

section \<open>A non-recording span\<close>

definition nrec_handle :: "producer \<Rightarrow> nat \<Rightarrow> i64" where
  "nrec_handle st i = make_ref (n_gen (st_nrecs st ! i)) i False"

definition started_nrec where
  "started_nrec args tid flag st ref u \<longleftrightarrow>
     (\<exists>i. \<not> open_nrec st i \<and> open_nrec u i \<and> ref = nrec_handle u i \<and>
        (\<forall>j. open_nrec st j \<longrightarrow> open_nrec u j \<and> st_nrecs u ! j = st_nrecs st ! j) \<and> st_slots u = st_slots st \<and>
        st_stack u = st_stack st @ (if sa_detached args then []
          else [\<lparr>se_entry = stack_entry_for_nrec i, se_is_activation = False, se_nest_level = 0\<rparr>]) \<and>
        st_exported u = st_exported st \<and> st_ledger u = st_ledger st \<and>
        n_detached (st_nrecs u ! i) = sa_detached args \<and>
        n_ctx (st_nrecs u ! i) = \<lparr>trace_id = tid, span_id = zero_span_id, trace_flags = flag, tracestate = None\<rparr>)"

lemma take_nrec_cases:
  assumes "wf st"
  obtains "take_nrec st = None"
  | i t where "take_nrec st = Some (i, t)" "taken_nrec st i t" "t = st\<lparr>st_nrecs := st_nrecs t, st_nrec_free_head := st_nrec_free_head t\<rparr>"
proof -
  have ok: "nrec_pool.free_list_ok st" using assms by (simp add: wf_def slots_free_list)
  consider (head) "0 \<le> st_nrec_free_head st" | (fresh) "st_nrec_free_head st < 0" "length (st_nrecs st) < OTEL_MAX_STACK_DEPTH"
    | (none) "st_nrec_free_head st < 0" "\<not> length (st_nrecs st) < OTEL_MAX_STACK_DEPTH" by linarith
  then show thesis
  proof cases
    case head
    let ?i = "nat (st_nrec_free_head st)"
    show ?thesis
      by (rule that(2) [of ?i "st\<lparr>st_nrec_free_head := n_next_free (st_nrecs st ! ?i)\<rparr>"])
         (use head in \<open>simp_all add: take_nrec_def Let_def taken_nrec_def nrec_next_def\<close>)
  next
    case fresh
    show ?thesis
      by (rule that(2) [of "length (st_nrecs st)" "st\<lparr>st_nrecs := st_nrecs st @ [zero_nrec]\<rparr>"])
         (use fresh in \<open>simp_all add: take_nrec_def taken_nrec_def nth_append\<close>)
  next
    case none
    then show ?thesis by (intro that(1)) (simp add: take_nrec_def)
  qed
qed

lemma nrec_handle_fields:
  assumes "wf st" and "open_nrec st i"
  shows "ref_gen (nrec_handle st i) = n_gen (st_nrecs st ! i)" "ref_idx (nrec_handle st i) = int i"
    "nrec_handle st i <s 0" "nrec_handle st i \<noteq> 0"
  using make_ref_fields [OF wf_gen_of(2) _ wf_index_bound(2), of st i st i False] assms
  by (simp_all add: nrec_handle_def open_nrec_def)

lemma start_nrec_outcome:
  assumes w: "wf st" and tid: "trace_id_ok tid" and flag: "flag AND OTEL_TRACE_FLAG_SAMPLED = 0"
    and run: "start_nrec env args tid flag st = (ref, u)"
  shows "wf u \<and> (ref = 0 \<and> u = bump C_start_stack_full st \<or> ref \<noteq> 0 \<and> genuine ref \<and> started_nrec args tid flag st ref u)"
proof (cases "\<not> sa_detached args \<and> length (st_stack st) \<ge> OTEL_MAX_STACK_DEPTH")
  case True
  then show ?thesis using run w by (auto simp: start_nrec_def)
next
  case room: False
  show ?thesis
    using w
  proof (cases rule: take_nrec_cases)
    case 1
    then show ?thesis using run w room by (auto simp: start_nrec_def)
  next
    case (2 i t)
    obtain g st2 where ng: "next_gen t = (g, st2)" by (metis surj_pair)
    note gf = next_gen_facts [OF ng]
    have fr: "st_stack t = st_stack st" "st_slots t = st_slots st" "st_slot_free_head t = st_slot_free_head st"
        "st_nslots t = st_nslots st" "st_pool t = st_pool st" "st_session_open t = st_session_open st"
        "st_ledger t = st_ledger st" "st_exported t = st_exported st"
      by (subst 2(3), simp)+
    have i: "i < length (st_nrecs t)" "\<not> open_nrec st i" using taken_nrec_index [OF w 2(2)] by auto
    define level where "level = (if sa_owner args = OWNER_SESSION \<or> (sa_owner args = OWNER_DEFAULT \<and> e_owner env = None)
                             then 0 else e_level env)"
    define cell where "cell = (st_nrecs t ! i)\<lparr>n_gen := g, n_nest_level := level,
                             n_detached := sa_detached args, n_have_span_id := False,
                             n_ctx := \<lparr>trace_id = tid, span_id = zero_span_id, trace_flags = flag, tracestate = None\<rparr>\<rparr>"
    define X where "X = st2\<lparr>st_nrecs := (st_nrecs t)[i := cell]\<rparr>"
    define Y where "Y = (if sa_detached args then X else stack_push (stack_entry_for_nrec i) False 0 X)"
    have X: "st_nrecs X ! j = (if j = i then cell else st_nrecs t ! j)" "length (st_nrecs X) = length (st_nrecs t)"
        "st_nrec_free_head X = st_nrec_free_head t" "st_stack X = st_stack st" "st_slots X = st_slots st"
        "st_exported X = st_exported st" "st_ledger X = st_ledger st" "st_gen_counter X = g"
        "st_slot_free_head X = st_slot_free_head st" "st_nslots X = st_nslots st" "st_pool X = st_pool st"
        "st_session_open X = st_session_open st" for j
      using i(1) by (simp_all add: X_def gf(3) fr)
    have u: "u = bump C_spans_unsampled Y" "ref = make_ref g i False"
      using run room 2(1) i(1)
      by (auto simp: start_nrec_def ng Y_def X_def gf(3) level_def cell_def upd_nrec_def Let_def split: if_splits)
    have tkX: "taken_nrec st i X" using 2(2) i(1) by (auto simp: taken_nrec_def X)
    have wX: "wf X"
      by (rule wf_open_nrec [OF w tkX])
         (use gf tid flag in \<open>simp_all add: X cell_def otel_span_context_sampled_def\<close>)
    have opX: "open_nrec X j = (open_nrec st j \<or> j = i)" for j
      using i 2(2) gf(1) by (cases "j = i") (auto simp: taken_nrec_def open_nrec_def X cell_def)
    have sameX: "st_nrecs X ! j = st_nrecs st ! j" if "open_nrec st j" for j
    proof -
      have "j \<noteq> i" "j < length (st_nrecs st)" using that i(2) by (auto simp: open_nrec_def)
      then show ?thesis using 2(2) by (simp add: taken_nrec_def X)
    qed
    have wY: "wf Y"
    proof (cases "sa_detached args")
      case False
      have "off_stack (stack_entry_for_nrec i) X"
        unfolding off_stack_def X
      proof
        assume "stack_entry_for_nrec i \<in> se_entry ` set (st_stack st)"
        then obtain e where "e \<in> set (st_stack st)" "se_entry e = stack_entry_for_nrec i" by auto
        then show False using w i(2) entry_nrec_for(1,2) [of i] by (fastforce simp: wf_def wf_stack_def entry_open_def)
      qed
      then have "wf (stack_push (stack_entry_for_nrec i) False 0 X)"
        using room False entry_nrec_for(1,2) [of i] opX by (intro wf_push [OF wX])
          (simp_all add: entry_open_def X entry_detached_def cell_def)
      with False show ?thesis by (simp add: Y_def)
    qed (simp add: Y_def wX)
    have fu: "st_stack u = st_stack st @ (if sa_detached args then []
          else [\<lparr>se_entry = stack_entry_for_nrec i, se_is_activation = False, se_nest_level = 0\<rparr>])"
        "st_nrecs u = st_nrecs X" "st_slots u = st_slots st" "st_exported u = st_exported st" "st_ledger u = st_ledger st"
      by (simp_all add: u Y_def X stack_push_def)
    have opu: "open_nrec u j = (open_nrec st j \<or> j = i)" for j using opX [of j] by (simp add: open_nrec_def fu)
    have ref: "ref = nrec_handle u i" by (simp add: u(2) nrec_handle_def fu X cell_def)
    have wu: "wf u" using wY by (simp add: u)
    have "started_nrec args tid flag st ref u"
      unfolding started_nrec_def using i(2) ref opu sameX
      by (intro exI [of _ i]) (simp add: fu, simp add: X cell_def)
    moreover have "ref \<noteq> 0" "ref_gen ref \<noteq> 0"
      using nrec_handle_fields [OF wu, of i] opu [of i] by (simp_all add: ref open_nrec_def)
    ultimately show ?thesis using wu by (simp add: genuine_def)
  qed
qed

section \<open>Starting\<close>

definition env_ok :: "env \<Rightarrow> bool" where
  "env_ok env \<longleftrightarrow>
     root_wf (e_root env) \<and> e_max_open_spans env < 2 ^ 31 \<and>
     (case e_leader_ctx env of None \<Rightarrow> True | Some c \<Rightarrow> ctx_sized c \<and> otel_span_context_is_valid c)"

definition args_ok :: "start_args \<Rightarrow> bool" where
  "args_ok args \<longleftrightarrow> genuine (sa_parent_span args) \<and>
     (case sa_parent_ctx args of None \<Rightarrow> True | Some c \<Rightarrow> ctx_sized c)"

lemma valid_trace_id_ok: "ctx_sized c \<Longrightarrow> otel_span_context_is_valid c \<Longrightarrow> trace_id_ok (trace_id c)"
  by (simp add: ctx_sized_def otel_span_context_is_valid_def trace_id_ok_def)

lemma resolve_active_ok:
  assumes "wf st" and "env_ok env"
  shows "parent_ok (resolve_active_parent env st) st"
proof (cases "st_stack st = []")
  case True
  have "trace_id_ok (trace_id (rc_ctx (api_get_root_context (e_root env))))" if "rc_is_set (rs_root (e_root env))"
    using that assms(2)
    by (auto simp: env_ok_def root_wf_def traceparent_ok_def api_get_root_context_def valid_trace_id_ok
        ctx_sized_def otel_span_context_is_valid_def trace_id_ok_def)
  then show ?thesis
    using True assms(2) by (auto simp: resolve_active_parent_def parent_ok_def env_ok_def valid_trace_id_ok split: option.splits)
next
  case False
  then show ?thesis
    using last_entry_open [OF assms(1) False]
    by (auto simp: resolve_active_parent_def resolve_from_entry_def parent_ok_def entry_open_def entry_nrec_def)
qed

lemma resolve_parent_cases:
  assumes "wf st" and "env_ok env" and "args_ok args"
  obtains (none) t where "resolve_parent env args st = (None, t)" "t = st \<or> t = bump C_stale_handle st"
  | (some) p where "resolve_parent env args st = (Some p, st)" "parent_ok p st"
proof -
  have g: "genuine (sa_parent_span args)" using assms(3) by (simp add: args_ok_def)
  have "(\<exists>t. resolve_parent env args st = (None, t) \<and> (t = st \<or> t = bump C_stale_handle st)) \<or>
      (\<exists>p. resolve_parent env args st = (Some p, st) \<and> parent_ok p st)"
  proof (cases "sa_parent args")
    case PARENT_ACTIVE
    then show ?thesis using resolve_active_ok [OF assms(1,2)] by (simp add: resolve_parent_def)
  next
    case PARENT_CONTEXT
    then show ?thesis using assms(3)
      by (auto simp: resolve_parent_def parent_ok_def args_ok_def valid_trace_id_ok split: option.split)
  next
    case PARENT_SPAN
    show ?thesis
    proof (cases "sa_parent_span args = 0")
      case True
      then show ?thesis using PARENT_SPAN by (simp add: resolve_parent_def parent_ok_def)
    next
      case False
      show ?thesis
        by (cases rule: slot_for_ref_cases [of "sa_parent_span args" st]; cases rule: nrec_for_ref_cases [of "sa_parent_span args" st])
           (use PARENT_SPAN found_open [OF g False] in \<open>simp_all add: resolve_parent_def parent_ok_def\<close>)
    qed
  next
    case PARENT_ROOT
    then show ?thesis by (simp add: resolve_parent_def parent_ok_def)
  qed
  then show thesis using that by blast
qed

lemma start_decision_outcome:
  assumes "wf st" and "parent_ok p st" and "\<forall>i. p \<noteq> P_nrec i"
  obtains (spin) t where "start_decision env args p st = (Spin, t)"
  | (decided) tid pf dec vs where "start_decision env args p st = (Ret (tid, pf, dec), st\<lparr>st_prng := vs\<rparr>)" "trace_id_ok tid"
proof -
  have keep: "st\<lparr>st_prng := st_prng st\<rparr> = st" by simp
  show thesis
  proof (cases p)
    case P_none
    show ?thesis
    proof (cases rule: new_trace_id_cases [of st])
      case 1
      with P_none show ?thesis by (intro spin [of st]) (simp add: start_decision_def and_then_def)
    next
      case (2 tid vs)
      with P_none show ?thesis
        using decided [of tid _ _ vs] by (simp add: start_decision_def and_then_def ret_def)
    qed
  next
    case (P_remote c)
    with assms(2) show ?thesis
      using decided [of "trace_id c" _ _ "st_prng st", unfolded keep] by (simp add: start_decision_def parent_ok_def)
  next
    case (P_slot i)
    with assms have "trace_id_ok (sp_trace_id (s_span (st_slots st ! i)))"
      by (simp add: parent_ok_def wf_def wf_ids_def)
    then show ?thesis
      using P_slot decided [of "sp_trace_id (s_span (st_slots st ! i))" _ _ "st_prng st", unfolded keep]
      by (simp add: start_decision_def Let_def)
  next
    case (P_nrec i)
    with assms(3) show ?thesis by simp
  qed
qed

text \<open>A start in a state that agrees on the spans is a start.\<close>

lemma started_same:
  assumes "st_slots t = st_slots st" "st_nrecs t = st_nrecs st" "st_stack t = st_stack st" "st_exported t = st_exported st"
  shows "started env args p tid pf dec t ref u = started env args p tid pf dec st ref u"
    and "st_ledger t = st_ledger st \<Longrightarrow> started_nrec args tid flag t ref u = started_nrec args tid flag st ref u"
proof -
  have op: "open_slot t = open_slot st" "open_nrec t = open_nrec st"
    by (simp_all add: fun_eq_iff open_slot_def open_nrec_def assms)
  have pid: "parent_span_id p t = parent_span_id p st" by (simp add: parent_span_id_def assms split: resolved_parent.split)
  show "started env args p tid pf dec t ref u = started env args p tid pf dec st ref u"
    by (simp only: started_def op pid assms)
  show "started_nrec args tid flag t ref u = started_nrec args tid flag st ref u" if "st_ledger t = st_ledger st"
    by (simp only: started_nrec_def op assms that)
qed

definition start_result where
  "start_result env args st ref u \<longleftrightarrow>
     (\<exists>p. resolve_parent env args (seed_prng_if_needed env st) = (Some p, seed_prng_if_needed env st) \<and> parent_ok p st \<and>
        (case p of
           P_nrec i \<Rightarrow> started_nrec args (trace_id (n_ctx (st_nrecs st ! i)))
                        (trace_flags (n_ctx (st_nrecs st ! i)) AND OTEL_TRACE_FLAG_RANDOM) st ref u
         | _ \<Rightarrow> (\<exists>tid pf dec. fst (start_decision env args p (seed_prng_if_needed env st)) = Ret (tid, pf, dec) \<and>
             (if dec = SAMPLE_DROP then started_nrec args tid (pf AND OTEL_TRACE_FLAG_RANDOM) st ref u
              else started env args p tid pf dec st ref u))))"

lemma random_not_sampled: "(x AND OTEL_TRACE_FLAG_RANDOM) AND OTEL_TRACE_FLAG_SAMPLED = 0"
  by (simp add: OTEL_TRACE_FLAG_RANDOM_def OTEL_TRACE_FLAG_SAMPLED_def and.assoc)

lemma parent_ok_same: "st_slots t = st_slots st \<Longrightarrow> st_nrecs t = st_nrecs st \<Longrightarrow> parent_ok p t = parent_ok p st"
  by (simp add: parent_ok_def open_slot_def open_nrec_def split: resolved_parent.split)

lemma api_span_start_outcome:
  assumes w: "wf st" and env: "env_ok env" and args: "case args0 of None \<Rightarrow> True | Some args \<Rightarrow> args_ok args"
    and run: "api_span_start env args0 st = (x, u)" and ns: "x \<noteq> Spin"
  shows "wf u \<and> (x = Throw \<or> x = Ret 0 \<or>
     (\<exists>ref args. x = Ret ref \<and> ref \<noteq> 0 \<and> genuine ref \<and> args0 = Some args \<and> start_result env args st ref u))"
proof (cases rule: call_refused_cases [of env False st])
  case (refused c)
  then show ?thesis using run w by (auto simp: api_span_start_def)
next
  case allowed
  show ?thesis
  proof (cases args0)
    case None
    then show ?thesis using run w allowed by (auto simp: api_span_start_def)
  next
    case (Some a)
    show ?thesis
    proof (cases "sa_struct_size a < sizeof_OtelSpanStartArgs \<or> sa_name a = None")
      case True
      then show ?thesis using run w allowed Some by (auto simp: api_span_start_def)
    next
      case good: False
      let ?s = "seed_prng_if_needed env st"
      have ws: "wf ?s" by (rule seed_wf [OF w])
      have ok: "args_ok a" using args Some by simp
      have led: "st_ledger ?s = st_ledger st" by (simp add: seed_prng_if_needed_def)
      have max: "e_max_open_spans env < 2 ^ 31" using env by (simp add: env_ok_def)
      show ?thesis
        using ws env ok
      proof (cases rule: resolve_parent_cases)
        case (none t)
        then have "x = Ret 0" "u = bump C_start_bad_args t" using run good allowed Some by (auto simp: api_span_start_def)
        then show ?thesis using ws none(2) by auto
      next
        case (some p)
        have pst: "parent_ok p st" using some(2) parent_ok_same [of ?s st] by simp
        show ?thesis
        proof (cases "\<exists>i. p = P_nrec i")
          case True
          then obtain i where p: "p = P_nrec i" by blast
          obtain ref v where v: "start_nrec env a (trace_id (n_ctx (st_nrecs ?s ! i)))
              (trace_flags (n_ctx (st_nrecs ?s ! i)) AND OTEL_TRACE_FLAG_RANDOM) ?s = (ref, v)" by (metis surj_pair)
          have xu: "x = Ret ref" "u = v"
            using run good allowed Some some(1) p v by (auto simp: api_span_start_def Let_def)
          have tid: "trace_id_ok (trace_id (n_ctx (st_nrecs ?s ! i)))"
            using pst w by (simp add: p parent_ok_def wf_def wf_ids_def)
          have "start_result env a st ref u" if "started_nrec a (trace_id (n_ctx (st_nrecs ?s ! i)))
              (trace_flags (n_ctx (st_nrecs ?s ! i)) AND OTEL_TRACE_FLAG_RANDOM) ?s ref u"
            using that some(1) pst started_same(2) [of ?s st, OF _ _ _ _ led] by (simp add: start_result_def p)
          then show ?thesis using start_nrec_outcome [OF ws tid random_not_sampled v] xu Some by auto
        next
          case False
          then have nn: "\<forall>i. p \<noteq> P_nrec i" by blast
          have run1: "(x, u) = and_then (start_decision env a p) (\<lambda>(tid, parent_flags, decision).
                           if decision = SAMPLE_DROP
                           then (\<lambda>st. let (ref, st3) = start_nrec env a tid
                                                          (parent_flags AND OTEL_TRACE_FLAG_RANDOM) st
                                      in (Ret ref, st3))
                           else start_recording env a p tid parent_flags decision) ?s"
            using run good allowed Some some(1) nn by (cases p) (auto simp: api_span_start_def)
          show ?thesis
            using ws some(2) nn
          proof (cases rule: start_decision_outcome [where env = env and args = a])
            case (spin t)
            then show ?thesis using run1 ns by (simp add: and_then_def)
          next
            case (decided tid pf dec vs)
            let ?d = "?s\<lparr>st_prng := vs\<rparr>"
            have wd: "wf ?d" by (rule wf_same [OF _ _ ws]) simp_all
            have sm: "st_slots ?d = st_slots st" "st_nrecs ?d = st_nrecs st" "st_stack ?d = st_stack st" "st_exported ?d = st_exported st"
              by simp_all
            show ?thesis
            proof (cases "dec = SAMPLE_DROP")
              case True
              obtain ref v where v: "start_nrec env a tid (pf AND OTEL_TRACE_FLAG_RANDOM) ?d = (ref, v)" by (metis surj_pair)
              have xu: "x = Ret ref" "u = v" using run1 decided(1) True v by (simp_all add: and_then_def)
              have "start_result env a st ref u" if "started_nrec a tid (pf AND OTEL_TRACE_FLAG_RANDOM) ?d ref u"
                using that some(1) pst decided(1) True nn started_same(2) [OF sm] led
                by (cases p) (auto simp: start_result_def)
              then show ?thesis using start_nrec_outcome [OF wd decided(2) random_not_sampled v] xu Some by auto
            next
              case nd: False
              have r: "start_recording env a p tid pf dec ?d = (x, u)" using run1 decided(1) nd by (simp add: and_then_def)
              have pd: "parent_ok p ?d" using pst parent_ok_same [of ?d st] by simp
              have "start_result env a st ref u" if "started env a p tid pf dec ?d ref u" for ref
                using that some(1) pst decided(1) nd nn started_same(1) [OF sm]
                by (cases p) (auto simp: start_result_def)
              then show ?thesis using start_recording_outcome [OF wd max decided(2) pd r ns] Some by auto
            qed
          qed
        qed
      qed
    qed
  qed
qed

end
