(* ===== verification/Producer_Run.thy ===== *)
theory Producer_Run
  imports Producer_Opening
begin

text \<open>
  Whole runs of \<open>otel_producer.c\<close> in one backend: every way control can enter the file as
  one datatype, the transition each makes, and the states a sequence of them reaches.  The
  invariant of theory \<open>Producer_Invariant\<close> holds in all of them.
\<close>

section \<open>Entry points\<close>

datatype producer_call =
    Start "start_args option"
  | End i64 int
  | Discard i64
  | Activate i64
  | Deactivate i64
  | Setter i64 slot_action
  | Capture_error i64 error_data bool
  | Current
  | Context_of i64
  | Commit_context
  | Owner_release bool owner i64
  | Xact xact_event
  | Subxact subxact_event
  | Emit_log error_data
  | Shmem_exit

fun perform_setter :: "env \<Rightarrow> i64 \<Rightarrow> slot_action \<Rightarrow> producer \<Rightarrow> producer" where
  "perform_setter env s (Set_str key v) = api_span_set_str env s key v"
| "perform_setter env s (Set_value key (ATTR_INT v)) = api_span_set_int env s key v"
| "perform_setter env s (Set_value key (ATTR_DOUBLE v)) = api_span_set_double env s key v"
| "perform_setter env s (Set_value key (ATTR_BOOL v)) = api_span_set_bool env s key v"
| "perform_setter env s (Set_value key (ATTR_STRING v)) = api_span_set_str env s key v"
| "perform_setter env s (Set_printf key out) = api_span_set_vprintf env s key out"
| "perform_setter env s (Set_name nm) = api_span_set_name env s nm"
| "perform_setter env s (Set_status code d) = api_span_set_status env s code d"
| "perform_setter env s (Add_event nm ts attrs) = api_span_add_event env s nm ts attrs"
| "perform_setter env s (Add_link c) = api_span_add_link env s c"
| "perform_setter env s (Record_error ed) = api_span_record_error env s (Some ed)"

text \<open>The state a call leaves, and whether it came back or raised something.\<close>

fun perform :: "env \<Rightarrow> producer_call \<Rightarrow> producer \<Rightarrow> unit outcome \<times> producer" where
  "perform env (Start args) st = and_then (api_span_start env args) (\<lambda>_. ret ()) st"
| "perform env (End s t) st = api_span_end env s t st"
| "perform env (Discard s) st = api_span_discard env s st"
| "perform env (Activate s) st = (Ret (), snd (api_span_activate env s st))"
| "perform env (Deactivate s) st = api_span_deactivate env s st"
| "perform env (Setter s a) st = (Ret (), perform_setter env s a st)"
| "perform env (Capture_error s ed ok) st = api_span_capture_error env s ed ok st"
| "perform env Current st = (Ret (), snd (api_span_current env st))"
| "perform env (Context_of s) st = and_then (api_span_context_of env s) (\<lambda>_. ret ()) st"
| "perform env Commit_context st = and_then (otel_commit_trace_context_cb env) (\<lambda>_. ret ()) st"
| "perform env (Owner_release commit ow h) st = owner_releases env commit ow h st"
| "perform env (Xact ev) st = (Ret (), otel_xact_callback ev st)"
| "perform env (Subxact ev) st = (Ret (), otel_subxact_callback env ev st)"
| "perform env (Emit_log ed) st = (Ret (), otel_emit_log_hook env ed st)"
| "perform env Shmem_exit st = (Ret (), otel_producer_shmem_exit st)"

text \<open>
  What a caller keeps to: handles are 0 or have been made by \<open>make_ref\<close>, a parent context
  is a context-sized structure, and an owner releases only what it remembers.
\<close>

fun call_ok :: "producer_call \<Rightarrow> producer \<Rightarrow> bool" where
  "call_ok (Start args) st = (case args of None \<Rightarrow> True | Some a \<Rightarrow> args_ok a)"
| "call_ok (End s t) st = genuine s"
| "call_ok (Discard s) st = genuine s"
| "call_ok (Activate s) st = genuine s"
| "call_ok (Context_of s) st = genuine s"
| "call_ok (Owner_release commit ow h) st = ((ow, h) \<in> set (st_ledger st) \<and> ref_gen h \<noteq> 0)"
| "call_ok _ st = True"

inductive producer_step :: "producer \<Rightarrow> producer_call \<Rightarrow> producer \<Rightarrow> bool" where
  step: "producer_step st c t"
    if "env_ok env" and "call_ok c st" and "perform env c st = (x, t)" and "x \<noteq> Spin"

inductive producer_run :: "producer \<Rightarrow> producer_call list \<Rightarrow> producer \<Rightarrow> bool" where
  run_nil: "producer_run st [] st"
| run_snoc: "producer_run st (cs @ [c]) u" if "producer_run st cs t" and "producer_step t c u"

inductive_cases producer_stepE: "producer_step st c t"

lemma run_invariant:
  assumes "producer_run st cs t" and "Q st" and "\<And>s c s'. producer_step s c s' \<Longrightarrow> Q s \<Longrightarrow> Q s'"
  shows "Q t"
  using assms by (induction rule: producer_run.induct) auto

section \<open>The invariant holds throughout\<close>

lemma wf_initial: "wf initial_producer"
  by (simp add: wf_def wf_stack_def wf_pools_def wf_session_def wf_gens_def wf_ledger_def wf_ids_def
      initial_producer_def pool_ok_empty session_count_def open_slot_def open_nrec_def)

lemma perform_setter_wf: "wf st \<Longrightarrow> wf (perform_setter env s a st)"
  by (cases "(env, s, a)" rule: perform_setter.cases) (simp_all add: api_setters_wf)

lemma api_span_current_wf: "wf st \<Longrightarrow> wf (snd (api_span_current env st))"
  by (cases rule: call_refused_cases [of env True st]) (simp_all add: api_span_current_def)

lemma commit_context_wf: "wf st \<Longrightarrow> wf (snd (otel_commit_trace_context_cb env st))"
proof -
  assume w: "wf st"
  have "wf (snd (otel_span_context_of_internal env 0 st))"
    by (rule api_span_context_of_wf(2) [OF w]) (simp add: genuine_def)
  then show ?thesis
    by (simp add: otel_commit_trace_context_cb_def snd_and_then_cases ret_def split: outcome.split)
qed

lemma perform_wf:
  assumes "wf st" and "env_ok env" and "call_ok c st" and "perform env c st = (x, t)" and "x \<noteq> Spin"
  shows "wf t"
proof -
  have drop_result: "wf (snd (and_then m (\<lambda>_. ret ()) st))" if "wf (snd (m st))" for m :: "(producer, 'a) op"
    using that by (simp add: snd_and_then_cases ret_def split: outcome.split)
  have "wf (snd (perform env c st))"
  proof (cases c)
    case (Start a)
    obtain y u where r: "api_span_start env a st = (y, u)" by (metis surj_pair)
    have "y \<noteq> Spin" using assms(4,5) r by (auto simp: Start and_then_def)
    then have "wf u" using api_span_start_outcome [OF assms(1,2) _ r] assms(3) by (simp add: Start)
    then show ?thesis using r by (simp add: Start snd_and_then_cases ret_def split: outcome.split)
  next
    case (Owner_release commit ow h)
    then show ?thesis using assms(1,3) owner_releases_wf by simp
  next
    case (Context_of s)
    then show ?thesis using assms(1,3) drop_result [OF api_span_context_of_wf(1)] by simp
  next
    case Commit_context
    then show ?thesis using assms(1) drop_result [OF commit_context_wf] by simp
  qed (use assms(1,3) in \<open>simp_all add: api_span_end_wf api_span_discard_wf api_span_activate_wf api_span_deactivate_wf
        perform_setter_wf api_span_capture_error_wf api_span_current_wf xact_callback_wf subxact_callback_wf
        otel_emit_log_hook_wf shmem_exit_wf\<close>)
  then show ?thesis using assms(4) by simp
qed

lemma step_wf: "producer_step st c t \<Longrightarrow> wf st \<Longrightarrow> wf t"
  by (auto elim: producer_stepE intro: perform_wf)

lemma run_wf: "producer_run initial_producer cs t \<Longrightarrow> wf t"
  by (erule run_invariant) (auto simp: wf_initial intro: step_wf)

section \<open>An example run\<close>

text \<open>A backend with numbers to draw and a consumer; a root span with default arguments.\<close>

definition run_env :: env where
  "run_env = sample_env\<lparr>e_seed := (5, [7, 9, 11, 13, 15, 17])\<rparr>"

definition run_args :: start_args where
  "run_args = \<lparr>sa_struct_size = 80, sa_tracer = None, sa_name = Some ''q'', sa_kind = KIND_INTERNAL,
     sa_parent = PARENT_ACTIVE, sa_parent_ctx = None, sa_parent_span = 0, sa_owner = OWNER_DEFAULT,
     sa_detached = False, sa_scoped = False, sa_start_time = 0, sa_force_sample = False\<rparr>"

lemma run_env_ok: "env_ok run_env"
  by (simp add: env_ok_def run_env_def sample_env_def root_wf_def fresh_root_def root_none_def)

lemma run_args_ok: "args_ok run_args"
  by (simp add: args_ok_def run_args_def genuine_def)

lemmas start_run_defs = api_span_start_def call_refused_def resolve_parent_def seed_prng_if_needed_def
  resolve_active_parent_def start_decision_def new_trace_id_def start_recording_def start_owner_def
  ensure_pool_def start_scope_def take_slot_def init_slot_def next_gen_def new_span_id_def fill_slot_def
  parent_span_id_def parent_tracestate_def slot_strdup_def slot_alloc_def upd_slot_def upd_span_def
  stack_push_def stack_entry_for_slot_def otel_run_sampler_def run_env_def run_args_def sample_env_def
  initial_producer_def fresh_root_def root_none_def sizeof_OtelSpanStartArgs_def OTEL_MAX_STACK_DEPTH_def
  and_then_def modify_def ret_def Let_def zero_slot_def zero_span_def bump_def OTEL_GEN_MASK_def
  resolve_from_entry_def

definition one_open :: producer where
  "one_open = snd (api_span_start run_env (Some run_args) initial_producer)"

definition two_open :: producer where
  "two_open = snd (api_span_start run_env (Some run_args) one_open)"

lemma one_open_start: "api_span_start run_env (Some run_args) initial_producer = (Ret (make_ref 6 0 True), one_open)"
proof -
  have "fst (api_span_start run_env (Some run_args) initial_producer) = Ret (make_ref 6 0 True)"
    by (simp add: start_run_defs)
  then show ?thesis by (simp add: one_open_def prod_eq_iff)
qed

lemma two_open_start: "api_span_start run_env (Some run_args) one_open = (Ret (make_ref 7 1 True), two_open)"
proof -
  have "fst (api_span_start run_env (Some run_args) one_open) = Ret (make_ref 7 1 True)"
    by (simp add: one_open_def start_run_defs)
  then show ?thesis by (simp add: two_open_def prod_eq_iff)
qed

lemma one_open_run: "producer_run initial_producer [Start (Some run_args)] one_open"
  using run_snoc [OF run_nil step [OF run_env_ok, of "Start (Some run_args)" initial_producer "Ret ()" one_open]]
  by (simp add: run_args_ok one_open_start and_then_def ret_def)

lemma two_open_run: "producer_run initial_producer [Start (Some run_args), Start (Some run_args)] two_open"
  using run_snoc [OF one_open_run step [OF run_env_ok, of "Start (Some run_args)" one_open "Ret ()" two_open]]
  by (simp add: run_args_ok two_open_start and_then_def ret_def)

section \<open>The property\<close>

text \<open>C1: In every state a backend can reach, by producer calls, owner releases, transaction
  ends, logged errors and exit in any order and with any failures: the active stack holds at
  most 128 distinct entries, all open, activations being exactly the detached ones; both free
  lists link exactly the free cells; the session count and the owners' ledger agree with the
  slots; handles' generations stay below 2^31; every open span has valid IDs.\<close>

theorem producer_invariant:
  assumes "producer_run initial_producer cs st"
  shows "wf_stack st \<and> wf_pools st \<and> wf_session st \<and> wf_gens st \<and> wf_ledger st \<and> wf_ids st"
  using run_wf [OF assms] by (simp add: wf_def)

theorem producer_invariant_witness:
  "wf_stack two_open \<and> wf_pools two_open \<and> wf_session two_open \<and> length (st_stack two_open) = 2"
proof -
  have "length (st_stack two_open) = 2" by (simp add: two_open_def one_open_def start_run_defs)
  then show ?thesis using producer_invariant [OF two_open_run] by simp
qed

end
