(* ===== verification/Producer_Lifecycle.thy ===== *)
theory Producer_Lifecycle
  imports Producer_Run
begin

text \<open>
  What the producer API promises about the life of a span, on every well-formed state: a
  started span inherits its parent's trace, an ended span is exported once and its handle is
  dead, unended children are exported as errors first, a span that its resource owner
  releases is exported at abort and dropped at commit, activation leaves the span alone, and
  a call made where none is allowed does nothing but count.
\<close>

section \<open>Ending\<close>

lemma find_top_snoc: "P x \<Longrightarrow> find_top P (xs @ [x]) = Some (length xs)"
  by (induction xs) simp_all

lemma slot_for_open:
  "wf st \<Longrightarrow> open_slot st i \<Longrightarrow> slot_for_ref (slot_handle st i) st = (Some i, st)"
  using slot_handle_fields [of st i] by (simp add: slot_for_ref_def open_slot_def)

lemma allowed_call: "\<not> e_crit env \<Longrightarrow> st_dispatch_depth st = 0 \<Longrightarrow> call_refused env ro st = (False, st)"
  by (simp add: call_refused_def)

lemma api_span_end_open:
  assumes "wf st" and "open_slot st i" and "\<not> e_crit env" and "st_dispatch_depth st = 0"
  shows "api_span_end env (slot_handle st i) e st =
    and_then (leave_stack env (stack_entry_for_slot i) ''parent span ended first'') (\<lambda>_. end_slot env i e None) st"
  using slot_handle_fields(3,4) [OF assms(1,2)]
  by (auto simp: api_span_end_def allowed_call [OF assms(3,4)] slot_for_open [OF assms(1,2)])

lemma api_span_end_steps:
  assumes "wf st" and "open_slot st i" and "\<not> e_crit env" and "st_dispatch_depth st = 0"
    and "api_span_end env (slot_handle st i) e st = (Ret (), u)"
  obtains t where "leave_stack env (stack_entry_for_slot i) ''parent span ended first'' st = (Ret (), t)"
    "end_slot env i e None t = (Ret (), u)"
proof -
  obtain x t where l: "leave_stack env (stack_entry_for_slot i) ''parent span ended first'' st = (x, t)" by (metis surj_pair)
  with assms(5) show thesis
    by (cases x) (auto simp: api_span_end_open [OF assms(1-4)] and_then_def intro: that)
qed

lemma finished_span_same: "st_slots t ! i = st_slots st ! i \<Longrightarrow> finished_span env i e r t = finished_span env i e r st"
  by (simp add: finished_span_def)

lemma grow_span: "slot_grow env x cap want sz s = (g, c, t) \<Longrightarrow> s_span t = s_span s"
  by (auto simp: slot_grow_def slot_alloc_def Let_def split: if_splits)

lemma lower_error_status: "sp_status (s_span (lower_error_event env err s)) = sp_status (s_span s)"
proof -
  obtain g cap s1 where g: "slot_grow env S_events (s_events_cap s) (Suc (length (sp_events (s_span s))))
      sizeof_OtelSpanEvent s = (g, cap, s1)" by (metis prod_cases3)
  show ?thesis
    using grow_span [OF g]
    by (simp add: lower_error_event_def g Let_def error_description_def slot_alloc_def upd_span_def
        push_event_def drop_event_def)
qed

lemma lower_error_end_time: "sp_end_time (s_span (lower_error_event env err s)) = sp_end_time (s_span s)"
proof -
  obtain g cap s1 where g: "slot_grow env S_events (s_events_cap s) (Suc (length (sp_events (s_span s))))
      sizeof_OtelSpanEvent s = (g, cap, s1)" by (metis prod_cases3)
  show ?thesis
    using grow_span [OF g]
    by (simp add: lower_error_event_def g Let_def error_description_def slot_alloc_def upd_span_def
        push_event_def drop_event_def)
qed

lemma finished_span_fields:
  "sp_trace_id (finished_span env i e r st) = sp_trace_id (s_span (st_slots st ! i))"
  "sp_span_id (finished_span env i e r st) = sp_span_id (s_span (st_slots st ! i))"
  "sp_end_time (finished_span env i e r st) = (if e \<noteq> 0 then e else e_now env (s_gen (st_slots st ! i)))"
  "r \<noteq> None \<Longrightarrow> sp_status (finished_span env i e r st) = STATUS_ERROR"
  "sp_status (finished_span env i e None st) = sp_status (s_span (st_slots st ! i))"
proof -
  let ?s = "(st_slots st ! i)\<lparr>s_owner := None\<rparr>"
  show "sp_trace_id (finished_span env i e r st) = sp_trace_id (s_span (st_slots st ! i))"
      "sp_span_id (finished_span env i e r st) = sp_span_id (s_span (st_slots st ! i))"
    using shape_sel [OF finish_shape [of env e r ?s]] by (simp_all add: finished_span_def)
qed (auto simp: finished_span_def finish_slot_def Let_def upd_span_def lower_error_end_time lower_error_status
       split: option.split)

text \<open>What one successful end exports: first the unended spans above, topmost first.\<close>

definition unwound_exports :: "env \<Rightarrow> int \<Rightarrow> string \<Rightarrow> producer \<Rightarrow> otel_span list" where
  "unwound_exports env e reason st =
     map (\<lambda>j. finished_span env j 0 (Some reason) st) (unwound_slots (above e st))"

lemma span_end_outcome:
  assumes "wf st" and "open_slot st i" and "\<not> e_crit env" and "st_dispatch_depth st = 0"
    and run: "api_span_end env (slot_handle st i) e st = (Ret (), u)"
  shows "wf u" "\<not> open_slot u i" "st_dispatch_depth u = 0"
    "st_stack u = below (stack_entry_for_slot i) st"
    "st_exported u = st_exported st @ (if has_consumer env then
        unwound_exports env (stack_entry_for_slot i) ''parent span ended first'' st @ [finished_span env i e None st] else [])"
    "\<And>j. stack_entry_for_slot j \<notin> se_entry ` set (above (stack_entry_for_slot i) st) \<Longrightarrow> j \<noteq> i \<Longrightarrow>
       st_slots u ! j = st_slots st ! j"
    "length (st_slots u) = length (st_slots st)"
proof -
  from api_span_end_steps [OF assms] obtain t where
    l: "leave_stack env (stack_entry_for_slot i) ''parent span ended first'' st = (Ret (), t)"
    and en: "end_slot env i e None t = (Ret (), u)" .
  note lo = leave_stack_outcome [OF assms(1) l]
  note keep = leave_stack_keeps_slot [OF assms(1) l]
  have w: "wf t" and o: "open_slot t i" using lo keep assms(2) by auto
  note eo = end_slot_outcome [OF w o keep(3) en]
  have i: "i < length (st_slots t)" using o by (simp add: open_slot_def)
  show "wf u" "\<not> open_slot u i" "st_dispatch_depth u = 0" using eo(1,4) lo assms(4) by auto
  show "st_stack u = below (stack_entry_for_slot i) st" using eo(2) lo by (simp add: only_slot_def)
  show "length (st_slots u) = length (st_slots st)" using eo(2) lo by (simp add: only_slot_def spares_def)
  show "st_exported u = st_exported st @ (if has_consumer env then
        unwound_exports env (stack_entry_for_slot i) ''parent span ended first'' st @ [finished_span env i e None st] else [])"
    using end_slot_exports [OF i en] lo finished_span_same [OF keep(1)] by (simp add: unwound_exports_def)
  fix j assume "stack_entry_for_slot j \<notin> se_entry ` set (above (stack_entry_for_slot i) st)" "j \<noteq> i"
  then show "st_slots u ! j = st_slots st ! j" using eo(2) lo by (simp add: only_slot_def spares_def)
qed

lemma unwound_exports_error: "sp \<in> set (unwound_exports env e reason st) \<Longrightarrow> sp_status sp = STATUS_ERROR"
  by (auto simp: unwound_exports_def finished_span_fields(4))

lemma unwound_exports_length: "length (unwound_exports env e reason st) = length (unwound_slots (above e st))"
  by (simp add: unwound_exports_def)


section \<open>Ending always returns\<close>

text \<open>No owner has begun releasing, and no consumer raises FATAL.\<close>

definition calm :: "env \<Rightarrow> bool" where
  "calm env \<longleftrightarrow> (\<forall>h. e_forget_ok env h) \<and>
     (case e_hook env of None \<Rightarrow> True | Some h \<Rightarrow> \<forall>sp. hr_exit (h sp) \<noteq> Hook_fatal)"

lemma dispatch_returns: "calm env \<Longrightarrow> fst (dispatch_span env sp st) = Ret ()"
  by (auto simp: dispatch_span_def calm_def Let_def split: hook_exit.split option.splits)

lemma end_slot_returns:
  assumes "calm env" and "i < length (st_slots st)"
  shows "\<exists>u. end_slot env i e r st = (Ret (), u)"
proof -
  obtain x t where d: "dispatch_span env (finished_span env i e r st) (finished_state env i e r st) = (x, t)" by (metis surj_pair)
  have "\<not> forget_refused env i st" using assms(1) by (simp add: forget_refused_def calm_def)
  moreover have "x = Ret ()" using dispatch_returns [OF assms(1)] d by (metis fst_conv)
  ultimately show ?thesis using d by (simp add: end_slot_eq [OF assms(2)])
qed

lemma unwind_returns:
  assumes "calm env" and "wf st" and "n \<le> length (st_stack st)"
  shows "\<exists>u. unwind_entries env reason n st = (Ret (), u)"
  using assms(2,3)
proof (induction n arbitrary: st)
  case (Suc n)
  let ?e = "last (st_stack st)" and ?s = "stack_pop st"
  have ne: "st_stack st \<noteq> []" using Suc.prems(2) by auto
  have n: "n \<le> length (st_stack ?s)" using Suc.prems(2) ne by (simp add: stack_pop_def)
  have w: "wf ?s" by (rule wf_pop [OF Suc.prems(1)])
  have off: "off_stack (se_entry ?e) ?s" by (rule stack_last_off [OF Suc.prems(1) ne])
  note op = last_entry_open [OF Suc.prems(1) ne]
  consider "se_is_activation ?e" | "\<not> se_is_activation ?e" "0 \<le> se_entry ?e" | "\<not> se_is_activation ?e" "se_entry ?e < 0"
    by linarith
  then show ?case
  proof cases
    case 1
    then show ?thesis using Suc.IH [of "bump C_activation_unwound ?s"] w n by (simp add: Let_def)
  next
    case 2
    let ?i = "nat (se_entry ?e)"
    have i: "open_slot ?s ?i" "off_stack (stack_entry_for_slot ?i) ?s"
      using op 2 off by (simp_all add: entry_open_def stack_entry_for_slot_def)
    obtain u where u: "end_slot env ?i 0 (Some reason) ?s = (Ret (), u)"
      using end_slot_returns [OF assms(1), of ?i ?s] i(1) by (auto simp: open_slot_def)
    note eo = end_slot_outcome [OF w i u]
    have "n \<le> length (st_stack u)" using eo(2) n by (simp add: only_slot_def)
    from Suc.IH [OF eo(1) this] show ?thesis using 2 u by (simp add: Let_def and_then_def)
  next
    case 3
    let ?i = "nat (- se_entry ?e - 1)"
    have i: "stack_entry_for_nrec ?i = se_entry ?e" using 3 by (simp add: stack_entry_for_nrec_def)
    have "wf (free_nrec ?i False ?s)"
      using wf_free_nrec [OF w, of ?i] op off 3 by (simp add: i entry_open_def entry_nrec_def)
    from Suc.IH [OF this] n 3 show ?thesis by (simp add: Let_def)
  qed
qed simp

lemma leave_stack_returns:
  assumes "calm env" and "wf st"
  shows "\<exists>t. leave_stack env e reason st = (Ret (), t)"
proof (cases "stack_find e st")
  case None
  then show ?thesis by (simp add: leave_stack_def)
next
  case (Some pos)
  obtain u where "unwind_entries env reason (length (st_stack st) - (pos + 1)) (nonlifo_warning st) = (Ret (), u)"
    using unwind_returns [OF assms(1), of "nonlifo_warning st"] assms(2) by force
  then show ?thesis by (simp add: leave_stack_def Some and_then_def modify_def stack_unwind_above_def)
qed

lemma span_end_returns:
  assumes "calm env" and "wf st" and "open_slot st i" and "\<not> e_crit env" and "st_dispatch_depth st = 0"
  shows "\<exists>u. api_span_end env (slot_handle st i) e st = (Ret (), u)"
proof -
  obtain t where t: "leave_stack env (stack_entry_for_slot i) ''parent span ended first'' st = (Ret (), t)"
    using leave_stack_returns [OF assms(1,2)] by blast
  have "open_slot t i" using leave_stack_keeps_slot [OF assms(2) t] assms(3) by simp
  then obtain u where "end_slot env i e None t = (Ret (), u)"
    using end_slot_returns [OF assms(1), of i t] by (auto simp: open_slot_def)
  then show ?thesis using t by (auto simp: api_span_end_open [OF assms(2-5)] and_then_def)
qed

section \<open>Dead handles\<close>

text \<open>\<open>counts_only st t\<close>: at most one counter went up.\<close>

definition counts_only :: "producer \<Rightarrow> producer \<Rightarrow> bool" where
  "counts_only st t \<longleftrightarrow> t = st \<or> (\<exists>c. t = bump c st)"

lemma counts_onlyI [intro]: "counts_only st st" "counts_only st (bump c st)"
  by (auto simp: counts_only_def)

lemma slot_for_dead:
  assumes "handle_slot h st = None"
  obtains "slot_for_ref h st = (None, st)" | "slot_for_ref h st = (None, bump C_stale_handle st)"
  using assms by (cases rule: slot_for_ref_cases [of h st]) (auto simp: handle_slot_def Let_def)

lemma slot_handle_dead:
  assumes "wf st" and "open_slot st i" and "\<not> open_slot t i"
  shows "handle_slot (slot_handle st i) t = None"
proof -
  note f = slot_handle_fields [OF assms(1,2)]
  show ?thesis using assms(2,3) by (auto simp: handle_slot_def f open_slot_def)
qed

lemma dead_handle_calls:
  assumes dead: "handle_slot h st = None" and "0 <s h"
  shows "\<exists>u. api_span_end env h e st = (Ret (), u) \<and> counts_only st u"
    "\<exists>u. api_span_discard env h st = (Ret (), u) \<and> counts_only st u"
    "\<exists>u. api_span_activate env h st = (0, u) \<and> counts_only st u"
    "\<exists>u. api_span_deactivate env h st = (Ret (), u) \<and> counts_only st u"
    "\<exists>u. api_span_context_of env h st = (Ret None, u) \<and> counts_only st u"
    "counts_only st (apply_setter env h f st)"
proof -
  have pos: "h \<noteq> 0" "\<not> h <s 0" "\<not> h \<le>s 0" using assms(2) by auto
  have all: "(\<exists>u. api_span_end env h e st = (Ret (), u) \<and> counts_only st u) \<and>
    (\<exists>u. api_span_discard env h st = (Ret (), u) \<and> counts_only st u) \<and>
    (\<exists>u. api_span_activate env h st = (0, u) \<and> counts_only st u) \<and>
    (\<exists>u. api_span_deactivate env h st = (Ret (), u) \<and> counts_only st u) \<and>
    counts_only st (apply_setter env h f st)"
    by (cases rule: call_refused_cases [of env False st]; cases rule: slot_for_dead [OF dead])
       (use assms(2) pos in \<open>simp_all add: api_span_end_def api_span_discard_def api_span_activate_def
         api_span_deactivate_def apply_setter_def setter_slot_def counts_onlyI\<close>)
  show "\<exists>u. api_span_context_of env h st = (Ret None, u) \<and> counts_only st u"
    by (cases rule: call_refused_cases [of env True st]; cases rule: slot_for_dead [OF dead])
       (use assms(2) pos in \<open>simp_all add: api_span_context_of_def otel_span_context_of_internal_def
         context_of_ref_def counts_onlyI\<close>)
  from all show "\<exists>u. api_span_end env h e st = (Ret (), u) \<and> counts_only st u"
    "\<exists>u. api_span_discard env h st = (Ret (), u) \<and> counts_only st u"
    "\<exists>u. api_span_activate env h st = (0, u) \<and> counts_only st u"
    "\<exists>u. api_span_deactivate env h st = (Ret (), u) \<and> counts_only st u"
    "counts_only st (apply_setter env h f st)" by blast+
qed


section \<open>Starting\<close>

lemma seed_context [simp]:
  "open_slot (seed_prng_if_needed env st) i = open_slot st i" "open_nrec (seed_prng_if_needed env st) i = open_nrec st i"
  by (simp_all add: open_slot_def open_nrec_def)

lemma start_ref:
  assumes "wf st" and "env_ok env" and "args_ok args" and "api_span_start env (Some args) st = (Ret ref, u)" and "ref \<noteq> 0"
  shows "wf u" "start_result env args st ref u" "genuine ref"
  using api_span_start_outcome [OF assms(1,2) _ assms(4)] assms(3,5) by auto

lemma started_open:
  assumes "started env args p tid pf dec st ref u"
  obtains i where "\<not> open_slot st i" "open_slot u i" "ref = slot_handle u i"
    "\<And>j. open_slot st j \<Longrightarrow> open_slot u j \<and> st_slots u ! j = st_slots st ! j" "st_nrecs u = st_nrecs st"
    "st_stack u = st_stack st @ (if sa_detached args then []
          else [\<lparr>se_entry = stack_entry_for_slot i, se_is_activation = False, se_nest_level = 0\<rparr>])"
    "st_exported u = st_exported st" "sp_trace_id (s_span (st_slots u ! i)) = tid"
    "sp_parent_span_id (s_span (st_slots u ! i)) = parent_span_id p st"
    "sp_trace_flags (s_span (st_slots u ! i)) = start_flags pf dec" "s_owner (st_slots u ! i) = start_owner env args"
    "s_detached (st_slots u ! i) = sa_detached args"
  using assms unfolding started_def Let_def by blast

lemma start_flags_sampled:
  "start_flags pf dec AND OTEL_TRACE_FLAG_SAMPLED \<noteq> 0 \<longleftrightarrow> dec = SAMPLE_RECORD_AND_SAMPLE"
proof -
  have "start_flags pf dec AND OTEL_TRACE_FLAG_SAMPLED =
      (if dec = SAMPLE_RECORD_AND_SAMPLE then OTEL_TRACE_FLAG_SAMPLED else 0)"
    unfolding start_flags_def OTEL_TRACE_FLAG_SAMPLED_def
    by (rule bit_word_eqI) (auto simp: bit_simps)
  then show ?thesis by (simp add: OTEL_TRACE_FLAG_SAMPLED_def)
qed

definition names_parent :: "start_args \<Rightarrow> producer \<Rightarrow> int \<Rightarrow> i64 \<Rightarrow> bool" where
  "names_parent args st e h \<longleftrightarrow>
     sa_parent args = PARENT_SPAN \<and> sa_parent_span args = h \<or>
     sa_parent args = PARENT_ACTIVE \<and> st_stack st \<noteq> [] \<and> se_entry (last (st_stack st)) = e"

lemma nrec_for_open:
  "wf st \<Longrightarrow> open_nrec st i \<Longrightarrow> nrec_for_ref (nrec_handle st i) st = (Some i, st)"
  using nrec_handle_fields [of st i] by (simp add: nrec_for_ref_def open_nrec_def)

lemma names_parent_slot:
  assumes "wf st" and "open_slot st i" and "names_parent args st (stack_entry_for_slot i) (slot_handle st i)"
  shows "resolve_parent env args st = (Some (P_slot i), st)"
  using assms(3) slot_for_open [OF assms(1,2)] slot_handle_fields(3) [OF assms(1,2)]
  by (auto simp: names_parent_def resolve_parent_def resolve_active_parent_def resolve_from_entry_def stack_entry_for_slot_def)

lemma names_parent_nrec:
  assumes "wf st" and "open_nrec st i" and "names_parent args st (stack_entry_for_nrec i) (nrec_handle st i)"
  shows "resolve_parent env args st = (Some (P_nrec i), st)"
proof -
  note f = nrec_handle_fields(3,4) [OF assms(1,2)]
  then have "\<not> 0 <s nrec_handle st i" by auto
  with f assms(3) nrec_for_open [OF assms(1,2)] show ?thesis
    by (auto simp: names_parent_def resolve_parent_def resolve_active_parent_def resolve_from_entry_def stack_entry_for_nrec_def)
qed

lemma names_parent_seed [simp]: "names_parent args (seed_prng_if_needed env st) e h = names_parent args st e h"
  by (simp add: names_parent_def)

lemma slot_handle_seed [simp]: "slot_handle (seed_prng_if_needed env st) i = slot_handle st i"
    "nrec_handle (seed_prng_if_needed env st) i = nrec_handle st i"
  by (simp_all add: slot_handle_def nrec_handle_def)

lemma child_of_slot:
  assumes "wf st" and "env_ok env" and "args_ok args" and "open_slot st i"
    and "names_parent args st (stack_entry_for_slot i) (slot_handle st i)"
    and "api_span_start env (Some args) st = (Ret ref, u)" and "ref \<noteq> 0"
  obtains pf dec where "started env args (P_slot i) (sp_trace_id (s_span (st_slots st ! i))) pf dec st ref u"
    "dec = (if sp_trace_flags (s_span (st_slots st ! i)) AND OTEL_TRACE_FLAG_SAMPLED \<noteq> 0
            then SAMPLE_RECORD_AND_SAMPLE else SAMPLE_RECORD_ONLY)"
proof -
  note r = start_ref(2) [OF assms(1,2,3,6,7)]
  have p: "resolve_parent env args (seed_prng_if_needed env st) = (Some (P_slot i), seed_prng_if_needed env st)"
    by (rule names_parent_slot) (use assms in \<open>simp_all add: seed_wf\<close>)
  from r p that show thesis
    by (auto simp: start_result_def start_decision_def Let_def split: if_splits)
qed

lemma child_of_nrec:
  assumes "wf st" and "env_ok env" and "args_ok args" and "open_nrec st i"
    and "names_parent args st (stack_entry_for_nrec i) (nrec_handle st i)"
    and "api_span_start env (Some args) st = (Ret ref, u)" and "ref \<noteq> 0"
  shows "started_nrec args (trace_id (n_ctx (st_nrecs st ! i)))
           (trace_flags (n_ctx (st_nrecs st ! i)) AND OTEL_TRACE_FLAG_RANDOM) st ref u"
proof -
  note r = start_ref(2) [OF assms(1,2,3,6,7)]
  have p: "resolve_parent env args (seed_prng_if_needed env st) = (Some (P_nrec i), seed_prng_if_needed env st)"
    by (rule names_parent_nrec) (use assms in \<open>simp_all add: seed_wf\<close>)
  from r p show ?thesis by (simp add: start_result_def)
qed


end
