(* ===== verification/Producer_Props.thy ===== *)
theory Producer_Props
  imports Producer_Lifecycle
begin

text \<open>
  The properties of the producer API, each with a concrete run that satisfies its
  hypotheses.  The facts they rest on are in \<open>Producer_Lifecycle\<close>.
\<close>

section \<open>Example states\<close>

lemmas two_open_defs = two_open_def one_open_def start_run_defs

lemma two_open_stack: "st_stack two_open =
    [\<lparr>se_entry = 0, se_is_activation = False, se_nest_level = 0\<rparr>, \<lparr>se_entry = 1, se_is_activation = False, se_nest_level = 0\<rparr>]"
  by (simp add: two_open_defs)

lemma two_open_facts:
  "st_exported two_open = []" "st_dispatch_depth two_open = 0" "length (st_slots two_open) = 2"
  "s_gen (st_slots two_open ! 0) = 6" "s_gen (st_slots two_open ! Suc 0) = 7"
  "s_owner (st_slots two_open ! Suc 0) = Some 1" "s_leaked (st_slots two_open ! Suc 0) = False"
  "s_dispatching (st_slots two_open ! Suc 0) = False" "s_session (st_slots two_open ! 0) = False"
  "st_nrecs two_open = []"
  by (simp_all add: two_open_defs)

lemma two_open_wf: "wf two_open"
  by (rule run_wf [OF two_open_run])

lemma two_open_slots: "open_slot two_open 0" "open_slot two_open (Suc 0)"
  by (simp_all add: open_slot_def two_open_facts)

lemma run_env_facts: "\<not> e_crit run_env" "calm run_env" "has_consumer run_env"
  by (simp_all add: run_env_def sample_env_def calm_def has_consumer_def)

lemma two_open_above: "above 0 two_open = [\<lparr>se_entry = 1, se_is_activation = False, se_nest_level = 0\<rparr>]"
  "above 1 two_open = []" "below 0 two_open = []"
  "below 1 two_open = [\<lparr>se_entry = 0, se_is_activation = False, se_nest_level = 0\<rparr>]"
  by (simp_all add: above_def below_def stack_find_def two_open_stack)

text \<open>The same backend with sampling off, and one non-recording span open.\<close>

definition dark_env :: env where
  "dark_env = run_env\<lparr>e_sampler := SAMPLER_ALWAYS_OFF\<rparr>"

definition one_dark :: producer where
  "one_dark = snd (api_span_start dark_env (Some run_args) initial_producer)"

lemmas one_dark_defs = one_dark_def dark_env_def start_nrec_def take_nrec_def stack_entry_for_nrec_def upd_nrec_def
  start_run_defs

lemma dark_env_ok: "env_ok dark_env"
  using run_env_ok by (simp add: env_ok_def dark_env_def)

lemma one_dark_start: "api_span_start dark_env (Some run_args) initial_producer = (Ret (make_ref 6 0 False), one_dark)"
proof -
  have "fst (api_span_start dark_env (Some run_args) initial_producer) = Ret (make_ref 6 0 False)"
    by (simp add: one_dark_defs)
  then show ?thesis by (simp add: one_dark_def prod_eq_iff)
qed

lemma one_dark_run: "producer_run initial_producer [Start (Some run_args)] one_dark"
  using run_snoc [OF run_nil step [OF dark_env_ok, of "Start (Some run_args)" initial_producer "Ret ()" one_dark]]
  by (simp add: run_args_ok one_dark_start and_then_def ret_def)

lemma one_dark_facts: "open_nrec one_dark 0" "st_stack one_dark = [\<lparr>se_entry = -1, se_is_activation = False, se_nest_level = 0\<rparr>]"
  "st_slots one_dark = []"
  by (simp_all add: open_nrec_def one_dark_defs)

section \<open>Ending a span\<close>





section \<open>Parents\<close>

text \<open>C5: A span started under an open recording span, named by its handle or as the active
  span, records: it belongs to the parent's trace, names the parent's span ID as its
  parent, is sampled exactly when the parent is, and leaves every open span as it was.\<close>

theorem child_inherits_trace:
  assumes "wf st" and "env_ok env" and "args_ok args" and "open_slot st i"
    and "names_parent args st (stack_entry_for_slot i) (slot_handle st i)"
    and "api_span_start env (Some args) st = (Ret ref, u)" and "ref \<noteq> 0"
  shows "\<exists>j. ref = slot_handle u j \<and> open_slot u j \<and> j \<noteq> i \<and> st_slots u ! i = st_slots st ! i \<and>
     sp_trace_id (s_span (st_slots u ! j)) = sp_trace_id (s_span (st_slots st ! i)) \<and>
     sp_parent_span_id (s_span (st_slots u ! j)) = sp_span_id (s_span (st_slots st ! i)) \<and>
     ((sp_trace_flags (s_span (st_slots u ! j)) AND OTEL_TRACE_FLAG_SAMPLED \<noteq> 0) =
      (sp_trace_flags (s_span (st_slots st ! i)) AND OTEL_TRACE_FLAG_SAMPLED \<noteq> 0))"
proof -
  obtain pf dec where s: "started env args (P_slot i) (sp_trace_id (s_span (st_slots st ! i))) pf dec st ref u"
    and dec: "dec = (if sp_trace_flags (s_span (st_slots st ! i)) AND OTEL_TRACE_FLAG_SAMPLED \<noteq> 0
            then SAMPLE_RECORD_AND_SAMPLE else SAMPLE_RECORD_ONLY)"
    by (rule child_of_slot [OF assms])
  from s obtain j where j: "\<not> open_slot st j" "open_slot u j" "ref = slot_handle u j"
    "sp_trace_id (s_span (st_slots u ! j)) = sp_trace_id (s_span (st_slots st ! i))"
    "sp_parent_span_id (s_span (st_slots u ! j)) = parent_span_id (P_slot i) st"
    "sp_trace_flags (s_span (st_slots u ! j)) = start_flags pf dec" "st_slots u ! i = st_slots st ! i"
    using assms(4) by (rule_tac started_open [OF s]) blast
  then show ?thesis
    using assms(4) dec by (intro exI [of _ j]) (auto simp: parent_span_id_def start_flags_sampled)
qed

theorem child_inherits_trace_witness:
  "\<exists>j. make_ref 7 1 True = slot_handle two_open j \<and>
     sp_parent_span_id (s_span (st_slots two_open ! j)) = sp_span_id (s_span (st_slots one_open ! 0))"
proof -
  have o: "open_slot one_open 0" by (simp add: open_slot_def one_open_def start_run_defs)
  have n: "names_parent run_args one_open (stack_entry_for_slot 0) (slot_handle one_open 0)"
    by (simp add: names_parent_def stack_entry_for_slot_def one_open_def start_run_defs)
  have r: "make_ref 7 1 True \<noteq> 0" by (simp add: make_ref_def)
  show ?thesis
    using child_inherits_trace [OF run_wf [OF one_open_run] run_env_ok run_args_ok o n two_open_start r] by blast
qed

text \<open>A span started under a non-recording span never records: its handle is negative, it
  takes no slot, it carries the parent's trace ID and is not sampled.\<close>

theorem child_of_nonrecording_never_records:
  assumes "wf st" and "env_ok env" and "args_ok args" and "open_nrec st i"
    and "names_parent args st (stack_entry_for_nrec i) (nrec_handle st i)"
    and "api_span_start env (Some args) st = (Ret ref, u)" and "ref \<noteq> 0"
  shows "ref <s 0 \<and> \<not> otel_span_recording ref \<and> st_slots u = st_slots st \<and>
     (\<exists>j. ref = nrec_handle u j \<and> open_nrec u j \<and> j \<noteq> i \<and>
        trace_id (n_ctx (st_nrecs u ! j)) = trace_id (n_ctx (st_nrecs st ! i)) \<and>
        \<not> otel_span_context_sampled (n_ctx (st_nrecs u ! j)))"
proof -
  from child_of_nrec [OF assms] obtain j where j: "\<not> open_nrec st j" "open_nrec u j" "ref = nrec_handle u j"
    "st_slots u = st_slots st" "n_ctx (st_nrecs u ! j) = \<lparr>trace_id = trace_id (n_ctx (st_nrecs st ! i)),
       span_id = zero_span_id, trace_flags = trace_flags (n_ctx (st_nrecs st ! i)) AND OTEL_TRACE_FLAG_RANDOM,
       tracestate = None\<rparr>"
    unfolding started_nrec_def by blast
  have w: "wf u" by (rule start_ref(1) [OF assms(1-3,6,7)])
  show ?thesis
    using j assms(4) nrec_handle_fields(3) [OF w j(2)]
    by (auto simp: otel_span_recording_def otel_span_context_sampled_def random_not_sampled)
qed

theorem child_of_nonrecording_never_records_witness:
  "\<exists>ref u. api_span_start dark_env (Some run_args) one_dark = (Ret ref, u) \<and> ref <s 0 \<and> st_slots u = []"
proof -
  have n: "names_parent run_args one_dark (stack_entry_for_nrec 0) (nrec_handle one_dark 0)"
    by (simp add: names_parent_def stack_entry_for_nrec_def one_dark_facts run_args_def)
  obtain x u where u: "api_span_start dark_env (Some run_args) one_dark = (x, u)" by (metis surj_pair)
  have "fst (api_span_start dark_env (Some run_args) one_dark) = Ret (make_ref 7 1 False)" by (simp add: one_dark_defs)
  with u have s: "api_span_start dark_env (Some run_args) one_dark = (Ret (make_ref 7 1 False), u)" by simp
  have r: "make_ref 7 1 False \<noteq> 0" by (simp add: make_ref_def)
  show ?thesis
    using child_of_nonrecording_never_records [OF run_wf [OF one_dark_run] dark_env_ok run_args_ok one_dark_facts(1) n s r] s
    by (auto simp: one_dark_facts)
qed

section \<open>Starting and ending\<close>

text \<open>C4: Starting a recording span on the stack and ending it puts the stack back and hands
  the consumer that one span, with the IDs its start gave it.\<close>

theorem start_end_roundtrip:
  assumes "wf st" and "env_ok env" and "args_ok args" and "\<not> sa_detached args"
    and start: "api_span_start env (Some args) st = (Ret ref, u)" and "0 <s ref"
    and "calm env2" and "\<not> e_crit env2" and "st_dispatch_depth u = 0" and "has_consumer env2"
  shows "\<exists>i v sp. ref = slot_handle u i \<and> api_span_end env2 ref e u = (Ret (), v) \<and> st_stack v = st_stack st \<and>
     st_exported v = st_exported st @ [sp] \<and> sp_span_id sp = sp_span_id (s_span (st_slots u ! i)) \<and>
     sp_trace_id sp = sp_trace_id (s_span (st_slots u ! i))"
proof -
  have r0: "ref \<noteq> 0" using assms(6) by auto
  note w = start_ref(1) [OF assms(1-3) start r0] and r = start_ref(2) [OF assms(1-3) start r0]
  have nn: "\<not> started_nrec args tid flag st ref u" for tid flag
  proof
    assume "started_nrec args tid flag st ref u"
    then obtain j where "ref = nrec_handle u j" "open_nrec u j" unfolding started_nrec_def by blast
    then have "ref <s 0" using nrec_handle_fields(3) [OF w] by simp
    with assms(6) show False by auto
  qed
  have "\<exists>p tid pf dec. started env args p tid pf dec st ref u"
    using r nn unfolding start_result_def by (elim exE conjE) (simp split: resolved_parent.splits if_splits; blast)
  then obtain p tid pf dec where s: "started env args p tid pf dec st ref u" by blast
  from s obtain i where i: "\<not> open_slot st i" "open_slot u i" "ref = slot_handle u i"
    "st_stack u = st_stack st @ [\<lparr>se_entry = stack_entry_for_slot i, se_is_activation = False, se_nest_level = 0\<rparr>]"
    "st_exported u = st_exported st"
    using assms(4) by (rule_tac started_open [OF s]) auto
  have find: "stack_find (stack_entry_for_slot i) u = Some (length (st_stack st))"
    using i(4) by (simp add: stack_find_def find_top_snoc)
  obtain v where v: "api_span_end env2 (slot_handle u i) e u = (Ret (), v)"
    using span_end_returns [OF assms(7) w i(2) assms(8,9)] by blast
  note o = span_end_outcome [OF w i(2) assms(8,9) v]
  show ?thesis
    by (rule exI [of _ i], rule exI [of _ v], rule exI [of _ "finished_span env2 i e None u"])
       (use v i o(4,5) assms(10) in \<open>simp add: unwound_exports_def above_def below_def find unwound_slots_def finished_span_fields\<close>)
qed


theorem start_end_roundtrip_witness:
  "\<exists>i v sp. make_ref 7 1 True = slot_handle two_open i \<and> api_span_end run_env (make_ref 7 1 True) 0 two_open = (Ret (), v) \<and>
     st_exported v = [sp] \<and> length (st_stack v) = 1"
proof -
  have p: "0 <s make_ref 7 1 True" by (simp add: make_ref_def word_sless_alt)
  have d: "\<not> sa_detached run_args" by (simp add: run_args_def)
  have o: "st_exported one_open = []" "length (st_stack one_open) = 1" by (simp_all add: one_open_def start_run_defs)
  show ?thesis
    using start_end_roundtrip [OF run_wf [OF one_open_run] run_env_ok run_args_ok d two_open_start p run_env_facts(2,1)
        two_open_facts(2) run_env_facts(3), of 0] o by auto
qed

end
