(* ===== verification/Transaction_Props.thy ===== *)
theory Transaction_Props
  imports Producer_Props
begin

text \<open>
  What becomes of spans when core releases resource owners, ends transactions, reports
  errors, or calls from where no call is allowed; and that activation leaves a span alone.
\<close>

section \<open>Owner release\<close>

lemma dispatch_ledger: "dispatch_span env sp st = (x, t) \<Longrightarrow> st_ledger t = st_ledger st"
  using dispatch_frame(8) .

lemma end_slot_ledger:
  assumes "i < length (st_slots st)" and "s_owner (st_slots st ! i) = None" and "end_slot env i e r st = (Ret (), t)"
  shows "st_ledger t = st_ledger st"
proof -
  have f: "st_ledger (finished_state env i e r st) = st_ledger st"
    using assms(2) by (simp add: finished_state_def forget_owner_def)
  obtain x v where d: "dispatch_span env (finished_span env i e r st) (finished_state env i e r st) = (x, v)" by (metis surj_pair)
  show ?thesis
    using assms(3) dispatch_ledger [OF d] d f
    by (cases x) (auto simp: end_slot_eq [OF assms(1)] split: if_splits)
qed

lemma quiet_handle:
  assumes "i < length (st_slots u)" and "ref_idx h = int i" and "s_gen (st_slots u ! i) \<noteq> ref_gen h"
    and "s_owner_released_gen (st_slots u ! i) = ref_gen h"
  shows "slot_for_ref h u = (None, u)"
  using assms by (simp add: slot_for_ref_def)

text \<open>C6: When an owner that is not committing releases a span that is still open, the span is
  handed to the consumer once, with status ERROR and its own IDs, it leaves the stack, the
  owner forgets it, and a later call with its handle is quiet: not even counted as stale.\<close>

theorem abort_exports_span_as_error:
  assumes "wf st" and "open_slot st i" and "\<not> s_leaked (st_slots st ! i)" and "\<not> s_dispatching (st_slots st ! i)"
    and "calm env" and "has_consumer env"
  shows "\<exists>u sp. owner_releases env False ow (slot_handle st i) st = (Ret (), u) \<and>
     st_exported u = st_exported st @ [sp] \<and> sp_status sp = STATUS_ERROR \<and>
     sp_span_id sp = sp_span_id (s_span (st_slots st ! i)) \<and>
     slot_for_ref (slot_handle st i) u = (None, u) \<and> off_stack (stack_entry_for_slot i) u \<and>
     st_ledger u = remove1 (ow, slot_handle st i) (st_ledger st)"
proof -
  let ?h = "slot_handle st i" and ?r = "''ended by transaction or subtransaction abort''"
  let ?s = "drop_entry (stack_entry_for_slot i) (upd_slot i (\<lambda>s. s\<lparr>s_owner := None\<rparr>) st)"
  note h = slot_handle_fields [OF assms(1,2)] and hs = handle_slot_of_open [OF assms(1,2)]
  have i: "i < length (st_slots st)" and g: "ref_gen ?h \<noteq> 0" using assms(2) h(1) by (auto simp: open_slot_def)
  have w: "wf ?s" by (intro drop_entry_wf wf_clear_owner assms(1))
  have op: "open_slot ?s i" using assms(2) by (simp add: open_slot_def upd_slot_nth)
  have off: "off_stack (stack_entry_for_slot i) ?s" by (rule drop_entry_off [OF wf_clear_owner [OF assms(1)]])
  obtain t where e: "end_slot env i 0 (Some ?r) ?s = (Ret (), t)"
    using end_slot_returns [OF assms(5), of i ?s] i by auto
  note eo = end_slot_outcome [OF w op off e]
  let ?t = "upd_slot i (\<lambda>s. s\<lparr>s_owner_released_gen := ref_gen ?h\<rparr>) t"
  have rel: "otel_span_release_resource env ?h st = (Ret (), ?t)"
    using assms(1) g
  proof (cases rule: release_resource_cases [where env = env and h = ?h])
    case (ended j x v)
    then show ?thesis using e hs by simp
  qed (use hs assms(3,4) in auto)
  have led: "st_ledger t = st_ledger st"
    using end_slot_ledger [OF _ _ e] i by (simp add: upd_slot_nth)
  let ?u = "?t\<lparr>st_ledger := remove1 (ow, ?h) (st_ledger st)\<rparr>"
  have run: "owner_releases env False ow ?h st = (Ret (), ?u)"
    by (simp add: owner_releases_def and_then_def rel modify_def led)
  have len: "length (st_slots t) = length (st_slots st)" using eo(2) by (simp add: only_slot_def)
  have "slot_for_ref ?h ?u = (None, ?u)"
    using eo(4) i len g by (intro quiet_handle [of i]) (auto simp: upd_slot_nth h open_slot_def)
  moreover have "st_exported ?u = st_exported st @ [finished_span env i 0 (Some ?r) ?s]"
    using end_slot_exports [OF _ e] i assms(6) by simp
  moreover have "off_stack (stack_entry_for_slot i) ?u" using off eo(2) by (simp add: off_stack_def only_slot_def)
  ultimately show ?thesis
    using run i by (intro exI [of _ ?u] exI [of _ "finished_span env i 0 (Some ?r) ?s"])
       (simp add: finished_span_fields upd_slot_nth)
qed

theorem abort_exports_span_as_error_witness:
  "\<exists>u sp. owner_releases run_env False 1 (slot_handle two_open 1) two_open = (Ret (), u) \<and>
     st_exported u = [sp] \<and> sp_status sp = STATUS_ERROR \<and> slot_for_ref (slot_handle two_open 1) u = (None, u)"
  using abort_exports_span_as_error [OF two_open_wf two_open_slots(2) _ _ run_env_facts(2,3), of 1]
  by (auto simp: two_open_facts)

text \<open>When an owner that is committing still remembers a span, the span is a leak: it is
  dropped without being handed to the consumer, counted once as leaked at commit, it leaves
  the stack, and a later call with its handle is quiet.\<close>

theorem commit_drops_leaked_span:
  assumes "wf st" and "open_slot st i"
  shows "\<exists>u. owner_releases env True ow (slot_handle st i) st = (Ret (), u) \<and> st_exported u = st_exported st \<and>
     st_counters u = (st_counters st)(C_leaked_at_commit := st_counters st C_leaked_at_commit + 1) \<and>
     slot_for_ref (slot_handle st i) u = (None, u) \<and> off_stack (stack_entry_for_slot i) u"
proof -
  let ?h = "slot_handle st i"
  note h = slot_handle_fields [OF assms] and hs = handle_slot_of_open [OF assms]
  have i: "i < length (st_slots st)" and g: "ref_gen ?h \<noteq> 0" using assms(2) h(1) by (auto simp: open_slot_def)
  define s where "s = snd (otel_span_debug_print ?h st)"
  have s: "s = upd_slot i (\<lambda>s. s\<lparr>s_leaked := True\<rparr>) st" by (simp add: s_def otel_span_debug_print_def hs)
  have w: "wf s" unfolding s_def by (rule debug_print_wf [OF assms(1)])
  have sh: "slot_handle s i = ?h" and so: "open_slot s i" and leaked: "s_leaked (st_slots s ! i)"
    using i assms(2) by (simp_all add: s slot_handle_def upd_slot_nth open_slot_def)
  let ?v = "drop_entry (stack_entry_for_slot i) (upd_slot i (\<lambda>s. s\<lparr>s_owner := None\<rparr>) s)"
  let ?t = "reset_slot i (ref_gen ?h) (bump C_leaked_at_commit ?v)"
  have rel: "otel_span_release_resource env ?h s = (Ret (), ?t)"
    using w g
  proof (cases rule: release_resource_cases [where env = env and h = ?h])
    case (dropped j c)
    then show ?thesis using handle_slot_of_open [OF w so] leaked by (simp add: sh)
  qed (use handle_slot_of_open [OF w so] leaked in \<open>auto simp: sh\<close>)
  let ?u = "?t\<lparr>st_ledger := remove1 (ow, ?h) (st_ledger ?t)\<rparr>"
  have run: "owner_releases env True ow ?h st = (Ret (), ?u)"
    by (simp add: owner_releases_def and_then_def rel modify_def flip: s_def)
  have "slot_for_ref ?h ?u = (None, ?u)"
    using g i by (intro quiet_handle [of i]) (auto simp: h reset_slot_nth s zero_slot_def)
  moreover have "off_stack (stack_entry_for_slot i) ?u"
    using drop_entry_off [OF wf_clear_owner [OF w]] by (simp add: off_stack_def)
  ultimately show ?thesis
    using run by (intro exI [of _ ?u]) (simp add: s reset_slot_def bump_def upd_slot_def Let_def drop_entry_def stack_remove_at_def split: option.split)
qed

theorem commit_drops_leaked_span_witness:
  "\<exists>u. owner_releases run_env True 1 (slot_handle two_open 1) two_open = (Ret (), u) \<and> st_exported u = [] \<and>
     slot_for_ref (slot_handle two_open 1) u = (None, u)"
  using commit_drops_leaked_span [OF two_open_wf two_open_slots(2), of run_env 1] by (auto simp: two_open_facts)

section \<open>Transaction end\<close>

definition free_above :: "int \<Rightarrow> nat list \<Rightarrow> producer \<Rightarrow> producer" where
  "free_above level ixs st =
     fold (\<lambda>i st. if n_gen (st_nrecs st ! i) \<noteq> 0 \<and> n_nest_level (st_nrecs st ! i) \<ge> level
                      then free_nrec i True st else st) ixs st"

lemma free_above_outcome:
  assumes "\<forall>i\<in>set ixs. i < length (st_nrecs st)"
  shows "(open_nrec (free_above level ixs st) j \<longleftrightarrow>
        open_nrec st j \<and> (j \<in> set ixs \<longrightarrow> n_nest_level (st_nrecs st ! j) < level)) \<and>
      st_stack (free_above level ixs st) = st_stack st \<and> st_slots (free_above level ixs st) = st_slots st \<and>
      st_exported (free_above level ixs st) = st_exported st \<and> st_counters (free_above level ixs st) = st_counters st"
  using assms
proof (induction ixs arbitrary: st)
  case Nil
  show ?case by (simp add: free_above_def)
next
  case (Cons i ixs)
  let ?t = "if n_gen (st_nrecs st ! i) \<noteq> 0 \<and> level \<le> n_nest_level (st_nrecs st ! i) then free_nrec i True st else st"
  have step: "free_above level (i # ixs) st = free_above level ixs ?t" by (simp add: free_above_def)
  have lv: "n_nest_level (st_nrecs ?t ! j) = n_nest_level (st_nrecs st ! j)"
    by (cases "j < length (st_nrecs st)"; cases "j = i") (simp_all add: free_nrec_def upd_nrec_def list_update_beyond)
  have op: "open_nrec ?t j \<longleftrightarrow> open_nrec st j \<and> (j = i \<longrightarrow> n_nest_level (st_nrecs st ! j) < level)"
    using Cons.prems free_nrec_open [of st i True j] by (auto simp: open_nrec_def)
  have "st_stack ?t = st_stack st" "st_slots ?t = st_slots st" "st_exported ?t = st_exported st"
    "st_counters ?t = st_counters st" "length (st_nrecs ?t) = length (st_nrecs st)"
    by (simp_all add: free_nrec_def upd_nrec_def)
  then show ?case using Cons.IH [of ?t] Cons.prems op lv by (simp add: step)
qed

text \<open>The entries that stay on the stack when everything from \<open>level\<close> up goes.\<close>

definition stays_below :: "int \<Rightarrow> producer \<Rightarrow> stack_entry \<Rightarrow> bool" where
  "stays_below level st e \<longleftrightarrow>
     \<not> (se_is_activation e \<and> level \<le> se_nest_level e) \<and>
     \<not> (se_entry e < 0 \<and> level \<le> n_nest_level (st_nrecs st ! entry_nrec (se_entry e)))"

lemma drop_from_level_outcome:
  "let u = drop_activations_from_level level leak (drop_nrecs_from_level level st) in
     st_stack u = filter (stays_below level st) (st_stack st) \<and> st_slots u = st_slots st \<and>
     st_exported u = st_exported st \<and>
     (open_nrec u j \<longleftrightarrow> open_nrec st j \<and> n_nest_level (st_nrecs st ! j) < level)"
proof -
  let ?high = "\<lambda>e. se_entry e < 0 \<and> n_nest_level (st_nrecs st ! nat (- se_entry e - 1)) \<ge> level"
  let ?s = "st\<lparr>st_stack := filter (\<lambda>e. \<not> ?high e) (st_stack st)\<rparr>"
  have d: "drop_nrecs_from_level level st = free_above level [0..<length (st_nrecs ?s)] ?s"
    by (simp add: drop_nrecs_from_level_def Let_def drop_down_filter free_above_def)
  have f: "(open_nrec (drop_nrecs_from_level level st) j \<longleftrightarrow>
        open_nrec st j \<and> n_nest_level (st_nrecs st ! j) < level) \<and>
      st_stack (drop_nrecs_from_level level st) = filter (\<lambda>e. \<not> ?high e) (st_stack st) \<and>
      st_slots (drop_nrecs_from_level level st) = st_slots st \<and>
      st_exported (drop_nrecs_from_level level st) = st_exported st"
    using free_above_outcome [of "[0..<length (st_nrecs ?s)]" ?s level j] by (auto simp: d open_nrec_def)
  have sb: "filter (\<lambda>e. \<not> (se_is_activation e \<and> level \<le> se_nest_level e)) (filter (\<lambda>e. \<not> ?high e) (st_stack st)) =
      filter (stays_below level st) (st_stack st)"
    by (auto simp: stays_below_def entry_nrec_def intro: filter_cong)
  show ?thesis
    using f by (simp only: drop_activations_from_level_def Let_def drop_down_filter)
       (simp add: sb [simplified] open_nrec_def)
qed

text \<open>C7: The end of a transaction, by commit or abort, takes every activation made in it and
  every non-recording span started in it off the stack, keeping the order of the rest, and
  closes those non-recording spans; a subtransaction's abort does so from its own level up,
  its commit does nothing.  No recording span is touched and nothing is exported: that is
  left to the resource owners.\<close>

theorem transaction_end_scope:
  assumes "ev \<in> {XACT_COMMIT, XACT_PARALLEL_COMMIT, XACT_PREPARE, XACT_ABORT, XACT_PARALLEL_ABORT}"
  shows "(let u = otel_xact_callback ev st in
       st_stack u = filter (stays_below 1 st) (st_stack st) \<and> st_slots u = st_slots st \<and> st_exported u = st_exported st \<and>
       (open_nrec u j = (open_nrec st j \<and> n_nest_level (st_nrecs st ! j) < 1))) \<and>
     (let v = otel_subxact_callback env SUBXACT_ABORT st in
       st_stack v = filter (stays_below (e_level env) st) (st_stack st) \<and> st_slots v = st_slots st \<and>
       st_exported v = st_exported st \<and> (open_nrec v j = (open_nrec st j \<and> n_nest_level (st_nrecs st ! j) < e_level env))) \<and>
     otel_subxact_callback env SUBXACT_COMMIT st = st"
proof -
  obtain leak where x: "otel_xact_callback ev st = drop_activations_from_level 1 leak (drop_nrecs_from_level 1 st)"
    using assms unfolding otel_xact_callback_def insert_iff empty_iff by (elim disjE; simp)
  have v: "otel_subxact_callback env SUBXACT_ABORT st =
      drop_activations_from_level (e_level env) False (drop_nrecs_from_level (e_level env) st)"
    by (simp add: otel_subxact_callback_def)
  have "otel_subxact_callback env SUBXACT_COMMIT st = st" by (simp add: otel_subxact_callback_def)
  with drop_from_level_outcome [of 1 leak st j] drop_from_level_outcome [of "e_level env" False st j]
  show ?thesis unfolding x v Let_def by blast
qed

theorem transaction_end_scope_witness:
  "st_stack (otel_xact_callback XACT_ABORT one_dark) = [] \<and> \<not> open_nrec (otel_xact_callback XACT_ABORT one_dark) 0"
proof -
  have lv: "n_nest_level (st_nrecs one_dark ! 0) = 1" by (simp add: one_dark_defs)
  show ?thesis
    using transaction_end_scope [of XACT_ABORT one_dark 0]
    by (simp add: one_dark_facts stays_below_def entry_nrec_def lv Let_def)
qed

section \<open>The log hook\<close>

text \<open>The spans an error is recorded in: neither session spans nor one being dispatched.\<close>

definition takes_error :: "otel_slot \<Rightarrow> bool" where
  "takes_error s \<longleftrightarrow> \<not> s_session s \<and> \<not> s_dispatching s"

lemma mark_error_fields:
  "sp_status (s_span (mark_error env ed s)) = STATUS_ERROR" "s_err (mark_error env ed s) = s_err s"
  by (simp_all add: mark_error_def error_description_def slot_alloc_def upd_span_def Let_def)

lemma log_walk_marked:
  assumes "ed_elevel ed \<ge> ERROR_level" and "distinct es" and "\<forall>e\<in>set es. 0 \<le> e \<longrightarrow> e < int (length (st_slots st))"
  shows "st_slots (log_walk env ed True es st) ! j =
     (if int j \<in> set es \<and> takes_error (st_slots st ! j) then mark_error env ed (st_slots st ! j) else st_slots st ! j)"
  using assms(2,3)
proof (induction es arbitrary: st)
  case (Cons e es)
  let ?t = "upd_slot (nat e) (mark_error env ed) st"
  show ?case
  proof (cases "0 \<le> e \<and> takes_error (st_slots st ! nat e)")
    case False
    then have "log_walk env ed True (e # es) st = log_walk env ed True es st"
      using assms(1) by (auto simp: takes_error_def)
    then show ?thesis using Cons.IH [of st] Cons.prems False by (auto simp del: log_walk.simps)
  next
    case True
    have run: "log_walk env ed True (e # es) st = log_walk env ed True es ?t"
      using True assms(1) by (simp add: takes_error_def)
    have len: "nat e < length (st_slots st)" using Cons.prems(2) True by auto
    have "\<forall>e\<in>set es. 0 \<le> e \<longrightarrow> e < int (length (st_slots ?t))" using Cons.prems(2) by simp
    from Cons.IH [OF _ this] Cons.prems(1) show ?thesis
      using True len by (cases "j = nat e") (auto simp: run upd_slot_nth simp del: log_walk.simps)
  qed
qed simp

lemma record_into_nth:
  "st_slots (record_into env ed i st) ! j =
     (if j = i \<and> i < length (st_slots st) then snd (snd (slot_record_error env ed (st_slots st ! i))) else st_slots st ! j)"
  by (simp add: record_into_def case_prod_beta upd_slot_nth)

lemma record_into_length: "length (st_slots (record_into env ed i st)) = length (st_slots st)"
  by (simp add: record_into_def case_prod_beta)

text \<open>The first span down the stack that takes the error, and the others below it.\<close>

fun error_entries :: "int list \<Rightarrow> producer \<Rightarrow> int list" where
  "error_entries [] st = []"
| "error_entries (e # es) st =
     (if 0 \<le> e \<and> takes_error (st_slots st ! nat e) then e # error_entries es st else error_entries es st)"

lemma error_entries_set: "e \<in> set (error_entries es st) \<longleftrightarrow> e \<in> set es \<and> 0 \<le> e \<and> takes_error (st_slots st ! nat e)"
  by (induction es) auto

lemma log_walk_first:
  assumes "ed_elevel ed \<ge> ERROR_level" and "distinct es" and "\<forall>e\<in>set es. 0 \<le> e \<longrightarrow> e < int (length (st_slots st))"
  shows "st_slots (log_walk env ed False es st) ! j =
     (case error_entries es st of
        [] \<Rightarrow> st_slots st ! j
      | k # ks \<Rightarrow> if int j = k then snd (snd (slot_record_error env ed (st_slots st ! j)))
                  else if int j \<in> set ks then mark_error env ed (st_slots st ! j) else st_slots st ! j)"
  using assms(2,3)
proof (induction es)
  case (Cons e es)
  let ?t = "record_into env ed (nat e) st"
  show ?case
  proof (cases "0 \<le> e \<and> takes_error (st_slots st ! nat e)")
    case False
    then show ?thesis using Cons assms(1) by (auto simp: takes_error_def)
  next
    case True
    have run: "log_walk env ed False (e # es) st = log_walk env ed True es ?t"
      using True assms(1) by (simp add: takes_error_def)
    have len: "nat e < length (st_slots st)" using Cons.prems(2) True by auto
    have "\<forall>e\<in>set es. 0 \<le> e \<longrightarrow> e < int (length (st_slots ?t))" using Cons.prems(2) by (simp add: record_into_length)
    from log_walk_marked [OF assms(1) _ this, of env j] Cons.prems(1)
    show ?thesis
      using True len error_entries_set [of "int j" es st]
      by (cases "j = nat e") (auto simp: run record_into_nth simp del: log_walk.simps)
  qed
qed simp


definition sample_error :: error_data where
  "sample_error = \<lparr>ed_elevel = ERROR_level, ed_sqlstate = ''42P01'', ed_message = Some ''no table'',
     ed_detail = None, ed_hint = None, ed_filename = None, ed_funcname = None, ed_lineno = 7\<rparr>"


section \<open>Activation\<close>

lemma deactivate_top:
  assumes "stack_find e st = Some (length (st_stack st) - 1)"
  shows "leave_stack env e reason st = (Ret (), stack_pop st)"
  using assms by (simp add: leave_stack_def and_then_def modify_def)

lemma activation_restores:
  assumes "wf st" and "open_slot st i" and "\<not> e_crit env" and "\<not> e_crit env2" and "st_dispatch_depth st = 0"
    and "s_detached (st_slots st ! i)" and "off_stack (stack_entry_for_slot i) st" and "length (st_stack st) < OTEL_MAX_STACK_DEPTH"
  shows "api_span_activate env (slot_handle st i) st = (slot_handle st i, stack_push (stack_entry_for_slot i) True (e_level env) st)"
    and "api_span_deactivate env2 (slot_handle st i) (stack_push (stack_entry_for_slot i) True (e_level env) st) = (Ret (), st)"
proof -
  note p = slot_handle_fields(3,4) [OF assms(1,2)]
  let ?e = "stack_entry_for_slot i" and ?s = "st_slots st ! i"
  let ?u = "stack_push ?e True (e_level env) st"
  show "api_span_activate env (slot_handle st i) st = (slot_handle st i, ?u)"
    using p assms(6-8) stack_find_None [of ?e st]
    by (simp add: api_span_activate_def allowed_call [OF assms(3,5)] slot_for_open [OF assms(1,2)] activate_entry_def
        slot_handle_def [symmetric])
  have w: "wf ?u"
    using assms(2,6-8) by (intro wf_push [OF assms(1)]) (simp_all add: entry_open_def entry_detached_def stack_entry_for_slot_def)
  have o: "open_slot ?u i" and hu: "slot_handle ?u i = slot_handle st i"
    using assms(2) by (simp_all add: open_slot_def slot_handle_def stack_push_def)
  have find: "stack_find ?e ?u = Some (length (st_stack st))"
    by (simp add: stack_find_def stack_push_def find_top_snoc)
  have depth: "st_dispatch_depth ?u = 0" using assms(5) by (simp add: stack_push_def)
  have "leave_stack env2 ?e ''parent activation deactivated first'' ?u = (Ret (), stack_pop ?u)"
    by (rule deactivate_top) (simp add: find, simp add: stack_push_def)
  then have "api_span_deactivate env2 (slot_handle st i) ?u = (Ret (), stack_pop ?u)"
    using p slot_for_open [OF w o]
    by (simp add: api_span_deactivate_def allowed_call [OF assms(4) depth] hu deactivate_entry_def find)
  moreover have "stack_pop ?u = st" by (simp add: stack_push_def stack_pop_def)
  ultimately show "api_span_deactivate env2 (slot_handle st i) ?u = (Ret (), st)" by simp
qed

text \<open>C9: Activating an open span succeeds exactly when it was started detached, is not active
  already and the stack is not full; it returns the span's own handle, and the matching
  deactivation restores the stack, the span still open and nothing exported.  Otherwise it
  returns 0 and changes one counter.\<close>

theorem activation_scope:
  assumes "wf st" and "open_slot st i" and "\<not> e_crit env" and "\<not> e_crit env2" and "st_dispatch_depth st = 0"
  shows "if s_detached (st_slots st ! i) \<and> off_stack (stack_entry_for_slot i) st \<and>
           length (st_stack st) < OTEL_MAX_STACK_DEPTH
     then \<exists>u v. api_span_activate env (slot_handle st i) st = (slot_handle st i, u) \<and>
            st_stack u = st_stack st @ [\<lparr>se_entry = stack_entry_for_slot i, se_is_activation = True, se_nest_level = e_level env\<rparr>] \<and>
            api_span_deactivate env2 (slot_handle st i) u = (Ret (), v) \<and> v = st
     else \<exists>u. api_span_activate env (slot_handle st i) st = (0, u) \<and> counts_only st u"
proof -
  note p = slot_handle_fields(3,4) [OF assms(1,2)]
  let ?e = "stack_entry_for_slot i" and ?s = "st_slots st ! i"
  have act: "api_span_activate env (slot_handle st i) st =
      activate_entry env (s_detached ?s) ?e (s_gen ?s) i True st"
    using p by (simp add: api_span_activate_def allowed_call [OF assms(3,5)] slot_for_open [OF assms(1,2)])
  show ?thesis
  proof (cases "s_detached ?s \<and> off_stack ?e st \<and> length (st_stack st) < OTEL_MAX_STACK_DEPTH")
    case True
    then show ?thesis
      using activation_restores [OF assms(1-5)] by (simp add: stack_push_def)
  next
    case False
    then show ?thesis
      using stack_find_None [of ?e st] by (auto simp: act activate_entry_def counts_onlyI)
  qed
qed

definition one_detached :: producer where
  "one_detached = snd (api_span_start run_env (Some (run_args\<lparr>sa_detached := True\<rparr>)) initial_producer)"

lemma one_detached_wf: "wf one_detached"
proof -
  let ?a = "run_args\<lparr>sa_detached := True\<rparr>"
  have "fst (api_span_start run_env (Some ?a) initial_producer) = Ret (make_ref 6 0 True)" by (simp add: start_run_defs)
  then have r: "api_span_start run_env (Some ?a) initial_producer = (Ret (make_ref 6 0 True), one_detached)"
    by (simp add: one_detached_def prod_eq_iff)
  have a: "args_ok ?a" using run_args_ok by (simp add: args_ok_def)
  show ?thesis
    by (rule start_ref(1) [OF wf_initial run_env_ok a r]) (simp add: make_ref_def)
qed

theorem activation_scope_witness:
  "\<exists>u v. api_span_activate run_env (slot_handle one_detached 0) one_detached = (slot_handle one_detached 0, u) \<and>
     length (st_stack u) = 1 \<and> api_span_deactivate run_env (slot_handle one_detached 0) u = (Ret (), v) \<and> v = one_detached"
proof -
  have o: "open_slot one_detached 0" and d: "st_dispatch_depth one_detached = 0"
    and s: "st_stack one_detached = []" "s_detached (st_slots one_detached ! 0)"
    by (simp_all add: one_detached_def open_slot_def start_run_defs)
  show ?thesis
    using activation_scope [OF one_detached_wf o run_env_facts(1,1) d] s
    by (auto simp: off_stack_def OTEL_MAX_STACK_DEPTH_def)
qed

section \<open>Where calls are refused\<close>

text \<open>The producer API's calls, and those of them that only read.\<close>

fun api_call :: "producer_call \<Rightarrow> bool" where
  "api_call (Start a) = True"
| "api_call (End s e) = True"
| "api_call (Discard s) = True"
| "api_call (Activate s) = True"
| "api_call (Deactivate s) = True"
| "api_call (Setter s a) = True"
| "api_call (Capture_error s ed ok) = True"
| "api_call Current = True"
| "api_call (Context_of s) = True"
| "api_call _ = False"

definition reads_only :: "producer_call \<Rightarrow> bool" where
  "reads_only c \<longleftrightarrow> (case c of Current \<Rightarrow> True | Context_of s \<Rightarrow> True | _ \<Rightarrow> False)"

lemma refused_setter:
  assumes "call_refused env False st = (True, t)"
  shows "perform_setter env s a st = t"
  by (cases "(env, s, a)" rule: perform_setter.cases) (simp_all add: setter_defs apply_setter_def setter_slot_def assms)

lemma refused_perform:
  assumes "call_refused env False st = (True, t)" and "api_call c"
    and "reads_only c \<Longrightarrow> call_refused env True st = (True, t)"
  shows "perform env c st = (Ret (), t)"
  using assms
  by (cases c) (simp_all add: api_span_start_def api_span_end_def api_span_discard_def api_span_activate_def
      api_span_deactivate_def refused_setter api_span_capture_error_def setter_slot_def api_span_current_def
      api_span_context_of_def reads_only_def and_then_def ret_def)

text \<open>In a critical section every call of the producer API returns at once without an error,
  having changed one counter; inside the consumer's hook so does every call that would
  change anything.\<close>

theorem refused_calls_only_count:
  assumes "api_call c"
  shows "(e_crit env \<longrightarrow> perform env c st = (Ret (), bump C_in_crit_section st)) \<and>
     (\<not> e_crit env \<and> 0 < st_dispatch_depth st \<and> \<not> reads_only c \<longrightarrow>
        perform env c st = (Ret (), bump C_in_emit_hook st))"
  using assms by (auto intro: refused_perform simp: call_refused_def)

theorem refused_calls_only_count_witness:
  "perform (run_env\<lparr>e_crit := True\<rparr>) (Start (Some run_args)) one_open = (Ret (), bump C_in_crit_section one_open) \<and>
   perform run_env (Start (Some run_args)) (one_open\<lparr>st_dispatch_depth := 1\<rparr>) =
     (Ret (), bump C_in_emit_hook (one_open\<lparr>st_dispatch_depth := 1\<rparr>))"
  using refused_calls_only_count [of "Start (Some run_args)" "run_env\<lparr>e_crit := True\<rparr>" one_open]
    refused_calls_only_count [of "Start (Some run_args)" run_env "one_open\<lparr>st_dispatch_depth := 1\<rparr>"] run_env_facts(1)
  by (simp add: reads_only_def del: perform.simps)

end
