(* ===== verification/Tracing_Base.thy ===== *)
theory Tracing_Base
  imports Transaction_Props
begin

text \<open>
  What the tracing modules share: the arguments a C compound literal leaves zero, producer calls
  lifted to the state of a module that holds the producer, \<open>PG_FINALLY\<close>, and the tracking
  stacks (\<open>otel_trace.c\<close>, \<open>otel_fdw.c\<close>, \<open>otel_planspans.c\<close>) that map an executor object to the
  span started for it.  The stacks' contract is a locale, which each module's stack
  interprets.
\<close>

section \<open>Arguments and lifted calls\<close>

text \<open>\<open>(OtelSpanStartArgs) {.struct_size = ..., .tracer = t, .name = n}\<close>\<close>

definition literal_args :: "tracer \<Rightarrow> string \<Rightarrow> start_args" where
  "literal_args t n =
     \<lparr>sa_struct_size = sizeof_OtelSpanStartArgs, sa_tracer = Some t, sa_name = Some n, sa_kind = KIND_INTERNAL,
      sa_parent = PARENT_ACTIVE, sa_parent_ctx = None, sa_parent_span = 0, sa_owner = OWNER_DEFAULT,
      sa_detached = False, sa_scoped = False, sa_start_time = 0, sa_force_sample = False\<rparr>"

lemma literal_args_ok: "args_ok (literal_args t n)"
  by (simp add: args_ok_def literal_args_def genuine_def)

definition lift_op :: "('s \<Rightarrow> 'p) \<Rightarrow> (('p \<Rightarrow> 'p) \<Rightarrow> 's \<Rightarrow> 's) \<Rightarrow> ('p, 'a) op \<Rightarrow> ('s, 'a) op" where
  "lift_op get upd m s = (case m (get s) of (x, p) \<Rightarrow> (x, upd (\<lambda>_. p) s))"

text \<open>
  \<open>PG_TRY(); m PG_FINALLY(); f PG_END_TRY();\<close>: the cleanup runs on return and on ERROR, which is
  then thrown again; a FATAL leaves the process without it.
\<close>

definition finally_do :: "('s, 'a) op \<Rightarrow> ('s, unit) op \<Rightarrow> ('s, 'a) op" where
  "finally_do m f s =
     (case m s of
        (Ret a, t) \<Rightarrow> (case f t of (Ret u, v) \<Rightarrow> (Ret a, v) | (Throw, v) \<Rightarrow> (Throw, v) | (Fatal, v) \<Rightarrow> (Fatal, v) | (Spin, v) \<Rightarrow> (Spin, v))
      | (Throw, t) \<Rightarrow> (case f t of (Ret u, v) \<Rightarrow> (Throw, v) | (Throw, v) \<Rightarrow> (Throw, v) | (Fatal, v) \<Rightarrow> (Fatal, v) | (Spin, v) \<Rightarrow> (Spin, v))
      | (Fatal, t) \<Rightarrow> (Fatal, t)
      | (Spin, t) \<Rightarrow> (Spin, t))"

text \<open>\<open>PG_TRY(); m PG_CATCH(); c; PG_RE_THROW(); PG_END_TRY();\<close> with a cleanup that cannot fail.\<close>

definition catch_rethrow :: "('s, 'a) op \<Rightarrow> ('s \<Rightarrow> 's) \<Rightarrow> ('s, 'a) op" where
  "catch_rethrow m c s = (case m s of (Throw, t) \<Rightarrow> (Throw, c t) | r \<Rightarrow> r)"

lemma and_then_RetD: "and_then m f s = (Ret c, t) \<Longrightarrow> \<exists>a u. m s = (Ret a, u) \<and> f a u = (Ret c, t)"
  by (auto simp: and_then_def split: prod.splits outcome.splits)

section \<open>Ending a span and setting its status\<close>

lemma span_end_total:
  assumes "calm env" and "wf st" and "genuine s"
  shows "\<exists>u. api_span_end env s e st = (Ret (), u) \<and> (st_dispatch_depth st = 0 \<longrightarrow> st_dispatch_depth u = 0)"
proof (cases rule: call_refused_cases [of env False st])
  case (refused c)
  then show ?thesis by (simp add: api_span_end_def)
next
  case allowed
  then have d: "st_dispatch_depth st = 0" by simp
  consider "s = 0" | "s \<noteq> 0" "s <s 0" | "s \<noteq> 0" "\<not> s <s 0" by blast
  then show ?thesis
  proof cases
    case 1
    then show ?thesis using allowed by (simp add: api_span_end_def)
  next
    case 2
    show ?thesis
    proof (cases rule: nrec_for_ref_cases [of s st])
      case (found i)
      obtain t where t: "leave_stack env (stack_entry_for_nrec i) ''parent span ended first'' st = (Ret (), t)"
        using leave_stack_returns [OF assms(1,2)] by blast
      then show ?thesis
        using leave_stack_outcome [OF assms(2) t] 2 allowed found d
        by (simp add: api_span_end_def and_then_def modify_def free_nrec_def upd_nrec_def)
    qed (use 2 allowed in \<open>simp_all add: api_span_end_def\<close>)
  next
    case 3
    show ?thesis
    proof (cases rule: slot_for_ref_cases [of s st])
      case (found i)
      have op: "open_slot st i" by (rule found_open(1) [OF assms(3) 3(1) found(2,3)])
      obtain t where t: "leave_stack env (stack_entry_for_slot i) ''parent span ended first'' st = (Ret (), t)"
        using leave_stack_returns [OF assms(1,2)] by blast
      note lo = leave_stack_outcome [OF assms(2) t] and keep = leave_stack_keeps_slot [OF assms(2) t]
      have o: "open_slot t i" using keep op by simp
      obtain u where u: "end_slot env i e None t = (Ret (), u)"
        using end_slot_returns [OF assms(1), of i t] o by (auto simp: open_slot_def)
      have "st_dispatch_depth u = 0" using end_slot_outcome(4) [OF _ o keep(3) u] lo d by simp
      then show ?thesis using 3 allowed found t u by (simp add: api_span_end_def and_then_def)
    qed (use 3 allowed in \<open>simp_all add: api_span_end_def\<close>)
  qed
qed

lemma set_status_frame:
  fixes env s code d
  assumes "wf st"
  defines "t \<equiv> otel_span_set_status env s code d st"
  shows "wf t" "st_dispatch_depth t = st_dispatch_depth st" "st_exported t = st_exported st" "st_stack t = st_stack st"
    "st_nrecs t = st_nrecs st"
proof -
  show "wf t" using assms(1) by (simp add: t_def otel_span_set_status_def api_setters_wf)
  have "st_dispatch_depth t = st_dispatch_depth st \<and> st_exported t = st_exported st \<and> st_stack t = st_stack st \<and>
      st_nrecs t = st_nrecs st"
    by (cases rule: call_refused_cases [of env False st]; cases rule: slot_for_ref_cases [of s st])
       (auto simp: t_def otel_span_set_status_def api_span_set_status_def apply_setter_def setter_slot_def split: prod.split)
  then show "st_dispatch_depth t = st_dispatch_depth st" "st_exported t = st_exported st" "st_stack t = st_stack st"
    "st_nrecs t = st_nrecs st" by auto
qed

lemma set_status_slot:
  fixes env code d
  assumes "wf st" and "open_slot st i" and "\<not> e_crit env" and "st_dispatch_depth st = 0"
  defines "t \<equiv> otel_span_set_status env (slot_handle st i) code d st"
  shows "open_slot t i" "slot_handle t i = slot_handle st i" "sp_status (s_span (st_slots t ! i)) = code"
    "\<And>j. j \<noteq> i \<Longrightarrow> st_slots t ! j = st_slots st ! j" "length (st_slots t) = length (st_slots st)"
proof -
  note h = slot_handle_fields(3,4) [OF assms(1,2)]
  have i: "i < length (st_slots st)" using assms(2) by (simp add: open_slot_def)
  obtain u cs slot where r: "set_status_internal env code d (st_slots st ! i) = (u, cs, slot)" by (metis prod_cases3)
  have t: "t = fold bump cs (upd_slot i (\<lambda>_. slot) st)"
    using h by (simp add: t_def otel_span_set_status_def api_span_set_status_def apply_setter_def setter_slot_def
        allowed_call [OF assms(3,4)] slot_for_open [OF assms(1,2)] r word_sle_eq word_sless_alt)
  have "slot_core slot = slot_core (st_slots st ! i)"
    using internal_setters_core(5) [of env code d] r by (metis keeps_core_def snd_conv)
  then have g: "s_gen slot = s_gen (st_slots st ! i)" by (rule core_fields)
  show "open_slot t i" "slot_handle t i = slot_handle st i"
    using assms(2) i g by (simp_all add: t open_slot_def slot_handle_def upd_slot_nth)
  show "\<And>j. j \<noteq> i \<Longrightarrow> st_slots t ! j = st_slots st ! j" "length (st_slots t) = length (st_slots st)"
    by (simp_all add: t upd_slot_nth)
  have "sp_status (s_span slot) = code"
    using r by (auto simp: set_status_internal_def upd_span_def Let_def dest!: strdup_same(1) split: option.splits prod.splits)
  then show "sp_status (s_span (st_slots t ! i)) = code" using i by (simp add: t upd_slot_nth)
qed

section \<open>Tracking stacks\<close>

record track_entry =
  te_key :: nat
  te_ref :: i64
  te_level :: int
  te_detached :: bool

definition track_push :: "nat \<Rightarrow> i64 \<Rightarrow> int \<Rightarrow> bool \<Rightarrow> track_entry list \<Rightarrow> track_entry list" where
  "track_push key ref level detached es =
     es @ [\<lparr>te_key = key, te_ref = ref, te_level = level, te_detached = detached\<rparr>]"

text \<open>The search from the top, and the shift of the entries above the one found.\<close>

definition track_find :: "nat \<Rightarrow> track_entry list \<Rightarrow> nat option" where
  "track_find key es = find_top (\<lambda>e. te_key e = key) es"

text \<open>The compaction loop of a subtransaction abort: entries below the level stay.\<close>

fun keep_below :: "int \<Rightarrow> track_entry list \<Rightarrow> track_entry list" where
  "keep_below level [] = []"
| "keep_below level (e # es) = (if te_level e < level then e # keep_below level es else keep_below level es)"

lemma keep_below_filter: "keep_below level es = filter (\<lambda>e. te_level e < level) es"
  by (induction es) simp_all

lemma track_find_push: "track_find key (track_push key ref level d es) = Some (length es)"
  by (simp add: track_find_def track_push_def find_top_snoc)

locale tracking_stack =
  fixes entries :: "'s \<Rightarrow> track_entry list"
    and pop :: "nat \<Rightarrow> 's \<Rightarrow> i64 \<times> 's"
    and abort :: "int \<Rightarrow> 's \<Rightarrow> 's"
    and limit :: nat
  assumes pop_found: "track_find key (entries s) = Some i \<Longrightarrow>
      fst (pop key s) = te_ref (entries s ! i) \<and> entries (snd (pop key s)) = remove_at i (entries s)"
    and pop_missing: "track_find key (entries s) = None \<Longrightarrow> pop key s = (0, s)"
    and abort_entries: "entries (abort level s) = keep_below level (entries s)"
begin

definition tracked :: "'s \<Rightarrow> bool" where
  "tracked s \<longleftrightarrow> length (entries s) \<le> limit \<and> (\<forall>e\<in>set (entries s). te_ref e \<noteq> 0)"

lemma pop_pushed:
  assumes "entries s = track_push key ref level d es"
  shows "fst (pop key s) = ref" and "entries (snd (pop key s)) = es"
  using pop_found [of key s "length es"] track_find_push [of key ref level d es]
  by (simp_all add: assms track_push_def remove_at_def)

lemma pop_other:
  assumes "e \<in> set (entries s)" and "te_key e \<noteq> key"
  shows "e \<in> set (entries (snd (pop key s)))"
proof (cases "track_find key (entries s)")
  case None
  then show ?thesis using pop_missing assms(1) by simp
next
  case (Some i)
  have i: "i < length (entries s)" "te_key (entries s ! i) = key"
    using Some find_top_lt find_top_at by (fastforce simp: track_find_def)+
  have "entries s = take i (entries s) @ entries s ! i # drop (Suc i) (entries s)" by (rule id_take_nth_drop [OF i(1)])
  then have "e \<in> set (take i (entries s)) \<union> set (drop (Suc i) (entries s))"
    using assms i(2) by (metis Un_iff list.set_intros(1) set_ConsD set_append)
  then show ?thesis using pop_found [OF Some] by (simp add: remove_at_def)
qed

lemma pop_tracked: "tracked s \<Longrightarrow> tracked (snd (pop key s))"
proof (cases "track_find key (entries s)")
  case (Some i)
  assume "tracked s"
  moreover have "i < length (entries s)" using Some find_top_lt by (fastforce simp: track_find_def)
  ultimately show ?thesis using pop_found [OF Some] set_remove_at [of i "entries s"]
    by (auto simp: tracked_def length_remove_at)
qed (simp add: pop_missing)

lemma abort_tracked: "tracked s \<Longrightarrow> tracked (abort level s)"
  by (auto simp: tracked_def abort_entries keep_below_filter intro: le_trans [OF length_filter_le])

lemma abort_levels: "e \<in> set (entries (abort level s)) \<longleftrightarrow> e \<in> set (entries s) \<and> te_level e < level"
  by (auto simp: abort_entries keep_below_filter)

end

end
