(* ===== verification/Plpgsql_Trace.thy ===== *)
theory Plpgsql_Trace
  imports Tracing_Base
begin

text \<open>
  \<open>otel_plpgsql/otel_plpgsql.c\<close>: spans for PL/pgSQL calls and statements.  \<open>plpgsql\<close> holds the
  producer and the module's static registry of session spans, with the allocated size of its
  array (\<open>pl_room\<close>) beside the capacity the code believes it has; \<open>pl_invocation\<close> is the
  per-call structure behind \<open>plugin_info\<close>.  What PL/pgSQL hands the hooks (whether the call is
  atomic, names, statement IDs, line numbers) is an argument, and so is whether an
  allocation succeeds.
\<close>

section \<open>State\<close>

record plpgsql =
  pl_prod :: producer
  pl_session :: "(i64 \<times> int) list"
  pl_capacity :: nat
  pl_room :: nat

record pl_invocation =
  pi_func_span :: i64
  pi_session_owner :: bool
  pi_stack :: "(u32 \<times> i64) list"
  pi_capacity :: nat
  pi_room :: nat

text \<open>The session's settings and the table the producer API resolved to.\<close>

record pl_host =
  ph_env :: env
  ph_loaded :: bool
  ph_possible :: bool
  ph_enabled :: bool
  ph_statements :: bool
  ph_alloc_ok :: bool

definition otel_plpgsql_tracer :: tracer where
  "otel_plpgsql_tracer = \<lparr>tr_id = 2, tr_name = Some ''otel_plpgsql'', tr_version = Some ''1.0'', tr_schema_url = None\<rparr>"

type_synonym 'a pl_op = "(plpgsql, 'a) op"

definition on_prod :: "(producer, 'a) op \<Rightarrow> 'a pl_op" where
  "on_prod = lift_op pl_prod pl_prod_update"

definition upd_prod :: "(producer \<Rightarrow> producer) \<Rightarrow> plpgsql \<Rightarrow> plpgsql" where
  "upd_prod f s = s\<lparr>pl_prod := f (pl_prod s)\<rparr>"

section \<open>The registry of session spans\<close>

text \<open>
  The capacity is written before the allocation is tried.  An entry stored at or past
  \<open>pl_room\<close> lies outside the array; the model still lists it (see \<open>in_bounds\<close>).
\<close>

definition session_append :: "pl_host \<Rightarrow> i64 \<Rightarrow> plpgsql \<Rightarrow> plpgsql" where
  "session_append h span s = s\<lparr>pl_session := pl_session s @ [(span, e_level (ph_env h))]\<rparr>"

definition otel_plpgsql_session_push :: "pl_host \<Rightarrow> i64 \<Rightarrow> unit pl_op" where
  "otel_plpgsql_session_push h span s =
     (if span = 0 then (Ret (), s)
      else if pl_room s = 0
      then (let s1 = s\<lparr>pl_capacity := 8\<rparr> in
            if ph_alloc_ok h then (Ret (), session_append h span (s1\<lparr>pl_room := 8\<rparr>)) else (Throw, s1))
      else if length (pl_session s) = pl_capacity s
      then (let s1 = s\<lparr>pl_capacity := pl_capacity s * 2\<rparr> in
            if ph_alloc_ok h then (Ret (), session_append h span (s1\<lparr>pl_room := pl_capacity s1\<rparr>)) else (Throw, s1))
      else (Ret (), session_append h span s))"

definition otel_plpgsql_session_forget :: "i64 \<Rightarrow> plpgsql \<Rightarrow> plpgsql" where
  "otel_plpgsql_session_forget span s =
     (if span = 0 then s else s\<lparr>pl_session := butlast (pl_session s)\<rparr>)"

definition leaked_message :: string where
  "leaked_message = ''otel_plpgsql: ended at transaction/subtransaction abort (an OTEL_OWNER_SESSION span opened during a nonatomic PL/pgSQL call, with no resource owner to release it automatically)''"

definition otel_plpgsql_end_leaked_session_span :: "env \<Rightarrow> i64 \<Rightarrow> unit pl_op" where
  "otel_plpgsql_end_leaked_session_span env span s =
     on_prod (otel_span_end env span)
       (upd_prod (otel_span_set_status env span STATUS_ERROR (Some leaked_message)) s)"

text \<open>The loop: at most one round for each entry there is.\<close>

fun drain_registry :: "env \<Rightarrow> nat \<Rightarrow> unit pl_op" where
  "drain_registry env 0 s = (Ret (), s)"
| "drain_registry env (Suc n) s =
     (if pl_session s = [] \<or> snd (last (pl_session s)) < e_level env then (Ret (), s)
      else and_then (otel_plpgsql_end_leaked_session_span env (fst (last (pl_session s))))
             (\<lambda>_. drain_registry env n) (s\<lparr>pl_session := butlast (pl_session s)\<rparr>))"

datatype release_phase = RELEASE_BEFORE_LOCKS | RELEASE_LOCKS | RELEASE_AFTER_LOCKS

definition otel_plpgsql_resource_release_callback :: "env \<Rightarrow> release_phase \<Rightarrow> bool \<Rightarrow> unit pl_op" where
  "otel_plpgsql_resource_release_callback env phase is_commit s =
     (if is_commit \<or> phase \<noteq> RELEASE_AFTER_LOCKS then (Ret (), s)
      else drain_registry env (length (pl_session s)) s)"

section \<open>The plugin's hooks\<close>

text \<open>Opening a span in the current call: start, and register a session span.\<close>

definition pl_args :: "string \<Rightarrow> bool \<Rightarrow> start_args" where
  "pl_args name session_owner =
     (literal_args otel_plpgsql_tracer name)\<lparr>sa_owner := (if session_owner then OWNER_SESSION else OWNER_DEFAULT)\<rparr>"

definition pl_start :: "pl_host \<Rightarrow> string \<Rightarrow> bool \<Rightarrow> i64 pl_op" where
  "pl_start h name session_owner =
     and_then (on_prod (otel_span_start (ph_env h) (ph_loaded h) (ph_possible h) (pl_args name session_owner)))
       (\<lambda>span. and_then (if session_owner then otel_plpgsql_session_push h span else ret ()) (\<lambda>_. ret span))"

definition otel_plpgsql_func_setup :: "pl_host \<Rightarrow> pl_invocation option" where
  "otel_plpgsql_func_setup h =
     (if \<not> ph_enabled h \<or> \<not> otel_recording_possible (ph_loaded h) (ph_possible h) then None
      else Some \<lparr>pi_func_span = 0, pi_session_owner = False, pi_stack = [], pi_capacity = 8, pi_room = 8\<rparr>)"

definition otel_plpgsql_func_beg ::
    "pl_host \<Rightarrow> bool \<Rightarrow> string \<Rightarrow> i64 \<Rightarrow> pl_invocation \<Rightarrow> pl_invocation pl_op" where
  "otel_plpgsql_func_beg h atomic signature oid call =
     (let session = \<not> atomic in
      and_then (pl_start h ''pg.plpgsql.function'' session) (\<lambda>span.
      and_then (modify (\<lambda>s. if otel_span_recording span
                 then upd_prod (\<lambda>p. otel_span_set_int (ph_env h) span ''pg.plpgsql.function_oid'' oid
                                      (otel_span_set_str (ph_env h) span ''code.function.name'' (Some signature) p)) s
                 else s)) (\<lambda>_.
      ret (call\<lparr>pi_session_owner := session, pi_func_span := span\<rparr>))))"

definition otel_plpgsql_func_end :: "env \<Rightarrow> pl_invocation \<Rightarrow> pl_invocation pl_op" where
  "otel_plpgsql_func_end env call =
     and_then (modify (\<lambda>s. if pi_session_owner call then otel_plpgsql_session_forget (pi_func_span call) s else s)) (\<lambda>_.
     and_then (on_prod (otel_span_end env (pi_func_span call))) (\<lambda>_.
     ret (call\<lparr>pi_stack := [], pi_func_span := 0\<rparr>)))"

definition otel_plpgsql_stack_push :: "pl_host \<Rightarrow> u32 \<Rightarrow> i64 \<Rightarrow> pl_invocation \<Rightarrow> unit outcome \<times> pl_invocation" where
  "otel_plpgsql_stack_push h stmtid span call =
     (let store = (\<lambda>i. i\<lparr>pi_stack := pi_stack i @ [(stmtid, span)]\<rparr>) in
      if length (pi_stack call) = pi_capacity call
      then (let i1 = call\<lparr>pi_capacity := pi_capacity call * 2\<rparr> in
            if ph_alloc_ok h then (Ret (), store (i1\<lparr>pi_room := pi_capacity i1\<rparr>)) else (Throw, i1))
      else (Ret (), store call))"

text \<open>The statement's hook returns the invocation even when it throws: PL/pgSQL keeps it when
  the function catches the error.\<close>

definition otel_plpgsql_stmt_beg ::
    "pl_host \<Rightarrow> u32 \<Rightarrow> string \<Rightarrow> i64 \<Rightarrow> pl_invocation \<Rightarrow> plpgsql \<Rightarrow> (unit outcome \<times> pl_invocation) \<times> plpgsql" where
  "otel_plpgsql_stmt_beg h stmtid typename lineno call s =
     (let (x, s1) =
        (if ph_statements h
         then and_then (pl_start h ''pg.plpgsql.stmt'' (pi_session_owner call)) (\<lambda>span.
              and_then (modify (\<lambda>s. if otel_span_recording span
                 then upd_prod (\<lambda>p. otel_span_set_int (ph_env h) span ''code.line.number'' lineno
                                      (otel_span_set_str (ph_env h) span ''pg.plpgsql.stmt_type'' (Some typename) p)) s
                 else s)) (\<lambda>_. ret span)) s
         else (Ret 0, s))
      in case x of
           Ret span \<Rightarrow> (otel_plpgsql_stack_push h stmtid span call, s1)
         | Throw \<Rightarrow> ((Throw, call), s1)
         | Fatal \<Rightarrow> ((Fatal, call), s1)
         | Spin \<Rightarrow> ((Spin, call), s1))"

text \<open>Dropping the entries above the statement's own.\<close>

definition resync :: "u32 \<Rightarrow> (u32 \<times> i64) list \<Rightarrow> (u32 \<times> i64) list" where
  "resync stmtid es = rev (dropWhile (\<lambda>e. fst e \<noteq> stmtid) (rev es))"

definition otel_plpgsql_stmt_end :: "env \<Rightarrow> u32 \<Rightarrow> pl_invocation \<Rightarrow> pl_invocation pl_op" where
  "otel_plpgsql_stmt_end env stmtid call =
     (let es = resync stmtid (pi_stack call) in
      if es = [] then ret (call\<lparr>pi_stack := []\<rparr>)
      else and_then (modify (\<lambda>s. if pi_session_owner call then otel_plpgsql_session_forget (snd (last es)) s else s)) (\<lambda>_.
           and_then (on_prod (otel_span_end env (snd (last es)))) (\<lambda>_.
           ret (call\<lparr>pi_stack := butlast es\<rparr>))))"

text \<open>Claiming the plugin slot: the WARNING is what is returned.\<close>

definition claim_plugin_slot :: "'p option \<Rightarrow> 'p \<Rightarrow> bool \<times> 'p option" where
  "claim_plugin_slot slot mine = (case slot of Some p \<Rightarrow> (True, Some p) | None \<Rightarrow> (False, Some mine))"

section \<open>Draining the registry\<close>

lemma end_leaked_returns:
  assumes "calm env" and "wf (pl_prod s)" and "genuine h" and "st_dispatch_depth (pl_prod s) = 0"
  shows "\<exists>p. otel_plpgsql_end_leaked_session_span env h s = (Ret (), s\<lparr>pl_prod := p\<rparr>) \<and> wf p \<and> st_dispatch_depth p = 0"
proof -
  let ?t = "otel_span_set_status env h STATUS_ERROR (Some leaked_message) (pl_prod s)"
  note f = set_status_frame [OF assms(2), of env h STATUS_ERROR "Some leaked_message"]
  obtain u where u: "api_span_end env h 0 ?t = (Ret (), u)" "st_dispatch_depth u = 0"
    using span_end_total [OF assms(1) f(1) assms(3), of 0] f(2) assms(4) by auto
  have "wf u" using api_span_end_wf [OF f(1) assms(3), of env 0] u(1) by simp
  then show ?thesis
    using u f(1,2) assms(4)
    by (auto simp: otel_plpgsql_end_leaked_session_span_def on_prod_def lift_op_def upd_prod_def otel_span_end_def)
qed

text \<open>What the drain leaves: the registry without its entries from the level up, given that the
  entries were registered in order of level.\<close>

definition drained :: "int \<Rightarrow> (i64 \<times> int) list \<Rightarrow> (i64 \<times> int) list" where
  "drained level es = rev (dropWhile (\<lambda>e. level \<le> snd e) (rev es))"

lemma drain_outcome:
  assumes "calm env" and "wf (pl_prod s)" and "\<forall>e\<in>set (pl_session s). genuine (fst e)" and "st_dispatch_depth (pl_prod s) = 0"
    and "n = length (pl_session s)"
  shows "\<exists>p. drain_registry env n s = (Ret (), s\<lparr>pl_prod := p, pl_session := drained (e_level env) (pl_session s)\<rparr>) \<and>
     wf p \<and> st_dispatch_depth p = 0"
  using assms(2-5)
proof (induction n arbitrary: s)
  case 0
  then show ?case by (intro exI [of _ "pl_prod s"]) (cases s, simp add: drained_def)
next
  case (Suc n)
  obtain es e where es: "pl_session s = es @ [e]" using Suc.prems(4) by (cases "pl_session s" rule: rev_cases) auto
  show ?case
  proof (cases "snd e < e_level env")
    case True
    then show ?thesis using Suc.prems es by (intro exI [of _ "pl_prod s"]) (cases s, simp add: drained_def)
  next
    case False
    let ?s = "s\<lparr>pl_session := es\<rparr>"
    have "genuine (fst e)" using Suc.prems(2) by (simp add: es)
    then obtain p where p: "otel_plpgsql_end_leaked_session_span env (fst e) ?s = (Ret (), ?s\<lparr>pl_prod := p\<rparr>)"
        "wf p" "st_dispatch_depth p = 0"
      using end_leaked_returns [OF assms(1), of ?s "fst e"] Suc.prems(1,3) by auto
    let ?t = "?s\<lparr>pl_prod := p\<rparr>"
    obtain q where "drain_registry env n ?t = (Ret (), ?t\<lparr>pl_prod := q, pl_session := drained (e_level env) es\<rparr>)"
        "wf q" "st_dispatch_depth q = 0"
      using Suc.IH [of ?t] p Suc.prems(2,4) by (auto simp: es)
    then show ?thesis
      using False p(1) by (auto simp: es drained_def and_then_def)
  qed
qed

lemma drained_sorted: "sorted (map snd es) \<Longrightarrow> drained level es = filter (\<lambda>e. snd e < level) es"
proof (induction es rule: rev_induct)
  case (snoc e es)
  show ?case
  proof (cases "level \<le> snd e")
    case False
    then have "filter (\<lambda>e. snd e < level) es = es" using snoc.prems by (fastforce simp: sorted_append filter_id_conv)
    with False show ?thesis by (simp add: drained_def)
  qed (use snoc in \<open>simp add: drained_def sorted_append\<close>)
qed (simp add: drained_def)

section \<open>An example\<close>

text \<open>A call's session span is open and registered at nesting level 1.\<close>

definition session_args :: start_args where
  "session_args = (pl_args ''pg.plpgsql.function'' True)\<lparr>sa_tracer := None\<rparr>"

definition one_session :: producer where
  "one_session = snd (api_span_start run_env (Some session_args) initial_producer)"

definition pl_open :: plpgsql where
  "pl_open = \<lparr>pl_prod = one_session, pl_session = [(slot_handle one_session 0, 1)], pl_capacity = 8, pl_room = 8\<rparr>"

definition open_call :: pl_invocation where
  "open_call = \<lparr>pi_func_span = slot_handle one_session 0, pi_session_owner = True, pi_stack = [], pi_capacity = 8, pi_room = 8\<rparr>"

lemma one_session_start: "api_span_start run_env (Some session_args) initial_producer = (Ret (make_ref 6 0 True), one_session)"
proof -
  have "fst (api_span_start run_env (Some session_args) initial_producer) = Ret (make_ref 6 0 True)"
    by (simp add: session_args_def pl_args_def literal_args_def start_run_defs)
  then show ?thesis by (simp add: one_session_def prod_eq_iff)
qed

lemma one_session_facts: "wf one_session" "open_slot one_session 0" "st_dispatch_depth one_session = 0" "s_session (st_slots one_session ! 0)"
proof -
  have "args_ok session_args"
    using literal_args_ok [of otel_plpgsql_tracer "''pg.plpgsql.function''"] by (simp add: session_args_def pl_args_def args_ok_def)
  then show "wf one_session"
    using start_ref(1) [OF wf_initial run_env_ok _ one_session_start] by (simp add: make_ref_def)
qed (simp_all add: open_slot_def one_session_def session_args_def pl_args_def literal_args_def start_run_defs)

section \<open>Properties\<close>





text \<open>
  Whether the entries the registry lists all lie inside its array, and the steps the array
  goes through while every allocation succeeds.
\<close>

definition in_bounds :: "plpgsql \<Rightarrow> bool" where
  "in_bounds s \<longleftrightarrow> length (pl_session s) \<le> pl_room s \<and> (pl_room s \<noteq> 0 \<longrightarrow> pl_capacity s = pl_room s)"

lemma push_in_bounds:
  "in_bounds s \<Longrightarrow> ph_alloc_ok h \<Longrightarrow> in_bounds (snd (otel_plpgsql_session_push h span s))"
  by (auto simp: in_bounds_def otel_plpgsql_session_push_def session_append_def Let_def)

lemma forget_in_bounds: "in_bounds s \<Longrightarrow> in_bounds (otel_plpgsql_session_forget span s)"
  by (auto simp: in_bounds_def otel_plpgsql_session_forget_def)

text \<open>Pushes that can allocate keep the registry inside its array.  But when growing a full
  registry fails once, the doubled capacity stays, and the next push succeeds without
  growing and stores its entry past the end of the array.\<close>

theorem failed_growth_overruns_registry:
  assumes "in_bounds s" and "length (pl_session s) = pl_room s" and "0 < pl_room s"
    and "ph_alloc_ok h" and "\<not> ph_alloc_ok h2" and "span \<noteq> 0" and "span2 \<noteq> 0"
  shows "in_bounds (snd (otel_plpgsql_session_push h span s)) \<and>
     (\<exists>t u. otel_plpgsql_session_push h2 span s = (Throw, t) \<and> otel_plpgsql_session_push h span2 t = (Ret (), u) \<and>
        pl_room u < length (pl_session u))"
  using assms push_in_bounds [OF assms(1,4), of span]
  by (auto simp: in_bounds_def otel_plpgsql_session_push_def session_append_def Let_def)

theorem failed_growth_overruns_registry_witness:
  "\<exists>h h2 s t u. otel_plpgsql_session_push h2 1 s = (Throw, t) \<and> otel_plpgsql_session_push h 1 t = (Ret (), u) \<and>
     pl_room u < length (pl_session u)"
proof -
  let ?h = "\<lambda>ok. \<lparr>ph_env = run_env, ph_loaded = True, ph_possible = True, ph_enabled = True, ph_statements = True, ph_alloc_ok = ok\<rparr>"
  let ?s = "\<lparr>pl_prod = initial_producer, pl_session = replicate 8 (1, 1), pl_capacity = 8, pl_room = 8\<rparr>"
  show ?thesis
    using failed_growth_overruns_registry [of ?s "?h True" "?h False" 1 1] by (fastforce simp: in_bounds_def)
qed

text \<open>However many statements an error jumped over, the end of an enclosing statement finds
  its own entry: it ends that span alone, and leaves the statements below it, as if those
  above had never been pushed.\<close>

theorem stmt_end_resyncs:
  assumes "pi_stack call = outer @ (stmtid, span) # inner" and "stmtid \<notin> fst ` set inner"
  shows "otel_plpgsql_stmt_end env stmtid call =
      otel_plpgsql_stmt_end env stmtid (call\<lparr>pi_stack := outer @ [(stmtid, span)]\<rparr>) \<and>
     (\<forall>c s t. otel_plpgsql_stmt_end env stmtid call s = (Ret c, t) \<longrightarrow> pi_stack c = outer)"
proof -
  have "resync stmtid (outer @ (stmtid, span) # inner) = outer @ [(stmtid, span)]"
    using assms(2) by (auto simp: resync_def dropWhile_append)
  moreover have "resync stmtid (outer @ [(stmtid, span)]) = outer @ [(stmtid, span)]" by (simp add: resync_def)
  ultimately show ?thesis
    by (auto simp: otel_plpgsql_stmt_end_def assms(1) and_then_modify ret_run dest!: and_then_RetD)
qed

theorem stmt_end_resyncs_witness:
  "\<exists>c t. otel_plpgsql_stmt_end run_env 4 (open_call\<lparr>pi_stack := [(3, 0), (4, 0), (5, 0)]\<rparr>) pl_open = (Ret c, t) \<and>
     pi_stack c = [(3, 0)]"
proof -
  let ?c = "open_call\<lparr>pi_stack := [(3, 0), (4, 0), (5, 0)]\<rparr>"
  have "resync 4 [(3, 0), (4, 0), (5, 0)] = [(3, 0), (4, 0)]" by (simp add: resync_def)
  then obtain c t where r: "otel_plpgsql_stmt_end run_env 4 ?c pl_open = (Ret c, t)"
    by (simp add: otel_plpgsql_stmt_end_def and_then_def modify_def ret_def on_prod_def lift_op_def otel_span_end_def)
  moreover have "pi_stack c = [(3, 0)]"
    using stmt_end_resyncs [of ?c "[(3, 0)]" 4 0 "[(5, 0)]" run_env, THEN conjunct2] r by fastforce
  ultimately show ?thesis by blast
qed

end
