(* ===== verification/Doubles.thy ===== *)
theory Doubles
  imports Api_Tables Span_Log
begin

text \<open>
  The double arithmetic of the plan collectors, which only handles finite doubles that are not
  negative (row counts, loop counts, times).  As in \<open>Api_Tables\<close> such a double is the
  natural number of units of \<open>2 ^ -1074\<close> it holds, the smallest positive double, so the
  order of doubles is the order of the numbers; a result is the exact value rounded to 53
  significant bits, ties to even.  Overflow to infinity is out of reach of the quotients
  taken here (both operands are at least 1) and is not modelled.
\<close>

type_synonym double = nat

definition dbl :: "nat \<Rightarrow> double" where
  "dbl n = n * 2 ^ 1074"

text \<open>The quotient: the units left over by the integer division only decide the rounding.\<close>

definition dbl_div :: "double \<Rightarrow> double \<Rightarrow> double" where
  "dbl_div a b =
     (let e = bit_length (a * 2 ^ 1074 div b) - 53 in rne_div (a * 2 ^ 1074) (b * 2 ^ e) * 2 ^ e)"

text \<open>\<open>(int64) d\<close> for a value in range, \<open>%.0f\<close>, and the 64 bits of the representation.\<close>

definition dbl_trunc :: "double \<Rightarrow> i64" where
  "dbl_trunc d = of_nat (d div 2 ^ 1074)"

definition dbl_fmt0 :: "double \<Rightarrow> string" where
  "dbl_fmt0 d = show_nat (rne_div d (2 ^ 1074))"

definition dbl_bits :: "double \<Rightarrow> u64" where
  "dbl_bits d = (let e = bit_length d - 53 in of_nat (e * 2 ^ 52 + d div 2 ^ e))"

lemma rne_div_ge: "q * d \<le> n \<Longrightarrow> 0 < d \<Longrightarrow> q \<le> rne_div n d"
  using rne_div_mono [of "q * d" n d] by (simp add: rne_div_exact)

lemma less_bit_length: "k < bit_length n \<longleftrightarrow> 2 ^ k \<le> n"
  by (simp add: bit_length_le_iff flip: not_le)

lemma bit_length_lower: "0 < bit_length n \<Longrightarrow> 2 ^ (bit_length n - 1) \<le> n"
  by (simp flip: less_bit_length)

text \<open>The quotient of a double by a smaller one is at least one.\<close>

lemma dbl_div_ge_one:
  assumes "0 < b" and "b \<le> a"
  shows "dbl 1 \<le> dbl_div a b"
proof -
  let ?q = "a * 2 ^ 1074 div b" and ?e = "bit_length (a * 2 ^ 1074 div b) - 53"
  have "b * 2 ^ 1074 div b \<le> ?q" using assms(2) by (intro div_le_mono mult_le_mono1)
  then have q: "2 ^ 1074 \<le> ?q" using assms(1) by simp
  then have len: "1074 < bit_length ?q" by (simp only: less_bit_length)
  have "2 ^ (bit_length ?q - 1) \<le> ?q" using len by (intro bit_length_lower) simp
  moreover have "bit_length ?q - 1 = 52 + ?e" using len by simp
  ultimately have "2 ^ 52 * 2 ^ ?e \<le> ?q" by (simp only: power_add)
  show ?thesis
  proof (cases "?e \<le> 1074")
    case True
    have "2 ^ (1074 - ?e) * (b * 2 ^ ?e) = b * 2 ^ 1074"
      using True by (simp add: mult.left_commute flip: power_add)
    also have "\<dots> \<le> a * 2 ^ 1074" using assms(2) by simp
    finally have "2 ^ (1074 - ?e) \<le> rne_div (a * 2 ^ 1074) (b * 2 ^ ?e)"
      using assms(1) by (intro rne_div_ge) simp_all
    then have "2 ^ (1074 - ?e) * 2 ^ ?e \<le> dbl_div a b"
      unfolding dbl_div_def Let_def by (rule mult_le_mono1)
    then show ?thesis using True by (simp add: dbl_def flip: power_add)
  next
    case False
    have "?q * b \<le> a * 2 ^ 1074" by (rule div_times_less_eq_dividend)
    then have "2 ^ 52 * 2 ^ ?e * b \<le> a * 2 ^ 1074"
      using mult_le_mono1 [OF \<open>2 ^ 52 * 2 ^ ?e \<le> ?q\<close>, of b] by (rule order_trans [rotated])
    then have "2 ^ 52 * (b * 2 ^ ?e) \<le> a * 2 ^ 1074" by (simp only: ac_simps)
    then have "2 ^ 52 \<le> rne_div (a * 2 ^ 1074) (b * 2 ^ ?e)"
      using assms(1) by (intro rne_div_ge) simp_all
    then have "2 ^ 52 * 2 ^ ?e \<le> dbl_div a b"
      unfolding dbl_div_def Let_def by (rule mult_le_mono1)
    moreover have "2 ^ 1074 \<le> (1::nat) * 2 ^ ?e" using False by (simp only: mult_1) (intro power_increasing, simp_all)
    moreover have "(1::nat) * 2 ^ ?e \<le> 2 ^ 52 * 2 ^ ?e" by (intro mult_le_mono1) simp
    ultimately show ?thesis unfolding dbl_def by linarith
  qed
qed

text \<open>Small whole numbers are exact.\<close>

lemma dbl_div_one: "n < 2 ^ 53 \<Longrightarrow> dbl_div (dbl n) (dbl 1) = dbl n"
proof -
  assume n: "n < 2 ^ 53"
  define e where "e = bit_length (dbl n) - 53"
  have "dbl n < 2 ^ 53 * 2 ^ 1074" unfolding dbl_def by (rule mult_strict_right_mono [OF n]) simp
  then have "bit_length (dbl n) \<le> 53 + 1074" unfolding bit_length_le_iff power_add .
  then have e: "e \<le> 1074" by (simp add: e_def)
  have q: "dbl n * 2 ^ 1074 div dbl 1 = dbl n" unfolding dbl_def by simp
  have "dbl n = n * 2 ^ (1074 - e) * 2 ^ e" unfolding dbl_def using e by (simp flip: power_add)
  then have "dbl n * 2 ^ 1074 = (n * 2 ^ (1074 - e)) * (dbl 1 * 2 ^ e)" unfolding dbl_def [of 1] by (simp only: ac_simps mult_1)
  then have "rne_div (dbl n * 2 ^ 1074) (dbl 1 * 2 ^ e) = n * 2 ^ (1074 - e)"
    by (simp only:) (rule rne_div_exact, simp add: dbl_def)
  then show ?thesis
    unfolding dbl_div_def Let_def q e_def [symmetric] using \<open>dbl n = n * 2 ^ (1074 - e) * 2 ^ e\<close> by simp
qed

lemma dbl_fmt0_dbl: "dbl_fmt0 (dbl n) = show_nat n"
  by (simp add: dbl_fmt0_def dbl_def rne_div_exact)

end
