(* ===== verification/Plan_Path.thy ===== *)
theory Plan_Path
  imports Doubles
begin

text \<open>
  Plan nodes as the collectors of \<open>otel_postgres_tracing\<close> read them, and the accumulator of
  \<open>otel_planpath.c\<close>: spills, the first shortfall of parallel workers, the worst row estimate,
  lossy bitmap pages, buffer counts and the three slowest nodes.  What an accumulation over
  the nodes of a plan holds is shown in \<open>Path_Props\<close>.
\<close>

section \<open>Plan nodes\<close>

text \<open>Nodes nothing but the name is read of; an unlisted tag is known by its number.\<close>

datatype plain_node =
    SeqScan | IndexScan | IndexOnlyScan | BitmapIndexScan | TidScan | TidRangeScan | SubqueryScan | ValuesScan | CteScan
  | NamedTuplestoreScan | WorkTableScan | NestLoop | MergeJoin | HashJoin | Memoize | Group | Unique | SetOp | LockRows
  | Limit | Append | MergeAppend | RecursiveUnion | BitmapAnd | BitmapOr | Result | ProjectSet | ModifyTable
  | UnlistedNode nat

text \<open>Statistics parallel workers leave in shared memory.\<close>

record sort_worker =
  sw_in_progress :: bool
  sw_disk :: bool
  sw_kb :: i64

record hash_instr =
  hi_nbatch :: int
  hi_space_peak :: i64

record agg_instr =
  ag_mem_peak :: u64
  ag_batches :: int
  ag_disk_kb :: i64

text \<open>
  A node's kind with what is read from it: a custom scan's method name, a gather's planned and
  launched workers, a finished sort's method, space type (\<open>Disk\<close> or \<open>Memory\<close>) and kilobytes, a hash
  table's or hashed aggregate's batches, the storage type and bytes of a tuple store, lossy
  pages, a foreign scan's relation.
\<close>

datatype node_kind =
    CustomScan "string option" | FunctionScan | TableFuncScan
  | Gather i64 i64 | GatherMerge i64 i64
  | Sort "(string \<times> string \<times> i64) option" "sort_worker list" | IncrementalSort
  | Hash "hash_instr option" "hash_instr list"
  | Agg bool agg_instr "agg_instr list"
  | Material "(string \<times> i64) option" | WindowAgg "(string \<times> i64) option"
  | BitmapHeapScan u64
  | ForeignScan "string option" | OtherNode plain_node

text \<open>A node's instrumentation, as it stands and after core's \<open>InstrEndLoop\<close>.\<close>

record instr_values =
  iv_startup_ms :: double
  iv_total_ms :: double
  iv_ntuples :: double
  iv_nloops :: double
  iv_read :: i64
  iv_hit :: i64
  iv_dirtied :: i64

record node_instr =
  ni_now :: instr_values
  ni_ended :: instr_values
  ni_plan_rows :: double

datatype plan_node = Node (node_id: nat) (node_kind: node_kind) (node_instr: "node_instr option") (node_children: "plan_node list")

section \<open>Node names\<close>

definition plain_name :: "plain_node \<Rightarrow> string" where
  "plain_name n =
     (case n of
        SeqScan \<Rightarrow> ''SeqScan'' | IndexScan \<Rightarrow> ''IndexScan'' | IndexOnlyScan \<Rightarrow> ''IndexOnlyScan''
      | BitmapIndexScan \<Rightarrow> ''BitmapIndexScan'' | TidScan \<Rightarrow> ''TidScan'' | TidRangeScan \<Rightarrow> ''TidRangeScan''
      | SubqueryScan \<Rightarrow> ''SubqueryScan'' | ValuesScan \<Rightarrow> ''ValuesScan'' | CteScan \<Rightarrow> ''CteScan''
      | NamedTuplestoreScan \<Rightarrow> ''NamedTuplestoreScan'' | WorkTableScan \<Rightarrow> ''WorkTableScan''
      | NestLoop \<Rightarrow> ''NestLoop'' | MergeJoin \<Rightarrow> ''MergeJoin'' | HashJoin \<Rightarrow> ''HashJoin''
      | Memoize \<Rightarrow> ''Memoize'' | Group \<Rightarrow> ''Group'' | Unique \<Rightarrow> ''Unique'' | SetOp \<Rightarrow> ''SetOp''
      | LockRows \<Rightarrow> ''LockRows'' | Limit \<Rightarrow> ''Limit'' | Append \<Rightarrow> ''Append'' | MergeAppend \<Rightarrow> ''MergeAppend''
      | RecursiveUnion \<Rightarrow> ''RecursiveUnion'' | BitmapAnd \<Rightarrow> ''BitmapAnd'' | BitmapOr \<Rightarrow> ''BitmapOr''
      | Result \<Rightarrow> ''Result'' | ProjectSet \<Rightarrow> ''ProjectSet'' | ModifyTable \<Rightarrow> ''ModifyTable''
      | UnlistedNode k \<Rightarrow> ''Node'' @ show_nat k)"

text \<open>
  The name of a node: a string literal, or a pointer to one static buffer, with what the
  call writes there (it holds 31 characters, which no 32-bit number fills).
\<close>

datatype tag_name = Literal string | Static_buf

definition nodetag_name :: "node_kind \<Rightarrow> tag_name \<times> string option" where
  "nodetag_name k =
     (case k of
        CustomScan n \<Rightarrow> (Literal ''CustomScan'', None) | FunctionScan \<Rightarrow> (Literal ''FunctionScan'', None)
      | TableFuncScan \<Rightarrow> (Literal ''TableFuncScan'', None) | Gather p l \<Rightarrow> (Literal ''Gather'', None)
      | GatherMerge p l \<Rightarrow> (Literal ''GatherMerge'', None) | Sort st ws \<Rightarrow> (Literal ''Sort'', None)
      | IncrementalSort \<Rightarrow> (Literal ''IncrementalSort'', None) | Hash h ws \<Rightarrow> (Literal ''Hash'', None)
      | Agg h a ws \<Rightarrow> (Literal ''Agg'', None) | Material t \<Rightarrow> (Literal ''Material'', None)
      | WindowAgg t \<Rightarrow> (Literal ''WindowAgg'', None) | BitmapHeapScan l \<Rightarrow> (Literal ''BitmapHeapScan'', None)
      | ForeignScan r \<Rightarrow> (Literal ''ForeignScan'', None)
      | OtherNode n \<Rightarrow>
          (case n of UnlistedNode tag \<Rightarrow> (Static_buf, Some (plain_name n)) | _ \<Rightarrow> (Literal (plain_name n), None)))"

text \<open>What a name reads as, given the buffer's contents at the time.\<close>

definition tag_text :: "string \<Rightarrow> tag_name \<Rightarrow> string" where
  "tag_text buf t = (case t of Literal s \<Rightarrow> s | Static_buf \<Rightarrow> buf)"

section \<open>The accumulator\<close>

definition N_SLOWEST :: nat where
  "N_SLOWEST = 3"

definition MISESTIMATE_THRESHOLD :: double where
  "MISESTIMATE_THRESHOLD = dbl 10"

text \<open>\<open>(b + 1023) / 1024\<close> on \<open>int64\<close>, whose division truncates towards zero.\<close>

definition BYTES_TO_KB :: "i64 \<Rightarrow> i64" where
  "BYTES_TO_KB n = (let i = sint (n + 1023) in of_int (if i < 0 then - (- i div 1024) else i div 1024))"

record slow_node =
  sn_total_ms :: double
  sn_tag :: "tag_name option"

record path_accum =
  ac_any_spill :: bool
  ac_spill_kb :: i64
  ac_shortfall :: "(i64 \<times> i64) option"
  ac_worst_ratio :: double
  ac_worst_tag :: "tag_name option"
  ac_lossy_pages :: u64
  ac_read :: i64
  ac_hit :: i64
  ac_dirtied :: i64
  ac_node_count :: u32
  ac_slowest :: "slow_node list"
  ac_tag_buf :: string

text \<open>The reset before a walk; the name buffer is not part of it.\<close>

definition accum_reset :: "path_accum \<Rightarrow> path_accum" where
  "accum_reset a =
     \<lparr>ac_any_spill = False, ac_spill_kb = 0, ac_shortfall = None, ac_worst_ratio = 0, ac_worst_tag = None, ac_lossy_pages = 0,
      ac_read = 0, ac_hit = 0, ac_dirtied = 0, ac_node_count = 0,
      ac_slowest = replicate N_SLOWEST \<lparr>sn_total_ms = 0, sn_tag = None\<rparr>, ac_tag_buf = ac_tag_buf a\<rparr>"

text \<open>The first place whose time is beaten; what follows shifts down, and the last falls out.\<close>

definition maybe_insert_slowest :: "tag_name \<Rightarrow> double \<Rightarrow> slow_node list \<Rightarrow> slow_node list" where
  "maybe_insert_slowest tag total_ms slowest =
     (case List.find (\<lambda>i. total_ms > sn_total_ms (slowest ! i)) [0..<N_SLOWEST] of
        None \<Rightarrow> slowest
      | Some at \<Rightarrow> take N_SLOWEST (take at slowest @ \<lparr>sn_total_ms = total_ms, sn_tag = Some tag\<rparr> # drop at slowest))"

definition add_spill :: "i64 \<Rightarrow> path_accum \<Rightarrow> path_accum" where
  "add_spill kb a = a\<lparr>ac_any_spill := True, ac_spill_kb := ac_spill_kb a + kb\<rparr>"

definition sort_spill :: "(string \<times> string \<times> i64) option \<Rightarrow> sort_worker list \<Rightarrow> path_accum \<Rightarrow> path_accum" where
  "sort_spill st workers a =
     foldl (\<lambda>a w. if sw_in_progress w then a else if sw_disk w then add_spill (sw_kb w) a else a)
       (case st of None \<Rightarrow> a | Some (m, space_type, kb) \<Rightarrow> if space_type = ''Disk'' then add_spill kb a else a) workers"

definition hash_merge :: "hash_instr \<Rightarrow> hash_instr \<Rightarrow> hash_instr" where
  "hash_merge h w =
     (let h1 = (if hi_nbatch w > hi_nbatch h then h\<lparr>hi_nbatch := hi_nbatch w\<rparr> else h)
      in if unat (hi_space_peak w) > unat (hi_space_peak h1) then h1\<lparr>hi_space_peak := hi_space_peak w\<rparr> else h1)"

definition hash_spill :: "hash_instr option \<Rightarrow> hash_instr list \<Rightarrow> path_accum \<Rightarrow> path_accum" where
  "hash_spill own workers a =
     (let h = foldl hash_merge (case own of None \<Rightarrow> \<lparr>hi_nbatch = 0, hi_space_peak = 0\<rparr> | Some h \<Rightarrow> h) workers
      in if hi_nbatch h > 1 then add_spill (BYTES_TO_KB (hi_space_peak h)) a else a)"

definition agg_spill :: "bool \<Rightarrow> agg_instr \<Rightarrow> agg_instr list \<Rightarrow> path_accum \<Rightarrow> path_accum" where
  "agg_spill hashed own workers a =
     (if hashed
      then foldl (\<lambda>a w. if ag_mem_peak w = 0 then a else if ag_batches w > 1 then add_spill (ag_disk_kb w) a else a)
             (if ag_batches own > 1 then add_spill (ag_disk_kb own) a else a) workers
      else a)"

definition tuplestore_spill :: "(string \<times> i64) option \<Rightarrow> path_accum \<Rightarrow> path_accum" where
  "tuplestore_spill st a =
     (case st of None \<Rightarrow> a | Some (storage, bytes) \<Rightarrow> if storage = ''Disk'' then add_spill (BYTES_TO_KB bytes) a else a)"

definition gather_shortfall :: "i64 \<Rightarrow> i64 \<Rightarrow> path_accum \<Rightarrow> path_accum" where
  "gather_shortfall planned launched a =
     (if ac_shortfall a = None \<and> launched <s planned then a\<lparr>ac_shortfall := Some (planned, launched)\<rparr> else a)"

definition kind_step :: "node_kind \<Rightarrow> path_accum \<Rightarrow> path_accum" where
  "kind_step k =
     (case k of
        Sort st ws \<Rightarrow> sort_spill st ws
      | Hash h ws \<Rightarrow> hash_spill h ws
      | Agg h own ws \<Rightarrow> agg_spill h own ws
      | Material st \<Rightarrow> tuplestore_spill st
      | WindowAgg st \<Rightarrow> tuplestore_spill st
      | Gather p l \<Rightarrow> gather_shortfall p l
      | GatherMerge p l \<Rightarrow> gather_shortfall p l
      | BitmapHeapScan lossy \<Rightarrow> (\<lambda>a. a\<lparr>ac_lossy_pages := ac_lossy_pages a + lossy\<rparr>)
      | _ \<Rightarrow> (\<lambda>a. a))"

text \<open>The estimate's error: the larger of planned and actual rows over the smaller, each at least 1.\<close>

definition row_ratio :: "double \<Rightarrow> double \<Rightarrow> double" where
  "row_ratio plan_rows actual_rows =
     (let p = (if plan_rows < dbl 1 then dbl 1 else plan_rows); r = (if actual_rows < dbl 1 then dbl 1 else actual_rows)
      in if p > r then dbl_div p r else dbl_div r p)"

definition executed :: "plan_node \<Rightarrow> node_instr option" where
  "executed ps = (case node_instr ps of None \<Rightarrow> None | Some ni \<Rightarrow> if iv_nloops (ni_ended ni) = 0 then None else Some ni)"

definition per_loop :: "(instr_values \<Rightarrow> double) \<Rightarrow> node_instr \<Rightarrow> double" where
  "per_loop f ni = dbl_div (f (ni_ended ni)) (iv_nloops (ni_ended ni))"

definition instr_step :: "tag_name \<Rightarrow> node_instr \<Rightarrow> path_accum \<Rightarrow> path_accum" where
  "instr_step tag ni a =
     (let iv = ni_ended ni;
          a1 = a\<lparr>ac_read := ac_read a + iv_read iv, ac_hit := ac_hit a + iv_hit iv, ac_dirtied := ac_dirtied a + iv_dirtied iv\<rparr>;
          a2 = a1\<lparr>ac_slowest := maybe_insert_slowest tag (per_loop iv_total_ms ni) (ac_slowest a1)\<rparr>;
          ratio = row_ratio (ni_plan_rows ni) (per_loop iv_ntuples ni)
      in if ratio > ac_worst_ratio a2 then a2\<lparr>ac_worst_ratio := ratio, ac_worst_tag := Some tag\<rparr> else a2)"

text \<open>Writing an unlisted node's name into the static buffer, which every earlier such name shares.\<close>

definition name_step :: "node_kind \<Rightarrow> path_accum \<Rightarrow> path_accum" where
  "name_step k a = (case snd (nodetag_name k) of None \<Rightarrow> a | Some text \<Rightarrow> a\<lparr>ac_tag_buf := text\<rparr>)"

definition accumulate_node :: "plan_node \<Rightarrow> path_accum \<Rightarrow> path_accum" where
  "accumulate_node ps a =
     (let a1 = name_step (node_kind ps) a;
          a2 = kind_step (node_kind ps) (a1\<lparr>ac_node_count := ac_node_count a1 + 1\<rparr>)
      in case executed ps of None \<Rightarrow> a2 | Some ni \<Rightarrow> instr_step (fst (nodetag_name (node_kind ps))) ni a2)"

definition planpath_check_misestimate :: "path_accum \<Rightarrow> bool" where
  "planpath_check_misestimate a \<longleftrightarrow> ac_worst_ratio a > MISESTIMATE_THRESHOLD"

end
