(* ===== verification/Plan_Walk.thy ===== *)
theory Plan_Walk
  imports Tracing_Base Plan_Path
begin

text \<open>
  The plan-tree side of \<open>otel_postgres_tracing\<close>: the session state its files share, the walk of
  \<open>otel_planwalk.c\<close> over the plan tree, and its collectors that open and close spans for plan
  nodes, \<open>otel_fdw.c\<close> (foreign scans) and \<open>otel_planspans.c\<close> (curated nodes and sorts).
  A plan tree is given with its children in the order core's \<open>planstate_tree_walker\<close> visits
  them, each node with an identity standing for its address and with what the collectors
  read from it at the time of the walk.
\<close>

section \<open>State\<close>

record sort_entry =
  so_node :: nat
  so_start :: int
  so_end :: int
  so_level :: int

record session =
  ss_prod :: producer
  ss_root :: root_state
  ss_par :: parallel_slots
  ss_stmts :: "track_entry list"
  ss_cursor :: "string option"
  ss_fdw :: "track_entry list"
  ss_spans :: "track_entry list"
  ss_sorts :: "sort_entry list"
  ss_txn :: i64
  ss_accum :: path_accum

text \<open>The backend a hook runs in.\<close>

record backend =
  bk_env :: env
  bk_loaded :: bool
  bk_possible :: bool
  bk_worker :: bool
  bk_worker_number :: i64
  bk_pid :: i64
  bk_my_proc :: int
  bk_leader_proc :: int
  bk_trace_all :: bool
  bk_database :: "string option"
  bk_database_oid :: i64
  bk_user :: "string option"
  bk_remote_host :: "string option"
  bk_application :: "string option"
  bk_active_portal :: "string option"
  bk_child_spans :: bool
  bk_node_stats :: bool
  bk_node_events :: bool
  bk_clock :: int
  bk_pg_version :: string

type_synonym 'a session_op = "(session, 'a) op"

text \<open>The producer reads the root context and the leader's context from the session.\<close>

definition env_of :: "backend \<Rightarrow> session \<Rightarrow> env" where
  "env_of b s = (bk_env b)\<lparr>e_root := ss_root s,
     e_leader_ctx := otel_parallel_get_leader_context (bk_leader_proc b) (ss_par s)\<rparr>"

definition call_prod :: "backend \<Rightarrow> (env \<Rightarrow> (producer, 'a) op) \<Rightarrow> 'a session_op" where
  "call_prod b m s = lift_op ss_prod ss_prod_update (m (env_of b s)) s"

definition set_prod :: "backend \<Rightarrow> (env \<Rightarrow> producer \<Rightarrow> producer) \<Rightarrow> session \<Rightarrow> session" where
  "set_prod b f s = s\<lparr>ss_prod := f (env_of b s) (ss_prod s)\<rparr>"

definition level_of :: "backend \<Rightarrow> int" where
  "level_of b = e_level (bk_env b)"

definition start_span :: "backend \<Rightarrow> start_args \<Rightarrow> i64 session_op" where
  "start_span b args = call_prod b (\<lambda>env. otel_span_start env (bk_loaded b) (bk_possible b) args)"

definition set_str :: "backend \<Rightarrow> i64 \<Rightarrow> string \<Rightarrow> string \<Rightarrow> session \<Rightarrow> session" where
  "set_str b ref key v = set_prod b (\<lambda>env. otel_span_set_str env ref key (Some v))"

definition set_int :: "backend \<Rightarrow> i64 \<Rightarrow> string \<Rightarrow> i64 \<Rightarrow> session \<Rightarrow> session" where
  "set_int b ref key v = set_prod b (\<lambda>env. otel_span_set_int env ref key v)"

definition otel_pg_tracer :: "backend \<Rightarrow> tracer" where
  "otel_pg_tracer b = \<lparr>tr_id = 1, tr_name = Some ''otel_postgres_tracing'', tr_version = Some (bk_pg_version b),
     tr_schema_url = None\<rparr>"

section \<open>Foreign scans\<close>

definition OTEL_FDW_SCAN_STACK_MAX :: nat where
  "OTEL_FDW_SCAN_STACK_MAX = 16"

definition otel_fdw_scan_begin :: "backend \<Rightarrow> nat \<Rightarrow> string option \<Rightarrow> unit session_op" where
  "otel_fdw_scan_begin b node relation =
     (\<lambda>s. case otel_span_current (env_of b s) (bk_loaded b) (ss_prod s) of (parent, p) \<Rightarrow>
       (let s1 = s\<lparr>ss_prod := p\<rparr> in
        if length (ss_fdw s1) \<ge> OTEL_FDW_SCAN_STACK_MAX then (Ret (), s1)
        else and_then (start_span b ((literal_args (otel_pg_tracer b) ''pg.fdw.scan'')\<lparr>sa_kind := KIND_CLIENT, sa_detached := True,
                 sa_parent := (if parent \<noteq> 0 then PARENT_SPAN else PARENT_ACTIVE), sa_parent_span := parent\<rparr>))
              (\<lambda>ref. modify (\<lambda>s.
                 if ref = 0 then s
                 else (let s2 = set_str b ref ''db.system.name'' ''postgresql'' s;
                           s3 = (case relation of None \<Rightarrow> s2 | Some r \<Rightarrow> set_str b ref ''db.collection.name'' r s2)
                       in s3\<lparr>ss_fdw := track_push node ref (level_of b) True (ss_fdw s3)\<rparr>))) s1))"

text \<open>Taking a tracked node off its stack; the caller ends the span (0 when it is not there).\<close>

definition pop_fdw :: "nat \<Rightarrow> session \<Rightarrow> i64 \<times> session" where
  "pop_fdw node s =
     (case track_find node (ss_fdw s) of
        None \<Rightarrow> (0, s)
      | Some i \<Rightarrow> (te_ref (ss_fdw s ! i), s\<lparr>ss_fdw := remove_at i (ss_fdw s)\<rparr>))"

definition end_span :: "backend \<Rightarrow> i64 \<Rightarrow> unit session_op" where
  "end_span b ref = call_prod b (\<lambda>env. otel_span_end env ref)"

text \<open>The span ends before its entry goes, so an ERROR from the end leaves the entry.\<close>

definition otel_fdw_scan_end :: "backend \<Rightarrow> nat \<Rightarrow> unit session_op" where
  "otel_fdw_scan_end b node s =
     (if track_find node (ss_fdw s) = None then (Ret (), s)
      else and_then (end_span b (fst (pop_fdw node s))) (\<lambda>_. modify (\<lambda>s. snd (pop_fdw node s))) s)"

definition otel_fdw_subxact_abort :: "backend \<Rightarrow> subxact_event \<Rightarrow> session \<Rightarrow> session" where
  "otel_fdw_subxact_abort b event s =
     (if event \<noteq> SUBXACT_ABORT \<or> ss_fdw s = [] then s else s\<lparr>ss_fdw := keep_below (level_of b) (ss_fdw s)\<rparr>)"

definition otel_fdw_reset :: "session \<Rightarrow> session" where
  "otel_fdw_reset s = s\<lparr>ss_fdw := []\<rparr>"

section \<open>Curated plan nodes\<close>

definition OTEL_PLANSPANS_STACK_MAX :: nat where
  "OTEL_PLANSPANS_STACK_MAX = 16"

definition OTEL_PLANWALK_MAX_ANCESTORS :: nat where
  "OTEL_PLANWALK_MAX_ANCESTORS = 64"

text \<open>What a collector is told: the statement's span and the node's ancestors, root first.\<close>

record walk_ctx =
  wc_stmt_span :: i64
  wc_ancestors :: "nat list"

definition planspans_span_name :: "node_kind \<Rightarrow> string option" where
  "planspans_span_name k =
     (case k of
        CustomScan n \<Rightarrow> Some ''pg.customscan''
      | FunctionScan \<Rightarrow> Some ''pg.funcscan''
      | TableFuncScan \<Rightarrow> Some ''pg.tablefuncscan''
      | Gather p l \<Rightarrow> Some ''pg.parallel.gather''
      | GatherMerge p l \<Rightarrow> Some ''pg.parallel.gather''
      | _ \<Rightarrow> None)"

fun nearest_tracked :: "track_entry list \<Rightarrow> nat list \<Rightarrow> i64 option" where
  "nearest_tracked es [] = None"
| "nearest_tracked es (a # as) =
     (case track_find a es of Some i \<Rightarrow> Some (te_ref (es ! i)) | None \<Rightarrow> nearest_tracked es as)"

definition planspans_parent :: "walk_ctx \<Rightarrow> session \<Rightarrow> i64" where
  "planspans_parent ctx s =
     (case nearest_tracked (ss_spans s) (rev (wc_ancestors ctx)) of Some r \<Rightarrow> r | None \<Rightarrow> wc_stmt_span ctx)"

definition is_sort :: "node_kind \<Rightarrow> bool" where
  "is_sort k = (case k of Sort st ws \<Rightarrow> True | _ \<Rightarrow> False)"

definition planspans_node_begin :: "backend \<Rightarrow> plan_node \<Rightarrow> walk_ctx \<Rightarrow> unit session_op" where
  "planspans_node_begin b ps ctx s =
     (if is_sort (node_kind ps) \<and> length (ss_sorts s) < OTEL_PLANSPANS_STACK_MAX
      then (Ret (), s\<lparr>ss_sorts := ss_sorts s @ [\<lparr>so_node = node_id ps, so_start = 0, so_end = 0, so_level = level_of b\<rparr>]\<rparr>)
      else case planspans_span_name (node_kind ps) of
        None \<Rightarrow> (Ret (), s)
      | Some name \<Rightarrow>
          if length (ss_spans s) \<ge> OTEL_PLANSPANS_STACK_MAX then (Ret (), s)
          else and_then (start_span b ((literal_args (otel_pg_tracer b) name)\<lparr>sa_detached := True,
                   sa_parent := PARENT_SPAN, sa_parent_span := planspans_parent ctx s\<rparr>))
                (\<lambda>ref. modify (\<lambda>s.
                   if ref = 0 then s
                   else (let s1 = (case node_kind ps of
                                     CustomScan (Some n) \<Rightarrow> set_str b ref ''pg.customscan.method'' n s
                                   | _ \<Rightarrow> s)
                         in s1\<lparr>ss_spans := track_push (node_id ps) ref (level_of b) True (ss_spans s1)\<rparr>))) s)"

section \<open>Sorts\<close>

definition sortwrap_find :: "nat \<Rightarrow> session \<Rightarrow> nat option" where
  "sortwrap_find node s = find_top (\<lambda>e. so_node e = node) (ss_sorts s)"

text \<open>
  The wrapper around a sort's first \<open>ExecProcNode\<close>: \<open>run\<close> is the replaced function, which may
  execute anything, \<open>t1\<close> and \<open>t2\<close> the clock before and after.
\<close>

definition sortwrap_exec :: "nat \<Rightarrow> int \<Rightarrow> int \<Rightarrow> 'r session_op \<Rightarrow> 'r session_op" where
  "sortwrap_exec node t1 t2 run s =
     (case sortwrap_find node s of
        None \<Rightarrow> (Throw, s)
      | Some i \<Rightarrow>
          and_then run (\<lambda>r s.
            case sortwrap_find node s of
              None \<Rightarrow> (Ret r, s)
            | Some j \<Rightarrow> (Ret r, s\<lparr>ss_sorts := (ss_sorts s)[j := (ss_sorts s ! j)\<lparr>so_end := t2\<rparr>]\<rparr>))
          (s\<lparr>ss_sorts := (ss_sorts s)[i := (ss_sorts s ! i)\<lparr>so_start := t1\<rparr>]\<rparr>))"

definition planpath_enabled :: "backend \<Rightarrow> bool" where
  "planpath_enabled b \<longleftrightarrow> bk_node_stats b \<or> bk_node_events b"

definition loop_rows :: "instr_values \<Rightarrow> i64 option" where
  "loop_rows iv = (if iv_nloops iv = 0 then None else Some (dbl_trunc (dbl_div (iv_ntuples iv) (iv_nloops iv))))"

text \<open>
  The bounds of a sort's span and the rows to report, if it ran; a tracked sort is forgotten.
  Only the other branch ends the instrumentation's loop, but if the collector of
  \<open>otel_planpath.c\<close> is on it has been at the node first and has ended it.
\<close>

definition sort_bounds :: "backend \<Rightarrow> plan_node \<Rightarrow> session \<Rightarrow> (int \<times> int \<times> i64 option) option \<times> session" where
  "sort_bounds b ps s =
     (case (if is_sort (node_kind ps) then sortwrap_find (node_id ps) s else None) of
        Some w \<Rightarrow>
          (let e = ss_sorts s ! w; s1 = s\<lparr>ss_sorts := remove_at w (ss_sorts s)\<rparr> in
           if so_end e = 0 then (None, s1)
           else (Some (so_start e, so_end e,
                   (case node_instr ps of None \<Rightarrow> None
                    | Some ni \<Rightarrow> loop_rows (if planpath_enabled b then ni_ended ni else ni_now ni))), s1))
      | None \<Rightarrow>
          (case node_instr ps of
             None \<Rightarrow> (None, s)
           | Some ni \<Rightarrow>
               if iv_nloops (ni_ended ni) = 0 then (None, s)
               else (Some (bk_clock b - sint (dbl_trunc (iv_total_ms (ni_ended ni))) * 1000, bk_clock b, loop_rows (ni_ended ni)), s)))"

definition sort_attrs :: "backend \<Rightarrow> i64 \<Rightarrow> plan_node \<Rightarrow> i64 option \<Rightarrow> session \<Rightarrow> session" where
  "sort_attrs b ref ps rows s =
     (let s2 = set_str b ref ''pg.plan.node.type'' (if is_sort (node_kind ps) then ''Sort'' else ''IncrementalSort'') s;
          s3 = (case rows of None \<Rightarrow> s2 | Some r \<Rightarrow> set_int b ref ''pg.plan.node.rows'' r s2)
      in case node_kind ps of
           Sort (Some (sort_method, space_type, kb)) ws \<Rightarrow>
             set_int b ref ''pg.sort.space_kb'' kb
               (set_str b ref ''pg.sort.space_type'' space_type (set_str b ref ''pg.sort.method'' sort_method s3))
         | _ \<Rightarrow> s3)"

definition planspans_sort_span :: "backend \<Rightarrow> plan_node \<Rightarrow> walk_ctx \<Rightarrow> unit session_op" where
  "planspans_sort_span b ps ctx s =
     (case sort_bounds b ps s of
        (None, s1) \<Rightarrow> (Ret (), s1)
      | (Some (start, stop, rows), s1) \<Rightarrow>
          and_then (start_span b ((literal_args (otel_pg_tracer b) ''pg.exec.sort'')\<lparr>sa_detached := True,
               sa_parent := PARENT_SPAN, sa_parent_span := planspans_parent ctx s1, sa_start_time := start\<rparr>)) (\<lambda>ref.
          if ref = 0 then ret ()
          else and_then (modify (sort_attrs b ref ps rows))
               (\<lambda>_. call_prod b (\<lambda>env. otel_span_end_at env ref stop))) s1)"

definition pop_planspan :: "nat \<Rightarrow> session \<Rightarrow> i64 \<times> session" where
  "pop_planspan node s =
     (case track_find node (ss_spans s) of
        None \<Rightarrow> (0, s)
      | Some i \<Rightarrow> (te_ref (ss_spans s ! i), s\<lparr>ss_spans := remove_at i (ss_spans s)\<rparr>))"

definition gather_attrs :: "backend \<Rightarrow> i64 \<Rightarrow> node_kind \<Rightarrow> session \<Rightarrow> session" where
  "gather_attrs b ref k s =
     (let put = (\<lambda>p l. set_int b ref ''pg.parallel.workers_launched'' l (set_int b ref ''pg.parallel.workers_planned'' p s)) in
      case k of Gather p l \<Rightarrow> put p l | GatherMerge p l \<Rightarrow> put p l | _ \<Rightarrow> s)"

definition planspans_node_end :: "backend \<Rightarrow> plan_node \<Rightarrow> walk_ctx \<Rightarrow> unit session_op" where
  "planspans_node_end b ps ctx s =
     (if is_sort (node_kind ps) \<or> node_kind ps = IncrementalSort then planspans_sort_span b ps ctx s
      else if planspans_span_name (node_kind ps) = None \<or> track_find (node_id ps) (ss_spans s) = None then (Ret (), s)
      else let ref = fst (pop_planspan (node_id ps) s) in
           and_then (modify (gather_attrs b ref (node_kind ps))) (\<lambda>_.
           and_then (end_span b ref) (\<lambda>_.
           modify (\<lambda>s. snd (pop_planspan (node_id ps) s)))) s)"

definition otel_planspans_subxact_abort :: "backend \<Rightarrow> subxact_event \<Rightarrow> session \<Rightarrow> session" where
  "otel_planspans_subxact_abort b event s =
     (if event \<noteq> SUBXACT_ABORT then s
      else s\<lparr>ss_sorts := filter (\<lambda>e. so_level e < level_of b) (ss_sorts s),
             ss_spans := keep_below (level_of b) (ss_spans s)\<rparr>)"

definition otel_planspans_reset :: "session \<Rightarrow> session" where
  "otel_planspans_reset s = s\<lparr>ss_spans := [], ss_sorts := []\<rparr>"

section \<open>The walk\<close>

definition OTEL_PLANWALK_MAX_COLLECTORS :: nat where
  "OTEL_PLANWALK_MAX_COLLECTORS = 8"

record collector =
  co_enabled :: "backend \<Rightarrow> bool"
  co_node_begin :: "(backend \<Rightarrow> plan_node \<Rightarrow> walk_ctx \<Rightarrow> unit session_op) option"
  co_node_end :: "(backend \<Rightarrow> plan_node \<Rightarrow> walk_ctx \<Rightarrow> unit session_op) option"
  co_end_walk_begin :: "(backend \<Rightarrow> walk_ctx \<Rightarrow> unit session_op) option"
  co_end_walk_end :: "(backend \<Rightarrow> walk_ctx \<Rightarrow> unit session_op) option"

text \<open>The registry; \<open>None\<close> is the ERROR when it is full.\<close>

definition otel_planwalk_register_collector :: "collector \<Rightarrow> collector list \<Rightarrow> collector list option" where
  "otel_planwalk_register_collector c cs =
     (if length cs \<ge> OTEL_PLANWALK_MAX_COLLECTORS then None else Some (cs @ [c]))"

text \<open>The mask of enabled collectors, as the sublist of them, computed once for each walk.\<close>

definition build_enabled_mask :: "backend \<Rightarrow> collector list \<Rightarrow> collector list" where
  "build_enabled_mask b cs = filter (\<lambda>c. co_enabled c b) cs"

fun run_all :: "unit session_op list \<Rightarrow> unit session_op" where
  "run_all [] = ret ()"
| "run_all (m # ms) = and_then m (\<lambda>_. run_all ms)"

definition optional_op :: "unit session_op option \<Rightarrow> unit session_op" where
  "optional_op m = (case m of None \<Rightarrow> ret () | Some f \<Rightarrow> f)"

definition visit_node :: "backend \<Rightarrow> collector list \<Rightarrow> bool \<Rightarrow> plan_node \<Rightarrow> walk_ctx \<Rightarrow> unit session_op" where
  "visit_node b enabled is_end ps ctx =
     run_all (map (\<lambda>c. optional_op (map_option (\<lambda>f. f b ps ctx) (if is_end then co_node_end c else co_node_begin c))) enabled)"

definition push_ancestor :: "nat \<Rightarrow> nat list \<Rightarrow> nat list" where
  "push_ancestor node ancestors =
     (if length ancestors < OTEL_PLANWALK_MAX_ANCESTORS then ancestors @ [node] else ancestors)"

text \<open>The walker never answers true, so core visits every child.\<close>

fun otel_planwalk_walker :: "backend \<Rightarrow> collector list \<Rightarrow> bool \<Rightarrow> i64 \<Rightarrow> nat list \<Rightarrow> plan_node \<Rightarrow> unit session_op"
  and walk_children :: "backend \<Rightarrow> collector list \<Rightarrow> bool \<Rightarrow> i64 \<Rightarrow> nat list \<Rightarrow> plan_node list \<Rightarrow> unit session_op" where
  "otel_planwalk_walker b enabled is_end stmt ancestors (Node n k i ps) =
     and_then (visit_node b enabled is_end (Node n k i ps) \<lparr>wc_stmt_span = stmt, wc_ancestors = ancestors\<rparr>)
       (\<lambda>_. walk_children b enabled is_end stmt (push_ancestor n ancestors) ps)"
| "walk_children b enabled is_end stmt ancestors [] = ret ()"
| "walk_children b enabled is_end stmt ancestors (p # ps) =
     and_then (otel_planwalk_walker b enabled is_end stmt ancestors p)
       (\<lambda>_. walk_children b enabled is_end stmt ancestors ps)"

definition otel_planwalk_executor_start :: "backend \<Rightarrow> collector list \<Rightarrow> plan_node option \<Rightarrow> i64 \<Rightarrow> unit session_op" where
  "otel_planwalk_executor_start b cs planstate stmt =
     (case planstate of
        None \<Rightarrow> ret ()
      | Some root \<Rightarrow>
          (let enabled = build_enabled_mask b cs in
           if enabled = [] then ret () else otel_planwalk_walker b enabled False stmt [] root))"

definition otel_planwalk_executor_end :: "backend \<Rightarrow> collector list \<Rightarrow> plan_node option \<Rightarrow> i64 \<Rightarrow> unit session_op" where
  "otel_planwalk_executor_end b cs planstate stmt =
     (case planstate of
        None \<Rightarrow> ret ()
      | Some root \<Rightarrow>
          (let enabled = build_enabled_mask b cs; ctx = \<lparr>wc_stmt_span = stmt, wc_ancestors = []\<rparr> in
           if enabled = [] then ret ()
           else and_then (run_all (map (\<lambda>c. optional_op (map_option (\<lambda>f. f b ctx) (co_end_walk_begin c))) enabled)) (\<lambda>_.
                and_then (otel_planwalk_walker b enabled True stmt [] root) (\<lambda>_.
                run_all (map (\<lambda>c. optional_op (map_option (\<lambda>f. f b ctx) (co_end_walk_end c))) enabled)))))"

definition otel_planwalk_want_instrumentation :: "backend \<Rightarrow> bool" where
  "otel_planwalk_want_instrumentation b \<longleftrightarrow> bk_node_stats b \<or> bk_node_events b \<or> bk_child_spans b"

section \<open>The collectors\<close>

definition otel_fdw_collector_node_begin :: "backend \<Rightarrow> plan_node \<Rightarrow> walk_ctx \<Rightarrow> unit session_op" where
  "otel_fdw_collector_node_begin b ps ctx =
     (case node_kind ps of ForeignScan r \<Rightarrow> otel_fdw_scan_begin b (node_id ps) r | _ \<Rightarrow> ret ())"

definition otel_fdw_collector_node_end :: "backend \<Rightarrow> plan_node \<Rightarrow> walk_ctx \<Rightarrow> unit session_op" where
  "otel_fdw_collector_node_end b ps ctx =
     (case node_kind ps of ForeignScan r \<Rightarrow> otel_fdw_scan_end b (node_id ps) | _ \<Rightarrow> ret ())"

definition fdw_collector :: collector where
  "fdw_collector = \<lparr>co_enabled = (\<lambda>b. True), co_node_begin = Some otel_fdw_collector_node_begin,
     co_node_end = Some otel_fdw_collector_node_end, co_end_walk_begin = None, co_end_walk_end = None\<rparr>"

definition planspans_collector :: collector where
  "planspans_collector = \<lparr>co_enabled = bk_child_spans, co_node_begin = Some planspans_node_begin,
     co_node_end = Some planspans_node_end, co_end_walk_begin = None, co_end_walk_end = None\<rparr>"

section \<open>The tracking stacks keep their contract\<close>

interpretation fdw_stack: tracking_stack ss_fdw pop_fdw "\<lambda>level s. s\<lparr>ss_fdw := keep_below level (ss_fdw s)\<rparr>" OTEL_FDW_SCAN_STACK_MAX
  by unfold_locales (auto simp: pop_fdw_def split: option.split)

interpretation planspans_stack: tracking_stack ss_spans pop_planspan "\<lambda>level s. s\<lparr>ss_spans := keep_below level (ss_spans s)\<rparr>"
  OTEL_PLANSPANS_STACK_MAX
  by unfold_locales (auto simp: pop_planspan_def split: option.split)

end
