(* ===== verification/Stmt_Trace.thy ===== *)
theory Stmt_Trace
  imports Plan_Walk Span_Log
begin

text \<open>
  The statement hooks of \<open>otel_postgres_tracing\<close> (\<open>otel_trace.c\<close>): the bookkeeping stack from a
  statement to its span, what a statement span is started with, the executor and utility
  hooks, the offer of the span's context to parallel workers, the lifetime of a
  trace context taken from a comment, and the transaction callbacks.  What a hook chains to
  (an earlier hook, or core's standard function) is a parameter: any operation on the session,
  which may run nested statements and may fail.  A hook is given the backend before and after
  that call, which may have changed settings.  Core never passes a null \<open>QueryDesc\<close>.
\<close>

section \<open>The statement stack\<close>

definition OTEL_STMT_STACK_MAX :: nat where
  "OTEL_STMT_STACK_MAX = 32"

definition otel_active_portal_is_declaring_cursor :: "backend \<Rightarrow> session \<Rightarrow> bool" where
  "otel_active_portal_is_declaring_cursor b s \<longleftrightarrow>
     (case (ss_cursor s, bk_active_portal b) of (Some cursor, Some portal) \<Rightarrow> portal = cursor | _ \<Rightarrow> False)"

definition push_stmt_span :: "backend \<Rightarrow> nat \<Rightarrow> i64 \<Rightarrow> bool \<Rightarrow> unit session_op" where
  "push_stmt_span b key ref detached s =
     (if ref = 0 then (Ret (), s)
      else if length (ss_stmts s) \<ge> OTEL_STMT_STACK_MAX then end_span b ref s
      else (Ret (), s\<lparr>ss_stmts := track_push key ref (level_of b) detached (ss_stmts s)\<rparr>))"

definition pop_stmt_span :: "nat \<Rightarrow> session \<Rightarrow> i64 \<times> session" where
  "pop_stmt_span key s =
     (case track_find key (ss_stmts s) of
        None \<Rightarrow> (0, s)
      | Some i \<Rightarrow> (te_ref (ss_stmts s ! i), s\<lparr>ss_stmts := remove_at i (ss_stmts s)\<rparr>))"

definition peek_cursor_span :: "nat \<Rightarrow> session \<Rightarrow> i64 option" where
  "peek_cursor_span key s =
     (case track_find key (ss_stmts s) of
        None \<Rightarrow> None
      | Some i \<Rightarrow> if \<not> te_detached (ss_stmts s ! i) then None else Some (te_ref (ss_stmts s ! i)))"

section \<open>Trace context from a comment, and for parallel workers\<close>

definition maybe_apply_sqlcommenter :: "backend \<Rightarrow> string option \<Rightarrow> session \<Rightarrow> session" where
  "maybe_apply_sqlcommenter b sql s =
     (if \<not> bk_loaded b \<or> sql = None then s
      else if rc_is_set (api_get_root_context (ss_root s)) then s
      else s\<lparr>ss_root := snd (otel_try_apply_sqlcommenter_context sql (ss_root s))\<rparr>)"

definition maybe_reset_comment_context :: "backend \<Rightarrow> session \<Rightarrow> session" where
  "maybe_reset_comment_context b s =
     (if bk_loaded b \<and> rc_from_comment (api_get_root_context (ss_root s))
      then s\<lparr>ss_root := api_reset_root_context (ss_root s)\<rparr> else s)"

definition context_of :: "backend \<Rightarrow> i64 \<Rightarrow> span_context option session_op" where
  "context_of b ref = call_prod b (\<lambda>env. otel_span_context_of env (bk_loaded b) ref)"

definition publish_leader_context :: "backend \<Rightarrow> i64 \<Rightarrow> unit session_op" where
  "publish_leader_context b ref =
     (if \<not> bk_loaded b \<or> ref = 0 then ret ()
      else and_then (context_of b ref) (\<lambda>ctx. modify (\<lambda>s.
        case ctx of
          None \<Rightarrow> s
        | Some c \<Rightarrow> s\<lparr>ss_par := otel_parallel_publish_leader_context (bk_my_proc b) (Some c) (ss_par s)\<rparr>)))"

definition restore_leader_context :: "backend \<Rightarrow> unit session_op" where
  "restore_leader_context b s =
     (if \<not> bk_loaded b then (Ret (), s)
      else if ss_stmts s \<noteq> [] then publish_leader_context b (te_ref (last (ss_stmts s))) s
      else (Ret (), s\<lparr>ss_par := otel_parallel_clear_leader_context (bk_my_proc b) (ss_par s)\<rparr>))"

section \<open>Starting and finishing a statement's span\<close>

text \<open>The link with the transaction's span, held by \<open>otel_sdt_bridge.c\<close>; without the probe hook
  in core there is none.\<close>

definition otel_sdt_get_txn_context :: "backend \<Rightarrow> span_context option session_op" where
  "otel_sdt_get_txn_context b s = (if ss_txn s = 0 then (Ret None, s) else context_of b (ss_txn s) s)"

definition otel_sdt_link_stmt_to_txn :: "backend \<Rightarrow> span_context \<Rightarrow> session \<Rightarrow> session" where
  "otel_sdt_link_stmt_to_txn b ctx s =
     (if ss_txn s = 0 then s else set_prod b (\<lambda>env. otel_span_add_link env (ss_txn s) (Some ctx)) s)"

definition link_with_txn :: "backend \<Rightarrow> i64 \<Rightarrow> unit session_op" where
  "link_with_txn b ref =
     and_then (otel_sdt_get_txn_context b) (\<lambda>txn.
       case txn of
         None \<Rightarrow> ret ()
       | Some c \<Rightarrow>
           and_then (modify (set_prod b (\<lambda>env. otel_span_add_link env ref (Some c)))) (\<lambda>_.
           and_then (context_of b ref) (\<lambda>mine. modify (\<lambda>s.
             case mine of None \<Rightarrow> s | Some m \<Rightarrow> otel_sdt_link_stmt_to_txn b m s))))"

text \<open>The outermost statement's parent is the client's context; others take the active one.\<close>

definition stmt_args :: "backend \<Rightarrow> string \<Rightarrow> bool \<Rightarrow> session \<Rightarrow> start_args" where
  "stmt_args b name detached s =
     (let args = (literal_args (otel_pg_tracer b) name)\<lparr>sa_kind := KIND_SERVER, sa_detached := detached,
                   sa_force_sample := bk_trace_all b\<rparr> in
      if ss_stmts s = [] \<and> \<not> bk_worker b
      then (let rc = (if bk_loaded b then api_get_root_context (ss_root s) else root_none) in
            args\<lparr>sa_parent := (if rc_is_set rc then PARENT_CONTEXT else PARENT_ROOT),
                 sa_parent_ctx := (if rc_is_set rc then Some (rc_ctx rc) else None)\<rparr>)
      else args)"

definition set_opt :: "backend \<Rightarrow> i64 \<Rightarrow> string \<Rightarrow> string option \<Rightarrow> session \<Rightarrow> session" where
  "set_opt b ref key v s = (case v of None \<Rightarrow> s | Some x \<Rightarrow> set_str b ref key x s)"

definition set_if :: "bool \<Rightarrow> (session \<Rightarrow> session) \<Rightarrow> session \<Rightarrow> session" where
  "set_if c f s = (if c then f s else s)"

definition stmt_attrs :: "backend \<Rightarrow> i64 \<Rightarrow> string option \<Rightarrow> i64 \<Rightarrow> session \<Rightarrow> session" where
  "stmt_attrs b ref query query_id s =
     (let s1 = set_str b ref ''db.system.name'' ''postgresql'' s;
          s2 = set_opt b ref ''db.namespace'' (bk_database b) s1;
          s3 = set_if (bk_database_oid b \<noteq> 0) (set_int b ref ''pg.database.oid'' (bk_database_oid b)) s2;
          s4 = set_if (otel_span_recording ref) (set_opt b ref ''db.query.text'' query) s3;
          s5 = set_opt b ref ''pg.session.user'' (bk_user b) s4;
          s6 = set_opt b ref ''client.address'' (bk_remote_host b) s5;
          s7 = set_if (bk_application b \<noteq> Some []) (set_opt b ref ''pg.application_name'' (bk_application b)) s6
      in set_if (query_id \<noteq> 0) (set_int b ref ''pg.query_id'' query_id) s7)"

definition start_stmt_span :: "backend \<Rightarrow> string \<Rightarrow> string option \<Rightarrow> i64 \<Rightarrow> bool \<Rightarrow> i64 session_op" where
  "start_stmt_span b name query query_id detached =
     and_then (context_of b 0) (\<lambda>ctx.
       if ctx = None \<and> \<not> bk_trace_all b then ret 0
       else (\<lambda>s. and_then (start_span b (stmt_args b name detached s)) (\<lambda>ref.
              if ref = 0 then ret 0
              else and_then (modify (stmt_attrs b ref query query_id)) (\<lambda>_.
                   and_then (publish_leader_context b ref) (\<lambda>_.
                   and_then (link_with_txn b ref) (\<lambda>_.
                   ret ref)))) s))"

definition finalize_stmt_span :: "backend \<Rightarrow> i64 \<Rightarrow> unit session_op" where
  "finalize_stmt_span b ref =
     (if ref = 0 then ret ()
      else and_then (end_span b ref) (\<lambda>_.
           and_then (restore_leader_context b) (\<lambda>_.
           modify (maybe_reset_comment_context b))))"

section \<open>The executor hooks\<close>

record query_desc =
  qd_key :: nat
  qd_source :: "string option"
  qd_query_id :: i64

text \<open>
  What the start hook chains to is told whether instrumentation was asked for; \<open>shape\<close> is
  \<open>otel_planshape_executor_start\<close> for this query, given the span.
\<close>

definition otel_ExecutorStart ::
    "backend \<Rightarrow> backend \<Rightarrow> collector list \<Rightarrow> query_desc \<Rightarrow> (bool \<Rightarrow> unit session_op) \<Rightarrow> plan_node option \<Rightarrow>
     (i64 \<Rightarrow> unit session_op) \<Rightarrow> unit session_op" where
  "otel_ExecutorStart b b' cs qd inner planstate shape s =
     (let is_cursor = otel_active_portal_is_declaring_cursor b s in
      and_then (modify (maybe_apply_sqlcommenter b (qd_source qd))) (\<lambda>_.
      and_then (start_stmt_span b ''pgsql.execute'' (qd_source qd) (qd_query_id qd) is_cursor) (\<lambda>ref.
      and_then (push_stmt_span b (qd_key qd) ref is_cursor) (\<lambda>_.
      and_then (modify (\<lambda>s.
        if bk_worker b
        then set_int b ref ''pg.backend.pid'' (bk_pid b) (set_int b ref ''pg.parallel.worker_number'' (bk_worker_number b) s)
        else s)) (\<lambda>_.
      and_then (inner (otel_span_recording ref \<and> otel_planwalk_want_instrumentation b)) (\<lambda>_.
      if otel_span_recording ref
      then and_then (otel_planwalk_executor_start b' cs planstate ref) (\<lambda>_. shape ref)
      else ret ()))))) s)"

definition otel_ExecutorRun :: "backend \<Rightarrow> backend \<Rightarrow> query_desc \<Rightarrow> 'r session_op \<Rightarrow> 'r session_op" where
  "otel_ExecutorRun b b' qd inner s =
     (case peek_cursor_span (qd_key qd) s of
        None \<Rightarrow> finally_do inner (ret ()) s
      | Some ref \<Rightarrow>
          (case otel_span_activate (env_of b s) (bk_loaded b) ref (ss_prod s) of (act, p) \<Rightarrow>
             finally_do inner (call_prod b' (\<lambda>env. otel_span_deactivate env act)) (s\<lparr>ss_prod := p\<rparr>)))"

definition otel_ExecutorEnd ::
    "backend \<Rightarrow> backend \<Rightarrow> collector list \<Rightarrow> query_desc \<Rightarrow> bool \<Rightarrow> plan_node option \<Rightarrow> unit session_op \<Rightarrow> unit session_op" where
  "otel_ExecutorEnd b b' cs qd workers_launched planstate inner s =
     (case pop_stmt_span (qd_key qd) s of (ref, s1) \<Rightarrow>
        and_then (modify (\<lambda>s. if workers_launched then set_prod b (\<lambda>env. otel_span_set_bool env ref ''pg.parallel.leader'' True) s else s)) (\<lambda>_.
        and_then (otel_planwalk_executor_end b cs planstate ref) (\<lambda>_.
        and_then inner (\<lambda>_.
        finalize_stmt_span b' ref))) s1)"

section \<open>The utility hook\<close>

text \<open>A call: the address of its token, the context, and what is read from the statement
  (\<open>ut_cursor\<close> is the portal's name when it is a \<open>DECLARE CURSOR\<close>).\<close>

record utility_call =
  ut_token :: nat
  ut_toplevel :: bool
  ut_query :: "string option"
  ut_tag :: "string option"
  ut_query_id :: i64
  ut_cursor :: "string option"

definition utility_begin :: "backend \<Rightarrow> utility_call \<Rightarrow> unit session_op" where
  "utility_begin b u =
     (if ut_toplevel u
      then and_then (modify (maybe_apply_sqlcommenter b (ut_query u))) (\<lambda>_.
           and_then (start_stmt_span b (case ut_tag u of Some tag \<Rightarrow> tag | None \<Rightarrow> ''pgsql.utility'') (ut_query u) (ut_query_id u) False) (\<lambda>ref.
           push_stmt_span b (ut_token u) ref False))
      else ret ())"

text \<open>The \<open>PG_CATCH\<close> block, and the code after the call.\<close>

definition utility_catch :: "utility_call \<Rightarrow> string option \<Rightarrow> session \<Rightarrow> session" where
  "utility_catch u saved s =
     (let s1 = s\<lparr>ss_cursor := saved\<rparr> in if ut_toplevel u then snd (pop_stmt_span (ut_token u) s1) else s1)"

definition utility_finish :: "backend \<Rightarrow> utility_call \<Rightarrow> string option \<Rightarrow> unit session_op" where
  "utility_finish b u saved s =
     (let s1 = s\<lparr>ss_cursor := saved\<rparr> in
      if ut_toplevel u then (case pop_stmt_span (ut_token u) s1 of (ref, s2) \<Rightarrow> finalize_stmt_span b ref s2)
      else (Ret (), s1))"

definition otel_ProcessUtility :: "backend \<Rightarrow> backend \<Rightarrow> utility_call \<Rightarrow> unit session_op \<Rightarrow> unit session_op" where
  "otel_ProcessUtility b b' u inner s =
     (let saved = ss_cursor s in
      and_then (utility_begin b u) (\<lambda>_.
      and_then (modify (\<lambda>s. if ut_cursor u \<noteq> None then s\<lparr>ss_cursor := ut_cursor u\<rparr> else s)) (\<lambda>_.
      and_then (catch_rethrow inner (utility_catch u saved)) (\<lambda>_.
      utility_finish b' u saved))) s)"

section \<open>Transaction callbacks and exit\<close>

definition otel_pgtracing_xact_callback :: "xact_event \<Rightarrow> session \<Rightarrow> session" where
  "otel_pgtracing_xact_callback event s =
     (if event = XACT_ABORT \<or> event = XACT_PARALLEL_ABORT
      then otel_planspans_reset (otel_fdw_reset (s\<lparr>ss_stmts := []\<rparr>)) else s)"

definition otel_pgtracing_subxact_callback :: "backend \<Rightarrow> subxact_event \<Rightarrow> session \<Rightarrow> session" where
  "otel_pgtracing_subxact_callback b event s =
     (let s1 = (if event = SUBXACT_ABORT then s\<lparr>ss_stmts := keep_below (level_of b) (ss_stmts s)\<rparr> else s)
      in otel_planspans_subxact_abort b event (otel_fdw_subxact_abort b event s1))"

definition otel_proc_exit_cb :: "session \<Rightarrow> session" where
  "otel_proc_exit_cb s = s\<lparr>ss_stmts := []\<rparr>"

interpretation stmt_stack: tracking_stack ss_stmts pop_stmt_span "\<lambda>level s. s\<lparr>ss_stmts := keep_below level (ss_stmts s)\<rparr>"
  OTEL_STMT_STACK_MAX
  by unfold_locales (auto simp: pop_stmt_span_def split: option.split)

end
