(* ===== verification/Path_Collector.thy ===== *)
theory Path_Collector
  imports Plan_Walk
begin

text \<open>
  The collector of \<open>otel_planpath.c\<close>: it resets the accumulator before the end walk, feeds every
  node to it, adds an event for each executed node to the statement's span if those are
  asked for, and at the end folds the totals onto that span as attributes.  It opens no
  span and tracks no node.
\<close>

section \<open>The collector\<close>

definition set_double :: "backend \<Rightarrow> i64 \<Rightarrow> string \<Rightarrow> double \<Rightarrow> session \<Rightarrow> session" where
  "set_double b ref key v = set_prod b (\<lambda>env. otel_span_set_double env ref key (dbl_bits v))"

definition set_bool :: "backend \<Rightarrow> i64 \<Rightarrow> string \<Rightarrow> bool \<Rightarrow> session \<Rightarrow> session" where
  "set_bool b ref key v = set_prod b (\<lambda>env. otel_span_set_bool env ref key v)"

definition planpath_end_walk_begin :: "backend \<Rightarrow> walk_ctx \<Rightarrow> session \<Rightarrow> session" where
  "planpath_end_walk_begin b ctx s = s\<lparr>ss_accum := accum_reset (ss_accum s)\<rparr>"

definition node_event_attrs :: "string \<Rightarrow> node_instr \<Rightarrow> attribute list" where
  "node_event_attrs name ni =
     [\<lparr>at_key = ''pg.plan.node.type'', at_val = ATTR_STRING (Some name)\<rparr>,
      \<lparr>at_key = ''pg.plan.node.actual_startup_ms'', at_val = ATTR_DOUBLE (dbl_bits (per_loop iv_startup_ms ni))\<rparr>,
      \<lparr>at_key = ''pg.plan.node.actual_total_ms'', at_val = ATTR_DOUBLE (dbl_bits (per_loop iv_total_ms ni))\<rparr>,
      \<lparr>at_key = ''pg.plan.node.rows'', at_val = ATTR_DOUBLE (dbl_bits (per_loop iv_ntuples ni))\<rparr>,
      \<lparr>at_key = ''pg.plan.node.loops'', at_val = ATTR_DOUBLE (dbl_bits (iv_nloops (ni_ended ni)))\<rparr>,
      \<lparr>at_key = ''pg.plan.node.buffers_read'', at_val = ATTR_INT (iv_read (ni_ended ni))\<rparr>,
      \<lparr>at_key = ''pg.plan.node.buffers_hit'', at_val = ATTR_INT (iv_hit (ni_ended ni))\<rparr>,
      \<lparr>at_key = ''pg.plan.node.buffers_dirtied'', at_val = ATTR_INT (iv_dirtied (ni_ended ni))\<rparr>]"

definition planpath_node_end :: "backend \<Rightarrow> plan_node \<Rightarrow> walk_ctx \<Rightarrow> session \<Rightarrow> session" where
  "planpath_node_end b ps ctx s =
     (let s1 = s\<lparr>ss_accum := accumulate_node ps (ss_accum s)\<rparr> in
      case executed ps of
        None \<Rightarrow> s1
      | Some ni \<Rightarrow>
          if bk_node_events b \<and> otel_span_recording (wc_stmt_span ctx)
          then set_prod b (\<lambda>env. otel_span_add_event env (wc_stmt_span ctx) (Some ''pg.plan.node'') 0
                 (node_event_attrs (tag_text (ac_tag_buf (ss_accum s1)) (fst (nodetag_name (node_kind ps)))) ni)) s1
          else s1)"

text \<open>The slowest nodes up to the first unused place, as \<open>tag:ms\<close> joined by commas.\<close>

fun slowest_items :: "string \<Rightarrow> slow_node list \<Rightarrow> string list" where
  "slowest_items buf [] = []"
| "slowest_items buf (n # ns) =
     (case sn_tag n of
        None \<Rightarrow> []
      | Some t \<Rightarrow> (tag_text buf t @ '':'' @ dbl_fmt0 (sn_total_ms n)) # slowest_items buf ns)"

fun join_commas :: "string list \<Rightarrow> string" where
  "join_commas [] = []"
| "join_commas (x # xs) = x @ (if xs = [] then [] else '','' @ join_commas xs)"

text \<open>The attributes, each only if there is something to say.\<close>

definition report_spill :: "backend \<Rightarrow> i64 \<Rightarrow> path_accum \<Rightarrow> session \<Rightarrow> session" where
  "report_spill b ref a s =
     (if ac_any_spill a then set_int b ref ''pg.exec.spill_kb'' (ac_spill_kb a) (set_bool b ref ''pg.exec.spilled'' True s) else s)"

definition report_shortfall :: "backend \<Rightarrow> i64 \<Rightarrow> path_accum \<Rightarrow> session \<Rightarrow> session" where
  "report_shortfall b ref a s =
     (case ac_shortfall a of
        None \<Rightarrow> s
      | Some (planned, launched) \<Rightarrow>
          set_int b ref ''pg.parallel.workers_launched'' launched (set_int b ref ''pg.parallel.workers_planned'' planned s))"

definition report_misestimate :: "backend \<Rightarrow> i64 \<Rightarrow> path_accum \<Rightarrow> session \<Rightarrow> session" where
  "report_misestimate b ref a s =
     (if planpath_check_misestimate a
      then set_prod b (\<lambda>env. otel_span_set_str env ref ''pg.exec.misestimate_node'' (map_option (tag_text (ac_tag_buf a)) (ac_worst_tag a)))
             (set_double b ref ''pg.exec.misestimate_ratio'' (ac_worst_ratio a) (set_bool b ref ''pg.exec.misestimate'' True s))
      else s)"

definition report_lossy :: "backend \<Rightarrow> i64 \<Rightarrow> path_accum \<Rightarrow> session \<Rightarrow> session" where
  "report_lossy b ref a s =
     (if ac_lossy_pages a > 0 then set_int b ref ''pg.exec.bitmap_lossy_pages'' (ac_lossy_pages a) s else s)"

definition report_positive :: "backend \<Rightarrow> i64 \<Rightarrow> string \<Rightarrow> i64 \<Rightarrow> session \<Rightarrow> session" where
  "report_positive b ref key v s = (if 0 <s v then set_int b ref key v s else s)"

definition report_actuals :: "backend \<Rightarrow> i64 \<Rightarrow> path_accum \<Rightarrow> session \<Rightarrow> session" where
  "report_actuals b ref a s =
     set_int b ref ''pg.exec.node_count'' (scast (ac_node_count a))
       (report_positive b ref ''pg.exec.buffers_dirtied'' (ac_dirtied a)
         (report_positive b ref ''pg.exec.buffers_hit'' (ac_hit a)
           (report_positive b ref ''pg.exec.buffers_read'' (ac_read a) s)))"

definition report_slowest :: "backend \<Rightarrow> i64 \<Rightarrow> path_accum \<Rightarrow> session \<Rightarrow> session" where
  "report_slowest b ref a s =
     (let items = slowest_items (ac_tag_buf a) (ac_slowest a)
      in if items \<noteq> [] then set_str b ref ''pg.exec.slowest_nodes'' (join_commas items) s else s)"

definition planpath_end_walk_end :: "backend \<Rightarrow> walk_ctx \<Rightarrow> session \<Rightarrow> session" where
  "planpath_end_walk_end b ctx s =
     (if \<not> otel_span_recording (wc_stmt_span ctx) then s
      else (let ref = wc_stmt_span ctx; a = ss_accum s in
            report_slowest b ref a (report_actuals b ref a (report_lossy b ref a (report_misestimate b ref a
              (report_shortfall b ref a (report_spill b ref a s)))))))"

definition planpath_collector :: collector where
  "planpath_collector = \<lparr>co_enabled = planpath_enabled, co_node_begin = None,
     co_node_end = Some (\<lambda>b ps ctx. modify (planpath_node_end b ps ctx)),
     co_end_walk_begin = Some (\<lambda>b ctx. modify (planpath_end_walk_begin b ctx)),
     co_end_walk_end = Some (\<lambda>b ctx. modify (planpath_end_walk_end b ctx))\<rparr>"

section \<open>What it leaves alone\<close>

text \<open>Only the producer and the accumulator change.\<close>

definition only_reports :: "session \<Rightarrow> session \<Rightarrow> bool" where
  "only_reports s t \<longleftrightarrow> t = s\<lparr>ss_prod := ss_prod t, ss_accum := ss_accum t\<rparr>"

lemma only_reportsD:
  assumes "only_reports s t"
  shows "ss_root t = ss_root s" "ss_par t = ss_par s" "ss_stmts t = ss_stmts s" "ss_cursor t = ss_cursor s" "ss_fdw t = ss_fdw s"
    "ss_spans t = ss_spans s" "ss_sorts t = ss_sorts s" "ss_txn t = ss_txn s"
proof -
  have t: "t = s\<lparr>ss_prod := ss_prod t, ss_accum := ss_accum t\<rparr>" using assms by (simp add: only_reports_def)
  show "ss_root t = ss_root s" "ss_par t = ss_par s" "ss_stmts t = ss_stmts s" "ss_cursor t = ss_cursor s" "ss_fdw t = ss_fdw s"
    "ss_spans t = ss_spans s" "ss_sorts t = ss_sorts s" "ss_txn t = ss_txn s" by (subst t, simp)+
qed

lemma only_reports_refl: "only_reports s s"
  by (simp add: only_reports_def)

lemma only_reports_trans: "only_reports s t \<Longrightarrow> only_reports t u \<Longrightarrow> only_reports s u"
  unfolding only_reports_def by (metis session.surjective session.update_convs(1,10))

lemma only_reports_set: "only_reports s (set_prod b f s)" "only_reports s (s\<lparr>ss_accum := a\<rparr>)"
  by (simp_all add: only_reports_def set_prod_def)

lemma reports_set_prod: "only_reports s t \<Longrightarrow> only_reports s (set_prod b f t)"
  by (erule only_reports_trans) (rule only_reports_set)

lemma reports_set: "only_reports s t \<Longrightarrow> only_reports s (set_int b ref k v t)" "only_reports s t \<Longrightarrow> only_reports s (set_str b ref k w t)"
  "only_reports s t \<Longrightarrow> only_reports s (set_bool b ref k x t)" "only_reports s t \<Longrightarrow> only_reports s (set_double b ref k d t)"
  by (simp_all add: set_int_def set_str_def set_bool_def set_double_def reports_set_prod)

lemma planpath_only_reports:
  "only_reports s (planpath_end_walk_begin b ctx s)" "only_reports s (planpath_node_end b ps ctx s)"
  "only_reports s (planpath_end_walk_end b ctx s)"
proof -
  have report: "only_reports s t \<Longrightarrow> only_reports s (report_spill b ref a t)" "only_reports s t \<Longrightarrow> only_reports s (report_shortfall b ref a t)"
      "only_reports s t \<Longrightarrow> only_reports s (report_misestimate b ref a t)" "only_reports s t \<Longrightarrow> only_reports s (report_lossy b ref a t)"
      "only_reports s t \<Longrightarrow> only_reports s (report_actuals b ref a t)" "only_reports s t \<Longrightarrow> only_reports s (report_slowest b ref a t)"
    for ref a t
    by (simp_all add: report_spill_def report_shortfall_def report_misestimate_def report_lossy_def report_positive_def
        report_actuals_def report_slowest_def Let_def reports_set reports_set_prod split: option.split)
  show "only_reports s (planpath_end_walk_begin b ctx s)" by (simp add: planpath_end_walk_begin_def only_reports_set)
  show "only_reports s (planpath_node_end b ps ctx s)"
    by (simp add: planpath_node_end_def Let_def only_reports_set reports_set_prod split: option.split)
  show "only_reports s (planpath_end_walk_end b ctx s)"
    by (simp add: planpath_end_walk_end_def only_reports_refl report Let_def)
qed

lemmas planpath_frame [simp] = only_reportsD [OF planpath_only_reports(1)] only_reportsD [OF planpath_only_reports(2)]
  only_reportsD [OF planpath_only_reports(3)]

end
