(* ===== verification/Walk_Props.thy ===== *)
theory Walk_Props
  imports Path_Collector
begin

text \<open>
  What the plan walk does: it visits every node once, parents before children; and the walk at
  the end of an execution takes from the tracking stacks exactly what the walk at its start
  put there.
\<close>

section \<open>The walk as a list of visits\<close>

fun preorder :: "nat list \<Rightarrow> plan_node \<Rightarrow> (plan_node \<times> nat list) list"
  and preorder_list :: "nat list \<Rightarrow> plan_node list \<Rightarrow> (plan_node \<times> nat list) list" where
  "preorder ancestors (Node n k i ps) = (Node n k i ps, ancestors) # preorder_list (push_ancestor n ancestors) ps"
| "preorder_list ancestors [] = []"
| "preorder_list ancestors (p # ps) = preorder ancestors p @ preorder_list ancestors ps"

definition visits :: "backend \<Rightarrow> collector list \<Rightarrow> bool \<Rightarrow> i64 \<Rightarrow> (plan_node \<times> nat list) list \<Rightarrow> unit session_op" where
  "visits b enabled is_end stmt nodes =
     run_all (map (\<lambda>(ps, anc). visit_node b enabled is_end ps \<lparr>wc_stmt_span = stmt, wc_ancestors = anc\<rparr>) nodes)"

lemma run_all_append: "run_all (xs @ ys) = and_then (run_all xs) (\<lambda>_. run_all ys)"
  by (induction xs) (simp_all add: and_then_ret and_then_assoc)

lemma visits_Cons: "visits b en is_end stmt ((p, anc) # nodes) =
    and_then (visit_node b en is_end p \<lparr>wc_stmt_span = stmt, wc_ancestors = anc\<rparr>) (\<lambda>_. visits b en is_end stmt nodes)"
  by (simp add: visits_def)

lemma visits_append: "visits b en is_end stmt (xs @ ys) = and_then (visits b en is_end stmt xs) (\<lambda>_. visits b en is_end stmt ys)"
  by (simp add: visits_def run_all_append)

lemma walker_visits:
  "otel_planwalk_walker b enabled is_end stmt ancestors root = visits b enabled is_end stmt (preorder ancestors root)"
  "walk_children b enabled is_end stmt ancestors ps = visits b enabled is_end stmt (preorder_list ancestors ps)"
  by (induction b enabled is_end stmt ancestors root and b enabled is_end stmt ancestors ps
        rule: otel_planwalk_walker_walk_children.induct)
     (simp_all add: visits_Cons visits_append, simp add: visits_def)

text \<open>The recursive walk is the sequence of the enabled collectors' callbacks over the plan
  tree's nodes in preorder, each called once with the node's recorded ancestors.\<close>

theorem walker_visits_preorder:
  "otel_planwalk_walker b enabled is_end stmt [] root = visits b enabled is_end stmt (preorder [] root)"
  by (rule walker_visits)

section \<open>What one visit does to the tracking stacks\<close>

definition foreign :: "node_kind \<Rightarrow> bool" where
  "foreign k \<longleftrightarrow> (case k of ForeignScan r \<Rightarrow> True | _ \<Rightarrow> False)"

definition curated :: "node_kind \<Rightarrow> bool" where
  "curated k \<longleftrightarrow> planspans_span_name k \<noteq> None"

lemma call_prod_frame:
  "call_prod b m s = (x, t) \<Longrightarrow> ss_fdw t = ss_fdw s \<and> ss_spans t = ss_spans s \<and> ss_stmts t = ss_stmts s"
  by (auto simp: call_prod_def lift_op_def split: prod.splits)

lemma set_frame [simp]:
  "ss_fdw (set_prod b f s) = ss_fdw s" "ss_spans (set_prod b f s) = ss_spans s" "ss_stmts (set_prod b f s) = ss_stmts s"
  "ss_fdw (set_str b ref key v s) = ss_fdw s" "ss_spans (set_str b ref key v s) = ss_spans s" "ss_stmts (set_str b ref key v s) = ss_stmts s"
  "ss_fdw (set_int b ref key i s) = ss_fdw s" "ss_spans (set_int b ref key i s) = ss_spans s" "ss_stmts (set_int b ref key i s) = ss_stmts s"
  by (simp_all add: set_prod_def set_str_def set_int_def)

text \<open>\<open>grows P n es fs\<close>: at most one entry, for node \<open>n\<close> and only if \<open>P\<close>, has been put on top.\<close>

definition grows :: "bool \<Rightarrow> nat \<Rightarrow> track_entry list \<Rightarrow> track_entry list \<Rightarrow> bool" where
  "grows P n es fs \<longleftrightarrow> fs = es \<or> P \<and> (\<exists>e. te_key e = n \<and> te_ref e \<noteq> 0 \<and> fs = es @ [e])"

definition drops :: "bool \<Rightarrow> nat \<Rightarrow> track_entry list \<Rightarrow> track_entry list" where
  "drops P n es = filter (\<lambda>e. \<not> (P \<and> te_key e = n)) es"

lemma remove_found:
  assumes "track_find n es = Some i" and "distinct (map te_key es)"
  shows "remove_at i es = filter (\<lambda>e. te_key e \<noteq> n) es"
proof -
  have i: "i < length es" "te_key (es ! i) = n"
    using assms(1) find_top_lt find_top_at by (fastforce simp: track_find_def)+
  have split: "es = take i es @ es ! i # drop (Suc i) es" by (rule id_take_nth_drop [OF i(1)])
  then have "map te_key es = map te_key (take i es) @ n # map te_key (drop (Suc i) es)" using i(2)
    by (metis list.simps(9) map_append)
  with assms(2) have "n \<notin> te_key ` set (take i es)" "n \<notin> te_key ` set (drop (Suc i) es)" by simp_all
  then have "filter (\<lambda>e. te_key e \<noteq> n) (take i es) = take i es" "filter (\<lambda>e. te_key e \<noteq> n) (drop (Suc i) es) = drop (Suc i) es"
    by (auto simp: filter_id_conv)
  then show ?thesis using i(2) by (subst split) (simp add: remove_at_def)
qed

lemma missing_filter: "track_find n es = None \<Longrightarrow> filter (\<lambda>e. te_key e \<noteq> n) es = es"
  by (auto simp: track_find_def filter_id_conv)

lemma and_then_modify_RetD:
  "and_then m (\<lambda>a. modify (f a)) s = (Ret c, t) \<Longrightarrow> \<exists>a u. m s = (Ret a, u) \<and> t = f a u"
  by (auto simp: modify_def dest!: and_then_RetD)

lemma start_span_frame:
  "start_span b args s = (x, t) \<Longrightarrow> ss_fdw t = ss_fdw s \<and> ss_spans t = ss_spans s \<and> ss_stmts t = ss_stmts s"
  "end_span b ref s = (y, t) \<Longrightarrow> ss_fdw t = ss_fdw s \<and> ss_spans t = ss_spans s \<and> ss_stmts t = ss_stmts s"
  by (simp_all add: start_span_def end_span_def call_prod_frame)

lemma fdw_begin_grows:
  assumes "otel_fdw_scan_begin b n r s = (Ret (), t)"
  shows "grows True n (ss_fdw s) (ss_fdw t) \<and> ss_spans t = ss_spans s"
proof -
  obtain parent p where c: "otel_span_current (env_of b s) (bk_loaded b) (ss_prod s) = (parent, p)" by (metis surj_pair)
  show ?thesis
  proof (cases "OTEL_FDW_SCAN_STACK_MAX \<le> length (ss_fdw s)")
    case True
    then show ?thesis using assms by (auto simp: otel_fdw_scan_begin_def c grows_def)
  next
    case False
    then have run: "and_then (start_span b ((literal_args (otel_pg_tracer b) ''pg.fdw.scan'')\<lparr>sa_kind := KIND_CLIENT, sa_detached := True,
                 sa_parent := (if parent \<noteq> 0 then PARENT_SPAN else PARENT_ACTIVE), sa_parent_span := parent\<rparr>))
              (\<lambda>ref. modify (\<lambda>s.
                 if ref = 0 then s
                 else (let s2 = set_str b ref ''db.system.name'' ''postgresql'' s;
                           s3 = (case r of None \<Rightarrow> s2 | Some r \<Rightarrow> set_str b ref ''db.collection.name'' r s2)
                       in s3\<lparr>ss_fdw := track_push n ref (level_of b) True (ss_fdw s3)\<rparr>))) (s\<lparr>ss_prod := p\<rparr>) = (Ret (), t)"
      using assms by (simp add: otel_fdw_scan_begin_def c Let_def)
    from and_then_modify_RetD [OF this] obtain ref u where
        u: "start_span b ((literal_args (otel_pg_tracer b) ''pg.fdw.scan'')\<lparr>sa_kind := KIND_CLIENT, sa_detached := True,
                 sa_parent := (if parent \<noteq> 0 then PARENT_SPAN else PARENT_ACTIVE), sa_parent_span := parent\<rparr>) (s\<lparr>ss_prod := p\<rparr>) = (Ret ref, u)"
        and t: "t = (if ref = 0 then u
                 else (let s2 = set_str b ref ''db.system.name'' ''postgresql'' u;
                           s3 = (case r of None \<Rightarrow> s2 | Some r \<Rightarrow> set_str b ref ''db.collection.name'' r s2)
                       in s3\<lparr>ss_fdw := track_push n ref (level_of b) True (ss_fdw s3)\<rparr>))" by blast
    have "ss_fdw u = ss_fdw s" "ss_spans u = ss_spans s" using start_span_frame(1) [OF u] by simp_all
    then show ?thesis
      using t by (auto simp: grows_def track_push_def Let_def split: option.split)
  qed
qed

lemma pop_drops:
  "distinct (map te_key (ss_fdw s)) \<Longrightarrow> ss_fdw (snd (pop_fdw n s)) = drops True n (ss_fdw s)"
  "distinct (map te_key (ss_spans s)) \<Longrightarrow> ss_spans (snd (pop_planspan n s)) = drops True n (ss_spans s)"
  "ss_spans (snd (pop_fdw n s)) = ss_spans s" "ss_fdw (snd (pop_planspan n s)) = ss_fdw s"
  by (auto simp: pop_fdw_def pop_planspan_def drops_def remove_found missing_filter split: option.split)

lemma fdw_end_drops:
  assumes "otel_fdw_scan_end b n s = (Ret (), t)" and "distinct (map te_key (ss_fdw s))"
  shows "ss_fdw t = drops True n (ss_fdw s) \<and> ss_spans t = ss_spans s"
proof (cases "track_find n (ss_fdw s)")
  case None
  then show ?thesis using assms(1) by (simp add: otel_fdw_scan_end_def drops_def missing_filter)
next
  case (Some i)
  then obtain u where "ss_fdw u = ss_fdw s" "ss_spans u = ss_spans s" "t = snd (pop_fdw n u)"
    using assms(1) by (auto simp: otel_fdw_scan_end_def end_span_def modify_def dest!: and_then_RetD dest: call_prod_frame)
  then show ?thesis using pop_drops(1,3) [where s = u and n = n] assms(2) by simp
qed

lemma planspans_begin_grows:
  assumes "planspans_node_begin b ps ctx s = (Ret (), t)"
  shows "grows (curated (node_kind ps)) (node_id ps) (ss_spans s) (ss_spans t) \<and> ss_fdw t = ss_fdw s"
proof (cases "is_sort (node_kind ps) \<and> length (ss_sorts s) < OTEL_PLANSPANS_STACK_MAX")
  case True
  then show ?thesis using assms by (auto simp: planspans_node_begin_def grows_def)
next
  case sort: False
  show ?thesis
  proof (cases "planspans_span_name (node_kind ps)")
    case None
    then show ?thesis using assms sort by (auto simp: planspans_node_begin_def grows_def)
  next
    case (Some name)
    show ?thesis
    proof (cases "OTEL_PLANSPANS_STACK_MAX \<le> length (ss_spans s)")
      case True
      then show ?thesis using assms sort Some by (auto simp: planspans_node_begin_def grows_def)
    next
      case False
      let ?args = "(literal_args (otel_pg_tracer b) name)\<lparr>sa_detached := True,
                   sa_parent := PARENT_SPAN, sa_parent_span := planspans_parent ctx s\<rparr>"
      let ?put = "\<lambda>ref s. if ref = 0 then s
                   else (let s1 = (case node_kind ps of CustomScan (Some n) \<Rightarrow> set_str b ref ''pg.customscan.method'' n s | _ \<Rightarrow> s)
                         in s1\<lparr>ss_spans := track_push (node_id ps) ref (level_of b) True (ss_spans s1)\<rparr>)"
      have "and_then (start_span b ?args) (\<lambda>ref. modify (?put ref)) s = (Ret (), t)"
        using assms sort Some False unfolding planspans_node_begin_def by simp
      from and_then_modify_RetD [OF this] obtain ref u where
          st: "start_span b ?args s = (Ret ref, u)" and t: "t = ?put ref u" by blast
      have u: "ss_fdw u = ss_fdw s" "ss_spans u = ss_spans s" using start_span_frame(1) [OF st] by simp_all
      have "\<exists>s1. ss_fdw s1 = ss_fdw u \<and> ss_spans s1 = ss_spans u \<and>
          (case node_kind ps of CustomScan (Some n) \<Rightarrow> set_str b ref ''pg.customscan.method'' n u | _ \<Rightarrow> u) = s1"
        by (simp split: node_kind.split option.split)
      then show ?thesis using t u Some by (auto simp: grows_def track_push_def curated_def Let_def)
    qed
  qed
qed

lemma sort_bounds_frame:
  "sort_bounds b ps s = (r, t) \<Longrightarrow> ss_fdw t = ss_fdw s \<and> ss_spans t = ss_spans s"
  by (auto simp: sort_bounds_def Let_def split: option.splits if_splits)

lemma sort_span_frame:
  assumes "planspans_sort_span b ps ctx s = (Ret (), t)"
  shows "ss_fdw t = ss_fdw s \<and> ss_spans t = ss_spans s"
proof -
  obtain r s1 where r: "sort_bounds b ps s = (r, s1)" by (metis surj_pair)
  note f = sort_bounds_frame [OF r]
  show ?thesis
  proof (cases r)
    case None
    then show ?thesis using assms f by (simp add: planspans_sort_span_def r)
  next
    case (Some bounds)
    obtain start stop rows where bounds: "bounds = (start, stop, rows)" by (metis prod_cases3)
    let ?set = "\<lambda>ref. sort_attrs b ref ps rows"
    let ?args = "(literal_args (otel_pg_tracer b) ''pg.exec.sort'')\<lparr>sa_detached := True,
               sa_parent := PARENT_SPAN, sa_parent_span := planspans_parent ctx s1, sa_start_time := start\<rparr>"
    have "and_then (start_span b ?args) (\<lambda>ref. if ref = 0 then ret ()
        else and_then (modify (?set ref)) (\<lambda>_. call_prod b (\<lambda>env. otel_span_end_at env ref stop))) s1 = (Ret (), t)"
      using assms unfolding planspans_sort_span_def r Some bounds prod.case option.case .
    from and_then_RetD [OF this] obtain ref u where st: "start_span b ?args s1 = (Ret ref, u)"
        and rest: "(if ref = 0 then ret ()
          else and_then (modify (?set ref)) (\<lambda>_. call_prod b (\<lambda>env. otel_span_end_at env ref stop))) u = (Ret (), t)"
      by blast
    have fs: "ss_fdw (?set ref u) = ss_fdw u \<and> ss_spans (?set ref u) = ss_spans u"
      by (simp add: sort_attrs_def Let_def split: node_kind.split option.split)
    have "ss_fdw t = ss_fdw u \<and> ss_spans t = ss_spans u"
    proof (cases "ref = 0")
      case True
      then show ?thesis using rest by (simp add: ret_def)
    next
      case False
      then have "call_prod b (\<lambda>env. otel_span_end_at env ref stop) (?set ref u) = (Ret (), t)"
        using rest by (simp only: if_False and_then_modify)
      from call_prod_frame [OF this] fs show ?thesis by simp
    qed
    then show ?thesis using start_span_frame(1) [OF st] f by simp
  qed
qed

lemma gather_frame: "ss_fdw (gather_attrs b ref k s) = ss_fdw s" "ss_spans (gather_attrs b ref k s) = ss_spans s"
  by (simp_all add: gather_attrs_def Let_def split: node_kind.split)

lemma sorts_not_curated: "is_sort k \<or> k = IncrementalSort \<Longrightarrow> \<not> curated k"
  by (auto simp: is_sort_def curated_def planspans_span_name_def split: node_kind.splits)

lemma planspans_end_drops:
  assumes "planspans_node_end b ps ctx s = (Ret (), t)" and "distinct (map te_key (ss_spans s))"
  shows "ss_spans t = drops (curated (node_kind ps)) (node_id ps) (ss_spans s) \<and> ss_fdw t = ss_fdw s"
proof (cases "is_sort (node_kind ps) \<or> node_kind ps = IncrementalSort")
  case True
  then show ?thesis using assms(1) sort_span_frame sorts_not_curated [OF True]
    by (simp add: planspans_node_end_def drops_def)
next
  case sort: False
  show ?thesis
  proof (cases "planspans_span_name (node_kind ps) = None \<or> track_find (node_id ps) (ss_spans s) = None")
    case True
    then have "t = s" using assms(1) sort by (auto simp: planspans_node_end_def)
    moreover have "drops (curated (node_kind ps)) (node_id ps) (ss_spans s) = ss_spans s"
      using True by (auto simp: drops_def curated_def track_find_def filter_id_conv)
    ultimately show ?thesis by simp
  next
    case False
    let ?ref = "fst (pop_planspan (node_id ps) s)"
    have "and_then (modify (gather_attrs b ?ref (node_kind ps))) (\<lambda>_. and_then (end_span b ?ref) (\<lambda>_.
           modify (\<lambda>s. snd (pop_planspan (node_id ps) s)))) s = (Ret (), t)"
      using assms(1) sort False by (simp add: planspans_node_end_def Let_def)
    then obtain u where u: "end_span b ?ref (gather_attrs b ?ref (node_kind ps) s) = (Ret (), u)"
        and t: "t = snd (pop_planspan (node_id ps) u)"
      by (auto simp: and_then_modify dest!: and_then_modify_RetD)
    have "ss_fdw u = ss_fdw s" "ss_spans u = ss_spans s" using start_span_frame(2) [OF u] by (simp_all add: gather_frame)
    then show ?thesis using pop_drops(2,4) [where s = u and n = "node_id ps"] assms(2) False t by (simp add: curated_def)
  qed
qed

section \<open>A whole walk\<close>

definition span_collectors :: "collector list" where
  "span_collectors = [fdw_collector, planpath_collector, planspans_collector]"

text \<open>The nodes a walk tracks: foreign scans, and curated nodes if child spans are on.\<close>

definition scan_ids :: "(plan_node \<times> nat list) list \<Rightarrow> nat set" where
  "scan_ids nodes = {node_id p |p anc. (p, anc) \<in> set nodes \<and> foreign (node_kind p)}"

definition curated_ids :: "backend \<Rightarrow> (plan_node \<times> nat list) list \<Rightarrow> nat set" where
  "curated_ids b nodes = {node_id p |p anc. (p, anc) \<in> set nodes \<and> bk_child_spans b \<and> curated (node_kind p)}"

lemma enabled_collectors:
  "build_enabled_mask b span_collectors =
     [fdw_collector] @ (if planpath_enabled b then [planpath_collector] else []) @ (if bk_child_spans b then [planspans_collector] else [])"
  by (simp add: build_enabled_mask_def span_collectors_def fdw_collector_def planpath_collector_def planspans_collector_def)

text \<open>What the three collectors do at a node, in order.\<close>

definition path_step :: "backend \<Rightarrow> bool \<Rightarrow> plan_node \<Rightarrow> walk_ctx \<Rightarrow> session \<Rightarrow> session" where
  "path_step b is_end ps ctx s = (if is_end \<and> planpath_enabled b then planpath_node_end b ps ctx s else s)"

lemma path_step_reports: "only_reports s (path_step b is_end ps ctx s)"
  by (simp add: path_step_def only_reports_refl planpath_only_reports)

lemmas path_step_frame [simp] = only_reportsD [OF path_step_reports]

lemma path_step_off: "\<not> planpath_enabled b \<Longrightarrow> path_step b is_end ps ctx s = s"
  by (simp add: path_step_def)

lemma visit_steps:
  "visit_node b (build_enabled_mask b span_collectors) is_end p ctx =
     and_then (if is_end then otel_fdw_collector_node_end b p ctx else otel_fdw_collector_node_begin b p ctx) (\<lambda>_.
     and_then (modify (path_step b is_end p ctx)) (\<lambda>_.
     if bk_child_spans b then (if is_end then planspans_node_end b p ctx else planspans_node_begin b p ctx) else ret ()))"
proof -
  have idle: "and_then (modify (\<lambda>s. s)) f = f ()" for f :: "unit \<Rightarrow> unit session_op"
    by (rule ext) (simp add: and_then_modify)
  have idle_last: "and_then m (\<lambda>u. modify (\<lambda>s. s)) = m" for m :: "unit session_op"
    by (rule ext) (simp add: and_then_def modify_def split: prod.split outcome.split)
  have path: "modify (path_step b e p ctx) =
      (if e \<and> planpath_enabled b then modify (planpath_node_end b p ctx) else modify (\<lambda>s. s))" for e
    by (rule ext) (simp add: modify_def path_step_def)
  show ?thesis
    by (cases is_end; cases "planpath_enabled b"; cases "bk_child_spans b")
       (simp_all add: visit_node_def enabled_collectors fdw_collector_def planpath_collector_def planspans_collector_def
          optional_op_def and_then_ret_right path idle idle_last and_then_ret)
qed

lemma visit_parts:
  assumes "visit_node b (build_enabled_mask b span_collectors) is_end p ctx s = (Ret (), t)"
  obtains u where
    "(if is_end then otel_fdw_collector_node_end b p ctx else otel_fdw_collector_node_begin b p ctx) s = (Ret (), u)"
    "(if bk_child_spans b then (if is_end then planspans_node_end b p ctx else planspans_node_begin b p ctx) else ret ())
       (path_step b is_end p ctx u) = (Ret (), t)"
proof -
  from and_then_RetD [OF assms [unfolded visit_steps]] obtain a u where
    u: "(if is_end then otel_fdw_collector_node_end b p ctx else otel_fdw_collector_node_begin b p ctx) s = (Ret a, u)"
    and rest: "and_then (modify (path_step b is_end p ctx))
        (\<lambda>_. if bk_child_spans b then (if is_end then planspans_node_end b p ctx else planspans_node_begin b p ctx) else ret ()) u = (Ret (), t)"
    by blast
  have "a = ()" by simp
  show thesis by (rule that [OF u [unfolded \<open>a = ()\<close>] rest [unfolded and_then_modify]])
qed

lemma visit_begin:
  assumes "visit_node b (build_enabled_mask b span_collectors) False p ctx s = (Ret (), t)"
  shows "grows (foreign (node_kind p)) (node_id p) (ss_fdw s) (ss_fdw t) \<and>
    grows (bk_child_spans b \<and> curated (node_kind p)) (node_id p) (ss_spans s) (ss_spans t)"
proof -
  have fdw: "grows (foreign (node_kind p)) (node_id p) (ss_fdw x) (ss_fdw y) \<and> ss_spans y = ss_spans x"
    if "otel_fdw_collector_node_begin b p ctx x = (Ret (), y)" for x y
    using that by (cases "node_kind p") (auto simp: otel_fdw_collector_node_begin_def foreign_def grows_def ret_def dest!: fdw_begin_grows)
  obtain u where u: "otel_fdw_collector_node_begin b p ctx s = (Ret (), u)"
      and rest: "(if bk_child_spans b then planspans_node_begin b p ctx else ret ()) (path_step b False p ctx u) = (Ret (), t)"
    by (rule visit_parts [OF assms]) (rule that, simp_all split: if_splits)
  show ?thesis
    using fdw [OF u] rest planspans_begin_grows [of b p ctx "path_step b False p ctx u" t]
    by (auto simp: grows_def ret_def split: if_splits)
qed

lemma visit_end:
  assumes "visit_node b (build_enabled_mask b span_collectors) True p ctx s = (Ret (), t)"
    and "distinct (map te_key (ss_fdw s))" and "distinct (map te_key (ss_spans s))"
  shows "ss_fdw t = drops (foreign (node_kind p)) (node_id p) (ss_fdw s) \<and>
    ss_spans t = drops (bk_child_spans b \<and> curated (node_kind p)) (node_id p) (ss_spans s)"
proof -
  have fdw: "ss_fdw y = drops (foreign (node_kind p)) (node_id p) (ss_fdw x) \<and> ss_spans y = ss_spans x"
    if "otel_fdw_collector_node_end b p ctx x = (Ret (), y)" "distinct (map te_key (ss_fdw x))" for x y
    using that by (cases "node_kind p") (auto simp: otel_fdw_collector_node_end_def foreign_def drops_def ret_def dest!: fdw_end_drops)
  obtain u where u: "otel_fdw_collector_node_end b p ctx s = (Ret (), u)"
      and rest: "(if bk_child_spans b then planspans_node_end b p ctx else ret ()) (path_step b True p ctx u) = (Ret (), t)"
    by (rule visit_parts [OF assms(1)]) (rule that, simp_all split: if_splits)
  show ?thesis
    using fdw [OF u assms(2)] rest planspans_end_drops [of b p ctx "path_step b True p ctx u" t] assms(3)
    by (auto simp: drops_def ret_def split: if_splits)
qed

lemma keys_append: "distinct (map te_key (es @ fs)) \<longleftrightarrow>
    distinct (map te_key es) \<and> distinct (map te_key fs) \<and> te_key ` set es \<inter> te_key ` set fs = {}"
  by simp

lemma apart_keys: "A \<subseteq> {n} \<Longrightarrow> B \<subseteq> X \<Longrightarrow> n \<notin> X \<Longrightarrow> A \<inter> B = {}"
  by blast

lemma growsD:
  assumes "grows P n es fs"
  shows "\<exists>f. fs = es @ f \<and> distinct (map te_key f) \<and> te_key ` set f \<subseteq> {n} \<and> (f \<noteq> [] \<longrightarrow> P)"
  using assms unfolding grows_def
proof
  assume "fs = es"
  then show ?thesis by (intro exI [of _ "[]"]) simp
next
  assume "P \<and> (\<exists>e. te_key e = n \<and> te_ref e \<noteq> 0 \<and> fs = es @ [e])"
  then obtain e where "P" "te_key e = n" "fs = es @ [e]" by blast
  then show ?thesis by (intro exI [of _ "[e]"]) simp
qed

lemma visits_begin:
  assumes "visits b (build_enabled_mask b span_collectors) False stmt nodes s = (Ret (), t)"
    and "distinct (map (node_id \<circ> fst) nodes)"
  shows "\<exists>fs cs. ss_fdw t = ss_fdw s @ fs \<and> ss_spans t = ss_spans s @ cs \<and> distinct (map te_key fs) \<and> distinct (map te_key cs) \<and>
    te_key ` set fs \<subseteq> scan_ids nodes \<and> te_key ` set cs \<subseteq> curated_ids b nodes"
  using assms
proof (induction nodes arbitrary: s)
  case Nil
  then show ?case by (simp add: visits_def ret_def)
next
  case (Cons node nodes)
  obtain p anc where node: "node = (p, anc)" by (cases node)
  obtain u where v: "visit_node b (build_enabled_mask b span_collectors) False p \<lparr>wc_stmt_span = stmt, wc_ancestors = anc\<rparr> s = (Ret (), u)"
      and rest: "visits b (build_enabled_mask b span_collectors) False stmt nodes u = (Ret (), t)"
    using Cons.prems(1) by (auto simp: node visits_Cons dest!: and_then_RetD)
  from Cons.IH [OF rest] Cons.prems(2) obtain fs cs where
    ih: "ss_fdw t = ss_fdw u @ fs" "ss_spans t = ss_spans u @ cs" "distinct (map te_key fs)" "distinct (map te_key cs)"
    "te_key ` set fs \<subseteq> scan_ids nodes" "te_key ` set cs \<subseteq> curated_ids b nodes" by auto
  have new: "node_id p \<notin> scan_ids nodes" "node_id p \<notin> curated_ids b nodes"
    using Cons.prems(2) by (force simp: node scan_ids_def curated_ids_def)+
  have sub: "scan_ids nodes \<subseteq> scan_ids (node # nodes)" "curated_ids b nodes \<subseteq> curated_ids b (node # nodes)"
    by (auto simp: scan_ids_def curated_ids_def)
  note growsD' = growsD [OF conjunct1 [OF visit_begin [OF v]]] growsD [OF conjunct2 [OF visit_begin [OF v]]]
  obtain f where f: "ss_fdw u = ss_fdw s @ f" "distinct (map te_key f)" "te_key ` set f \<subseteq> {node_id p}"
      "f \<noteq> [] \<longrightarrow> foreign (node_kind p)" using growsD'(1) by blast
  obtain c where c: "ss_spans u = ss_spans s @ c" "distinct (map te_key c)" "te_key ` set c \<subseteq> {node_id p}"
      "c \<noteq> [] \<longrightarrow> bk_child_spans b \<and> curated (node_kind p)" using growsD'(2) by blast
  have in_f: "te_key ` set f \<subseteq> scan_ids (node # nodes)" using f(3,4) by (cases f) (auto simp: scan_ids_def node)
  have in_c: "te_key ` set c \<subseteq> curated_ids b (node # nodes)" using c(3,4) by (cases c) (auto simp: curated_ids_def node)
  have apart: "te_key ` set f \<inter> te_key ` set fs = {}" "te_key ` set c \<inter> te_key ` set cs = {}"
    by (rule apart_keys [OF f(3) ih(5) new(1)], rule apart_keys [OF c(3) ih(6) new(2)])
  have "ss_fdw t = ss_fdw s @ (f @ fs)" "ss_spans t = ss_spans s @ (c @ cs)" using ih(1,2) f(1) c(1) by simp_all
  moreover have "distinct (map te_key (f @ fs))" "distinct (map te_key (c @ cs))"
    unfolding keys_append by (rule conjI [OF f(2) conjI [OF ih(3) apart(1)]], rule conjI [OF c(2) conjI [OF ih(4) apart(2)]])
  moreover have "te_key ` set (f @ fs) \<subseteq> scan_ids (node # nodes)" "te_key ` set (c @ cs) \<subseteq> curated_ids b (node # nodes)"
    unfolding set_append image_Un
    by (intro Un_least in_f subset_trans [OF ih(5) sub(1)], intro Un_least in_c subset_trans [OF ih(6) sub(2)])
  ultimately show ?case by (intro exI conjI)
qed

lemma drops_distinct: "distinct (map te_key es) \<Longrightarrow> distinct (map te_key (drops P n es))"
  by (simp add: drops_def distinct_map_filter)

lemma visits_end:
  assumes "visits b (build_enabled_mask b span_collectors) True stmt nodes s = (Ret (), t)"
    and "distinct (map te_key (ss_fdw s))" and "distinct (map te_key (ss_spans s))"
  shows "ss_fdw t = filter (\<lambda>e. te_key e \<notin> scan_ids nodes) (ss_fdw s) \<and>
    ss_spans t = filter (\<lambda>e. te_key e \<notin> curated_ids b nodes) (ss_spans s)"
  using assms
proof (induction nodes arbitrary: s)
  case Nil
  then show ?case by (simp add: visits_def ret_def scan_ids_def curated_ids_def)
next
  case (Cons node nodes)
  obtain p anc where node: "node = (p, anc)" by (cases node)
  have "and_then (visit_node b (build_enabled_mask b span_collectors) True p \<lparr>wc_stmt_span = stmt, wc_ancestors = anc\<rparr>)
      (\<lambda>_. visits b (build_enabled_mask b span_collectors) True stmt nodes) s = (Ret (), t)"
    using Cons.prems(1) unfolding node visits_Cons .
  from and_then_RetD [OF this] obtain u
    where v: "visit_node b (build_enabled_mask b span_collectors) True p \<lparr>wc_stmt_span = stmt, wc_ancestors = anc\<rparr> s = (Ret (), u)"
      and rest: "visits b (build_enabled_mask b span_collectors) True stmt nodes u = (Ret (), t)" by auto
  note u = visit_end [OF v Cons.prems(2,3)]
  have "distinct (map te_key (ss_fdw u))" "distinct (map te_key (ss_spans u))"
    using u Cons.prems(2,3) by (simp_all add: drops_distinct)
  note ih = Cons.IH [OF rest this]
  have ids: "scan_ids (node # nodes) = (if foreign (node_kind p) then insert (node_id p) (scan_ids nodes) else scan_ids nodes)"
    "curated_ids b (node # nodes) =
      (if bk_child_spans b \<and> curated (node_kind p) then insert (node_id p) (curated_ids b nodes) else curated_ids b nodes)"
    by (auto simp: scan_ids_def curated_ids_def node)
  have "ss_fdw t = filter (\<lambda>e. te_key e \<notin> scan_ids (node # nodes)) (ss_fdw s)"
    using ih u by (auto simp: ids drops_def intro!: filter_cong)
  moreover have "ss_spans t = filter (\<lambda>e. te_key e \<notin> curated_ids b (node # nodes)) (ss_spans s)"
    using ih u by (auto simp: ids drops_def intro!: filter_cong)
  ultimately show ?case by blast
qed

text \<open>A tree's nodes in preorder, with which of the collectors tracks them.\<close>

definition plan_shape :: "plan_node \<Rightarrow> (nat \<times> bool \<times> bool) list" where
  "plan_shape root = map (\<lambda>(p, anc). (node_id p, foreign (node_kind p), curated (node_kind p))) (preorder [] root)"

lemma shape_ids:
  "scan_ids (preorder [] root) = {n. \<exists>c. (n, True, c) \<in> set (plan_shape root)}"
  "curated_ids b (preorder [] root) = {n. \<exists>f. bk_child_spans b \<and> (n, f, True) \<in> set (plan_shape root)}"
  unfolding scan_ids_def curated_ids_def plan_shape_def set_map by (auto simp: image_iff Bex_def)

text \<open>The reset and the report around the end walk.\<close>

definition path_begin :: "backend \<Rightarrow> i64 \<Rightarrow> session \<Rightarrow> session" where
  "path_begin b stmt s = (if planpath_enabled b then planpath_end_walk_begin b \<lparr>wc_stmt_span = stmt, wc_ancestors = []\<rparr> s else s)"

definition path_end :: "backend \<Rightarrow> i64 \<Rightarrow> session \<Rightarrow> session" where
  "path_end b stmt s = (if planpath_enabled b then planpath_end_walk_end b \<lparr>wc_stmt_span = stmt, wc_ancestors = []\<rparr> s else s)"

lemma path_walk_reports: "only_reports s (path_begin b stmt s)" "only_reports s (path_end b stmt s)"
  by (simp_all add: path_begin_def path_end_def only_reports_refl planpath_only_reports)

lemmas path_walk_frame [simp] = only_reportsD [OF path_walk_reports(1)] only_reportsD [OF path_walk_reports(2)]

lemma path_walk_off: "\<not> planpath_enabled b \<Longrightarrow> path_begin b stmt s = s \<and> path_end b stmt s = s"
  by (simp add: path_begin_def path_end_def)

lemma executor_walks:
  "otel_planwalk_executor_start b span_collectors (Some root) stmt =
     visits b (build_enabled_mask b span_collectors) False stmt (preorder [] root)"
  "otel_planwalk_executor_end b span_collectors (Some root) stmt =
     and_then (modify (path_begin b stmt)) (\<lambda>_.
     and_then (visits b (build_enabled_mask b span_collectors) True stmt (preorder [] root)) (\<lambda>_.
     modify (path_end b stmt)))"
proof -
  have idle: "modify (\<lambda>s. s) = ret ()" by (rule ext) (simp add: modify_def ret_def)
  have path: "modify (path_begin b stmt) =
      (if planpath_enabled b then modify (planpath_end_walk_begin b \<lparr>wc_stmt_span = stmt, wc_ancestors = []\<rparr>) else modify (\<lambda>s. s))"
    "modify (path_end b stmt) =
      (if planpath_enabled b then modify (planpath_end_walk_end b \<lparr>wc_stmt_span = stmt, wc_ancestors = []\<rparr>) else modify (\<lambda>s. s))"
    by (rule ext, simp add: modify_def path_begin_def path_end_def)+
  have unit: "(\<lambda>u. ret ()) = (ret :: unit \<Rightarrow> unit session_op)" by (rule ext) simp
  show "otel_planwalk_executor_start b span_collectors (Some root) stmt =
     visits b (build_enabled_mask b span_collectors) False stmt (preorder [] root)"
    by (simp add: otel_planwalk_executor_start_def enabled_collectors Let_def walker_visits)
  show "otel_planwalk_executor_end b span_collectors (Some root) stmt =
     and_then (modify (path_begin b stmt)) (\<lambda>_.
     and_then (visits b (build_enabled_mask b span_collectors) True stmt (preorder [] root)) (\<lambda>_.
     modify (path_end b stmt)))"
    by (cases "planpath_enabled b"; cases "bk_child_spans b")
       (simp_all add: otel_planwalk_executor_end_def enabled_collectors Let_def optional_op_def fdw_collector_def
          planpath_collector_def planspans_collector_def walker_visits path idle unit and_then_ret and_then_ret_right)
qed

lemma end_walk_takes_off:
  assumes "otel_planwalk_executor_end b span_collectors (Some root) stmt s = (Ret (), t)"
    and "distinct (map te_key (ss_fdw s))" and "distinct (map te_key (ss_spans s))"
  shows "ss_fdw t = filter (\<lambda>e. te_key e \<notin> scan_ids (preorder [] root)) (ss_fdw s)"
    "ss_spans t = filter (\<lambda>e. te_key e \<notin> curated_ids b (preorder [] root)) (ss_spans s)"
proof -
  obtain u where u: "visits b (build_enabled_mask b span_collectors) True stmt (preorder [] root) (path_begin b stmt s) = (Ret (), u)"
      and t: "t = path_end b stmt u"
    using assms(1) by (auto simp: executor_walks and_then_modify modify_def dest!: and_then_RetD)
  show "ss_fdw t = filter (\<lambda>e. te_key e \<notin> scan_ids (preorder [] root)) (ss_fdw s)"
    "ss_spans t = filter (\<lambda>e. te_key e \<notin> curated_ids b (preorder [] root)) (ss_spans s)"
    using visits_end [OF u] assms(2,3) by (simp_all add: t)
qed

text \<open>C20: Where the walk at an execution's start and the walk at its end see the same nodes, neither
  is cut short by an ERROR, and child spans are not switched on or off in between, the second
  takes off the foreign-scan and plan-span stacks all that the first put there, and no more:
  the enclosing executions' entries stay as they were.\<close>

theorem walks_balanced:
  assumes start: "otel_planwalk_executor_start b span_collectors (Some root) stmt s = (Ret (), t)"
    and end_walk: "otel_planwalk_executor_end b' span_collectors (Some root') stmt' u = (Ret (), v)"
    and same: "plan_shape root' = plan_shape root" "bk_child_spans b' = bk_child_spans b"
    and between: "ss_fdw u = ss_fdw t" "ss_spans u = ss_spans t"
    and nodes: "distinct (map fst (plan_shape root))"
    and before: "distinct (map te_key (ss_fdw s))" "distinct (map te_key (ss_spans s))"
      "(te_key ` set (ss_fdw s) \<union> te_key ` set (ss_spans s)) \<inter> fst ` set (plan_shape root) = {}"
  shows "ss_fdw v = ss_fdw s \<and> ss_spans v = ss_spans s"
proof -
  have "distinct (map (node_id \<circ> fst) (preorder [] root))"
    using nodes by (simp add: plan_shape_def comp_def case_prod_beta)
  from visits_begin [OF start [unfolded executor_walks] this] obtain fs cs where
    t: "ss_fdw t = ss_fdw s @ fs" "ss_spans t = ss_spans s @ cs" "distinct (map te_key fs)" "distinct (map te_key cs)"
      "te_key ` set fs \<subseteq> scan_ids (preorder [] root)" "te_key ` set cs \<subseteq> curated_ids b (preorder [] root)" by blast
  have ids: "scan_ids (preorder [] root') = scan_ids (preorder [] root)"
    "curated_ids b' (preorder [] root') = curated_ids b (preorder [] root)" by (simp_all add: shape_ids same)
  have sub: "scan_ids (preorder [] root) \<subseteq> fst ` set (plan_shape root)"
    "curated_ids b (preorder [] root) \<subseteq> fst ` set (plan_shape root)" by (force simp: shape_ids)+
  have old: "te_key ` set (ss_fdw s) \<inter> scan_ids (preorder [] root) = {}"
    "te_key ` set (ss_spans s) \<inter> curated_ids b (preorder [] root) = {}" using before(3) sub by blast+
  then have "te_key ` set (ss_fdw s) \<inter> te_key ` set fs = {}" "te_key ` set (ss_spans s) \<inter> te_key ` set cs = {}"
    using t(5,6) by blast+
  then have "distinct (map te_key (ss_fdw u))" "distinct (map te_key (ss_spans u))"
    unfolding between t(1,2) keys_append using t(3,4) before(1,2) by blast+
  note off = end_walk_takes_off [OF end_walk this]
  have v: "ss_fdw v = filter (\<lambda>e. te_key e \<notin> scan_ids (preorder [] root)) (ss_fdw s @ fs)"
    "ss_spans v = filter (\<lambda>e. te_key e \<notin> curated_ids b (preorder [] root)) (ss_spans s @ cs)"
    by (simp_all add: off ids between t)
  have keep: "filter (\<lambda>e. te_key e \<notin> A) (es @ fs) = es"
    if "te_key ` set es \<inter> A = {}" "te_key ` set fs \<subseteq> A" for es fs :: "track_entry list" and A
  proof -
    have "filter (\<lambda>e. te_key e \<notin> A) es = es" "filter (\<lambda>e. te_key e \<notin> A) fs = []"
      using that by (auto simp: filter_id_conv filter_empty_conv)
    then show ?thesis by simp
  qed
  show ?thesis using v keep [OF old(1) t(5)] keep [OF old(2) t(6)] by simp
qed

text \<open>A backend, and one execution of a plan that is a single function scan.\<close>

definition walk_backend :: backend where
  "walk_backend = \<lparr>bk_env = run_env, bk_loaded = True, bk_possible = True, bk_worker = False, bk_worker_number = -1, bk_pid = 42,
     bk_my_proc = 0, bk_leader_proc = -1, bk_trace_all = True, bk_database = None, bk_database_oid = 5, bk_user = None,
     bk_remote_host = None, bk_application = None, bk_active_portal = None, bk_child_spans = True, bk_node_stats = False,
     bk_node_events = False, bk_clock = 1000, bk_pg_version = ''18''\<rparr>"

text \<open>The accumulator as the library is loaded: static storage, all zero.\<close>

definition accum_at_load :: path_accum where
  "accum_at_load =
     \<lparr>ac_any_spill = False, ac_spill_kb = 0, ac_shortfall = None, ac_worst_ratio = 0, ac_worst_tag = None, ac_lossy_pages = 0,
      ac_read = 0, ac_hit = 0, ac_dirtied = 0, ac_node_count = 0,
      ac_slowest = replicate N_SLOWEST \<lparr>sn_total_ms = 0, sn_tag = None\<rparr>, ac_tag_buf = []\<rparr>"

definition fresh_session :: session where
  "fresh_session = \<lparr>ss_prod = initial_producer, ss_root = fresh_root, ss_par = None, ss_stmts = [], ss_cursor = None,
     ss_fdw = [], ss_spans = [], ss_sorts = [], ss_txn = 0, ss_accum = accum_at_load\<rparr>"

definition function_scan :: plan_node where
  "function_scan = Node 1 FunctionScan None []"

lemma env_fresh: "env_of walk_backend (fresh_session\<lparr>ss_prod := p, ss_spans := es\<rparr>) = run_env"
  by (simp add: env_of_def walk_backend_def fresh_session_def otel_parallel_get_leader_context_def run_env_def sample_env_def)

definition scan_args :: start_args where
  "scan_args = (literal_args (otel_pg_tracer walk_backend) ''pg.funcscan'')\<lparr>sa_detached := True, sa_parent := PARENT_SPAN\<rparr>"

definition scan_open :: producer where
  "scan_open = snd (api_span_start run_env (Some scan_args) initial_producer)"

lemma scan_open_start: "api_span_start run_env (Some scan_args) initial_producer = (Ret (make_ref 6 0 True), scan_open)"
proof -
  have "fst (api_span_start run_env (Some scan_args) initial_producer) = Ret (make_ref 6 0 True)"
    by (simp add: scan_args_def literal_args_def otel_pg_tracer_def walk_backend_def otel_tracer_register_def start_run_defs)
  then show ?thesis by (simp add: scan_open_def prod_eq_iff)
qed

lemma scan_open_facts: "wf scan_open" "st_dispatch_depth scan_open = 0" "genuine (make_ref 6 0 True)"
proof -
  have "args_ok scan_args"
    using literal_args_ok [of "otel_pg_tracer walk_backend" "''pg.funcscan''"] by (simp add: scan_args_def args_ok_def genuine_def)
  then show "wf scan_open" "genuine (make_ref 6 0 True)"
    using start_ref(1) [OF wf_initial run_env_ok _ scan_open_start] by (simp_all add: make_ref_def genuine_def ref_gen_def ref_abs_def)
qed (simp add: scan_open_def scan_args_def literal_args_def otel_pg_tracer_def walk_backend_def otel_tracer_register_def start_run_defs)

definition scan_entry :: track_entry where
  "scan_entry = \<lparr>te_key = 1, te_ref = make_ref 6 0 True, te_level = 1, te_detached = True\<rparr>"

definition scan_session :: session where
  "scan_session = fresh_session\<lparr>ss_prod := scan_open, ss_spans := [scan_entry]\<rparr>"

lemma function_walk:
  "otel_planwalk_executor_start walk_backend span_collectors (Some function_scan) stmt =
     planspans_node_begin walk_backend function_scan \<lparr>wc_stmt_span = stmt, wc_ancestors = []\<rparr>"
  "otel_planwalk_executor_end walk_backend span_collectors (Some function_scan) stmt =
     planspans_node_end walk_backend function_scan \<lparr>wc_stmt_span = stmt, wc_ancestors = []\<rparr>"
  by (simp_all add: otel_planwalk_executor_start_def otel_planwalk_executor_end_def visit_node_def enabled_collectors
      planpath_enabled_def fdw_collector_def planspans_collector_def Let_def
      function_scan_def otel_fdw_collector_node_begin_def otel_fdw_collector_node_end_def optional_op_def
      and_then_ret and_then_ret_right walk_backend_def)

lemma scan_walk_start:
  "otel_planwalk_executor_start walk_backend span_collectors (Some function_scan) 0 fresh_session = (Ret (), scan_session)"
proof -
  have "start_span walk_backend scan_args fresh_session = (Ret (make_ref 6 0 True), fresh_session\<lparr>ss_prod := scan_open\<rparr>)"
    using env_fresh [where p = initial_producer and es = "[]"] scan_open_start
    by (simp add: start_span_def call_prod_def lift_op_def otel_span_start_def otel_recording_possible_def walk_backend_def
        fresh_session_def scan_args_def literal_args_def)
  moreover have "make_ref 6 0 True \<noteq> 0" by (simp add: make_ref_def)
  moreover have "level_of walk_backend = 1" by (simp add: level_of_def walk_backend_def run_env_def sample_env_def)
  ultimately show ?thesis
    unfolding function_walk planspans_node_begin_def
    by (simp add: function_scan_def is_sort_def planspans_span_name_def OTEL_PLANSPANS_STACK_MAX_def scan_args_def
        planspans_parent_def and_then_def modify_def scan_session_def scan_entry_def fresh_session_def track_push_def literal_args_def)
qed

lemma scan_walk_end:
  "\<exists>v. otel_planwalk_executor_end walk_backend span_collectors (Some function_scan) 0 scan_session = (Ret (), v)"
proof -
  obtain p where "api_span_end run_env (make_ref 6 0 True) 0 scan_open = (Ret (), p)"
    using span_end_total [OF run_env_facts(2) scan_open_facts(1,3)] by blast
  then have "end_span walk_backend (make_ref 6 0 True) scan_session = (Ret (), scan_session\<lparr>ss_prod := p\<rparr>)"
    using env_fresh [where p = scan_open and es = "[scan_entry]"]
    by (simp add: end_span_def call_prod_def lift_op_def otel_span_end_def scan_session_def fresh_session_def make_ref_def)
  then show ?thesis
    unfolding function_walk planspans_node_end_def
    by (simp add: function_scan_def is_sort_def planspans_span_name_def pop_planspan_def track_find_def scan_session_def
        scan_entry_def gather_attrs_def and_then_def modify_def Let_def)
qed

theorem walks_balanced_witness:
  "\<exists>t v. otel_planwalk_executor_start walk_backend span_collectors (Some function_scan) 0 fresh_session = (Ret (), t) \<and>
     ss_spans t \<noteq> [] \<and>
     otel_planwalk_executor_end walk_backend span_collectors (Some function_scan) 0 t = (Ret (), v) \<and> ss_spans v = []"
proof -
  obtain v where v: "otel_planwalk_executor_end walk_backend span_collectors (Some function_scan) 0 scan_session = (Ret (), v)"
    using scan_walk_end by blast
  have "distinct (map fst (plan_shape function_scan))" by (simp add: plan_shape_def function_scan_def)
  then have "ss_spans v = []"
    using walks_balanced [OF scan_walk_start v] by (simp add: fresh_session_def)
  moreover have "ss_spans scan_session \<noteq> []" by (simp add: scan_session_def)
  ultimately show ?thesis using scan_walk_start v by blast
qed

end
