(* ===== verification/Walk_Frame.thy ===== *)
theory Walk_Frame
  imports Walk_Props
begin

text \<open>
  Which parts of a session an operation keeps, and that the plan walks touch nothing but the
  producer, the tracking stacks of the collectors and the accumulator: a locale states it
  once for any view of the session that ignores those, and it is interpreted for the
  statement stack, the accumulator and the rest.
\<close>

section \<open>Views of the state an operation keeps\<close>

definition preserves :: "('s \<Rightarrow> 'x) \<Rightarrow> ('s, 'a) op \<Rightarrow> bool" where
  "preserves g m \<longleftrightarrow> (\<forall>s x t. m s = (x, t) \<longrightarrow> g t = g s)"

lemma preservesD: "preserves g m \<Longrightarrow> m s = (x, t) \<Longrightarrow> g t = g s"
  by (simp add: preserves_def)

lemma preservesI: "(\<And>s x t. m s = (x, t) \<Longrightarrow> g t = g s) \<Longrightarrow> preserves g m"
  by (simp add: preserves_def)

lemma preserves_ret: "preserves g (ret a)"
  by (simp add: preserves_def ret_def)

lemma preserves_modify: "(\<And>s. g (f s) = g s) \<Longrightarrow> preserves g (modify f)"
  by (simp add: preserves_def modify_def)

lemma preserves_and_then: "preserves g m \<Longrightarrow> (\<And>a. preserves g (f a)) \<Longrightarrow> preserves g (and_then m f)"
  unfolding preserves_def and_then_def by (fastforce split: prod.splits outcome.splits)

lemma keeps_if: "(c \<Longrightarrow> preserves g m) \<Longrightarrow> (\<not> c \<Longrightarrow> preserves g n) \<Longrightarrow> preserves g (if c then m else n)"
  by simp

lemma keeps_at: "(\<And>s. preserves g (f s)) \<Longrightarrow> preserves g (\<lambda>s. f s s)"
  by (simp add: preserves_def)

lemma keeps_catch: "preserves g m \<Longrightarrow> (\<And>s. g (c s) = g s) \<Longrightarrow> preserves g (catch_rethrow m c)"
  unfolding preserves_def catch_rethrow_def by (fastforce split: prod.splits outcome.splits)

section \<open>The collectors\<close>

locale session_view =
  fixes g :: "session \<Rightarrow> 'x"
  assumes view_prod: "g (s\<lparr>ss_prod := p\<rparr>) = g s"
    and view_fdw: "g (s\<lparr>ss_fdw := es\<rparr>) = g s"
    and view_spans: "g (s\<lparr>ss_spans := es\<rparr>) = g s"
    and view_sorts: "g (s\<lparr>ss_sorts := sorts\<rparr>) = g s"
begin

lemma view_set [simp]: "g (set_prod b f s) = g s" "g (set_str b ref k v s) = g s" "g (set_int b ref k i s) = g s"
  by (simp_all add: set_str_def set_int_def set_prod_def view_prod)

lemma view_call: "preserves g (call_prod b m)"
  by (auto simp: preserves_def call_prod_def lift_op_def view_prod split: prod.splits)

lemma view_span: "preserves g (start_span b args)" "preserves g (end_span b ref)"
  by (simp_all add: start_span_def end_span_def view_call)

lemma start_put_keeps:
  "and_then (start_span b args) (\<lambda>ref. modify (f ref)) s = (x, t) \<Longrightarrow> (\<And>ref s. g (f ref s) = g s) \<Longrightarrow> g t = g s"
  by (rule preservesD [OF preserves_and_then [OF view_span(1) preserves_modify]])

lemma fdw_keeps: "preserves g (otel_fdw_scan_begin b n r)" "preserves g (otel_fdw_scan_end b n)"
proof -
  show "preserves g (otel_fdw_scan_begin b n r)"
  proof (rule preservesI)
    fix s x t
    assume run: "otel_fdw_scan_begin b n r s = (x, t)"
    obtain parent p where c: "otel_span_current (env_of b s) (bk_loaded b) (ss_prod s) = (parent, p)" by (metis surj_pair)
    have f: "g (if ref = 0 then s
                 else (let s2 = set_str b ref ''db.system.name'' ''postgresql'' s;
                           s3 = (case r of None \<Rightarrow> s2 | Some r \<Rightarrow> set_str b ref ''db.collection.name'' r s2)
                       in s3\<lparr>ss_fdw := track_push n ref (level_of b) True (ss_fdw s3)\<rparr>)) = g s" for ref s
      by (simp add: Let_def view_fdw split: option.split)
    show "g t = g s"
    proof (cases "length (ss_fdw s) \<ge> OTEL_FDW_SCAN_STACK_MAX")
      case True
      then show ?thesis using run by (auto simp: otel_fdw_scan_begin_def c view_prod)
    next
      case False
      then have "g t = g (s\<lparr>ss_prod := p\<rparr>)"
        using run unfolding otel_fdw_scan_begin_def c Let_def [of "s\<lparr>ss_prod := p\<rparr>"] prod.case
        by (auto dest: start_put_keeps [OF _ f])
      then show ?thesis by (simp add: view_prod)
    qed
  qed
  have pop: "g (snd (pop_fdw n s)) = g s" for s by (simp add: pop_fdw_def view_fdw split: option.split)
  show "preserves g (otel_fdw_scan_end b n)"
    unfolding preserves_def otel_fdw_scan_end_def
    using preservesD [OF preserves_and_then [OF view_span(2) preserves_modify [of g, OF pop]]] by auto
qed

lemma attrs_keep [simp]: "g (sort_attrs b ref ps rows s) = g s" "g (gather_attrs b ref k s) = g s"
  "g (snd (pop_planspan n s)) = g s"
  by (simp_all add: sort_attrs_def gather_attrs_def pop_planspan_def Let_def view_spans split: node_kind.split option.split)

lemma planspans_begin_keeps: "preserves g (planspans_node_begin b ps ctx)"
proof (rule preservesI)
  fix s x t
  assume run: "planspans_node_begin b ps ctx s = (x, t)"
  have f: "g (if ref = 0 then s
                   else (let s1 = (case node_kind ps of
                                     CustomScan (Some n) \<Rightarrow> set_str b ref ''pg.customscan.method'' n s
                                   | _ \<Rightarrow> s)
                         in s1\<lparr>ss_spans := track_push (node_id ps) ref (level_of b) True (ss_spans s1)\<rparr>)) = g s" for ref s
    by (simp add: Let_def view_spans split: node_kind.split option.split)
  show "g t = g s"
    using run unfolding planspans_node_begin_def
    by (auto simp: view_sorts split: if_splits option.splits elim!: start_put_keeps [OF _ f])
qed

lemma sort_bounds_keeps: "sort_bounds b ps s = (r, t) \<Longrightarrow> g t = g s"
  by (auto simp: sort_bounds_def Let_def view_sorts split: option.splits if_splits)

lemma sort_span_keeps: "preserves g (planspans_sort_span b ps ctx)"
proof (rule preservesI)
  fix s x t
  assume run: "planspans_sort_span b ps ctx s = (x, t)"
  obtain r s1 where r: "sort_bounds b ps s = (r, s1)" by (metis surj_pair)
  have m: "preserves g (and_then (start_span b args) (\<lambda>ref. if ref = 0 then ret ()
      else and_then (modify (sort_attrs b ref ps rows)) (\<lambda>_. call_prod b (\<lambda>env. otel_span_end_at env ref stop))))" for args rows stop
    by (intro preserves_and_then view_span(1) keeps_if preserves_ret preserves_modify view_call attrs_keep)
  have "g t = g s1"
  proof (cases r)
    case None
    then show ?thesis using run by (simp add: planspans_sort_span_def r)
  next
    case (Some bounds)
    obtain start stop rows where bounds: "bounds = (start, stop, rows)" by (metis prod_cases3)
    show ?thesis
      using run unfolding planspans_sort_span_def r Some bounds prod.case option.case by (rule preservesD [OF m])
  qed
  then show "g t = g s" using sort_bounds_keeps [OF r] by simp
qed

lemma planspans_end_keeps: "preserves g (planspans_node_end b ps ctx)"
proof (rule preservesI)
  fix s x t
  assume run: "planspans_node_end b ps ctx s = (x, t)"
  have m: "preserves g (and_then (modify (gather_attrs b ref k)) (\<lambda>_. and_then (end_span b ref)
      (\<lambda>_. modify (\<lambda>s. snd (pop_planspan n s)))))" for ref k n
    by (intro preserves_and_then view_span(2) preserves_modify attrs_keep)
  show "g t = g s"
    using run unfolding planspans_node_end_def Let_def
    by (auto split: if_splits dest: preservesD [OF sort_span_keeps] preservesD [OF m])
qed

lemma collectors_keep:
  "preserves g (otel_fdw_collector_node_begin b ps ctx)" "preserves g (otel_fdw_collector_node_end b ps ctx)"
  "preserves g (planspans_node_begin b ps ctx)" "preserves g (planspans_node_end b ps ctx)"
  by (cases "node_kind ps"; simp add: otel_fdw_collector_node_begin_def otel_fdw_collector_node_end_def preserves_ret fdw_keeps
      planspans_begin_keeps planspans_end_keeps)+

end

text \<open>A view that ignores the accumulator too is kept by the whole walks.\<close>

locale walk_view = session_view +
  assumes view_accum: "g (s\<lparr>ss_accum := a\<rparr>) = g s"
begin

lemma view_reports: "only_reports s t \<Longrightarrow> g t = g s"
  unfolding only_reports_def by (metis view_prod view_accum)

lemma walk_keeps:
  "preserves g (otel_planwalk_executor_start b span_collectors planstate stmt)"
  "preserves g (otel_planwalk_executor_end b span_collectors planstate stmt)"
proof -
  have step: "preserves g (modify f)" if "\<And>s. only_reports s (f s)" for f
    by (rule preserves_modify) (rule view_reports [OF that])
  note path = step [OF path_step_reports] step [OF path_walk_reports(1)] step [OF path_walk_reports(2)]
  have visit: "preserves g (visit_node b (build_enabled_mask b span_collectors) is_end ps ctx)" for is_end ps ctx
    unfolding visit_steps by (cases is_end; cases "bk_child_spans b"; simp add: preserves_and_then preserves_ret path collectors_keep)
  have all: "preserves g (visits b (build_enabled_mask b span_collectors) is_end stmt nodes)" for is_end nodes
  proof (induction nodes)
    case Nil
    show ?case by (simp add: visits_def preserves_ret)
  next
    case (Cons node nodes)
    then show ?case by (cases node) (simp add: visits_Cons preserves_and_then visit)
  qed
  show "preserves g (otel_planwalk_executor_start b span_collectors planstate stmt)"
    by (cases planstate) (simp_all add: executor_walks all, simp add: otel_planwalk_executor_start_def preserves_ret)
  show "preserves g (otel_planwalk_executor_end b span_collectors planstate stmt)"
    by (cases planstate)
       (simp_all add: executor_walks all preserves_and_then path, simp add: otel_planwalk_executor_end_def preserves_ret)
qed

end

interpretation accum_kept: session_view ss_accum by unfold_locales simp_all

interpretation stmts_kept: walk_view ss_stmts by unfold_locales simp_all

end
