(* ===== verification/Stmt_Props.thy ===== *)
theory Stmt_Props
  imports Stmt_Trace Walk_Frame
begin

text \<open>
  Which parts of the session the statement hooks and the plan walks keep, what the end of a
  statement and a push onto the statement stack do, and that a nested utility call is
  transparent.
\<close>

section \<open>Parts of the session an operation keeps\<close>

lemma call_prod_keeps:
  "preserves ss_stmts (call_prod b m)" "preserves ss_fdw (call_prod b m)" "preserves ss_spans (call_prod b m)"
  "preserves ss_root (call_prod b m)" "preserves ss_par (call_prod b m)" "preserves ss_cursor (call_prod b m)"
  by (auto simp: preserves_def call_prod_def lift_op_def split: prod.splits)

lemmas keeps_rules = preserves_ret preserves_modify preserves_and_then keeps_if call_prod_keeps

lemma span_ops_keep:
  "preserves ss_stmts (start_span b args)" "preserves ss_root (start_span b args)" "preserves ss_cursor (start_span b args)"
  "preserves ss_par (start_span b args)"
  "preserves ss_stmts (end_span b ref)" "preserves ss_root (end_span b ref)" "preserves ss_cursor (end_span b ref)" "preserves ss_par (end_span b ref)"
  "preserves ss_stmts (context_of b ref)" "preserves ss_root (context_of b ref)" "preserves ss_cursor (context_of b ref)"
  "preserves ss_par (context_of b ref)"
  by (simp_all add: start_span_def end_span_def context_of_def call_prod_keeps)

lemma set_frame_rest [simp]:
  "ss_root (set_prod b f s) = ss_root s" "ss_cursor (set_prod b f s) = ss_cursor s" "ss_par (set_prod b f s) = ss_par s"
  "ss_root (set_str b ref k v s) = ss_root s" "ss_cursor (set_str b ref k v s) = ss_cursor s" "ss_par (set_str b ref k v s) = ss_par s"
  "ss_root (set_int b ref k i s) = ss_root s" "ss_cursor (set_int b ref k i s) = ss_cursor s" "ss_par (set_int b ref k i s) = ss_par s"
  by (simp_all add: set_prod_def set_str_def set_int_def)

lemma publish_keeps: "preserves ss_stmts (publish_leader_context b ref)" "preserves ss_root (publish_leader_context b ref)"
    "preserves ss_cursor (publish_leader_context b ref)"
  unfolding publish_leader_context_def
  by (intro keeps_rules span_ops_keep; simp split: option.split)+

lemma link_keeps: "preserves ss_stmts (link_with_txn b ref)" "preserves ss_root (link_with_txn b ref)"
    "preserves ss_cursor (link_with_txn b ref)" "preserves ss_par (link_with_txn b ref)"
proof -
  have get: "preserves g (otel_sdt_get_txn_context b)" if "\<And>r. preserves g (context_of b r)" for g :: "session \<Rightarrow> 'x"
    using that by (auto simp: preserves_def otel_sdt_get_txn_context_def)
  have "preserves g (link_with_txn b ref)" if c: "\<And>r. preserves g (context_of b r)" and p: "\<And>f s. g (set_prod b f s) = g s" for g :: "session \<Rightarrow> 'x"
    unfolding link_with_txn_def
    by (intro preserves_and_then get c, split option.split, intro conjI allI impI preserves_ret preserves_and_then preserves_modify c)
       (auto simp: otel_sdt_link_stmt_to_txn_def p split: option.split)
  from this [of ss_stmts] this [of ss_root] this [of ss_cursor] this [of ss_par]
  show "preserves ss_stmts (link_with_txn b ref)" "preserves ss_root (link_with_txn b ref)"
    "preserves ss_cursor (link_with_txn b ref)" "preserves ss_par (link_with_txn b ref)"
    by (simp_all add: span_ops_keep)
qed

lemma set_opt_frame [simp]:
  "ss_stmts (set_opt b ref k v s) = ss_stmts s" "ss_root (set_opt b ref k v s) = ss_root s"
  "ss_cursor (set_opt b ref k v s) = ss_cursor s" "ss_par (set_opt b ref k v s) = ss_par s"
  by (simp_all add: set_opt_def set_str_def set_prod_def split: option.split)

lemma set_if_frame: "(\<And>s. g (f s) = g s) \<Longrightarrow> g (set_if c f s) = g s"
  by (simp add: set_if_def)

lemma attrs_frame [simp]:
  "ss_stmts (stmt_attrs b ref q i s) = ss_stmts s" "ss_root (stmt_attrs b ref q i s) = ss_root s"
  "ss_cursor (stmt_attrs b ref q i s) = ss_cursor s" "ss_par (stmt_attrs b ref q i s) = ss_par s"
  by (simp_all add: stmt_attrs_def Let_def set_if_frame)

lemma start_stmt_keeps: "preserves ss_stmts (start_stmt_span b n q i d)" "preserves ss_root (start_stmt_span b n q i d)"
    "preserves ss_cursor (start_stmt_span b n q i d)"
proof -
  have "preserves g (start_stmt_span b n q i d)"
    if "\<And>r. preserves g (context_of b r)" "\<And>a. preserves g (start_span b a)" "\<And>r q i s. g (stmt_attrs b r q i s) = g s"
      "\<And>r. preserves g (publish_leader_context b r)" "\<And>r. preserves g (link_with_txn b r)" for g :: "session \<Rightarrow> 'x"
    unfolding start_stmt_span_def
    by (rule preserves_and_then [OF that(1)], rule keeps_if, rule preserves_ret, rule keeps_at, rule preserves_and_then [OF that(2)],
        rule keeps_if, rule preserves_ret, rule preserves_and_then, rule preserves_modify, rule that(3), rule preserves_and_then [OF that(4)],
        rule preserves_and_then [OF that(5)], rule preserves_ret)
  from this [of ss_stmts] this [of ss_root] this [of ss_cursor]
  show "preserves ss_stmts (start_stmt_span b n q i d)" "preserves ss_root (start_stmt_span b n q i d)"
    "preserves ss_cursor (start_stmt_span b n q i d)"
    by (simp_all add: span_ops_keep publish_keeps link_keeps)
qed

lemma restore_keeps: "preserves ss_stmts (restore_leader_context b)" "preserves ss_root (restore_leader_context b)"
    "preserves ss_cursor (restore_leader_context b)"
  unfolding restore_leader_context_def
  using publish_keeps by (auto simp: preserves_def)

lemma apply_frame [simp]:
  "ss_stmts (maybe_apply_sqlcommenter b q s) = ss_stmts s" "ss_cursor (maybe_apply_sqlcommenter b q s) = ss_cursor s"
  "ss_par (maybe_apply_sqlcommenter b q s) = ss_par s"
  "ss_stmts (maybe_reset_comment_context b s) = ss_stmts s" "ss_cursor (maybe_reset_comment_context b s) = ss_cursor s"
  "ss_par (maybe_reset_comment_context b s) = ss_par s"
  by (simp_all add: maybe_apply_sqlcommenter_def maybe_reset_comment_context_def)

lemma finalize_keeps: "preserves ss_stmts (finalize_stmt_span b ref)" "preserves ss_cursor (finalize_stmt_span b ref)"
  unfolding finalize_stmt_span_def
  by (intro keeps_if preserves_ret preserves_and_then span_ops_keep restore_keeps preserves_modify apply_frame)+

section \<open>An execution from start to end\<close>

lemma push_outcome:
  "push_stmt_span b key ref d s = (Ret (), t) \<Longrightarrow> length (ss_stmts s) < OTEL_STMT_STACK_MAX \<Longrightarrow>
     ss_stmts t = (if ref = 0 then ss_stmts s else track_push key ref (level_of b) d (ss_stmts s)) \<and>
     ss_root t = ss_root s \<and> ss_par t = ss_par s"
  by (auto simp: push_stmt_span_def)

lemma pop_absent: "key \<notin> te_key ` set (ss_stmts s) \<Longrightarrow> pop_stmt_span key s = (0, s)"
  by (rule stmt_stack.pop_missing) (auto simp: track_find_def)

lemma cleared_leader: "0 \<le> p \<Longrightarrow> otel_parallel_get_leader_context p (otel_parallel_clear_leader_context p slots) = None"
proof (cases slots)
  case (Some a)
  assume p: "0 \<le> p"
  show ?thesis
  proof (cases "p < int (length a)")
    case True
    then show ?thesis using publish_get_same [OF p, of a None] by (simp add: otel_parallel_clear_leader_context_def Some)
  next
    case False
    then show ?thesis
      by (simp add: otel_parallel_clear_leader_context_def otel_parallel_publish_leader_context_def
          otel_parallel_get_leader_context_def Some)
  qed
qed (simp add: otel_parallel_clear_leader_context_def otel_parallel_publish_leader_context_def otel_parallel_get_leader_context_def)

lemma finalize_outcome:
  assumes "finalize_stmt_span b ref s = (Ret (), t)" and "ref \<noteq> 0" and "bk_loaded b"
  shows "\<not> rc_from_comment (rs_root (ss_root t))"
    and "ss_stmts s = [] \<Longrightarrow> 0 \<le> bk_my_proc b \<Longrightarrow> otel_parallel_get_leader_context (bk_my_proc b) (ss_par t) = None"
proof -
  have "and_then (end_span b ref) (\<lambda>_. and_then (restore_leader_context b) (\<lambda>_. modify (maybe_reset_comment_context b))) s = (Ret (), t)"
    using assms(1,2) by (simp add: finalize_stmt_span_def)
  from and_then_RetD [OF this] obtain u where u: "end_span b ref s = (Ret (), u)"
      and rest: "and_then (restore_leader_context b) (\<lambda>_. modify (maybe_reset_comment_context b)) u = (Ret (), t)" by auto
  from and_then_RetD [OF rest] obtain w where w: "restore_leader_context b u = (Ret (), w)" and t: "t = maybe_reset_comment_context b w"
    by (auto simp: modify_def)
  show "\<not> rc_from_comment (rs_root (ss_root t))"
    using assms(3) by (simp add: t maybe_reset_comment_context_def api_get_root_context_def api_reset_root_context_def
        otel_root_ctx_reset_def root_none_def)
  assume "ss_stmts s = []" and "0 \<le> bk_my_proc b"
  then show "otel_parallel_get_leader_context (bk_my_proc b) (ss_par t) = None"
    using w preservesD [OF span_ops_keep(5) u] assms(3) by (auto simp: t restore_leader_context_def cleared_leader)
qed

lemma executor_start_stmts:
  assumes "otel_ExecutorStart b b' span_collectors qd inner planstate shape s = (Ret (), t)"
    and "length (ss_stmts s) < OTEL_STMT_STACK_MAX" and "\<And>i. preserves ss_stmts (inner i)" and "\<And>r. preserves ss_stmts (shape r)"
  shows "\<exists>ref d. ss_stmts t = (if ref = 0 then ss_stmts s else track_push (qd_key qd) ref (level_of b) d (ss_stmts s))"
proof -
  let ?d = "otel_active_portal_is_declaring_cursor b s" and ?s = "maybe_apply_sqlcommenter b (qd_source qd) s"
  let ?tail = "\<lambda>ref. and_then (modify (\<lambda>s.
        if bk_worker b
        then set_int b ref ''pg.backend.pid'' (bk_pid b) (set_int b ref ''pg.parallel.worker_number'' (bk_worker_number b) s)
        else s)) (\<lambda>_.
      and_then (inner (otel_span_recording ref \<and> otel_planwalk_want_instrumentation b)) (\<lambda>_.
      if otel_span_recording ref
      then and_then (otel_planwalk_executor_start b' span_collectors planstate ref) (\<lambda>_. shape ref)
      else ret ()))"
  have "and_then (start_stmt_span b ''pgsql.execute'' (qd_source qd) (qd_query_id qd) ?d) (\<lambda>ref.
      and_then (push_stmt_span b (qd_key qd) ref ?d) (\<lambda>_. ?tail ref)) ?s = (Ret (), t)"
    using assms(1) by (simp add: otel_ExecutorStart_def Let_def and_then_modify)
  from and_then_RetD [OF this] obtain ref u where st: "start_stmt_span b ''pgsql.execute'' (qd_source qd) (qd_query_id qd) ?d ?s = (Ret ref, u)"
      and rest: "and_then (push_stmt_span b (qd_key qd) ref ?d) (\<lambda>_. ?tail ref) u = (Ret (), t)" by blast
  from and_then_RetD [OF rest] obtain w where push: "push_stmt_span b (qd_key qd) ref ?d u = (Ret (), w)"
      and tl: "?tail ref w = (Ret (), t)" by auto
  have u: "ss_stmts u = ss_stmts s" using preservesD [OF start_stmt_keeps(1) st] by simp
  have "preserves ss_stmts (?tail ref)"
    by (intro preserves_and_then preserves_modify assms(3,4) keeps_if stmts_kept.walk_keeps(1) preserves_ret) simp
  from preservesD [OF this tl] push_outcome [OF push] u assms(2) show ?thesis by auto
qed

section \<open>Nested utility statements\<close>

text \<open>A utility call that is not a top-level one gets no span: the hook is transparent, an error's
  value and state included.\<close>

theorem nested_utility_starts_no_span:
  assumes "\<not> ut_toplevel u" and "ut_cursor u = None" and "preserves ss_cursor inner"
  shows "otel_ProcessUtility b b' u inner s = inner s"
proof -
  obtain x t where i: "inner s = (x, t)" by (metis surj_pair)
  have "ss_cursor t = ss_cursor s" by (rule preservesD [OF assms(3) i])
  then have "t\<lparr>ss_cursor := ss_cursor s\<rparr> = t" by (metis session.surjective session.update_convs(5))
  then show ?thesis
    using assms(1,2) i
    by (cases x) (simp_all add: otel_ProcessUtility_def utility_begin_def and_then_def ret_def modify_def catch_rethrow_def
        utility_catch_def utility_finish_def Let_def)
qed

end
