(* ===== verification/Stmt_Contexts.thy ===== *)
theory Stmt_Contexts
  imports Stmt_Props
begin

text \<open>
  The trace contexts a statement leaves in the session: what it offers to parallel workers,
  and what a statement that fails leaves behind for the next one.
\<close>

section \<open>Setting attributes leaves the spans\<close>

definition same_spans :: "producer \<Rightarrow> producer \<Rightarrow> bool" where
  "same_spans st u \<longleftrightarrow> map slot_core (st_slots u) = map slot_core (st_slots st) \<and> st_stack u = st_stack st \<and>
     st_nrecs u = st_nrecs st \<and> st_dispatch_depth u = st_dispatch_depth st \<and> st_exported u = st_exported st \<and> (wf st \<longrightarrow> wf u)"

lemma same_spans_refl [simp]: "same_spans st st"
  by (simp add: same_spans_def)

lemma same_spans_trans: "same_spans st u \<Longrightarrow> same_spans u v \<Longrightarrow> same_spans st v"
  by (simp add: same_spans_def)

lemma same_spans_bump [simp]: "same_spans st (bump c u) = same_spans st u"
  by (simp add: same_spans_def)

lemma core_update: "slot_core slot = slot_core (xs ! i) \<Longrightarrow> map slot_core (xs[i := slot]) = map slot_core xs"
  by (cases "i < length xs") (simp_all add: map_update list_update_same_conv list_update_beyond)

lemma setter_same_spans:
  assumes "keeps_core f"
  shows "same_spans st (apply_setter env s f st)"
proof -
  have "same_spans st (case f (st_slots st ! i) of (_, cs, slot) \<Rightarrow> fold bump cs (upd_slot i (\<lambda>_. slot) st))" for i
  proof -
    obtain x cs slot where f: "f (st_slots st ! i) = (x, cs, slot)" by (metis prod_cases3)
    have core: "slot_core slot = slot_core (st_slots st ! i)"
      using assms f unfolding keeps_core_def by (metis snd_conv)
    then show ?thesis
      using wf_slot_replaced [of st slot i cs] by (auto simp: f same_spans_def upd_slot_def core_update)
  qed
  then show ?thesis
    using apply_setter_wf [of st f env s] assms
    by (cases rule: call_refused_cases [of env False st]; cases rule: slot_for_ref_cases [of s st])
       (simp_all add: apply_setter_def setter_slot_def)
qed

text \<open>Steps of a session that only set attributes.\<close>

definition only_attrs :: "session \<Rightarrow> session \<Rightarrow> bool" where
  "only_attrs s t \<longleftrightarrow> t = s\<lparr>ss_prod := ss_prod t\<rparr> \<and> same_spans (ss_prod s) (ss_prod t)"

lemma only_attrs_refl: "only_attrs s s"
  by (simp add: only_attrs_def)

lemma only_attrs_trans: "only_attrs s t \<Longrightarrow> only_attrs t u \<Longrightarrow> only_attrs s u"
  by (metis (no_types, lifting) only_attrs_def same_spans_trans session.surjective session.update_convs(1))

lemma only_attrs_set:
  "only_attrs s (set_str b ref k v s)" "only_attrs s (set_int b ref k i s)"
  by (simp_all add: only_attrs_def set_str_def set_int_def set_prod_def otel_span_set_str_def otel_span_set_int_def
      api_span_set_str_def api_span_set_int_def setter_same_spans internal_setters_core)

lemma only_attrs_opt: "only_attrs s (set_opt b ref k v s)"
  by (simp add: set_opt_def only_attrs_refl only_attrs_set split: option.split)

lemma only_attrs_steps:
  "only_attrs s t \<Longrightarrow> only_attrs s (set_str b ref k v t)"
  "only_attrs s t \<Longrightarrow> only_attrs s (set_opt b ref k w t)"
  "only_attrs s t \<Longrightarrow> only_attrs s (set_if c (set_int b ref k i) t)"
  "only_attrs s t \<Longrightarrow> only_attrs s (set_if c (set_opt b ref k w) t)"
  using only_attrs_trans [of s t] only_attrs_set only_attrs_opt by (simp_all add: set_if_def)

lemma stmt_attrs_only: "only_attrs s (stmt_attrs b ref q i s)"
  unfolding stmt_attrs_def Let_def by (intro only_attrs_steps only_attrs_refl)

lemma same_spans_slot:
  assumes "same_spans st u" and "open_slot st i"
  shows "open_slot u i" "slot_handle u i = slot_handle st i" "slot_context (st_slots u ! i) = slot_context (st_slots st ! i)"
proof -
  have eq: "map slot_core (st_slots u) = map slot_core (st_slots st)" using assms(1) by (simp add: same_spans_def)
  have len: "length (st_slots u) = length (st_slots st)" using map_eq_imp_length_eq [OF eq] .
  have "map slot_core (st_slots u) ! i = map slot_core (st_slots st) ! i" by (simp only: eq)
  then have core: "slot_core (st_slots u ! i) = slot_core (st_slots st ! i)"
    using assms(2) len by (simp add: open_slot_def)
  note f = core_fields [OF core]
  show "open_slot u i" "slot_handle u i = slot_handle st i" using assms(2) len f by (simp_all add: open_slot_def slot_handle_def)
  show "slot_context (st_slots u ! i) = slot_context (st_slots st ! i)"
    using core by (simp add: slot_context_def slot_core_def Let_def)
qed

section \<open>What a traced statement offers to parallel workers\<close>

lemma context_of_open:
  assumes "wf (ss_prod s)" and "open_slot (ss_prod s) i" and "\<not> e_crit (bk_env b)" and "bk_loaded b"
  shows "context_of b (slot_handle (ss_prod s) i) s = (Ret (Some (slot_context (st_slots (ss_prod s) ! i))), s)"
proof -
  have "call_refused (env_of b s) True (ss_prod s) = (False, ss_prod s)" using assms(3) by (simp add: call_refused_def env_of_def)
  then show ?thesis
    using slot_handle_fields(3,4) [OF assms(1,2)] assms(4)
    by (simp add: context_of_def call_prod_def lift_op_def otel_span_context_of_def api_span_context_of_def
        otel_span_context_of_internal_def context_of_ref_def slot_for_open [OF assms(1,2)])
qed

lemma stmt_tail_run:
  assumes "wf (ss_prod u)" and "open_slot (ss_prod u) i" and "\<not> e_crit (bk_env b)" and "bk_loaded b" and "ss_txn u = 0"
  defines "ref \<equiv> slot_handle (ss_prod u) i"
  shows "\<exists>p. same_spans (ss_prod u) p \<and>
     and_then (modify (stmt_attrs b ref q qid)) (\<lambda>_. and_then (publish_leader_context b ref) (\<lambda>_. and_then (link_with_txn b ref) (\<lambda>_. ret ref))) u =
       (Ret ref, u\<lparr>ss_prod := p, ss_par := otel_parallel_publish_leader_context (bk_my_proc b)
          (Some (slot_context (st_slots (ss_prod u) ! i))) (ss_par u)\<rparr>)"
proof -
  let ?v = "stmt_attrs b ref q qid u"
  have same: "same_spans (ss_prod u) (ss_prod ?v)" and v: "?v = u\<lparr>ss_prod := ss_prod ?v\<rparr>"
    using stmt_attrs_only [of u b ref q qid] by (simp_all add: only_attrs_def)
  have w: "wf (ss_prod ?v)" using assms(1) same by (simp add: same_spans_def)
  note sl = same_spans_slot [OF same assms(2)]
  have "ref \<noteq> 0" using slot_handle_fields(4) [OF assms(1,2)] by (simp add: ref_def)
  moreover have "context_of b ref ?v = (Ret (Some (slot_context (st_slots (ss_prod u) ! i))), ?v)"
    using context_of_open [OF w sl(1) assms(3,4)] sl(2,3) by (simp add: ref_def)
  moreover have "ss_txn ?v = 0" using assms(5) by (subst v) simp
  ultimately have run: "and_then (modify (stmt_attrs b ref q qid)) (\<lambda>_. and_then (publish_leader_context b ref) (\<lambda>_.
      and_then (link_with_txn b ref) (\<lambda>_. ret ref))) u =
    (Ret ref, ?v\<lparr>ss_par := otel_parallel_publish_leader_context (bk_my_proc b) (Some (slot_context (st_slots (ss_prod u) ! i))) (ss_par ?v)\<rparr>)"
    using assms(4) by (simp add: and_then_def modify_def publish_leader_context_def link_with_txn_def otel_sdt_get_txn_context_def ret_def)
  have "?v\<lparr>ss_par := otel_parallel_publish_leader_context (bk_my_proc b) c (ss_par ?v)\<rparr> =
      u\<lparr>ss_prod := ss_prod ?v, ss_par := otel_parallel_publish_leader_context (bk_my_proc b) c (ss_par u)\<rparr>" for c
    using v by (metis session.simps(3) session.surjective session.update_convs(1,3))
  with run same show ?thesis by metis
qed

lemma stmt_runs:
  assumes ctx: "context_of b 0 s = (Ret (Some c), s)"
    and start: "start_span b (stmt_args b name d s) s = (Ret (slot_handle p i), s\<lparr>ss_prod := p\<rparr>)"
    and "wf p" and "open_slot p i" and "\<not> e_crit (bk_env b)" and "bk_loaded b" and "ss_txn s = 0"
  shows "\<exists>q. same_spans p q \<and> start_stmt_span b name query qid d s = (Ret (slot_handle p i), s\<lparr>ss_prod := q, ss_par :=
      otel_parallel_publish_leader_context (bk_my_proc b) (Some (slot_context (st_slots p ! i))) (ss_par s)\<rparr>)"
proof -
  have "slot_handle p i \<noteq> 0" by (rule slot_handle_fields(4) [OF assms(3,4)])
  moreover obtain q where "same_spans p q" "and_then (modify (stmt_attrs b (slot_handle p i) query qid)) (\<lambda>_.
      and_then (publish_leader_context b (slot_handle p i)) (\<lambda>_. and_then (link_with_txn b (slot_handle p i)) (\<lambda>_. ret (slot_handle p i))))
      (s\<lparr>ss_prod := p\<rparr>) = (Ret (slot_handle p i), s\<lparr>ss_prod := q, ss_par :=
      otel_parallel_publish_leader_context (bk_my_proc b) (Some (slot_context (st_slots p ! i))) (ss_par s)\<rparr>)"
    using stmt_tail_run [of "s\<lparr>ss_prod := p\<rparr>" i b query qid] assms(3-7) by auto
  ultimately show ?thesis
    by (auto simp: start_stmt_span_def and_then_def [of "context_of b 0"] ctx and_then_def [of "start_span b x" for x] start)
qed

lemma positive_start:
  assumes "start_result env args st ref u" and "wf u" and "0 <s ref"
  obtains i where "open_slot u i" "ref = slot_handle u i"
proof -
  have "\<not> started_nrec args tid f st ref u" for tid f
  proof
    assume "started_nrec args tid f st ref u"
    then obtain i where "open_nrec u i" "ref = nrec_handle u i" unfolding started_nrec_def by blast
    then show False using nrec_handle_fields(3) [OF assms(2)] assms(3) by (fastforce simp: word_sless_alt)
  qed
  then have "\<exists>p tid pf dec. started env args p tid pf dec st ref u"
    using assms(1) unfolding start_result_def
  proof (elim exE conjE)
    fix p
    assume "case p of
           P_nrec i \<Rightarrow> started_nrec args (trace_id (n_ctx (st_nrecs st ! i)))
                        (trace_flags (n_ctx (st_nrecs st ! i)) AND OTEL_TRACE_FLAG_RANDOM) st ref u
         | _ \<Rightarrow> (\<exists>tid pf dec. fst (start_decision env args p (seed_prng_if_needed env st)) = Ret (tid, pf, dec) \<and>
             (if dec = SAMPLE_DROP then started_nrec args tid (pf AND OTEL_TRACE_FLAG_RANDOM) st ref u
              else started env args p tid pf dec st ref u))"
    with \<open>\<And>tid f. \<not> started_nrec args tid f st ref u\<close> show ?thesis by (cases p) (auto split: if_splits)
  qed
  then show ?thesis using that by (auto simp: started_def)
qed

lemma prod_updates: "u = t\<lparr>ss_prod := p\<rparr> \<Longrightarrow> t = s\<lparr>ss_prod := q\<rparr> \<Longrightarrow> u = s\<lparr>ss_prod := p\<rparr>"
  by simp

lemma root_sized: "env_ok env \<Longrightarrow> rc_is_set (api_get_root_context (e_root env)) \<Longrightarrow> ctx_sized (rc_ctx (api_get_root_context (e_root env)))"
  by (simp add: env_ok_def root_wf_def traceparent_ok_def api_get_root_context_def ctx_sized_def)

text \<open>The part of \<open>start_stmt_span\<close> up to the span, and what follows it.\<close>

lemma stmt_span_opens:
  assumes "start_stmt_span b name query qid d s = (Ret ref, t)" and "0 <s ref"
    and "wf (ss_prod s)" and "env_ok (env_of b s)" and "bk_loaded b"
  obtains c p i u where "context_of b 0 s = (Ret c, s\<lparr>ss_prod := p\<rparr>)" "start_result (env_of b s) (stmt_args b name d s) p ref (ss_prod u)"
    "wf (ss_prod u)" "open_slot (ss_prod u) i" "ref = slot_handle (ss_prod u) i" "u = s\<lparr>ss_prod := ss_prod u\<rparr>"
    "and_then (modify (stmt_attrs b ref query qid)) (\<lambda>_. and_then (publish_leader_context b ref) (\<lambda>_.
       and_then (link_with_txn b ref) (\<lambda>_. ret ref))) u = (Ret ref, t)"
proof -
  let ?tail = "\<lambda>ref. and_then (modify (stmt_attrs b ref query qid)) (\<lambda>_. and_then (publish_leader_context b ref) (\<lambda>_.
      and_then (link_with_txn b ref) (\<lambda>_. ret ref)))"
  obtain c s0 where c: "context_of b 0 s = (Ret c, s0)"
      and rest: "(if c = None \<and> \<not> bk_trace_all b then ret 0 else (\<lambda>s. and_then (start_span b (stmt_args b name d s)) (\<lambda>ref.
         if ref = 0 then ret 0 else ?tail ref) s)) s0 = (Ret ref, t)"
    using and_then_RetD [OF assms(1) [unfolded start_stmt_span_def]] by blast
  have "ref \<noteq> 0" using assms(2) by auto
  then have "and_then (start_span b (stmt_args b name d s0)) (\<lambda>ref. if ref = 0 then ret 0 else ?tail ref) s0 = (Ret ref, t)"
    using rest by (auto simp: ret_def split: if_splits)
  from and_then_RetD [OF this] obtain ref1 u where u: "start_span b (stmt_args b name d s0) s0 = (Ret ref1, u)"
      and tail: "(if ref1 = 0 then ret 0 else ?tail ref1) u = (Ret ref, t)" by blast
  have ref1: "ref1 \<noteq> 0" using tail \<open>ref \<noteq> 0\<close> by (auto simp: ret_def)
  have s0: "s0 = s\<lparr>ss_prod := ss_prod s0\<rparr>" "wf (ss_prod s0)"
    using c api_span_context_of_wf(1) [OF assms(3), of 0 "env_of b s"] assms(5)
    by (auto simp: context_of_def call_prod_def lift_op_def otel_span_context_of_def genuine_def split: prod.splits)
  have env: "env_of b s0 = env_of b s" by (subst s0(1)) (simp add: env_of_def)
  have st: "api_span_start (env_of b s) (Some (stmt_args b name d s0)) (ss_prod s0) = (Ret ref1, ss_prod u) \<and> u = s0\<lparr>ss_prod := ss_prod u\<rparr>"
    using u ref1 by (auto simp: start_span_def call_prod_def lift_op_def otel_span_start_def env stmt_args_def literal_args_def Let_def
        split: prod.splits if_splits)
  have root: "ss_root s0 = ss_root s" by (subst s0(1)) simp
  have "args_ok (stmt_args b name d s0)"
    using root_sized [OF assms(4)] root by (auto simp: stmt_args_def literal_args_def args_ok_def genuine_def Let_def env_of_def
        root_none_def split: option.split)
  from start_ref [OF s0(2) assms(4) this conjunct1 [OF st] ref1]
  have wu: "wf (ss_prod u)" and res: "start_result (env_of b s) (stmt_args b name d s0) (ss_prod s0) ref1 (ss_prod u)" by blast+
  obtain i where i: "open_slot (ss_prod u) i" "ref1 = slot_handle (ss_prod u) i"
    by (rule positive_start [OF res wu]) (use assms(2) tail ref1 in \<open>auto simp: and_then_def ret_def modify_def split: prod.splits outcome.splits\<close>)
  have u1: "u = s\<lparr>ss_prod := ss_prod u\<rparr>" by (rule prod_updates [OF conjunct2 [OF st] s0(1)])
  have "ref = ref1" using tail ref1 by (auto simp: and_then_def ret_def modify_def split: prod.splits outcome.splits)
  moreover have "stmt_args b name d s0 = stmt_args b name d s" by (subst s0(1)) (simp add: stmt_args_def Let_def)
  moreover have "context_of b 0 s = (Ret c, s\<lparr>ss_prod := ss_prod s0\<rparr>)" using c s0(1) by simp
  ultimately show thesis using that [OF _ _ wu i(1) _ u1] i(2) tail ref1 res by simp
qed

text \<open>A statement whose span records has, once it has started, its own trace and span ID on
  offer for parallel workers: a worker that reads its leader's context gets exactly them.\<close>

theorem statement_offers_its_span:
  assumes "start_stmt_span b name query qid d s = (Ret ref, t)" and "0 <s ref"
    and "wf (ss_prod s)" and "env_ok (env_of b s)" and "\<not> e_crit (bk_env b)" and "bk_loaded b" and "ss_txn s = 0"
    and "ss_par s = Some slots" and "0 \<le> bk_my_proc b" and "bk_my_proc b < int (length slots)"
  shows "\<exists>i. open_slot (ss_prod t) i \<and> ref = slot_handle (ss_prod t) i \<and>
     otel_parallel_get_leader_context (bk_my_proc b) (ss_par t) = Some ((slot_context (st_slots (ss_prod t) ! i))\<lparr>tracestate := None\<rparr>)"
proof -
  obtain i u where u: "wf (ss_prod u)" "open_slot (ss_prod u) i" "ref = slot_handle (ss_prod u) i" "u = s\<lparr>ss_prod := ss_prod u\<rparr>"
      and tail: "and_then (modify (stmt_attrs b ref query qid)) (\<lambda>_. and_then (publish_leader_context b ref) (\<lambda>_.
        and_then (link_with_txn b ref) (\<lambda>_. ret ref))) u = (Ret ref, t)"
    by (rule stmt_span_opens [OF assms(1-4,6)]) blast
  have u2: "ss_txn u = 0" "ss_par u = Some slots" using assms(7,8) by (subst u(4), simp)+
  obtain p where p: "same_spans (ss_prod u) p" and t: "t = u\<lparr>ss_prod := p, ss_par :=
      otel_parallel_publish_leader_context (bk_my_proc b) (Some (slot_context (st_slots (ss_prod u) ! i))) (ss_par u)\<rparr>"
    using stmt_tail_run [OF u(1,2) assms(5,6) u2(1), of query qid] unfolding u(3) [symmetric] tail by auto
  have "otel_span_context_is_valid (slot_context (st_slots (ss_prod u) ! i))"
    using u(1,2) by (simp add: wf_def wf_ids_def trace_id_ok_def span_id_ok_def otel_span_context_is_valid_def slot_context_def Let_def)
  then have "otel_parallel_get_leader_context (bk_my_proc b) (ss_par t) = Some ((slot_context (st_slots (ss_prod u) ! i))\<lparr>tracestate := None\<rparr>)"
    using publish_get_same [OF assms(9,10)] by (simp add: t u2(2))
  then show ?thesis
    using same_spans_slot [OF p u(2)] u(3) t by (intro exI [of _ i]) simp
qed

text \<open>A session whose trace context was taken from the running statement's comment.\<close>

definition comment_ctx :: span_context where
  "comment_ctx = \<lparr>trace_id = replicate 16 1, span_id = replicate 8 2, trace_flags = 1, tracestate = None\<rparr>"

definition comment_session :: session where
  "comment_session = fresh_session\<lparr>ss_root := fresh_root\<lparr>rs_root := \<lparr>rc_is_set = True, rc_from_comment = True, rc_ctx = comment_ctx\<rparr>\<rparr>,
     ss_par := Some [zero_parallel_slot, zero_parallel_slot]\<rparr>"

definition comment_env :: env where
  "comment_env = run_env\<lparr>e_root := ss_root comment_session\<rparr>"

definition comment_args :: start_args where
  "comment_args = stmt_args walk_backend ''pgsql.execute'' False comment_session"

definition comment_open :: producer where
  "comment_open = snd (api_span_start comment_env (Some comment_args) initial_producer)"

lemma comment_ctx_ok: "traceparent_ok comment_ctx"
proof -
  have "length (trace_id comment_ctx) = 16" "length (span_id comment_ctx) = 8" "tracestate comment_ctx = None"
    by (simp_all add: comment_ctx_def)
  moreover have "otel_span_context_is_valid comment_ctx"
    by (simp add: comment_ctx_def otel_span_context_is_valid_def trace_id_valid_iff span_id_valid_iff)
  ultimately show ?thesis by (simp add: traceparent_ok_def ctx_sized_def)
qed

lemma comment_env_of: "env_of walk_backend comment_session = comment_env"
  by (simp add: env_of_def comment_env_def walk_backend_def comment_session_def fresh_session_def otel_parallel_get_leader_context_def
      INVALID_PROC_NUMBER_def run_env_def sample_env_def)

lemma comment_env_ok: "env_ok comment_env"
  using comment_ctx_ok run_env_ok by (simp add: env_ok_def comment_env_def root_wf_def comment_session_def)

lemma comment_start: "api_span_start comment_env (Some comment_args) initial_producer = (Ret (make_ref 6 0 True), comment_open)"
proof -
  have "fst (api_span_start comment_env (Some comment_args) initial_producer) = Ret (make_ref 6 0 True)"
    by (simp add: comment_args_def stmt_args_def comment_env_def comment_session_def fresh_session_def comment_ctx_def
        api_get_root_context_def literal_args_def otel_pg_tracer_def walk_backend_def otel_tracer_register_def
        otel_span_context_is_valid_def trace_id_valid_iff span_id_valid_iff otel_span_context_sampled_def
        OTEL_TRACE_FLAG_SAMPLED_def OTEL_TRACE_FLAG_RANDOM_def start_run_defs)
  then show ?thesis by (simp add: comment_open_def prod_eq_iff)
qed

lemma walk_backend_facts [simp]: "bk_loaded walk_backend" "bk_trace_all walk_backend" "bk_my_proc walk_backend = 0"
    "\<not> bk_worker walk_backend" "\<not> e_crit (bk_env walk_backend)"
  by (simp_all add: walk_backend_def run_env_def sample_env_def)

lemma comment_open_facts: "wf comment_open" "genuine (make_ref 6 0 True)" "open_slot comment_open 0"
    "make_ref 6 0 True = slot_handle comment_open 0" "sp_trace_id (s_span (st_slots comment_open ! 0)) = replicate 16 1"
proof -
  have "args_ok comment_args"
    using comment_ctx_ok by (simp add: comment_args_def stmt_args_def literal_args_def args_ok_def genuine_def Let_def
        comment_session_def fresh_session_def api_get_root_context_def traceparent_ok_def ctx_sized_def)
  from start_ref(1,3) [OF wf_initial comment_env_ok this comment_start]
  show "wf comment_open" "genuine (make_ref 6 0 True)" by (simp_all add: make_ref_def)
  show "open_slot comment_open 0" "make_ref 6 0 True = slot_handle comment_open 0"
    "sp_trace_id (s_span (st_slots comment_open ! 0)) = replicate 16 1"
    by (simp_all add: open_slot_def slot_handle_def comment_open_def comment_args_def stmt_args_def comment_env_def comment_session_def
        fresh_session_def comment_ctx_def api_get_root_context_def literal_args_def otel_pg_tracer_def walk_backend_def
        otel_tracer_register_def otel_span_context_is_valid_def trace_id_valid_iff span_id_valid_iff otel_span_context_sampled_def
        OTEL_TRACE_FLAG_SAMPLED_def OTEL_TRACE_FLAG_RANDOM_def start_run_defs)
qed

lemma comment_session_parts: "ss_prod comment_session = initial_producer" "ss_txn comment_session = 0"
    "ss_par comment_session = Some [zero_parallel_slot, zero_parallel_slot]" "ss_stmts comment_session = []"
    "ss_root comment_session = fresh_root\<lparr>rs_root := \<lparr>rc_is_set = True, rc_from_comment = True, rc_ctx = comment_ctx\<rparr>\<rparr>"
    "ss_cursor comment_session = None"
  by (simp_all add: comment_session_def fresh_session_def)

lemma comment_stmt:
  "\<exists>t. start_stmt_span walk_backend ''pgsql.execute'' None 0 False comment_session = (Ret (make_ref 6 0 True), t) \<and>
     wf (ss_prod t) \<and> ss_stmts t = [] \<and> ss_root t = ss_root comment_session \<and>
     ss_par t = otel_parallel_publish_leader_context 0 (Some (slot_context (st_slots comment_open ! 0))) (ss_par comment_session)"
proof -
  have ctx: "context_of walk_backend 0 comment_session = (Ret (Some (rc_ctx (api_get_root_context (ss_root comment_session)))), comment_session)"
  proof -
    have p: "ss_prod comment_session = initial_producer" "comment_session\<lparr>ss_prod := initial_producer\<rparr> = comment_session"
      by (simp_all add: comment_session_def fresh_session_def)
    have "rc_is_set (rs_root (e_root comment_env))" "e_root comment_env = ss_root comment_session" "\<not> e_crit comment_env" "e_leader_ctx comment_env = None"
      by (simp_all add: comment_env_def comment_session_def run_env_def sample_env_def)
    then have "otel_span_context_of comment_env True 0 initial_producer =
        (Ret (Some (rc_ctx (api_get_root_context (ss_root comment_session)))), initial_producer)"
      by (simp add: otel_span_context_of_def api_span_context_of_def call_refused_def otel_span_context_of_internal_def
          resolve_active_parent_def initial_producer_def)
    then show ?thesis by (simp add: context_of_def call_prod_def lift_op_def comment_env_of p)
  qed
  let ?u = "comment_session\<lparr>ss_prod := comment_open\<rparr>"
  have start: "start_span walk_backend (stmt_args walk_backend ''pgsql.execute'' False comment_session) comment_session = (Ret (make_ref 6 0 True), ?u)"
  proof -
    have p: "ss_prod comment_session = initial_producer" by (simp add: comment_session_def fresh_session_def)
    have "comment_args\<lparr>sa_struct_size := sizeof_OtelSpanStartArgs\<rparr> = comment_args"
      by (simp add: comment_args_def stmt_args_def literal_args_def Let_def)
    moreover have "otel_recording_possible True (bk_possible walk_backend)" by (simp add: otel_recording_possible_def walk_backend_def)
    ultimately show ?thesis
      using comment_start
      by (simp add: start_span_def call_prod_def lift_op_def comment_env_of otel_span_start_def comment_args_def [symmetric] p)
  qed
  note f = comment_open_facts
  obtain q where "same_spans comment_open q" "start_stmt_span walk_backend ''pgsql.execute'' None 0 False comment_session =
      (Ret (make_ref 6 0 True), comment_session\<lparr>ss_prod := q, ss_par :=
        otel_parallel_publish_leader_context 0 (Some (slot_context (st_slots comment_open ! 0))) (ss_par comment_session)\<rparr>)"
    using stmt_runs [OF ctx start [unfolded f(4)] f(1,3), of None 0] by (auto simp: f(4) comment_session_parts)
  moreover from this(1) have "wf q" using f(1) by (simp add: same_spans_def)
  ultimately show ?thesis by (simp add: comment_session_parts)
qed

theorem statement_offers_its_span_witness:
  "\<exists>t i. start_stmt_span walk_backend ''pgsql.execute'' None 0 False comment_session = (Ret (slot_handle (ss_prod t) i), t) \<and>
     otel_parallel_get_leader_context 0 (ss_par t) = Some ((slot_context (st_slots (ss_prod t) ! i))\<lparr>tracestate := None\<rparr>)"
proof -
  obtain t where t: "start_stmt_span walk_backend ''pgsql.execute'' None 0 False comment_session = (Ret (make_ref 6 0 True), t)"
    using comment_stmt by blast
  have "0 <s make_ref 6 0 True" by (simp add: make_ref_def word_sless_alt)
  then obtain i where "make_ref 6 0 True = slot_handle (ss_prod t) i"
      "otel_parallel_get_leader_context 0 (ss_par t) = Some ((slot_context (st_slots (ss_prod t) ! i))\<lparr>tracestate := None\<rparr>)"
    using statement_offers_its_span [OF t, of "[zero_parallel_slot, zero_parallel_slot]"] wf_initial comment_env_ok
    by (auto simp: comment_env_of comment_session_parts)
  then show ?thesis using t by metis
qed

section \<open>What an execution leaves\<close>


section \<open>What a failed statement leaves\<close>

lemma utility_begin_keeps: "preserves ss_cursor (utility_begin b u)"
  unfolding utility_begin_def
  by (intro keeps_if preserves_and_then preserves_modify preserves_ret apply_frame start_stmt_keeps)
     (auto simp: preserves_def push_stmt_span_def dest: preservesD [OF span_ops_keep(7)])

text \<open>C12: A utility statement that fails restores the module's own bookkeeping, and the
  transaction's abort empties it.  But neither takes back the context on offer for parallel
  workers nor the trace context taken from the statement's comment: the next outermost
  statement, whatever its own comment says, becomes a child of the failed statement's caller.\<close>

theorem failed_statement_leaves_contexts:
  assumes begin_ok: "utility_begin b u s = (Ret (), s1)"
    and fails: "inner (if ut_cursor u \<noteq> None then s1\<lparr>ss_cursor := ut_cursor u\<rparr> else s1) = (Throw, s2)"
    and inner: "ss_root s2 = ss_root s1" "ss_par s2 = ss_par s1"
    and comment: "rc_is_set (rs_root (ss_root s1))" "rc_from_comment (rs_root (ss_root s1))"
    and later: "bk_loaded c" "\<not> bk_worker c"
  shows "\<exists>t. otel_ProcessUtility b b' u inner s = (Throw, t) \<and> ss_cursor t = ss_cursor s \<and>
     (let a = otel_pgtracing_xact_callback XACT_ABORT t in
        ss_stmts a = [] \<and> ss_fdw a = [] \<and> ss_spans a = [] \<and>
        otel_parallel_get_leader_context p (ss_par a) = otel_parallel_get_leader_context p (ss_par s1) \<and>
        sa_parent (stmt_args c name d (maybe_apply_sqlcommenter c sql a)) = PARENT_CONTEXT \<and>
        sa_parent_ctx (stmt_args c name d (maybe_apply_sqlcommenter c sql a)) = Some (rc_ctx (api_get_root_context (ss_root s1))))"
proof -
  let ?t = "utility_catch u (ss_cursor s) s2"
  have pop: "ss_root (snd (pop_stmt_span k x)) = ss_root x" "ss_par (snd (pop_stmt_span k x)) = ss_par x"
    "ss_cursor (snd (pop_stmt_span k x)) = ss_cursor x" for k x
    by (simp_all add: pop_stmt_span_def split: option.split)
  have run: "otel_ProcessUtility b b' u inner s = (Throw, ?t)"
    using fails unfolding otel_ProcessUtility_def Let_def and_then_def [of "utility_begin b u"] begin_ok
    by (simp add: and_then_modify) (simp add: and_then_def catch_rethrow_def split: if_splits)
  have t: "ss_root ?t = ss_root s1" "ss_par ?t = ss_par s1" "ss_cursor ?t = ss_cursor s"
    using inner by (simp_all add: utility_catch_def Let_def pop)
  then show ?thesis
    using comment later run
    by (intro exI [of _ ?t])
       (simp add: otel_pgtracing_xact_callback_def otel_planspans_reset_def otel_fdw_reset_def maybe_apply_sqlcommenter_def
         stmt_args_def api_get_root_context_def Let_def)
qed

theorem failed_statement_leaves_contexts_witness:
  "\<exists>u t. otel_ProcessUtility walk_backend walk_backend u (\<lambda>s. (Throw, s)) comment_session = (Throw, t) \<and>
     ss_stmts (otel_pgtracing_xact_callback XACT_ABORT t) = [] \<and>
     (sa_parent_ctx (stmt_args walk_backend ''next'' False (otel_pgtracing_xact_callback XACT_ABORT t)) = Some comment_ctx)"
proof -
  let ?u = "\<lparr>ut_token = 3, ut_toplevel = True, ut_query = None, ut_tag = Some ''pgsql.execute'', ut_query_id = 0, ut_cursor = None\<rparr>"
  have "maybe_apply_sqlcommenter walk_backend None comment_session = comment_session" by (simp add: maybe_apply_sqlcommenter_def)
  moreover obtain t where t: "start_stmt_span walk_backend ''pgsql.execute'' None 0 False comment_session = (Ret (make_ref 6 0 True), t)"
      "ss_stmts t = []" "ss_root t = ss_root comment_session"
    using comment_stmt by blast
  ultimately have "utility_begin walk_backend ?u comment_session = push_stmt_span walk_backend 3 (make_ref 6 0 True) False t"
    by (simp add: utility_begin_def and_then_modify) (simp add: and_then_def)
  then obtain s1 where s1: "utility_begin walk_backend ?u comment_session = (Ret (), s1)" "ss_root s1 = ss_root comment_session"
    using t(2,3) by (simp add: push_stmt_span_def OTEL_STMT_STACK_MAX_def make_ref_def)
  have "api_get_root_context (ss_root comment_session) = \<lparr>rc_is_set = True, rc_from_comment = True, rc_ctx = comment_ctx\<rparr>"
    by (simp add: comment_session_parts api_get_root_context_def fresh_root_def comment_ctx_def)
  moreover have "maybe_apply_sqlcommenter walk_backend None x = x" for x by (simp add: maybe_apply_sqlcommenter_def)
  ultimately show ?thesis
    using failed_statement_leaves_contexts [OF s1(1), of "\<lambda>s. (Throw, s)" s1 walk_backend walk_backend 0 "''next''" False None] s1(2)
    by (auto simp: comment_session_parts Let_def)
qed


end
