(* ===== verification/Tracking_Props.thy ===== *)
theory Tracking_Props
  imports Stmt_Contexts
begin

text \<open>
  The fixed-size tracking arrays of \<open>otel_postgres_tracing\<close> under any nesting of its hooks, and
  the cursor and sort spans.
\<close>

section \<open>Operations from a condition to a condition\<close>

text \<open>Whatever the outcome, error or not, the state then satisfies \<open>Q\<close>.\<close>

definition always :: "('s \<Rightarrow> bool) \<Rightarrow> ('s, 'a) op \<Rightarrow> ('s \<Rightarrow> bool) \<Rightarrow> bool" where
  "always P m Q \<longleftrightarrow> (\<forall>s x t. P s \<longrightarrow> m s = (x, t) \<longrightarrow> Q t)"

lemma alwaysI: "(\<And>s x t. P s \<Longrightarrow> m s = (x, t) \<Longrightarrow> Q t) \<Longrightarrow> always P m Q"
  by (simp add: always_def)

lemma alwaysD: "always P m Q \<Longrightarrow> P s \<Longrightarrow> m s = (x, t) \<Longrightarrow> Q t"
  by (simp add: always_def)

lemma always_ret: "(\<And>s. P s \<Longrightarrow> Q s) \<Longrightarrow> always P (ret a) Q"
  by (simp add: always_def ret_def)

lemma always_modify: "(\<And>s. P s \<Longrightarrow> Q (f s)) \<Longrightarrow> always P (modify f) Q"
  by (simp add: always_def modify_def)

lemma always_and_then: "always P m Q \<Longrightarrow> (\<And>a. always Q (f a) R) \<Longrightarrow> (\<And>s. Q s \<Longrightarrow> R s) \<Longrightarrow> always P (and_then m f) R"
  unfolding always_def and_then_def by (fastforce split: prod.splits outcome.splits)

lemma always_if: "(c \<Longrightarrow> always P m Q) \<Longrightarrow> (\<not> c \<Longrightarrow> always P n Q) \<Longrightarrow> always P (if c then m else n) Q"
  by simp

lemma always_finally: "always P m Q \<Longrightarrow> always Q f Q \<Longrightarrow> always P (finally_do m f) Q"
  unfolding always_def finally_do_def by (fastforce split: prod.splits outcome.splits)

lemma always_catch: "always P m Q \<Longrightarrow> (\<And>s. Q s \<Longrightarrow> Q (c s)) \<Longrightarrow> always P (catch_rethrow m c) Q"
  unfolding always_def catch_rethrow_def by (fastforce split: prod.splits outcome.splits)

section \<open>The arrays are never overrun\<close>

definition bounded :: "session \<Rightarrow> bool" where
  "bounded s \<longleftrightarrow> stmt_stack.tracked s \<and> fdw_stack.tracked s \<and> planspans_stack.tracked s \<and>
     length (ss_sorts s) \<le> OTEL_PLANSPANS_STACK_MAX"

definition tracking where
  "tracking s = (ss_stmts s, ss_fdw s, ss_spans s, ss_sorts s)"

lemma bounded_iff:
  "bounded s \<longleftrightarrow> length (ss_stmts s) \<le> 32 \<and> (\<forall>e\<in>set (ss_stmts s). te_ref e \<noteq> 0) \<and>
     length (ss_fdw s) \<le> 16 \<and> (\<forall>e\<in>set (ss_fdw s). te_ref e \<noteq> 0) \<and>
     length (ss_spans s) \<le> 16 \<and> (\<forall>e\<in>set (ss_spans s). te_ref e \<noteq> 0) \<and> length (ss_sorts s) \<le> 16"
  unfolding bounded_def stmt_stack.tracked_def fdw_stack.tracked_def planspans_stack.tracked_def
  by (simp add: OTEL_STMT_STACK_MAX_def OTEL_FDW_SCAN_STACK_MAX_def OTEL_PLANSPANS_STACK_MAX_def)

lemma bounded_same: "tracking t = tracking s \<Longrightarrow> bounded t = bounded s"
  by (simp add: tracking_def bounded_iff)

lemma tracking_set [simp]:
  "tracking (set_prod b f s) = tracking s" "tracking (set_str b r k v s) = tracking s" "tracking (set_int b r k i s) = tracking s"
  by (simp_all add: tracking_def set_prod_def set_str_def set_int_def)

lemma tracking_attrs [simp]: "tracking (stmt_attrs b r q j s) = tracking s"
proof -
  have "stmt_attrs b r q j s = s\<lparr>ss_prod := ss_prod (stmt_attrs b r q j s)\<rparr>" using stmt_attrs_only by (simp add: only_attrs_def)
  then show ?thesis by (metis (no_types) session.ext_inject session.surjective session.update_convs(1) tracking_def)
qed

lemma tracking_context [simp]: "tracking (maybe_apply_sqlcommenter b q s) = tracking s" "tracking (maybe_reset_comment_context b s) = tracking s"
  by (simp_all add: tracking_def maybe_apply_sqlcommenter_def maybe_reset_comment_context_def)

abbreviation keeps_bounds :: "'a session_op \<Rightarrow> bool" where
  "keeps_bounds m \<equiv> always bounded m bounded"

lemma untouched: "preserves tracking m \<Longrightarrow> always (\<lambda>s. bounded s \<and> P (tracking s)) m (\<lambda>s. bounded s \<and> P (tracking s))"
  unfolding always_def using preservesD bounded_same by metis

lemma untouched': "preserves tracking m \<Longrightarrow> keeps_bounds m"
  unfolding always_def using preservesD bounded_same by metis

lemma kb_then: "keeps_bounds m \<Longrightarrow> (\<And>a. keeps_bounds (f a)) \<Longrightarrow> keeps_bounds (and_then m f)"
  by (rule always_and_then)

lemma kb_ret: "keeps_bounds (ret a)"
  by (rule always_ret)

lemma kb_if: "(c \<Longrightarrow> keeps_bounds m) \<Longrightarrow> (\<not> c \<Longrightarrow> keeps_bounds n) \<Longrightarrow> keeps_bounds (if c then m else n)"
  by simp

lemma kb_modify: "(\<And>s. tracking (f s) = tracking s) \<Longrightarrow> keeps_bounds (modify f)"
  by (rule untouched' [OF preserves_modify])

lemma call_prod_tracking: "preserves tracking (call_prod b m)"
  by (auto simp: preserves_def tracking_def call_prod_def lift_op_def split: prod.splits)

lemma span_ops_tracking: "preserves tracking (start_span b args)" "preserves tracking (end_span b ref)" "preserves tracking (context_of b ref)"
  by (simp_all add: start_span_def end_span_def context_of_def call_prod_tracking)

lemma publish_tracking: "preserves tracking (publish_leader_context b ref)"
  unfolding publish_leader_context_def
  by (intro keeps_if preserves_and_then preserves_ret preserves_modify span_ops_tracking) (simp add: tracking_def split: option.split)

lemma restore_tracking: "preserves tracking (restore_leader_context b)"
  unfolding restore_leader_context_def using publish_tracking by (auto simp: preserves_def tracking_def)

lemma link_tracking: "preserves tracking (link_with_txn b ref)"
proof -
  have "preserves tracking (otel_sdt_get_txn_context b)"
    using span_ops_tracking(3) by (auto simp: preserves_def otel_sdt_get_txn_context_def)
  then show ?thesis
    unfolding link_with_txn_def
    by (intro preserves_and_then, assumption, split option.split)
       (auto simp: otel_sdt_link_stmt_to_txn_def split: option.split intro!: preserves_ret preserves_and_then preserves_modify span_ops_tracking)
qed

lemma start_stmt_tracking: "preserves tracking (start_stmt_span b n q i d)"
  unfolding start_stmt_span_def
  by (rule preserves_and_then [OF span_ops_tracking(3)], rule keeps_if, rule preserves_ret, rule keeps_at, rule preserves_and_then [OF span_ops_tracking(1)],
      rule keeps_if, rule preserves_ret, rule preserves_and_then, rule preserves_modify, rule tracking_attrs, rule preserves_and_then [OF publish_tracking],
      rule preserves_and_then [OF link_tracking], rule preserves_ret)

lemma finalize_tracking: "preserves tracking (finalize_stmt_span b ref)"
  unfolding finalize_stmt_span_def
  by (intro keeps_if preserves_ret preserves_and_then span_ops_tracking restore_tracking preserves_modify tracking_context)

lemma start_put_bounds:
  assumes "and_then (start_span b args) (\<lambda>ref. modify (f ref)) s = (x, t)" and "bounded s"
    and "\<And>ref u. tracking u = tracking s \<Longrightarrow> bounded (f ref u)"
  shows "bounded t"
proof -
  obtain y u where u: "start_span b args s = (y, u)" by (metis surj_pair)
  have "tracking u = tracking s" by (rule preservesD [OF span_ops_tracking(1) u])
  then show ?thesis using assms bounded_same [of u s] by (cases y) (auto simp: and_then_def u modify_def)
qed

lemma tracking_sel: "tracking u = tracking s \<longleftrightarrow> ss_stmts u = ss_stmts s \<and> ss_fdw u = ss_fdw s \<and> ss_spans u = ss_spans s \<and> ss_sorts u = ss_sorts s"
  by (simp add: tracking_def)

lemma bounded_remove:
  "bounded s \<Longrightarrow> bounded (snd (pop_stmt_span n s))" "bounded s \<Longrightarrow> bounded (snd (pop_fdw n s))"
  "bounded s \<Longrightarrow> bounded (snd (pop_planspan n s))"
proof -
  have o: "ss_fdw (snd (pop_stmt_span n s)) = ss_fdw s" "ss_spans (snd (pop_stmt_span n s)) = ss_spans s"
    "ss_sorts (snd (pop_stmt_span n s)) = ss_sorts s" "ss_stmts (snd (pop_fdw n s)) = ss_stmts s"
    "ss_spans (snd (pop_fdw n s)) = ss_spans s" "ss_sorts (snd (pop_fdw n s)) = ss_sorts s"
    "ss_stmts (snd (pop_planspan n s)) = ss_stmts s" "ss_fdw (snd (pop_planspan n s)) = ss_fdw s"
    "ss_sorts (snd (pop_planspan n s)) = ss_sorts s"
    by (simp_all add: pop_stmt_span_def pop_fdw_def pop_planspan_def split: option.split)
  note tr = stmt_stack.tracked_def fdw_stack.tracked_def planspans_stack.tracked_def
  show "bounded s \<Longrightarrow> bounded (snd (pop_stmt_span n s))"
    using stmt_stack.pop_tracked [of s n] unfolding bounded_def fdw_stack.tracked_def planspans_stack.tracked_def o by blast
  show "bounded s \<Longrightarrow> bounded (snd (pop_fdw n s))"
    using fdw_stack.pop_tracked [of s n] unfolding bounded_def stmt_stack.tracked_def planspans_stack.tracked_def o by blast
  show "bounded s \<Longrightarrow> bounded (snd (pop_planspan n s))"
    using planspans_stack.pop_tracked [of s n] unfolding bounded_def stmt_stack.tracked_def fdw_stack.tracked_def o by blast
qed

lemma fdw_bounds: "keeps_bounds (otel_fdw_scan_begin b n r)" "keeps_bounds (otel_fdw_scan_end b n)"
proof -
  show "keeps_bounds (otel_fdw_scan_begin b n r)"
  proof (rule alwaysI)
    fix s x t
    assume s: "bounded s" and run: "otel_fdw_scan_begin b n r s = (x, t)"
    obtain parent p where c: "otel_span_current (env_of b s) (bk_loaded b) (ss_prod s) = (parent, p)" by (metis surj_pair)
    have s1: "bounded (s\<lparr>ss_prod := p\<rparr>)" by (rule iffD2 [OF bounded_same s]) (simp add: tracking_def)
    show "bounded t"
    proof (cases "length (ss_fdw s) \<ge> OTEL_FDW_SCAN_STACK_MAX")
      case True
      then show ?thesis using run s1 by (auto simp: otel_fdw_scan_begin_def c)
    next
      case False
      have f: "bounded (if ref = 0 then u
                 else (let s2 = set_str b ref ''db.system.name'' ''postgresql'' u;
                           s3 = (case r of None \<Rightarrow> s2 | Some r \<Rightarrow> set_str b ref ''db.collection.name'' r s2)
                       in s3\<lparr>ss_fdw := track_push n ref (level_of b) True (ss_fdw s3)\<rparr>))"
        if "tracking u = tracking (s\<lparr>ss_prod := p\<rparr>)" for ref u
      proof -
        have "\<exists>s3. tracking s3 = tracking u \<and> (case r of None \<Rightarrow> set_str b ref ''db.system.name'' ''postgresql'' u
            | Some r \<Rightarrow> set_str b ref ''db.collection.name'' r (set_str b ref ''db.system.name'' ''postgresql'' u)) = s3"
          by (simp split: option.split)
        then show ?thesis using that s False
          by (auto simp: tracking_sel bounded_iff track_push_def OTEL_FDW_SCAN_STACK_MAX_def Let_def)
      qed
      then show ?thesis
        using run False s1 unfolding otel_fdw_scan_begin_def c Let_def [of "s\<lparr>ss_prod := p\<rparr>"] prod.case
        by (auto dest: start_put_bounds [OF _ s1 f])
    qed
  qed
  show "keeps_bounds (otel_fdw_scan_end b n)"
  proof (rule alwaysI)
    fix s x t
    assume s: "bounded s" and run: "otel_fdw_scan_end b n s = (x, t)"
    have "keeps_bounds (and_then (end_span b ref) (\<lambda>_. modify (\<lambda>s. snd (pop_fdw n s))))" for ref
      by (rule always_and_then [OF untouched' [OF span_ops_tracking(2)] always_modify]) (rule bounded_remove)
    from alwaysD [OF this s] show "bounded t" using run s by (auto simp: otel_fdw_scan_end_def split: if_splits)
  qed
qed

lemma sort_bounds_bounds: "sort_bounds b ps s = (r, t) \<Longrightarrow> bounded s \<Longrightarrow> bounded t"
  by (auto simp: sort_bounds_def Let_def bounded_iff sortwrap_find_def length_remove_at dest!: find_top_lt split: option.splits if_splits)

lemma sort_attrs_tracking [simp]: "tracking (sort_attrs b ref ps rows s) = tracking s" "tracking (gather_attrs b ref k s) = tracking s"
  by (simp_all add: sort_attrs_def gather_attrs_def Let_def split: node_kind.split option.split)

lemma planspans_bounds: "keeps_bounds (planspans_node_begin b ps ctx)" "keeps_bounds (planspans_node_end b ps ctx)"
proof -
  show "keeps_bounds (planspans_node_begin b ps ctx)"
  proof (rule alwaysI)
    fix s x t
    assume s: "bounded s" and run: "planspans_node_begin b ps ctx s = (x, t)"
    have f: "bounded (if ref = 0 then u
                   else (let s1 = (case node_kind ps of
                                     CustomScan (Some n) \<Rightarrow> set_str b ref ''pg.customscan.method'' n u
                                   | _ \<Rightarrow> u)
                         in s1\<lparr>ss_spans := track_push (node_id ps) ref (level_of b) True (ss_spans s1)\<rparr>))"
      if "\<not> OTEL_PLANSPANS_STACK_MAX \<le> length (ss_spans s)" "tracking u = tracking s" for ref u
    proof -
      have "\<exists>s1. tracking s1 = tracking u \<and> (case node_kind ps of
                                     CustomScan (Some n) \<Rightarrow> set_str b ref ''pg.customscan.method'' n u
                                   | _ \<Rightarrow> u) = s1"
        by (simp split: option.split node_kind.split)
      then show ?thesis using that s
        by (auto simp: tracking_sel bounded_iff track_push_def OTEL_PLANSPANS_STACK_MAX_def Let_def)
    qed
    show "bounded t"
    proof (cases "is_sort (node_kind ps) \<and> length (ss_sorts s) < OTEL_PLANSPANS_STACK_MAX")
      case True
      then show ?thesis using run s by (auto simp: planspans_node_begin_def bounded_iff OTEL_PLANSPANS_STACK_MAX_def)
    next
      case False
      then show ?thesis
        using run s unfolding planspans_node_begin_def if_not_P [OF False]
        by (auto split: option.splits if_splits dest: start_put_bounds [OF _ s f])
    qed
  qed
  have sort: "keeps_bounds (planspans_sort_span b ps ctx)"
  proof (rule alwaysI)
    fix s x t
    assume s: "bounded s" and run: "planspans_sort_span b ps ctx s = (x, t)"
    obtain r s1 where r: "sort_bounds b ps s = (r, s1)" by (metis surj_pair)
    note s1 = sort_bounds_bounds [OF r s]
    have m: "keeps_bounds (and_then (start_span b args) (\<lambda>ref. if ref = 0 then ret ()
        else and_then (modify (sort_attrs b ref ps rows)) (\<lambda>_. call_prod b (\<lambda>env. otel_span_end_at env ref stop))))" for args rows stop
      by (rule untouched') (intro preserves_and_then span_ops_tracking(1) keeps_if preserves_ret preserves_modify call_prod_tracking sort_attrs_tracking)
    show "bounded t"
    proof (cases r)
      case None
      then show ?thesis using run s1 by (simp add: planspans_sort_span_def r)
    next
      case (Some bounds)
      obtain start stop rows where bounds: "bounds = (start, stop, rows)" by (metis prod_cases3)
      show ?thesis
        using run unfolding planspans_sort_span_def r Some bounds prod.case option.case by (rule alwaysD [OF m s1])
    qed
  qed
  show "keeps_bounds (planspans_node_end b ps ctx)"
  proof (rule alwaysI)
    fix s x t
    assume s: "bounded s" and run: "planspans_node_end b ps ctx s = (x, t)"
    have m: "keeps_bounds (and_then (modify (gather_attrs b ref k)) (\<lambda>_. and_then (end_span b ref)
        (\<lambda>_. modify (\<lambda>s. snd (pop_planspan n s)))))" for ref k n
    proof (rule always_and_then)
      show "keeps_bounds (modify (gather_attrs b ref k))" by (rule untouched' [OF preserves_modify]) simp
      show "keeps_bounds (and_then (end_span b ref) (\<lambda>_. modify (\<lambda>s. snd (pop_planspan n s))))"
        by (rule always_and_then [OF untouched' [OF span_ops_tracking(2)] always_modify]) (rule bounded_remove)
    qed
    show "bounded t"
      using run s unfolding planspans_node_end_def Let_def
      by (auto split: if_splits dest: alwaysD [OF sort] alwaysD [OF m])
  qed
qed

lemma walk_bounds:
  "keeps_bounds (otel_planwalk_executor_start b span_collectors planstate stmt)"
  "keeps_bounds (otel_planwalk_executor_end b span_collectors planstate stmt)"
proof -
  have then_op: "keeps_bounds m \<Longrightarrow> keeps_bounds n \<Longrightarrow> keeps_bounds (and_then m (\<lambda>_. n))" for m n :: "unit session_op"
    by (rule always_and_then)
  have empty_op: "keeps_bounds (ret ())" by (rule always_ret)
  have reports: "keeps_bounds (modify f)" if "\<And>s. only_reports s (f s)" for f
  proof (rule always_modify)
    fix s assume s: "bounded s"
    have "tracking (f s) = tracking s" by (simp add: tracking_def only_reportsD [OF that [of s]])
    from s show "bounded (f s)" by (rule iffD2 [OF bounded_same [OF \<open>tracking (f s) = tracking s\<close>]])
  qed
  note path_op = reports [OF path_step_reports] and walk_ops = reports [OF path_walk_reports(1)] reports [OF path_walk_reports(2)]
  have visit: "keeps_bounds (visit_node b (build_enabled_mask b span_collectors) is_end ps ctx)" for is_end ps ctx
  proof -
    have fdw: "keeps_bounds (otel_fdw_collector_node_begin b ps ctx)" "keeps_bounds (otel_fdw_collector_node_end b ps ctx)"
      by (cases "node_kind ps"; simp add: otel_fdw_collector_node_begin_def otel_fdw_collector_node_end_def empty_op fdw_bounds)+
    show ?thesis
      unfolding visit_steps
      by (intro then_op path_op) (simp_all add: fdw empty_op planspans_bounds split del: if_split split: if_splits)
  qed
  have all: "keeps_bounds (visits b (build_enabled_mask b span_collectors) is_end stmt nodes)" for is_end nodes
  proof (induction nodes)
    case Nil
    show ?case by (simp add: visits_def empty_op)
  next
    case (Cons node nodes)
    then show ?case by (cases node) (simp add: visits_Cons then_op visit)
  qed
  show "keeps_bounds (otel_planwalk_executor_start b span_collectors planstate stmt)"
    using all by (cases planstate) (simp_all add: executor_walks, simp add: otel_planwalk_executor_start_def empty_op)
  show "keeps_bounds (otel_planwalk_executor_end b span_collectors planstate stmt)"
    by (cases planstate) (simp_all add: executor_walks all then_op walk_ops, simp add: otel_planwalk_executor_end_def empty_op)
qed

text \<open>
  What runs in a backend: the hooks, each around anything that runs in a backend; the
  transaction callbacks; other modules' producer calls; errors; and all of these in sequence.
\<close>

inductive hook_op :: "unit session_op \<Rightarrow> bool" where
  empty_op: "hook_op (ret ())"
| fails: "hook_op (\<lambda>s. (Throw, s))"
| seq: "hook_op m \<Longrightarrow> hook_op n \<Longrightarrow> hook_op (and_then m (\<lambda>_. n))"
| other_call: "hook_op (call_prod b m)"
| exec_start: "(\<And>i. hook_op (inner i)) \<Longrightarrow> hook_op (otel_ExecutorStart b b' span_collectors qd inner planstate (\<lambda>r. ret ()))"
| exec_run: "hook_op inner \<Longrightarrow> hook_op (otel_ExecutorRun b b' qd inner)"
| sort_run: "hook_op inner \<Longrightarrow> hook_op (sortwrap_exec node t1 t2 inner)"
| exec_end: "hook_op inner \<Longrightarrow> hook_op (otel_ExecutorEnd b b' span_collectors qd launched planstate inner)"
| utility: "hook_op inner \<Longrightarrow> hook_op (otel_ProcessUtility b b' u inner)"
| xact: "hook_op (modify (otel_pgtracing_xact_callback xe))"
| subxact: "hook_op (modify (otel_pgtracing_subxact_callback b se))"

lemma push_bounds: "keeps_bounds (push_stmt_span b key ref d)"
proof (rule alwaysI)
  fix s x t
  assume s: "bounded s" and run: "push_stmt_span b key ref d s = (x, t)"
  consider "t = s" | "end_span b ref s = (x, t)"
    | "ref \<noteq> 0" "length (ss_stmts s) < OTEL_STMT_STACK_MAX" "t = s\<lparr>ss_stmts := track_push key ref (level_of b) d (ss_stmts s)\<rparr>"
    using run by (auto simp: push_stmt_span_def split: if_splits)
  then show "bounded t"
  proof cases
    case 2
    then show ?thesis by (rule alwaysD [OF untouched' [OF span_ops_tracking(2)] s])
  qed (use s in \<open>auto simp: bounded_iff OTEL_STMT_STACK_MAX_def track_push_def\<close>)
qed

lemma op_bounds: "hook_op m \<Longrightarrow> keeps_bounds m"
proof (induction rule: hook_op.induct)
  case (seq m n)
  show ?case by (rule always_and_then [OF seq.IH])
next
  case (other_call b m)
  show ?case by (rule untouched' [OF call_prod_tracking])
next
  case (exec_start inner b b' qd planstate)
  have tail: "keeps_bounds (and_then (modify (\<lambda>s. if bk_worker b
        then set_int b ref ''pg.backend.pid'' (bk_pid b) (set_int b ref ''pg.parallel.worker_number'' (bk_worker_number b) s)
        else s)) (\<lambda>_.
      and_then (inner (otel_span_recording ref \<and> otel_planwalk_want_instrumentation b)) (\<lambda>_.
      if otel_span_recording ref
      then and_then (otel_planwalk_executor_start b' span_collectors planstate ref) (\<lambda>_. ret ())
      else ret ())))" for ref
    by (rule kb_then, rule kb_modify, simp, rule kb_then, rule exec_start.IH, rule kb_if, rule kb_then [OF walk_bounds(1) kb_ret], rule kb_ret)
  have all: "keeps_bounds (and_then (modify (maybe_apply_sqlcommenter b (qd_source qd))) (\<lambda>_.
      and_then (start_stmt_span b ''pgsql.execute'' (qd_source qd) (qd_query_id qd) d) (\<lambda>ref.
      and_then (push_stmt_span b (qd_key qd) ref d) (\<lambda>_. and_then (modify (\<lambda>s. if bk_worker b
        then set_int b ref ''pg.backend.pid'' (bk_pid b) (set_int b ref ''pg.parallel.worker_number'' (bk_worker_number b) s)
        else s)) (\<lambda>_.
      and_then (inner (otel_span_recording ref \<and> otel_planwalk_want_instrumentation b)) (\<lambda>_.
      if otel_span_recording ref
      then and_then (otel_planwalk_executor_start b' span_collectors planstate ref) (\<lambda>_. ret ())
      else ret ()))))))" for d
    by (rule always_and_then [OF untouched' [OF preserves_modify]], rule tracking_context, rule always_and_then [OF untouched' [OF start_stmt_tracking]],
        rule always_and_then [OF push_bounds tail])
  show ?case
    using alwaysD [OF all] by (auto simp: always_def otel_ExecutorStart_def Let_def)
next
  case (exec_run inner b b' qd)
  show ?case
  proof (rule alwaysI)
    fix s x t
    assume s: "bounded s" and run: "otel_ExecutorRun b b' qd inner s = (x, t)"
    show "bounded t"
    proof (cases "peek_cursor_span (qd_key qd) s")
      case None
      then show ?thesis using run alwaysD [OF always_finally [OF exec_run.IH always_ret] s] by (simp add: otel_ExecutorRun_def)
    next
      case (Some ref)
      obtain act p where a: "otel_span_activate (env_of b s) (bk_loaded b) ref (ss_prod s) = (act, p)" by (metis surj_pair)
      have "bounded (s\<lparr>ss_prod := p\<rparr>)" by (rule iffD2 [OF bounded_same s]) (simp add: tracking_def)
      then show ?thesis
        using run alwaysD [OF always_finally [OF exec_run.IH untouched' [OF call_prod_tracking]]]
        by (auto simp: otel_ExecutorRun_def Some a)
    qed
  qed
next
  case (sort_run inner node t1 t2)
  have upd: "bounded s \<Longrightarrow> bounded (s\<lparr>ss_sorts := (ss_sorts s)[i := e]\<rparr>)" for s i e by (simp add: bounded_iff)
  have m: "keeps_bounds (and_then inner (\<lambda>r s. case sortwrap_find node s of None \<Rightarrow> (Ret r, s)
            | Some j \<Rightarrow> (Ret r, s\<lparr>ss_sorts := (ss_sorts s)[j := (ss_sorts s ! j)\<lparr>so_end := t2\<rparr>]\<rparr>)))"
    by (rule always_and_then [OF sort_run.IH]) (auto simp: always_def upd split: option.splits)
  show ?case
  proof (rule alwaysI)
    fix s x t
    assume s: "bounded s" and run: "sortwrap_exec node t1 t2 inner s = (x, t)"
    show "bounded t"
    proof (cases "sortwrap_find node s")
      case None
      then show ?thesis using s run by (simp add: sortwrap_exec_def)
    next
      case (Some i)
      then show ?thesis using run alwaysD [OF m upd [OF s]] by (simp add: sortwrap_exec_def)
    qed
  qed
next
  case (exec_end inner b b' qd launched planstate)
  have rest: "keeps_bounds (and_then (modify (\<lambda>s. if launched then set_prod b (\<lambda>env. otel_span_set_bool env ref ''pg.parallel.leader'' True) s else s)) (\<lambda>_.
        and_then (otel_planwalk_executor_end b span_collectors planstate ref) (\<lambda>_. and_then inner (\<lambda>_. finalize_stmt_span b' ref))))" for ref
    by (rule kb_then, rule kb_modify, simp, rule kb_then [OF walk_bounds(2)], rule kb_then [OF exec_end.IH], rule untouched' [OF finalize_tracking])
  show ?case
    unfolding otel_ExecutorEnd_def case_prod_beta by (rule alwaysI) (rule alwaysD [OF rest bounded_remove(1)])
next
  case (utility inner b b' u)
  have cur: "bounded (s\<lparr>ss_cursor := c\<rparr>) \<longleftrightarrow> bounded s" for s c by (simp add: bounded_iff)
  have "keeps_bounds (utility_begin b u)"
    unfolding utility_begin_def
    by (rule always_if, rule always_and_then [OF untouched' [OF preserves_modify]], rule tracking_context,
        rule always_and_then [OF untouched' [OF start_stmt_tracking] push_bounds]) (auto intro: always_ret)
  moreover have "keeps_bounds (utility_finish b' u c)" for c
    unfolding utility_finish_def Let_def case_prod_beta
    by (rule alwaysI) (auto simp: cur dest!: alwaysD [OF untouched' [OF finalize_tracking] bounded_remove(1) [OF iffD2 [OF cur]], rotated]
      split: if_splits)
  moreover have "bounded s \<Longrightarrow> bounded (utility_catch u c s)" for c s
    using bounded_remove(1) by (simp add: utility_catch_def Let_def cur)
  ultimately have "keeps_bounds (and_then (utility_begin b u) (\<lambda>_.
      and_then (modify (\<lambda>s. if ut_cursor u \<noteq> None then s\<lparr>ss_cursor := ut_cursor u\<rparr> else s)) (\<lambda>_.
      and_then (catch_rethrow inner (utility_catch u c)) (\<lambda>_. utility_finish b' u c))))" for c
    by (intro kb_then always_modify always_catch utility.IH) (simp_all add: cur)
  then show ?case by (auto simp: always_def otel_ProcessUtility_def Let_def)
next
  case (xact xe)
  show ?case
    by (rule always_modify) (simp add: otel_pgtracing_xact_callback_def otel_planspans_reset_def otel_fdw_reset_def bounded_iff)
next
  case (subxact b se)
  show ?case
    by (intro always_modify) (auto intro: le_trans [OF length_filter_le] simp: otel_pgtracing_subxact_callback_def otel_planspans_subxact_abort_def
        otel_fdw_subxact_abort_def keep_below_filter bounded_iff Let_def)
qed (auto simp: always_def ret_def)

text \<open>C13: However hooks nest, fail, jump over their ends or are aborted: the statement stack never
  holds more than 32 entries, the foreign-scan, plan-span and sort arrays never more than 16,
  and no entry is without a span.\<close>

theorem tracking_bounded:
  assumes "hook_op m" and "bounded s" and "m s = (x, t)"
  shows "bounded t"
  using alwaysD [OF op_bounds [OF assms(1)] assms(2,3)] .

theorem tracking_bounded_witness:
  "\<exists>m t. hook_op m \<and> m comment_session = (Throw, t) \<and> length (ss_stmts t) \<le> 32"
proof -
  let ?u = "\<lparr>ut_token = 3, ut_toplevel = False, ut_query = None, ut_tag = None, ut_query_id = 0, ut_cursor = Some ''c''\<rparr>"
  let ?m = "otel_ProcessUtility walk_backend walk_backend ?u (\<lambda>s. (Throw, s))"
  have h: "hook_op ?m" by (intro hook_op.intros)
  have b: "bounded comment_session" by (simp add: bounded_iff comment_session_def fresh_session_def)
  obtain t where t: "?m comment_session = (Throw, t)"
    by (simp add: otel_ProcessUtility_def utility_begin_def Let_def and_then_def ret_def modify_def catch_rethrow_def)
  from tracking_bounded [OF h b t] have "length (ss_stmts t) \<le> 32" by (simp add: bounded_iff)
  then show ?thesis using h t by blast
qed

section \<open>Cursors\<close>


text \<open>A cursor over one function scan: its span is detached and tracked.\<close>

definition cursor_session :: session where
  "cursor_session = fresh_session\<lparr>ss_prod := scan_open, ss_stmts := [scan_entry]\<rparr>"

lemma scan_open_slot: "open_slot scan_open 0" "s_detached (st_slots scan_open ! 0)" "st_stack scan_open = []"
    "slot_handle scan_open 0 = make_ref 6 0 True"
  by (simp_all add: open_slot_def slot_handle_def scan_open_def scan_args_def literal_args_def otel_pg_tracer_def walk_backend_def
      otel_tracer_register_def start_run_defs)


section \<open>Sorts of statements that are not traced\<close>

text \<open>The end walk runs for every statement, traced or not; without a span it is given 0.\<close>

definition sort_instr :: instr_values where
  "sort_instr = \<lparr>iv_startup_ms = 0, iv_total_ms = 0, iv_ntuples = dbl 4, iv_nloops = dbl 1, iv_read = 0, iv_hit = 0, iv_dirtied = 0\<rparr>"

definition timed_sort :: plan_node where
  "timed_sort = Node 1 IncrementalSort (Some \<lparr>ni_now = sort_instr, ni_ended = sort_instr, ni_plan_rows = dbl 4\<rparr>) []"

definition untraced_backend :: backend where
  "untraced_backend = walk_backend\<lparr>bk_trace_all := False\<rparr>"

definition sort_args :: start_args where
  "sort_args = (literal_args (otel_pg_tracer untraced_backend) ''pg.exec.sort'')\<lparr>sa_detached := True,
     sa_parent := PARENT_SPAN, sa_start_time := 1000\<rparr>"

definition sort_open :: producer where
  "sort_open = snd (api_span_start run_env (Some sort_args) initial_producer)"

lemma sort_open_start: "api_span_start run_env (Some sort_args) initial_producer = (Ret (make_ref 6 0 True), sort_open)"
proof -
  have "fst (api_span_start run_env (Some sort_args) initial_producer) = Ret (make_ref 6 0 True)"
    by (simp add: sort_args_def untraced_backend_def literal_args_def otel_pg_tracer_def walk_backend_def otel_tracer_register_def start_run_defs)
  then show ?thesis by (simp add: sort_open_def prod_eq_iff)
qed

lemma sort_open_facts: "wf sort_open" "open_slot sort_open 0" "slot_handle sort_open 0 = make_ref 6 0 True"
    "st_stack sort_open = []" "st_exported sort_open = []" "st_dispatch_depth sort_open = 0"
    "sp_parent_span_id (s_span (st_slots sort_open ! 0)) = zero_span_id"
proof -
  have "args_ok sort_args"
    using literal_args_ok [of "otel_pg_tracer untraced_backend" "''pg.exec.sort''"] by (simp add: sort_args_def args_ok_def)
  then show "wf sort_open"
    using start_ref(1) [OF wf_initial run_env_ok _ sort_open_start] by (simp add: make_ref_def)
qed (simp_all add: open_slot_def slot_handle_def sort_open_def sort_args_def untraced_backend_def literal_args_def otel_pg_tracer_def
      walk_backend_def otel_tracer_register_def start_run_defs)

lemma finished_parent: "sp_parent_span_id (finished_span env i e None st) = sp_parent_span_id (s_span (st_slots st ! i))"
proof -
  have core: "slot_core t = slot_core s \<Longrightarrow> sp_parent_span_id (s_span t) = sp_parent_span_id (s_span s)" for t s :: otel_slot
    by (simp add: slot_core_def Let_def)
  show ?thesis
    by (simp add: finished_span_def finish_slot_def Let_def core [OF lower_error_core] upd_span_def split: option.split)
qed

lemma untraced_env: "ss_root s = fresh_root \<Longrightarrow> ss_par s = None \<Longrightarrow> env_of untraced_backend s = run_env"
  by (simp add: env_of_def untraced_backend_def walk_backend_def otel_parallel_get_leader_context_def run_env_def sample_env_def)

lemma fresh_parts: "ss_root fresh_session = fresh_root" "ss_par fresh_session = None" "ss_prod fresh_session = initial_producer"
    "fresh_session\<lparr>ss_prod := initial_producer\<rparr> = fresh_session" "ss_stmts fresh_session = []" "ss_spans fresh_session = []"
  by (simp_all add: fresh_session_def)

lemma untraced_backend_facts: "bk_loaded untraced_backend" "\<not> bk_trace_all untraced_backend" "bk_child_spans untraced_backend"
    "bk_clock untraced_backend = 1000" "\<not> bk_node_stats untraced_backend" "\<not> bk_node_events untraced_backend"
    "otel_recording_possible True (bk_possible untraced_backend)"
  by (simp_all add: untraced_backend_def walk_backend_def otel_recording_possible_def)

lemma untraced_no_span: "start_stmt_span untraced_backend ''pgsql.execute'' None 0 False fresh_session = (Ret 0, fresh_session)"
proof -
  have root: "\<not> rc_is_set (rs_root (e_root run_env))" "e_leader_ctx run_env = None" "\<not> e_crit run_env"
    by (simp_all add: run_env_def sample_env_def fresh_root_def root_none_def)
  have "otel_span_context_of run_env True 0 initial_producer = (Ret None, initial_producer)"
    using root by (simp add: otel_span_context_of_def api_span_context_of_def call_refused_def
        otel_span_context_of_internal_def resolve_active_parent_def initial_producer_def)
  then have "context_of untraced_backend 0 fresh_session = (Ret None, fresh_session)"
    by (simp add: context_of_def call_prod_def lift_op_def untraced_env fresh_parts untraced_backend_facts)
  then show ?thesis by (simp add: start_stmt_span_def and_then_def untraced_backend_facts ret_def)
qed

text \<open>The sort's span once its attributes are set, and its end.\<close>

definition sort_named :: session where
  "sort_named = sort_attrs untraced_backend (make_ref 6 0 True) timed_sort (loop_rows sort_instr) (fresh_session\<lparr>ss_prod := sort_open\<rparr>)"

lemma sort_named_facts: "same_spans sort_open (ss_prod sort_named)" "env_of untraced_backend sort_named = run_env"
proof -
  have "only_attrs (fresh_session\<lparr>ss_prod := sort_open\<rparr>) sort_named"
    by (simp add: sort_named_def sort_attrs_def timed_sort_def Let_def only_attrs_set(1)
        only_attrs_trans [OF only_attrs_set(1) only_attrs_set(2)] split: option.split)
  then have same: "same_spans sort_open (ss_prod sort_named)" "sort_named = (fresh_session\<lparr>ss_prod := sort_open\<rparr>)\<lparr>ss_prod := ss_prod sort_named\<rparr>"
    unfolding only_attrs_def by simp_all
  show "same_spans sort_open (ss_prod sort_named)" by (rule same(1))
  show "env_of untraced_backend sort_named = run_env" by (rule untraced_env) (subst same(2), simp add: fresh_parts)+
qed

lemma sort_end_exports:
  "\<exists>p sp. api_span_end run_env (make_ref 6 0 True) 1000 (ss_prod sort_named) = (Ret (), p) \<and>
     st_exported p = [sp] \<and> sp_parent_span_id sp = zero_span_id"
proof -
  let ?v = "ss_prod sort_named"
  note same = sort_named_facts(1)
  note f = sort_open_facts
  note sl = same_spans_slot [OF same f(2)]
  have w: "wf ?v" and d: "st_dispatch_depth ?v = 0" and stack: "st_stack ?v = []" "st_exported ?v = []"
    using same f by (simp_all add: same_spans_def)
  obtain p where p: "api_span_end run_env (slot_handle ?v 0) 1000 ?v = (Ret (), p)"
    using span_end_returns [OF run_env_facts(2) w sl(1) run_env_facts(1) d] by blast
  have "unwound_exports run_env (stack_entry_for_slot 0) ''parent span ended first'' ?v = []"
    by (simp add: unwound_exports_def unwound_slots_def above_def stack_find_def stack)
  then have ex: "st_exported p = [finished_span run_env 0 1000 None ?v]"
    using span_end_outcome(5) [OF w sl(1) run_env_facts(1) d p] stack run_env_facts(3) by simp
  have "map slot_core (st_slots ?v) = map slot_core (st_slots sort_open)" using same by (simp add: same_spans_def)
  then have "map slot_core (st_slots ?v) ! 0 = map slot_core (st_slots sort_open) ! 0" by (simp only:)
  then have "slot_core (st_slots ?v ! 0) = slot_core (st_slots sort_open ! 0)"
    using sl(1) f(2) by (simp add: open_slot_def)
  then have "sp_parent_span_id (finished_span run_env 0 1000 None ?v) = zero_span_id"
    using f(7) by (simp add: finished_parent slot_core_def Let_def)
  then show ?thesis using p ex sl(2) f(3) by auto
qed

lemma untraced_sort_span:
  "\<exists>t sp. planspans_sort_span untraced_backend timed_sort \<lparr>wc_stmt_span = 0, wc_ancestors = []\<rparr> fresh_session = (Ret (), t) \<and>
     st_exported (ss_prod t) = [sp] \<and> sp_parent_span_id sp = zero_span_id"
proof -
  let ?h = "make_ref 6 0 True"
  have nz: "?h \<noteq> 0" by (simp add: make_ref_def)
  have "sort_args\<lparr>sa_struct_size := sizeof_OtelSpanStartArgs\<rparr> = sort_args" by (simp add: sort_args_def literal_args_def)
  then have start: "start_span untraced_backend sort_args fresh_session = (Ret ?h, fresh_session\<lparr>ss_prod := sort_open\<rparr>)"
    using sort_open_start untraced_backend_facts
    by (simp add: start_span_def call_prod_def lift_op_def untraced_env fresh_parts otel_span_start_def)
  obtain p sp where p: "api_span_end run_env ?h 1000 (ss_prod sort_named) = (Ret (), p)"
      "st_exported p = [sp]" "sp_parent_span_id sp = zero_span_id" using sort_end_exports by blast
  have fin: "call_prod untraced_backend (\<lambda>env. otel_span_end_at env ?h 1000) sort_named = (Ret (), sort_named\<lparr>ss_prod := p\<rparr>)"
    using p(1) nz by (simp add: call_prod_def lift_op_def sort_named_facts(2) otel_span_end_at_def)
  have bounds: "sort_bounds untraced_backend timed_sort fresh_session = (Some (1000, 1000, loop_rows sort_instr), fresh_session)"
    by (simp add: sort_bounds_def timed_sort_def is_sort_def untraced_backend_facts sort_instr_def dbl_def dbl_trunc_def)
  have args: "(literal_args (otel_pg_tracer untraced_backend) ''pg.exec.sort'')\<lparr>sa_detached := True, sa_parent := PARENT_SPAN,
      sa_parent_span := planspans_parent \<lparr>wc_stmt_span = 0, wc_ancestors = []\<rparr> fresh_session, sa_start_time := 1000\<rparr> = sort_args"
    by (simp add: planspans_parent_def sort_args_def literal_args_def fresh_parts)
  have "planspans_sort_span untraced_backend timed_sort \<lparr>wc_stmt_span = 0, wc_ancestors = []\<rparr> fresh_session =
      (Ret (), sort_named\<lparr>ss_prod := p\<rparr>)"
    unfolding planspans_sort_span_def bounds prod.case option.case args
    by (simp add: and_then_def [of "start_span untraced_backend sort_args"] start nz and_then_modify sort_named_def [symmetric] fin)
  then show ?thesis using p(2,3) by simp
qed


end
