(* ===== verification/Sdt_Bridge.thy ===== *)
theory Sdt_Bridge
  imports Stmt_Trace
begin

text \<open>
  The bridge from core's static probes to spans (\<open>otel_sdt_bridge.c\<close>): the setting that selects
  probe families and the mask that gates the probes, the two stacks of open spans, the
  transaction's span, and what the hook does for each probe.  Core's probe numbers come from a
  header that is not part of the repository: the numbering is a parameter, and so is
  \<open>SplitIdentifierString\<close>.
\<close>

section \<open>Probes and state\<close>

datatype family =
    F_query | F_parse | F_rewrite | F_plan | F_execute | F_sort | F_smgr_read | F_smgr_write | F_syncrep | F_lock_wait

datatype probe =
    TRANSACTION_START | TRANSACTION_COMMIT | TRANSACTION_ABORT
  | START family | DONE family
  | RECOVERY_XACT_COMMIT | UNKNOWN_PROBE nat

type_synonym numbering = "probe \<Rightarrow> nat"

text \<open>An argument: its tag and value.\<close>

datatype sdt_arg = Arg_s "string option" | Arg_i i64 | Arg_other

text \<open>The transaction's span \<open>txn_span\<close> is the session's \<open>ss_txn\<close>.\<close>

record sdt =
  sd_session :: session
  sd_stack :: "(probe \<times> i64) list"
  sd_sorts :: "i64 list"
  sd_wanted :: u64
  sd_mask :: u64

type_synonym 'a sdt_op = "(sdt, 'a) op"

definition SDT_STACK_SIZE :: nat where
  "SDT_STACK_SIZE = 64"

definition SORT_STACK_SIZE :: nat where
  "SORT_STACK_SIZE = 16"

text \<open>What a probe reads from the backend besides \<open>backend\<close>.\<close>

record probe_env =
  pe_client :: bool
  pe_top_owner :: "owner option"
  pe_top_xid :: u32
  pe_now :: int

definition in_session :: "'a session_op \<Rightarrow> 'a sdt_op" where
  "in_session m = lift_op sd_session sd_session_update m"

definition on_session :: "(session \<Rightarrow> session) \<Rightarrow> unit sdt_op" where
  "on_session f = modify (\<lambda>s. s\<lparr>sd_session := f (sd_session s)\<rparr>)"

section \<open>The probe mask\<close>

definition SDT_BIT :: "nat \<Rightarrow> u64" where
  "SDT_BIT i = push_bit i 1"

definition pair_bits :: "numbering \<Rightarrow> family \<Rightarrow> u64" where
  "pair_bits num f = SDT_BIT (num (START f)) OR SDT_BIT (num (DONE f))"

definition txn_bits :: "numbering \<Rightarrow> u64" where
  "txn_bits num = SDT_BIT (num TRANSACTION_START) OR SDT_BIT (num TRANSACTION_COMMIT) OR SDT_BIT (num TRANSACTION_ABORT)"

definition SDT_BITS_ALL :: "numbering \<Rightarrow> u64" where
  "SDT_BITS_ALL num =
     txn_bits num OR pair_bits num F_query OR pair_bits num F_parse OR pair_bits num F_rewrite OR pair_bits num F_plan OR
     pair_bits num F_execute OR pair_bits num F_sort OR pair_bits num F_smgr_read OR pair_bits num F_smgr_write OR
     pair_bits num F_syncrep OR SDT_BIT (num RECOVERY_XACT_COMMIT) OR pair_bits num F_lock_wait"

definition sdt_family_map :: "numbering \<Rightarrow> (string \<times> u64) list" where
  "sdt_family_map num =
     [(''txn'', txn_bits num), (''query'', pair_bits num F_query), (''parse'', pair_bits num F_parse),
      (''rewrite'', pair_bits num F_rewrite), (''plan'', pair_bits num F_plan), (''execute'', pair_bits num F_execute),
      (''sort'', pair_bits num F_sort), (''smgr_read'', pair_bits num F_smgr_read),
      (''smgr_write'', pair_bits num F_smgr_write), (''smgr'', pair_bits num F_smgr_read OR pair_bits num F_smgr_write),
      (''syncrep'', pair_bits num F_syncrep), (''replica'', SDT_BIT (num RECOVERY_XACT_COMMIT)),
      (''lock_wait'', pair_bits num F_lock_wait), (''all'', SDT_BITS_ALL num), (''none'', 0)]"

text \<open>Case folding as \<open>pg_strcasecmp\<close> does it for ASCII; the names hold no other characters.\<close>

definition pg_tolower :: "char \<Rightarrow> char" where
  "pg_tolower c = (let n = of_char c :: nat in if 65 \<le> n \<and> n \<le> 90 then char_of (n + 32) else c)"

definition pg_strcaseeq :: "string \<Rightarrow> string \<Rightarrow> bool" where
  "pg_strcaseeq a b \<longleftrightarrow> map pg_tolower a = map pg_tolower b"

text \<open>The inner search and the loop over the tokens; \<open>Inl\<close> is the error detail.\<close>

fun family_bits :: "string \<Rightarrow> (string \<times> u64) list \<Rightarrow> u64 option" where
  "family_bits tok [] = None"
| "family_bits tok ((name, bits) # fs) = (if pg_strcaseeq tok name then Some bits else family_bits tok fs)"

fun parse_tokens :: "numbering \<Rightarrow> u64 \<Rightarrow> string list \<Rightarrow> string + u64" where
  "parse_tokens num acc [] = Inr acc"
| "parse_tokens num acc (tok # toks) =
     (case family_bits tok (sdt_family_map num) of
        None \<Rightarrow> Inl (''Unrecognized SDT probe family '' @ [CHR 0x22] @ tok @ [CHR 0x22] @ ''.'')
      | Some bits \<Rightarrow> parse_tokens num (acc OR bits) toks)"

definition sdt_probes_parse :: "numbering \<Rightarrow> (string \<Rightarrow> string list option) \<Rightarrow> string \<Rightarrow> string + u64" where
  "sdt_probes_parse num split value =
     (case split value of None \<Rightarrow> Inl ''List syntax is invalid.'' | Some toks \<Rightarrow> parse_tokens num 0 toks)"

text \<open>The check hook yields the mask for the assign hook; \<open>Inl None\<close> is out of memory.\<close>

definition sdt_probes_check_hook ::
    "numbering \<Rightarrow> (string \<Rightarrow> string list option) \<Rightarrow> bool \<Rightarrow> string option \<Rightarrow> string option + u64" where
  "sdt_probes_check_hook num split alloc_ok newval =
     (case (if cstring_empty newval then Inr 0 else sdt_probes_parse num split (the newval)) of
        Inl detail \<Rightarrow> Inl (Some detail)
      | Inr m \<Rightarrow> if alloc_ok then Inr m else Inl None)"

definition sdt_sync_probe_mask :: "numbering \<Rightarrow> sdt \<Rightarrow> sdt" where
  "sdt_sync_probe_mask num s =
     s\<lparr>sd_mask :=
        fold (\<lambda>e m. m OR SDT_BIT (num (fst e) + 1)) (sd_stack s) (sd_wanted s)
        OR (if sd_sorts s \<noteq> [] then SDT_BIT (num (DONE F_sort)) else 0)
        OR (if ss_txn (sd_session s) \<noteq> 0 then SDT_BIT (num TRANSACTION_COMMIT) OR SDT_BIT (num TRANSACTION_ABORT) else 0)\<rparr>"

definition sdt_probes_assign_hook :: "numbering \<Rightarrow> u64 option \<Rightarrow> sdt \<Rightarrow> sdt" where
  "sdt_probes_assign_hook num extra s =
     sdt_sync_probe_mask num (s\<lparr>sd_wanted := (case extra of Some m \<Rightarrow> m | None \<Rightarrow> 0)\<rparr>)"

section \<open>Decoding locks and log positions\<close>

definition sdt_lockmode_names :: "string list" where
  "sdt_lockmode_names =
     [''NoLock'', ''AccessShareLock'', ''RowShareLock'', ''RowExclusiveLock'', ''ShareUpdateExclusiveLock'', ''ShareLock'',
      ''ShareRowExclusiveLock'', ''ExclusiveLock'', ''AccessExclusiveLock'']"

definition locktag_names :: "string list" where
  "locktag_names =
     [''relation'', ''extend'', ''frozenid'', ''page'', ''tuple'', ''transactionid'', ''virtualxid'', ''spectoken'',
      ''object'', ''userlock'', ''advisory'', ''applytransaction'']"

definition sdt_locktag_type_name :: "int \<Rightarrow> string option" where
  "sdt_locktag_type_name t = (if 0 \<le> t \<and> t < int (length locktag_names) then Some (locktag_names ! nat t) else None)"

definition int_of_i64 :: "i64 \<Rightarrow> int" where
  "int_of_i64 v = sint (ucast v :: 32 word)"

definition hexdigit_upper :: "nat \<Rightarrow> char" where
  "hexdigit_upper n = ''0123456789ABCDEF'' ! (n mod 16)"

text \<open>\<open>%lX\<close> and \<open>%08lX\<close>\<close>

fun hex_upper :: "nat \<Rightarrow> string" where
  "hex_upper n = (if n < 16 then [hexdigit_upper n] else hex_upper (n div 16) @ [hexdigit_upper n])"

definition hex_upper8 :: "nat \<Rightarrow> string" where
  "hex_upper8 n = (let h = hex_upper n in replicate (8 - length h) (CHR ''0'') @ h)"

definition lsn_string :: "i64 \<Rightarrow> string" where
  "lsn_string v = hex_upper (unat (drop_bit 32 v)) @ ''/'' @ hex_upper8 (unat (v AND 0xFFFFFFFF))"

text \<open>The lock tag types the switch names, by their place in the list above.\<close>

definition lock_fields :: "int \<Rightarrow> i64 \<Rightarrow> i64 \<Rightarrow> i64 \<Rightarrow> i64 \<Rightarrow> (string \<times> i64) list" where
  "lock_fields t f1 f2 f3 f4 =
     (if t = 0 \<or> t = 1 \<or> t = 3 \<or> t = 4
      then [(''pg.lock.dboid'', f1), (''pg.lock.relid'', f2)] @
           (if t = 3 \<or> t = 4 then [(''pg.lock.block'', f3)] else []) @
           (if t = 4 then [(''pg.lock.offset'', f4)] else [])
      else if t = 5 then [(''pg.lock.xid'', f1)]
      else if t = 7 then [(''pg.lock.xid'', f1), (''pg.lock.spectoken'', f2)]
      else if t = 6 then [(''pg.lock.procno'', f1), (''pg.lock.localxid'', f2)]
      else [(''pg.lock.field1'', f1), (''pg.lock.field2'', f2), (''pg.lock.field3'', f3), (''pg.lock.field4'', f4)])"

definition set_ints :: "backend \<Rightarrow> i64 \<Rightarrow> (string \<times> i64) list \<Rightarrow> session \<Rightarrow> session" where
  "set_ints b ref kvs s = fold (\<lambda>kv. set_int b ref (fst kv) (snd kv)) kvs s"

definition lock_wait_attrs :: "backend \<Rightarrow> i64 \<Rightarrow> sdt_arg list \<Rightarrow> session \<Rightarrow> session" where
  "lock_wait_attrs b ref args s =
     (case args of
        Arg_i f1 # Arg_i f2 # Arg_i f3 # Arg_i f4 # Arg_i tag # Arg_i lockmode # rest \<Rightarrow>
          (let t = int_of_i64 tag; m = int_of_i64 lockmode;
               s1 = set_int b ref ''pg.backend.pid'' (bk_pid b) s;
               s2 = (case sdt_locktag_type_name t of
                       Some n \<Rightarrow> set_str b ref ''pg.lock.type'' n s1
                     | None \<Rightarrow> set_int b ref ''pg.lock.type'' (word_of_int t) s1);
               s3 = (if 1 \<le> m \<and> m < int (length sdt_lockmode_names)
                     then set_str b ref ''pg.lock.mode'' (sdt_lockmode_names ! nat m) s2
                     else set_int b ref ''pg.lock.mode'' (word_of_int m) s2)
           in set_ints b ref (lock_fields t f1 f2 f3 f4) s3)
      | _ \<Rightarrow> s)"

definition sdt_set_txn_xid :: "backend \<Rightarrow> probe_env \<Rightarrow> i64 \<Rightarrow> session \<Rightarrow> session" where
  "sdt_set_txn_xid b pe ref s =
     (if pe_top_xid pe \<noteq> 0 then set_int b ref ''pg.txn.xid'' (ucast (pe_top_xid pe)) s else s)"

section \<open>The hook\<close>

text \<open>\<open>while (sdt_top > 0) otel_span_discard(sdt_stack[--sdt_top]);\<close> and the same for sorts.\<close>

definition discard_span :: "backend \<Rightarrow> i64 \<Rightarrow> unit session_op" where
  "discard_span b ref = call_prod b (\<lambda>env. otel_span_discard env ref)"

primrec discard_stack :: "backend \<Rightarrow> nat \<Rightarrow> unit sdt_op" where
  "discard_stack b 0 = ret ()"
| "discard_stack b (Suc n) =
     (\<lambda>s. and_then (in_session (discard_span b (snd (last (sd_stack s))))) (\<lambda>_. discard_stack b n)
            (s\<lparr>sd_stack := butlast (sd_stack s)\<rparr>))"

primrec discard_sorts :: "backend \<Rightarrow> nat \<Rightarrow> unit sdt_op" where
  "discard_sorts b 0 = ret ()"
| "discard_sorts b (Suc n) =
     (\<lambda>s. and_then (in_session (discard_span b (last (sd_sorts s)))) (\<lambda>_. discard_sorts b n)
            (s\<lparr>sd_sorts := butlast (sd_sorts s)\<rparr>))"

definition sdt_discard_open_spans :: "numbering \<Rightarrow> backend \<Rightarrow> unit sdt_op" where
  "sdt_discard_open_spans num b s =
     and_then (discard_stack b (length (sd_stack s))) (\<lambda>_.
     and_then (discard_sorts b (length (sd_sorts s))) (\<lambda>_.
     modify (sdt_sync_probe_mask num))) s"

text \<open>A null \<open>TopTransactionResourceOwner\<close> is the default owner.\<close>

definition txn_args :: "backend \<Rightarrow> probe_env \<Rightarrow> start_args" where
  "txn_args b pe = (literal_args (otel_pg_tracer b) ''pg.txn'')\<lparr>sa_kind := KIND_INTERNAL, sa_parent := PARENT_ROOT,
     sa_owner := (case pe_top_owner pe of None \<Rightarrow> OWNER_DEFAULT | Some ow \<Rightarrow> OWNER_GIVEN ow), sa_detached := True\<rparr>"

definition txn_start_probe :: "backend \<Rightarrow> probe_env \<Rightarrow> unit session_op" where
  "txn_start_probe b pe s =
     (if ss_txn s \<noteq> 0 then (Ret (), s)
      else and_then (start_span b (txn_args b pe)) (\<lambda>ref. modify (\<lambda>s.
             let s1 = s\<lparr>ss_txn := ref\<rparr>;
                 s2 = set_str b ref ''pg.otel.span_source'' ''sdt_probe'' s1
             in set_int b ref ''pg.backend.pid'' (bk_pid b) s2)) s)"

text \<open>What both transaction ends do with the transaction's span: xid, end, forget.\<close>

definition finish_txn :: "backend \<Rightarrow> probe_env \<Rightarrow> unit session_op" where
  "finish_txn b pe s =
     and_then (modify (sdt_set_txn_xid b pe (ss_txn s))) (\<lambda>_.
     and_then (end_span b (ss_txn s)) (\<lambda>_.
     modify (\<lambda>s. s\<lparr>ss_txn := 0\<rparr>))) s"

definition txn_commit_probe :: "numbering \<Rightarrow> backend \<Rightarrow> probe_env \<Rightarrow> unit sdt_op" where
  "txn_commit_probe num b pe =
     and_then (\<lambda>s. if ss_txn (sd_session s) \<noteq> 0 then in_session (finish_txn b pe) s else (Ret (), s)) (\<lambda>_.
     modify (\<lambda>s. sdt_sync_probe_mask num (s\<lparr>sd_stack := [], sd_sorts := []\<rparr>)))"

definition txn_abort_probe :: "numbering \<Rightarrow> backend \<Rightarrow> probe_env \<Rightarrow> unit sdt_op" where
  "txn_abort_probe num b pe =
     and_then (\<lambda>s. if ss_txn (sd_session s) \<noteq> 0
                   then in_session (and_then (modify (\<lambda>w.
                          set_prod b (\<lambda>env. otel_span_set_status env (ss_txn w) STATUS_ERROR (Some ''transaction aborted'')) w))
                          (\<lambda>_. finish_txn b pe)) s
                   else (Ret (), s)) (\<lambda>_.
     sdt_discard_open_spans num b)"

definition recovery_commit_probe :: "backend \<Rightarrow> probe_env \<Rightarrow> sdt_arg list \<Rightarrow> unit session_op" where
  "recovery_commit_probe b pe args =
     (case args of
        Arg_s (Some traceparent) # Arg_i lsn # rest \<Rightarrow>
          (case otel_traceparent_parse traceparent of
             None \<Rightarrow> ret ()
           | Some parent \<Rightarrow>
               and_then (start_span b ((literal_args (otel_pg_tracer b) ''pg.replica.apply'')\<lparr>sa_kind := KIND_CONSUMER,
                  sa_parent := PARENT_CONTEXT, sa_parent_ctx := Some parent, sa_detached := True, sa_start_time := pe_now pe\<rparr>)) (\<lambda>ref.
               and_then (modify (\<lambda>s. set_str b ref ''pg.commit_lsn'' (lsn_string lsn)
                  (set_str b ref ''pg.otel.span_source'' ''sdt_probe'' s))) (\<lambda>_.
               call_prod b (\<lambda>env. otel_span_end_at env ref (pe_now pe)))))
      | _ \<Rightarrow> ret ())"

definition probe_span_name :: "family \<Rightarrow> string" where
  "probe_span_name f =
     (case f of
        F_query \<Rightarrow> ''pg.query'' | F_parse \<Rightarrow> ''pg.parse'' | F_rewrite \<Rightarrow> ''pg.rewrite'' | F_plan \<Rightarrow> ''pg.plan''
      | F_execute \<Rightarrow> ''pg.execute'' | F_sort \<Rightarrow> ''pg.sort'' | F_smgr_read \<Rightarrow> ''pg.smgr.read''
      | F_smgr_write \<Rightarrow> ''pg.smgr.write'' | F_syncrep \<Rightarrow> ''pg.syncrep.wait'' | F_lock_wait \<Rightarrow> ''pg.lock.wait'')"

text \<open>The attributes of a started span, by probe.\<close>

definition first_string :: "sdt_arg list \<Rightarrow> string option" where
  "first_string args = (case args of Arg_s q # rest \<Rightarrow> q | _ \<Rightarrow> None)"

definition first_int :: "sdt_arg list \<Rightarrow> i64 option" where
  "first_int args = (case args of Arg_i v # rest \<Rightarrow> Some v | _ \<Rightarrow> None)"

definition probe_attrs :: "backend \<Rightarrow> family \<Rightarrow> i64 \<Rightarrow> sdt_arg list \<Rightarrow> session \<Rightarrow> session" where
  "probe_attrs b f ref args s =
     (let s1 = set_str b ref ''pg.otel.span_source'' ''sdt_probe'' s;
          s2 = set_if ((f = F_query \<or> f = F_parse \<or> f = F_rewrite) \<and> otel_span_recording ref)
                 (set_opt b ref ''db.query.text'' (first_string args)) s1;
          s3 = set_if (f = F_syncrep) (set_opt b ref ''pg.commit_lsn'' (map_option lsn_string (first_int args))) s2
      in set_if (f = F_lock_wait) (lock_wait_attrs b ref args) s3)"

text \<open>The two links between a query's span and the transaction's.\<close>

definition link_query_with_txn :: "backend \<Rightarrow> i64 \<Rightarrow> unit session_op" where
  "link_query_with_txn b ref s =
     (if ss_txn s = 0 then (Ret (), s)
      else and_then (context_of b (ss_txn s)) (\<lambda>txn.
           and_then (modify (\<lambda>s. case txn of None \<Rightarrow> s | Some c \<Rightarrow> set_prod b (\<lambda>env. otel_span_add_link env ref (Some c)) s)) (\<lambda>_.
           and_then (context_of b ref) (\<lambda>query. modify (\<lambda>s.
             case query of None \<Rightarrow> s | Some c \<Rightarrow> set_prod b (\<lambda>env. otel_span_add_link env (ss_txn s) (Some c)) s)))) s)"

definition push_probe :: "family \<Rightarrow> i64 \<Rightarrow> sdt \<Rightarrow> sdt" where
  "push_probe f ref s =
     (if f = F_sort then s\<lparr>sd_sorts := sd_sorts s @ [ref]\<rparr> else s\<lparr>sd_stack := sd_stack s @ [(START f, ref)]\<rparr>)"

definition probe_stack_full :: "family \<Rightarrow> sdt \<Rightarrow> bool" where
  "probe_stack_full f s \<longleftrightarrow>
     (if f = F_sort then length (sd_sorts s) \<ge> SORT_STACK_SIZE else length (sd_stack s) \<ge> SDT_STACK_SIZE)"

definition start_probe :: "backend \<Rightarrow> family \<Rightarrow> sdt_arg list \<Rightarrow> unit sdt_op" where
  "start_probe b f args =
     and_then (in_session (context_of b 0)) (\<lambda>ctx s.
       if ctx = None \<or> probe_stack_full f s then (Ret (), s)
       else and_then (in_session (start_span b
                ((literal_args (otel_pg_tracer b) (probe_span_name f))\<lparr>sa_kind := KIND_INTERNAL, sa_detached := (f = F_sort)\<rparr>))) (\<lambda>ref.
            and_then (on_session (probe_attrs b f ref args)) (\<lambda>_.
            and_then (modify (push_probe f ref)) (\<lambda>_.
            if f = F_query then in_session (link_query_with_txn b ref) else ret ()))) s)"

text \<open>The span a DONE probe belongs to, with its entry taken off its stack.\<close>

definition take_probe :: "numbering \<Rightarrow> family \<Rightarrow> sdt \<Rightarrow> (i64 \<times> sdt) option" where
  "take_probe num f s =
     (if f = F_sort
      then (if sd_sorts s = [] then None else Some (last (sd_sorts s), s\<lparr>sd_sorts := butlast (sd_sorts s)\<rparr>))
      else if sd_stack s = [] \<or> int (num (fst (last (sd_stack s)))) \<noteq> int (num (DONE f)) - 1 then None
      else Some (snd (last (sd_stack s)), s\<lparr>sd_stack := butlast (sd_stack s)\<rparr>))"

definition done_probe :: "numbering \<Rightarrow> backend \<Rightarrow> family \<Rightarrow> unit sdt_op" where
  "done_probe num b f s =
     (case take_probe num f s of
        None \<Rightarrow> (Ret (), s)
      | Some (ref, s1) \<Rightarrow> in_session (end_span b ref) (sdt_sync_probe_mask num s1))"

definition otel_sdt_hook :: "numbering \<Rightarrow> backend \<Rightarrow> probe_env \<Rightarrow> probe \<Rightarrow> sdt_arg list \<Rightarrow> unit sdt_op" where
  "otel_sdt_hook num b pe p args =
     (if \<not> pe_client pe \<and> \<not> bk_worker b \<and> p \<noteq> RECOVERY_XACT_COMMIT then ret ()
      else if e_crit (bk_env b) then ret ()
      else case p of
        TRANSACTION_START \<Rightarrow> in_session (txn_start_probe b pe)
      | TRANSACTION_COMMIT \<Rightarrow> txn_commit_probe num b pe
      | TRANSACTION_ABORT \<Rightarrow> txn_abort_probe num b pe
      | START f \<Rightarrow> start_probe b f args
      | DONE f \<Rightarrow> done_probe num b f
      | RECOVERY_XACT_COMMIT \<Rightarrow> in_session (recovery_commit_probe b pe args)
      | UNKNOWN_PROBE n \<Rightarrow> ret ())"

definition otel_sdt_xact_cb :: "numbering \<Rightarrow> backend \<Rightarrow> xact_event \<Rightarrow> unit sdt_op" where
  "otel_sdt_xact_cb num b event =
     (if event = XACT_ABORT \<or> event = XACT_PARALLEL_ABORT
      then and_then (on_session (\<lambda>s. s\<lparr>ss_txn := 0\<rparr>)) (\<lambda>_. sdt_discard_open_spans num b)
      else ret ())"

text \<open>\<open>otel_sdt_install\<close>: the setting's default, assigned when the module defines it.\<close>

definition default_probes :: string where
  "default_probes = ''query,parse,rewrite,plan,execute,syncrep,replica,lock_wait''"

definition otel_sdt_install :: "numbering \<Rightarrow> (string \<Rightarrow> string list option) \<Rightarrow> bool \<Rightarrow> sdt \<Rightarrow> sdt" where
  "otel_sdt_install num split alloc_ok s =
     (case sdt_probes_check_hook num split alloc_ok (Some default_probes) of
        Inl detail \<Rightarrow> s
      | Inr m \<Rightarrow> sdt_probes_assign_hook num (Some m) s)"

end
