(* ===== verification/Sdt_Mask.thy ===== *)
theory Sdt_Mask
  imports Sdt_Bridge Stmt_Props
begin

text \<open>
  The probe mask of the SDT bridge: whatever probes fire, settings change and transactions end,
  the DONE probe of every span the bridge holds open stays enabled, no START probe is
  enabled that the setting does not ask for, and the two stacks stay within their arrays.
\<close>

section \<open>What session operations leave alone\<close>

text \<open>The session without its producer.\<close>

definition rest :: "session \<Rightarrow> session" where
  "rest s = s\<lparr>ss_prod := initial_producer\<rparr>"

lemma rest_prod [simp]: "rest (s\<lparr>ss_prod := p\<rparr>) = rest s"
  by (simp add: rest_def)

lemma rest_same:
  assumes "rest t = rest s"
  shows "ss_txn t = ss_txn s" "ss_root t = ss_root s" "ss_par t = ss_par s"
  using arg_cong [OF assms, of ss_txn] arg_cong [OF assms, of ss_root] arg_cong [OF assms, of ss_par]
  by (simp_all add: rest_def)

lemma call_prod_rest: "preserves rest (call_prod b m)"
  by (auto simp: preserves_def call_prod_def lift_op_def split: prod.splits)

lemma span_ops_rest:
  "preserves rest (start_span b args)" "preserves rest (end_span b ref)" "preserves rest (context_of b ref)"
  "preserves rest (discard_span b ref)"
  by (simp_all add: start_span_def end_span_def context_of_def discard_span_def call_prod_rest)

lemma set_rest [simp]:
  "rest (set_prod b f s) = rest s" "rest (set_str b ref k v s) = rest s" "rest (set_int b ref k i s) = rest s"
  "rest (set_opt b ref k w s) = rest s"
  by (simp_all add: set_prod_def set_str_def set_int_def set_opt_def split: option.split)

lemma set_if_rest [simp]: "(\<And>s. rest (f s) = rest s) \<Longrightarrow> rest (set_if c f s) = rest s"
  by (simp add: set_if_def)

lemma set_ints_rest [simp]: "rest (set_ints b ref kvs s) = rest s"
  unfolding set_ints_def by (induction kvs arbitrary: s) simp_all

lemma lock_attrs_rest [simp]: "rest (lock_wait_attrs b ref args s) = rest s"
  unfolding lock_wait_attrs_def Let_def by (simp split: list.split sdt_arg.split option.split)

lemma probe_attrs_rest [simp]: "rest (probe_attrs b f ref args s) = rest s"
  by (simp add: probe_attrs_def Let_def)

lemma set_txn [simp]:
  "ss_txn (set_prod b f s) = ss_txn s" "ss_txn (set_str b ref k v s) = ss_txn s" "ss_txn (set_int b ref k i s) = ss_txn s"
  by (simp_all add: set_prod_def set_str_def set_int_def)

lemma link_query_rest: "preserves rest (link_query_with_txn b ref)"
proof -
  have "preserves rest (and_then (context_of b r) (\<lambda>txn.
       and_then (modify (\<lambda>s. case txn of None \<Rightarrow> s | Some c \<Rightarrow> set_prod b (\<lambda>env. otel_span_add_link env ref (Some c)) s)) (\<lambda>_.
       and_then (context_of b ref) (\<lambda>query. modify (\<lambda>s.
         case query of None \<Rightarrow> s | Some c \<Rightarrow> set_prod b (\<lambda>env. otel_span_add_link env (ss_txn s) (Some c)) s)))))" for r
    by (intro preserves_and_then preserves_modify span_ops_rest) (simp_all split: option.split)
  then show ?thesis unfolding preserves_def link_query_with_txn_def by simp
qed

section \<open>The state of the bridge\<close>

definition named :: "probe \<Rightarrow> bool" where
  "named p \<longleftrightarrow> (case p of UNKNOWN_PROBE n \<Rightarrow> False | _ \<Rightarrow> True)"

text \<open>What the code relies on about core's probe numbers.\<close>

definition numbering_ok :: "numbering \<Rightarrow> bool" where
  "numbering_ok num \<longleftrightarrow>
     (\<forall>f. num (DONE f) = num (START f) + 1) \<and> (\<forall>p. named p \<longrightarrow> num p < 64) \<and> inj_on num {p. named p}"

definition stacks_ok :: "sdt \<Rightarrow> bool" where
  "stacks_ok s \<longleftrightarrow> (\<forall>e\<in>set (sd_stack s). \<exists>f. fst e = START f) \<and>
     length (sd_stack s) \<le> SDT_STACK_SIZE \<and> length (sd_sorts s) \<le> SORT_STACK_SIZE"

definition paired :: "numbering \<Rightarrow> u64 \<Rightarrow> bool" where
  "paired num m \<longleftrightarrow> (\<forall>f. bit m (num (START f)) \<longleftrightarrow> bit m (num (DONE f))) \<and>
     (bit m (num TRANSACTION_START) \<longrightarrow> bit m (num TRANSACTION_COMMIT) \<and> bit m (num TRANSACTION_ABORT))"

definition covers :: "numbering \<Rightarrow> sdt \<Rightarrow> bool" where
  "covers num s \<longleftrightarrow>
     (\<forall>n. bit (sd_wanted s) n \<longrightarrow> bit (sd_mask s) n) \<and>
     (\<forall>f. START f \<in> fst ` set (sd_stack s) \<longrightarrow> bit (sd_mask s) (num (DONE f))) \<and>
     (sd_sorts s \<noteq> [] \<longrightarrow> bit (sd_mask s) (num (DONE F_sort))) \<and>
     (ss_txn (sd_session s) \<noteq> 0 \<longrightarrow> bit (sd_mask s) (num TRANSACTION_COMMIT) \<and> bit (sd_mask s) (num TRANSACTION_ABORT))"

definition starts_wanted :: "numbering \<Rightarrow> sdt \<Rightarrow> bool" where
  "starts_wanted num s \<longleftrightarrow>
     (\<forall>f. bit (sd_mask s) (num (START f)) \<longrightarrow> bit (sd_wanted s) (num (START f))) \<and>
     (bit (sd_mask s) (num TRANSACTION_START) \<longrightarrow> bit (sd_wanted s) (num TRANSACTION_START))"

definition mask_ok :: "numbering \<Rightarrow> sdt \<Rightarrow> bool" where
  "mask_ok num s \<longleftrightarrow> stacks_ok s \<and> paired num (sd_wanted s) \<and> covers num s \<and> starts_wanted num s"

lemma SDT_BIT_bit [simp]: "bit (SDT_BIT i) n \<longleftrightarrow> i = n \<and> n < 64"
  by (auto simp: SDT_BIT_def bit_simps bit_1_iff)

lemma numbering_named:
  assumes "numbering_ok num"
  shows "num (DONE f) = Suc (num (START f))" "num (START f) < 63" "named p \<Longrightarrow> num p < 64"
    "named p \<Longrightarrow> named q \<Longrightarrow> num p = num q \<longleftrightarrow> p = q"
proof -
  show d: "num (DONE f) = Suc (num (START f))" using assms by (simp add: numbering_ok_def)
  show "named p \<Longrightarrow> num p < 64" for p using assms by (simp add: numbering_ok_def)
  from this [of "DONE f"] d show "num (START f) < 63" by (simp add: named_def)
  show "named p \<Longrightarrow> named q \<Longrightarrow> num p = num q \<longleftrightarrow> p = q"
    using assms unfolding numbering_ok_def inj_on_def by blast
qed

lemma named_simps [simp]:
  "named (START f)" "named (DONE f)" "named TRANSACTION_START" "named TRANSACTION_COMMIT" "named TRANSACTION_ABORT"
  "named RECOVERY_XACT_COMMIT" "\<not> named (UNKNOWN_PROBE n)"
  by (simp_all add: named_def)

section \<open>The setting asks for pairs\<close>

lemma paired_or: "paired num m \<Longrightarrow> paired num n \<Longrightarrow> paired num (m OR n)"
  by (auto simp: paired_def bit_simps)

lemma paired_family:
  assumes "numbering_ok num"
  shows "paired num 0" "paired num (pair_bits num f)" "paired num (txn_bits num)" "paired num (SDT_BIT (num RECOVERY_XACT_COMMIT))"
  using numbering_named(3,4) [OF assms]
  by (auto simp: paired_def pair_bits_def txn_bits_def bit_simps)

lemma paired_map:
  assumes "numbering_ok num" and "family_bits tok (sdt_family_map num) = Some bits"
  shows "paired num bits"
proof -
  have "paired num (SDT_BITS_ALL num)"
    unfolding SDT_BITS_ALL_def by (intro paired_or paired_family [OF assms(1)])
  then have "\<forall>e\<in>set (sdt_family_map num). paired num (snd e)"
    using paired_family [OF assms(1)] by (simp add: sdt_family_map_def paired_or)
  moreover have "family_bits tok fs = Some m \<Longrightarrow> \<exists>e\<in>set fs. snd e = m" for fs m
    by (induction tok fs rule: family_bits.induct) (auto split: if_splits)
  ultimately show ?thesis using assms(2) by blast
qed

lemma paired_tokens:
  "numbering_ok num \<Longrightarrow> paired num acc \<Longrightarrow> parse_tokens num acc toks = Inr m \<Longrightarrow> paired num m"
  by (induction num acc toks rule: parse_tokens.induct) (auto split: option.splits dest: paired_map intro: paired_or)

lemma paired_setting:
  assumes "numbering_ok num" and "sdt_probes_check_hook num split ok v = Inr m"
  shows "paired num m"
  using assms paired_family(1) [OF assms(1)]
  by (auto simp: sdt_probes_check_hook_def sdt_probes_parse_def split: if_splits option.splits sum.splits
      intro: paired_tokens [OF assms(1)])

section \<open>Every step keeps the mask\<close>

lemma fold_bits: "bit (fold (\<lambda>e m. m OR SDT_BIT (k e)) es w) n \<longleftrightarrow> bit w n \<or> n < 64 \<and> (\<exists>e\<in>set es. k e = n)"
  by (induction es arbitrary: w) (auto simp: bit_simps)

lemma sync_ok:
  assumes "numbering_ok num" and "stacks_ok s" and "paired num (sd_wanted s)"
  shows "mask_ok num (sdt_sync_probe_mask num s)"
proof -
  note n = numbering_named [OF assms(1)]
  have m: "bit (sd_mask (sdt_sync_probe_mask num s)) i \<longleftrightarrow>
      bit (sd_wanted s) i \<or> i < 64 \<and> ((\<exists>e\<in>set (sd_stack s). Suc (num (fst e)) = i) \<or> sd_sorts s \<noteq> [] \<and> num (DONE F_sort) = i \<or>
        ss_txn (sd_session s) \<noteq> 0 \<and> (num TRANSACTION_COMMIT = i \<or> num TRANSACTION_ABORT = i))" for i
    by (auto simp: sdt_sync_probe_mask_def bit_simps fold_bits)
  have frame: "sd_stack (sdt_sync_probe_mask num s) = sd_stack s" "sd_sorts (sdt_sync_probe_mask num s) = sd_sorts s"
    "sd_session (sdt_sync_probe_mask num s) = sd_session s" "sd_wanted (sdt_sync_probe_mask num s) = sd_wanted s"
    by (simp_all add: sdt_sync_probe_mask_def)
  have "covers num (sdt_sync_probe_mask num s)"
    unfolding covers_def m frame using n(1) n(3) [of "DONE _"] n(3) [of TRANSACTION_COMMIT] n(3) [of TRANSACTION_ABORT] by force
  moreover have "\<not> (\<exists>e\<in>set (sd_stack s). Suc (num (fst e)) = num p)" if "named p" "\<And>f. p \<noteq> DONE f" for p
  proof
    assume "\<exists>e\<in>set (sd_stack s). Suc (num (fst e)) = num p"
    then obtain f where "num (DONE f) = num p" using assms(2) n(1) unfolding stacks_ok_def by metis
    then show False using n(4) [of "DONE f" p] that by auto
  qed
  then have "starts_wanted num (sdt_sync_probe_mask num s)"
    unfolding starts_wanted_def m frame by (simp add: n(4))
  ultimately show ?thesis using assms(2,3) by (simp add: mask_ok_def stacks_ok_def frame)
qed

text \<open>Operations on the session that keep the transaction's span or forget it.\<close>

definition keeps_or_drops_txn :: "'a session_op \<Rightarrow> bool" where
  "keeps_or_drops_txn m \<longleftrightarrow> (\<forall>s x t. m s = (x, t) \<longrightarrow> ss_txn t = ss_txn s \<or> ss_txn t = 0)"

lemma drops_and_then: "keeps_or_drops_txn m \<Longrightarrow> (\<And>a. keeps_or_drops_txn (f a)) \<Longrightarrow> keeps_or_drops_txn (and_then m f)"
  unfolding keeps_or_drops_txn_def and_then_def by (fastforce split: prod.splits outcome.splits)

lemma drops_rest: "preserves rest m \<Longrightarrow> keeps_or_drops_txn m"
  by (auto simp: keeps_or_drops_txn_def dest: preservesD rest_same(1))

lemma drops_modify: "(\<And>s. ss_txn (f s) = ss_txn s \<or> ss_txn (f s) = 0) \<Longrightarrow> keeps_or_drops_txn (modify f)"
  by (simp add: keeps_or_drops_txn_def modify_def)

lemma drops_at: "(\<And>s. keeps_or_drops_txn (f s)) \<Longrightarrow> keeps_or_drops_txn (\<lambda>s. f s s)"
  by (simp add: keeps_or_drops_txn_def)

lemma finish_txn_drops: "keeps_or_drops_txn (finish_txn b pe)"
  unfolding finish_txn_def
  by (rule drops_at, intro drops_and_then drops_rest span_ops_rest drops_modify) (simp_all add: sdt_set_txn_xid_def)

lemma in_session_result: "in_session m s = (x, t) \<Longrightarrow> \<exists>w. m (sd_session s) = (x, w) \<and> t = s\<lparr>sd_session := w\<rparr>"
  by (auto simp: in_session_def lift_op_def split: prod.splits)

lemma mask_session:
  "mask_ok num s \<Longrightarrow> ss_txn w = ss_txn (sd_session s) \<or> ss_txn w = 0 \<Longrightarrow> mask_ok num (s\<lparr>sd_session := w\<rparr>)"
  by (auto simp: mask_ok_def stacks_ok_def covers_def starts_wanted_def)

lemma mask_in_session: "keeps_or_drops_txn m \<Longrightarrow> keeps (mask_ok num) (in_session m)"
proof (rule keepsI)
  fix s assume "keeps_or_drops_txn m" "mask_ok num s"
  moreover obtain x t where t: "in_session m s = (x, t)" by (metis surj_pair)
  moreover from in_session_result [OF t] obtain w where "m (sd_session s) = (x, w)" "t = s\<lparr>sd_session := w\<rparr>" by blast
  ultimately show "mask_ok num (snd (in_session m s))" by (simp add: keeps_or_drops_txn_def mask_session)
qed

lemma mask_pop:
  assumes "mask_ok num s"
  shows "mask_ok num (s\<lparr>sd_stack := butlast (sd_stack s)\<rparr>)" "mask_ok num (s\<lparr>sd_sorts := butlast (sd_sorts s)\<rparr>)"
proof -
  have s: "stacks_ok s" "paired num (sd_wanted s)" "covers num s" "starts_wanted num s"
    using assms by (simp_all add: mask_ok_def)
  have starts: "\<forall>e\<in>set (butlast (sd_stack s)). \<exists>f. fst e = START f" 
    using s(1) in_set_butlastD [of _ "sd_stack s"] by (simp add: stacks_ok_def)
  have stacks: "stacks_ok (s\<lparr>sd_stack := butlast (sd_stack s)\<rparr>)" "stacks_ok (s\<lparr>sd_sorts := butlast (sd_sorts s)\<rparr>)"
    using s(1) starts unfolding stacks_ok_def by (simp, linarith)+
  have "START f \<in> fst ` set (butlast (sd_stack s)) \<Longrightarrow> START f \<in> fst ` set (sd_stack s)" for f
    using in_set_butlastD [of _ "sd_stack s"] by force
  then have covers: "covers num (s\<lparr>sd_stack := butlast (sd_stack s)\<rparr>)" using s(3) by (simp add: covers_def)
  have "butlast (sd_sorts s) \<noteq> [] \<Longrightarrow> sd_sorts s \<noteq> []" by (cases "sd_sorts s") simp_all
  then have covers': "covers num (s\<lparr>sd_sorts := butlast (sd_sorts s)\<rparr>)" using s(3) by (simp add: covers_def)
  show "mask_ok num (s\<lparr>sd_stack := butlast (sd_stack s)\<rparr>)" "mask_ok num (s\<lparr>sd_sorts := butlast (sd_sorts s)\<rparr>)"
    using s stacks covers covers' by (simp_all add: mask_ok_def starts_wanted_def)
qed

lemma mask_sync: "numbering_ok num \<Longrightarrow> mask_ok num s \<Longrightarrow> mask_ok num (sdt_sync_probe_mask num s)"
  by (simp add: mask_ok_def [of num s] sync_ok)

lemma keeps_before: "(\<And>s. P s \<Longrightarrow> P (f s)) \<Longrightarrow> keeps P m \<Longrightarrow> keeps P (\<lambda>s. m (f s))"
  by (simp add: keeps_def)

lemma keeps_when: "keeps P m \<Longrightarrow> keeps P (\<lambda>s. if c s then m s else (Ret (), s))"
  by (simp add: keeps_def)

lemma discard_keeps_mask: "keeps (mask_ok num) (discard_stack b n)" "keeps (mask_ok num) (discard_sorts b n)"
proof -
  have one: "keeps (mask_ok num) (in_session (discard_span b r))" for r
    by (intro mask_in_session drops_rest span_ops_rest)
  show "keeps (mask_ok num) (discard_stack b n)"
  proof (induction n)
    case (Suc n)
    have "keeps (mask_ok num) (and_then (in_session (discard_span b r)) (\<lambda>_. discard_stack b n))" for r
      by (intro keeps_and_then one Suc.IH)
    then show ?case by (simp add: keeps_def mask_pop)
  qed (simp add: keeps_ret)
  show "keeps (mask_ok num) (discard_sorts b n)"
  proof (induction n)
    case (Suc n)
    have "keeps (mask_ok num) (and_then (in_session (discard_span b r)) (\<lambda>_. discard_sorts b n))" for r
      by (intro keeps_and_then one Suc.IH)
    then show ?case by (simp add: keeps_def mask_pop)
  qed (simp add: keeps_ret)
qed

lemma discard_open_keeps_mask:
  assumes "numbering_ok num"
  shows "keeps (mask_ok num) (sdt_discard_open_spans num b)"
proof -
  have "keeps (mask_ok num) (and_then (discard_stack b i) (\<lambda>_. and_then (discard_sorts b j) (\<lambda>_. modify (sdt_sync_probe_mask num))))" for i j
    by (intro keeps_and_then discard_keeps_mask keeps_modify mask_sync [OF assms])
  then show ?thesis by (simp add: keeps_def sdt_discard_open_spans_def)
qed

lemma commit_keeps_mask:
  assumes "numbering_ok num"
  shows "keeps (mask_ok num) (txn_commit_probe num b pe)"
  unfolding txn_commit_probe_def
  by (intro keeps_and_then keeps_when mask_in_session finish_txn_drops keeps_modify sync_ok [OF assms])
     (simp_all add: mask_ok_def stacks_ok_def SDT_STACK_SIZE_def)

lemma abort_keeps_mask:
  assumes "numbering_ok num"
  shows "keeps (mask_ok num) (txn_abort_probe num b pe)"
  unfolding txn_abort_probe_def
  by (intro keeps_and_then keeps_when mask_in_session drops_and_then finish_txn_drops drops_modify discard_open_keeps_mask assms) simp

lemma done_keeps_mask:
  assumes "numbering_ok num"
  shows "keeps (mask_ok num) (done_probe num b f)"
proof (rule keepsI)
  fix s assume s: "mask_ok num s"
  show "mask_ok num (snd (done_probe num b f s))"
  proof (cases "take_probe num f s")
    case None
    then show ?thesis using s by (simp add: done_probe_def)
  next
    case (Some r)
    then have "mask_ok num (snd r)" using mask_pop [OF s] by (auto simp: take_probe_def split: if_splits)
    from keepsD [OF mask_in_session [OF drops_rest [OF span_ops_rest(2)]] mask_sync [OF assms this]]
    show ?thesis by (cases r) (simp add: done_probe_def Some)
  qed
qed

text \<open>A START or transaction-start probe fires only when the setting asks for its family.\<close>

definition wants :: "numbering \<Rightarrow> probe \<Rightarrow> sdt \<Rightarrow> bool" where
  "wants num p s \<longleftrightarrow> mask_ok num s \<and> bit (sd_wanted s) (num p)"

lemma wants_in_session: "keeps_or_drops_txn m \<Longrightarrow> keeps (wants num p) (in_session m)"
proof (rule keepsI)
  fix s assume m: "keeps_or_drops_txn m" and "wants num p s"
  then have s: "mask_ok num s" "bit (sd_wanted s) (num p)" by (simp_all add: wants_def)
  obtain x t where t: "in_session m s = (x, t)" by (metis surj_pair)
  with in_session_result [OF t] keepsD [OF mask_in_session [OF m] s(1)] s(2)
  show "wants num p (snd (in_session m s))" by (auto simp: wants_def)
qed

text \<open>From \<open>P\<close> to \<open>Q\<close>, which holds of the intermediate states as well.\<close>

definition leads :: "('s \<Rightarrow> bool) \<Rightarrow> ('s, 'a) op \<Rightarrow> ('s \<Rightarrow> bool) \<Rightarrow> bool" where
  "leads P m Q \<longleftrightarrow> (\<forall>s. P s \<longrightarrow> Q (snd (m s)))"

lemma leads_and_then:
  assumes "keeps P m" and "\<And>a. leads P (f a) Q" and "\<And>s. P s \<Longrightarrow> Q s"
  shows "leads P (and_then m f) Q"
  using assms unfolding leads_def keeps_def and_then_def by (fastforce split: prod.splits outcome.splits)

lemma leads_modify:
  assumes "\<And>s. P s \<Longrightarrow> Q (g s)" and "\<And>a. keeps Q (f a)"
  shows "leads P (and_then (modify g) f) Q"
  using assms by (auto simp: leads_def keeps_def and_then_def modify_def)

lemma leads_unless:
  "leads (\<lambda>s. P s \<and> \<not> full s) m P \<Longrightarrow> keeps P (\<lambda>s. if c \<or> full s then (Ret (), s) else m s)"
  by (simp add: leads_def keeps_def)

lemma start_keeps_mask: "keeps (wants num (START f)) (start_probe b f args)"
proof -
  let ?W = "wants num (START f)" and ?R = "\<lambda>s. wants num (START f) s \<and> \<not> probe_stack_full f s"
  have push: "?W (push_probe f ref s)" if "?R s" for ref s
    using that by (auto simp: wants_def mask_ok_def stacks_ok_def covers_def starts_wanted_def paired_def push_probe_def
        probe_stack_full_def)
  have room: "keeps ?R (in_session m)" if m: "keeps_or_drops_txn m" for m :: "'x session_op"
  proof (rule keepsI)
    fix s assume r: "?R s"
    obtain x t where t: "in_session m s = (x, t)" by (metis surj_pair)
    from in_session_result [OF t] have "probe_stack_full f t = probe_stack_full f s" by (auto simp: probe_stack_full_def)
    with keepsD [OF wants_in_session [OF m]] r t show "?R (snd (in_session m s))" by fastforce
  qed
  have on: "on_session g = in_session (modify g)" for g
    by (rule ext) (simp add: on_session_def in_session_def lift_op_def modify_def)
  let ?start = "in_session (start_span b ((literal_args (otel_pg_tracer b) (probe_span_name f))\<lparr>sa_kind := KIND_INTERNAL, sa_detached := (f = F_sort)\<rparr>))"
  have link: "keeps ?W (if f = F_query then in_session (link_query_with_txn b ref) else ret ())" for ref
    by (simp add: wants_in_session drops_rest link_query_rest keeps_ret)
  have body: "leads ?R (and_then ?start (\<lambda>ref. and_then (on_session (probe_attrs b f ref args)) (\<lambda>_.
            and_then (modify (push_probe f ref)) (\<lambda>_. if f = F_query then in_session (link_query_with_txn b ref) else ret ())))) ?W"
    by (intro leads_and_then leads_modify push link room drops_rest span_ops_rest)
       (simp_all add: on room drops_modify rest_same(1) [OF probe_attrs_rest])
  show ?thesis
    unfolding start_probe_def
  proof (rule keeps_and_then)
    show "keeps ?W (in_session (context_of b 0))" by (intro wants_in_session drops_rest span_ops_rest)
    show "keeps ?W (\<lambda>s. if ctx = None \<or> probe_stack_full f s then (Ret (), s)
       else and_then ?start (\<lambda>ref. and_then (on_session (probe_attrs b f ref args)) (\<lambda>_.
            and_then (modify (push_probe f ref)) (\<lambda>_. if f = F_query then in_session (link_query_with_txn b ref) else ret ()))) s)" for ctx
      by (rule leads_unless [OF body])
  qed
qed

lemma mask_any_txn:
  assumes "wants num TRANSACTION_START s"
  shows "wants num TRANSACTION_START (s\<lparr>sd_session := w\<rparr>)"
proof -
  have s: "stacks_ok s" "paired num (sd_wanted s)" "covers num s" "starts_wanted num s" "bit (sd_wanted s) (num TRANSACTION_START)"
    using assms by (simp_all add: wants_def mask_ok_def)
  have "bit (sd_mask s) (num TRANSACTION_COMMIT)" "bit (sd_mask s) (num TRANSACTION_ABORT)"
    using s(2,3,5) by (simp_all add: paired_def covers_def)
  with s show ?thesis by (simp add: wants_def mask_ok_def stacks_ok_def covers_def starts_wanted_def)
qed

lemma txn_start_keeps_mask: "keeps (wants num TRANSACTION_START) (in_session (txn_start_probe b pe))"
proof (rule keepsI)
  fix s assume w: "wants num TRANSACTION_START s"
  obtain x t where t: "in_session (txn_start_probe b pe) s = (x, t)" by (metis surj_pair)
  with in_session_result [OF t] mask_any_txn [OF w] show "wants num TRANSACTION_START (snd (in_session (txn_start_probe b pe) s))"
    by auto
qed

lemma recovery_rest: "preserves rest (recovery_commit_probe b pe args)"
  unfolding recovery_commit_probe_def
  by (auto split: list.split sdt_arg.split option.split
      intro!: preserves_and_then preserves_ret preserves_modify span_ops_rest call_prod_rest)

lemma hook_keeps_mask:
  assumes "numbering_ok num" and "mask_ok num s" and "bit (sd_mask s) (num p)" and "otel_sdt_hook num b pe p args s = (x, t)"
  shows "mask_ok num t"
proof -
  have wants: "wants num p s" if "p = TRANSACTION_START \<or> (\<exists>f. p = START f)"
    using that assms(2,3) by (auto simp: wants_def mask_ok_def starts_wanted_def)
  have "mask_ok num (snd (otel_sdt_hook num b pe p args s))"
  proof (cases p)
    case TRANSACTION_START
    with wants keepsD [OF txn_start_keeps_mask, of num s b pe] assms(2) show ?thesis
      by (simp add: otel_sdt_hook_def wants_def ret_def)
  next
    case (START f)
    with wants keepsD [OF start_keeps_mask, of num f s b args] assms(2) show ?thesis
      by (simp add: otel_sdt_hook_def wants_def ret_def)
  qed (use assms(2) keepsD [OF commit_keeps_mask [OF assms(1)] assms(2)] keepsD [OF abort_keeps_mask [OF assms(1)] assms(2)]
        keepsD [OF done_keeps_mask [OF assms(1)] assms(2)] keepsD [OF mask_in_session [OF drops_rest [OF recovery_rest]] assms(2)]
       in \<open>simp_all add: otel_sdt_hook_def ret_def\<close>)
  then show ?thesis using assms(4) by simp
qed

section \<open>Runs of the bridge\<close>

text \<open>
  A backend's life as the bridge sees it.  Core delivers a probe only when its bit of the mask is
  set; hooks may fail half way; whatever else runs may change the session but not the
  transaction's span.
\<close>

inductive sdt_run :: "numbering \<Rightarrow> sdt \<Rightarrow> bool" for num where
  Loaded: "ss_txn w = 0 \<Longrightarrow> sdt_run num \<lparr>sd_session = w, sd_stack = [], sd_sorts = [], sd_wanted = 0, sd_mask = 0\<rparr>"
| Probe: "sdt_run num s \<Longrightarrow> bit (sd_mask s) (num p) \<Longrightarrow> otel_sdt_hook num b pe p args s = (x, t) \<Longrightarrow> sdt_run num t"
| Setting: "sdt_run num s \<Longrightarrow> sdt_probes_check_hook num split ok v = Inr m \<Longrightarrow> sdt_run num (sdt_probes_assign_hook num (Some m) s)"
| Transaction: "sdt_run num s \<Longrightarrow> otel_sdt_xact_cb num b event s = (x, t) \<Longrightarrow> sdt_run num t"
| Elsewhere: "sdt_run num s \<Longrightarrow> ss_txn w = ss_txn (sd_session s) \<Longrightarrow> sdt_run num (s\<lparr>sd_session := w\<rparr>)"

lemma run_mask_ok:
  assumes "numbering_ok num" and "sdt_run num s"
  shows "mask_ok num s"
  using assms(2)
proof induction
  case (Loaded w)
  then show ?case by (simp add: mask_ok_def stacks_ok_def paired_def covers_def starts_wanted_def)
next
  case (Probe s p b pe args x t)
  then show ?case using hook_keeps_mask [OF assms(1)] by blast
next
  case (Setting s split ok v m)
  then show ?case
    using paired_setting [OF assms(1)]
    by (simp add: sdt_probes_assign_hook_def sync_ok [OF assms(1)] mask_ok_def [of num s] stacks_ok_def)
next
  case (Transaction s b event x t)
  have "keeps (mask_ok num) (otel_sdt_xact_cb num b event)"
    unfolding otel_sdt_xact_cb_def on_session_def
    by (auto intro!: keeps_and_then keeps_modify keeps_ret discard_open_keeps_mask assms mask_session)
  then show ?case using Transaction by (metis keepsD snd_conv)
next
  case (Elsewhere s w)
  then show ?case by (simp add: mask_session)
qed

end
