(* ===== verification/Start_Frame.thy ===== *)
theory Start_Frame
  imports Stmt_Props
begin

text \<open>
  What a start leaves alone: the dispatch depth always, and every span when it returns no
  handle.
\<close>

text \<open>The parts of the producer that make up its open spans.\<close>

definition spans_of :: "producer \<Rightarrow> stack_entry list \<times> otel_slot list \<times> otel_nrec list \<times> nat" where
  "spans_of st = (st_stack st, st_slots st, st_nrecs st, st_dispatch_depth st)"

lemma spans_of_bump [simp]: "spans_of (bump c st) = spans_of st"
  by (simp add: spans_of_def bump_def)

lemma make_ref_nonzero:
  assumes "g \<noteq> 0"
  shows "make_ref g i r \<noteq> 0"
proof -
  obtain n where n: "bit g n" using assms by (metis bit_0_eq bit_eq_iff bot_apply bot_bool_def)
  then have "n < 32" using bit_imp_le_length [of g n] by simp
  then have "bit (push_bit 32 (ucast g) OR ucast (of_nat i :: u32) :: i64) (32 + n)"
    using n by (auto simp: bit_simps)
  then have "push_bit 32 (ucast g) OR ucast (of_nat i :: u32) \<noteq> (0 :: i64)" by force
  then show ?thesis by (simp add: make_ref_def Let_def)
qed

lemma preserves_case:
  "preserves g (case x of None \<Rightarrow> m | Some y \<Rightarrow> n y)" if "preserves g m" "\<And>y. preserves g (n y)"
  using that by (cases x) auto

lemma new_ids_depth: "preserves st_dispatch_depth new_span_id" "preserves st_dispatch_depth new_trace_id"
  "preserves spans_of new_span_id" "preserves spans_of new_trace_id"
  by (auto simp: preserves_def new_span_id_def new_trace_id_def spans_of_def split: option.splits)

lemma seed_spans [simp]: "spans_of (seed_prng_if_needed env st) = spans_of st"
  by (simp add: spans_of_def seed_prng_if_needed_def)

lemma pool_spans: "ensure_pool env st = (ok, t) \<Longrightarrow> spans_of t = spans_of st"
  by (auto simp: ensure_pool_def spans_of_def Let_def split: if_splits)

lemma scope_spans: "preserves spans_of (start_scope env args)"
  by (auto simp: preserves_def start_scope_def spans_of_def split: option.splits if_splits)

lemma decision_spans: "preserves spans_of (start_decision env args p)"
proof -
  have drawn: "preserves spans_of (and_then new_trace_id (\<lambda>tid. ret (h tid)))" for h :: "trace_id \<Rightarrow> 'x"
    by (intro preserves_and_then new_ids_depth preserves_ret)
  show ?thesis
  proof (cases p)
    case P_none
    then have "start_decision env args p = and_then new_trace_id (\<lambda>tid. ret (tid, OTEL_TRACE_FLAG_RANDOM,
        if sa_force_sample args then SAMPLE_RECORD_AND_SAMPLE else otel_run_sampler (e_sampler env) (e_sampler_arg env) tid True False))"
      by (simp add: start_decision_def fun_eq_iff)
    then show ?thesis by (simp only: drawn)
  next
    case (P_nrec i)
    then have "start_decision env args p = and_then new_trace_id (\<lambda>tid. ret (tid, OTEL_TRACE_FLAG_RANDOM,
        if sa_force_sample args then SAMPLE_RECORD_AND_SAMPLE else otel_run_sampler (e_sampler env) (e_sampler_arg env) tid True False))"
      by (simp add: start_decision_def fun_eq_iff)
    then show ?thesis by (simp only: drawn)
  qed (simp_all add: preserves_def start_decision_def Let_def)
qed

lemma resolve_spans: "resolve_parent env args st = (p, t) \<Longrightarrow> spans_of t = spans_of st"
  by (cases rule: slot_for_ref_cases [of "sa_parent_span args" st]; cases rule: nrec_for_ref_cases [of "sa_parent_span args" st])
     (auto simp: resolve_parent_def split: span_parent.splits option.splits if_splits)

lemma depth_of_spans: "preserves spans_of m \<Longrightarrow> preserves st_dispatch_depth m"
  by (auto simp: preserves_def spans_of_def)

section \<open>The dispatch depth\<close>

lemma take_slot_depth: "preserves st_dispatch_depth (take_slot env)"
  by (auto simp: preserves_def take_slot_def Let_def upd_slot_def split: if_splits)

lemma init_slot_depth: "preserves st_dispatch_depth (init_slot env args p tid pf dec sc i)"
proof (rule preservesI)
  fix st x t assume run: "init_slot env args p tid pf dec sc i st = (x, t)"
  let ?start = "upd_slot i (\<lambda>s. s\<lparr>s_gen := fst (next_gen st), s_detached := sa_detached args,
      s_session := (start_owner env args = None), s_owner := start_owner env args, s_attrs_cap := OTEL_SLOT_INLINE_ATTRS\<rparr>) (snd (next_gen st))"
  let ?m = "\<lambda>ref. and_then new_span_id (\<lambda>sid.
         and_then (\<lambda>st. modify (upd_slot i (fill_slot env args tid pf dec sc
                     (parent_span_id p st) (parent_tracestate p st) sid)) st) (\<lambda>_.
         and_then (modify (\<lambda>st. if \<not> sa_detached args then stack_push (stack_entry_for_slot i) False 0 st else st)) (\<lambda>_.
         and_then (modify (\<lambda>st. case start_owner env args of
              Some ow \<Rightarrow> st\<lparr>st_ledger := (ow, ref) # st_ledger st\<rparr>
            | None \<Rightarrow> st\<lparr>st_session_open := st_session_open st + 1, st_exit_registered := True\<rparr>)) (\<lambda>_.
         and_then (modify (bump C_spans_started)) (\<lambda>_.
         ret ref)))))"
  have "preserves st_dispatch_depth (?m ref)" for ref
    by (intro preserves_and_then new_ids_depth preserves_modify preserves_ret)
       (auto simp: preserves_def modify_def upd_slot_def stack_push_def bump_def split: option.split)
  from preservesD [OF this, of "make_ref (fst (next_gen st)) i True" ?start x t] run
  have "st_dispatch_depth t = st_dispatch_depth ?start"
    by (simp add: init_slot_def Let_def case_prod_beta)
  then show "st_dispatch_depth t = st_dispatch_depth st"
    by (simp add: upd_slot_def next_gen_def Let_def)
qed

lemma start_nrec_depth: "start_nrec env args tid f st = (r, t) \<Longrightarrow> st_dispatch_depth t = st_dispatch_depth st"
  by (auto simp: start_nrec_def take_nrec_def next_gen_def stack_push_def upd_nrec_def bump_def Let_def split: option.splits if_splits)

lemma start_recording_depth: "preserves st_dispatch_depth (start_recording env args p tid pf dec)"
proof (rule preservesI)
  fix st x t assume run: "start_recording env args p tid pf dec st = (x, t)"
  let ?m = "and_then (start_scope env args) (\<lambda>scope.
               and_then (\<lambda>st. if start_owner env args \<noteq> None \<and> \<not> e_enlarge_ok env then (Throw, st) else (Ret (), st)) (\<lambda>_.
               and_then (take_slot env) (\<lambda>found.
               case found of
                 None \<Rightarrow> and_then (modify (bump C_start_no_slot)) (\<lambda>_. ret 0)
               | Some idx \<Rightarrow> init_slot env args p tid pf dec scope idx)))"
  have "preserves st_dispatch_depth ?m"
    by (intro preserves_and_then depth_of_spans [OF scope_spans] take_slot_depth preserves_case preserves_modify preserves_ret init_slot_depth)
       (simp_all add: preserves_def bump_def)
  moreover obtain ok u where u: "ensure_pool env st = (ok, u)" by (metis surj_pair)
  moreover have "st_dispatch_depth u = st_dispatch_depth st" using pool_spans [OF u] by (simp add: spans_of_def)
  ultimately show "st_dispatch_depth t = st_dispatch_depth st"
    using run by (auto simp: start_recording_def Let_def bump_def split: if_splits bool.splits dest: preservesD)
qed

lemma start_depth:
  assumes "api_span_start env (Some args) st = (x, t)"
  shows "st_dispatch_depth t = st_dispatch_depth st"
proof (cases rule: call_refused_cases [of env False st])
  case (refused c)
  then show ?thesis using assms by (auto simp: api_span_start_def)
next
  case allowed
  obtain r u where r: "resolve_parent env args (seed_prng_if_needed env st) = (r, u)" by (metis surj_pair)
  have u: "st_dispatch_depth u = st_dispatch_depth st"
    using resolve_spans [OF r] arg_cong [OF seed_spans [of env st], of "\<lambda>x. snd (snd (snd x))"] by (simp add: spans_of_def)
  let ?m = "\<lambda>p. and_then (start_decision env args p) (\<lambda>(tid, parent_flags, decision).
                           if decision = SAMPLE_DROP
                           then (\<lambda>st. let (ref, st3) = start_nrec env args tid
                                                          (parent_flags AND OTEL_TRACE_FLAG_RANDOM) st
                                      in (Ret ref, st3))
                           else start_recording env args p tid parent_flags decision)"
  have "preserves st_dispatch_depth (?m p)" for p
    by (intro preserves_and_then depth_of_spans [OF decision_spans])
       (auto simp: preserves_def start_nrec_depth Let_def dest: preservesD [OF start_recording_depth] split: prod.splits)
  from preservesD [OF this, of _ u x t] have m: "?m p u = (x, t) \<Longrightarrow> st_dispatch_depth t = st_dispatch_depth u" for p .
  have nrec: "st_dispatch_depth (snd (start_nrec env args tid f v)) = st_dispatch_depth v" for tid f v
    by (rule start_nrec_depth [of env args tid f v "fst (start_nrec env args tid f v)"]) simp
  show ?thesis
  proof (cases "sa_struct_size args < sizeof_OtelSpanStartArgs \<or> sa_name args = None")
    case True
    then show ?thesis using assms allowed by (auto simp: api_span_start_def bump_def)
  next
    case good: False
    show ?thesis
    proof (cases r)
      case None
      then show ?thesis using assms allowed good r u by (auto simp: api_span_start_def bump_def)
    next
      case (Some p)
      show ?thesis
      proof (cases "\<exists>i. p = P_nrec i")
        case True
        then show ?thesis using assms allowed good r u Some nrec
          by (auto simp: api_span_start_def Let_def case_prod_beta)
      next
        case False
        then have "?m p u = (x, t)" using assms allowed good r Some by (cases p) (auto simp: api_span_start_def)
        from m [OF this] u show ?thesis by simp
      qed
    qed
  qed
qed

section \<open>No handle, no change\<close>

lemma and_then_last: "and_then m f s = (Ret c, t) \<Longrightarrow> (\<And>a u. f a u = (Ret c, t) \<Longrightarrow> Q) \<Longrightarrow> Q"
  using and_then_RetD by fast

lemma init_slot_handle: "init_slot env args p tid pf dec sc i st = (Ret r, t) \<Longrightarrow> r \<noteq> 0"
  unfolding init_slot_def Let_def case_prod_beta
  by (elim and_then_last) (auto simp: ret_def dest: make_ref_nonzero [OF next_gen_facts(1) [OF surjective_pairing], THEN notE])

lemma start_nrec_none: "start_nrec env args tid f st = (0, t) \<Longrightarrow> spans_of t = spans_of st"
proof -
  have g: "make_ref (fst (next_gen u)) i False \<noteq> 0" for u i
    by (intro make_ref_nonzero next_gen_facts(1) [OF surjective_pairing])
  show "start_nrec env args tid f st = (0, t) \<Longrightarrow> spans_of t = spans_of st"
    using g by (auto simp: start_nrec_def Let_def case_prod_beta split: option.splits if_splits)
qed

lemma take_slot_none: "take_slot env st = (Ret None, t) \<Longrightarrow> t = st"
  by (auto simp: take_slot_def Let_def split: if_splits)

lemma start_recording_none:
  assumes "start_recording env args p tid pf dec st = (Ret 0, t)"
  shows "spans_of t = spans_of st"
proof -
  obtain ok u where u: "ensure_pool env st = (ok, u)" by (metis surj_pair)
  have last: "spans_of t = spans_of v"
    if "(case found of None \<Rightarrow> and_then (modify (bump C_start_no_slot)) (\<lambda>_. ret 0)
        | Some idx \<Rightarrow> init_slot env args p tid pf dec sc idx) v = (Ret 0, t)" for found sc v
    using that init_slot_handle [of env args p tid pf dec sc _ v 0 t] by (cases found) (auto simp: and_then_def modify_def ret_def)
  have chain: "spans_of t = spans_of u"
    if run: "and_then (start_scope env args) (\<lambda>scope.
               and_then (\<lambda>st. if start_owner env args \<noteq> None \<and> \<not> e_enlarge_ok env then (Throw, st) else (Ret (), st)) (\<lambda>_.
               and_then (take_slot env) (\<lambda>found.
               case found of
                 None \<Rightarrow> and_then (modify (bump C_start_no_slot)) (\<lambda>_. ret 0)
               | Some idx \<Rightarrow> init_slot env args p tid pf dec scope idx))) u = (Ret 0, t)"
  proof -
    from and_then_RetD [OF run] obtain sc v where v: "start_scope env args u = (Ret sc, v)"
      and "and_then (\<lambda>st. if start_owner env args \<noteq> None \<and> \<not> e_enlarge_ok env then (Throw, st) else (Ret (), st)) (\<lambda>_.
               and_then (take_slot env) (\<lambda>found.
               case found of
                 None \<Rightarrow> and_then (modify (bump C_start_no_slot)) (\<lambda>_. ret 0)
               | Some idx \<Rightarrow> init_slot env args p tid pf dec sc idx)) v = (Ret 0, t)" by blast
    then have "and_then (take_slot env) (\<lambda>found.
               case found of
                 None \<Rightarrow> and_then (modify (bump C_start_no_slot)) (\<lambda>_. ret 0)
               | Some idx \<Rightarrow> init_slot env args p tid pf dec sc idx) v = (Ret 0, t)"
      by (auto simp: and_then_def split: if_splits)
    from and_then_RetD [OF this] obtain found w where w: "take_slot env v = (Ret found, w)"
      and fin: "(case found of None \<Rightarrow> and_then (modify (bump C_start_no_slot)) (\<lambda>_. ret 0)
               | Some idx \<Rightarrow> init_slot env args p tid pf dec sc idx) w = (Ret 0, t)" by blast
    have "found = None" using fin init_slot_handle [of env args p tid pf dec sc _ w 0 t] by (cases found) auto
    with w take_slot_none have "w = v" by blast
    with last [OF fin] preservesD [OF scope_spans v] show ?thesis by simp
  qed
  show ?thesis
    using assms chain pool_spans [OF u] u
    by (auto simp: start_recording_def Let_def split: if_splits bool.splits)
qed

lemma start_none:
  assumes "api_span_start env (Some args) st = (Ret 0, t)"
  shows "spans_of t = spans_of st"
proof (cases rule: call_refused_cases [of env False st])
  case (refused c)
  then show ?thesis using assms by (auto simp: api_span_start_def)
next
  case allowed
  obtain r u where r: "resolve_parent env args (seed_prng_if_needed env st) = (r, u)" by (metis surj_pair)
  have u: "spans_of u = spans_of st" using resolve_spans [OF r] by simp
  let ?m = "\<lambda>p. and_then (start_decision env args p) (\<lambda>(tid, parent_flags, decision).
                           if decision = SAMPLE_DROP
                           then (\<lambda>st. let (ref, st3) = start_nrec env args tid
                                                          (parent_flags AND OTEL_TRACE_FLAG_RANDOM) st
                                      in (Ret ref, st3))
                           else start_recording env args p tid parent_flags decision)"
  have m: "spans_of t = spans_of u" if run: "?m p u = (Ret 0, t)" for p
  proof -
    from and_then_RetD [OF run] obtain tid pf dec v where v: "start_decision env args p u = (Ret (tid, pf, dec), v)"
      and fin: "(if dec = SAMPLE_DROP then (\<lambda>st. let (ref, st3) = start_nrec env args tid (pf AND OTEL_TRACE_FLAG_RANDOM) st in (Ret ref, st3))
                 else start_recording env args p tid pf dec) v = (Ret 0, t)" by auto
    have "spans_of t = spans_of v"
      using fin start_recording_none start_nrec_none [of env args tid "pf AND OTEL_TRACE_FLAG_RANDOM" v t]
      by (auto simp: Let_def split: if_splits prod.splits)
    with preservesD [OF decision_spans v] show ?thesis by simp
  qed
  show ?thesis
  proof (cases "sa_struct_size args < sizeof_OtelSpanStartArgs \<or> sa_name args = None")
    case True
    then show ?thesis using assms allowed by (auto simp: api_span_start_def)
  next
    case good: False
    show ?thesis
    proof (cases r)
      case None
      then show ?thesis using assms allowed good r u by (auto simp: api_span_start_def)
    next
      case (Some p)
      show ?thesis
      proof (cases "\<exists>i. p = P_nrec i")
        case True
        then obtain tid f where "start_nrec env args tid f u = (0, t)"
          using assms allowed good r Some by (auto simp: api_span_start_def Let_def split: prod.splits)
        with start_nrec_none u show ?thesis by simp
      next
        case False
        then have "?m p u = (Ret 0, t)" using assms allowed good r Some by (cases p) (auto simp: api_span_start_def)
        from m [OF this] u show ?thesis by simp
      qed
    qed
  qed
qed

end
