(* ===== verification/Sdt_Balance.thy ===== *)
theory Sdt_Balance
  imports Sdt_Mask Stmt_Contexts Start_Frame
begin

text \<open>
  Well-nested probes: the spans the bridge opens for START probes are on the producer's active
  stack just as the probes nest, each DONE probe takes off the span its START put on, and in
  the end both the bridge's stacks and the producer's are as they were found.
\<close>

section \<open>Producer states with the same spans open\<close>

definition stands :: "producer \<Rightarrow> producer \<Rightarrow> bool" where
  "stands st u \<longleftrightarrow> wf u \<and> st_dispatch_depth u = st_dispatch_depth st \<and> st_stack u = st_stack st \<and>
     (\<forall>i. open_slot st i \<longrightarrow> open_slot u i \<and> slot_handle u i = slot_handle st i) \<and>
     (\<forall>i. open_nrec st i \<longrightarrow> open_nrec u i \<and> nrec_handle u i = nrec_handle st i)"

lemma stands_of_spans: "wf u \<Longrightarrow> spans_of u = spans_of st \<Longrightarrow> stands st u"
  by (simp add: stands_def spans_of_def open_slot_def slot_handle_def open_nrec_def nrec_handle_def)

lemma stands_refl: "wf st \<Longrightarrow> stands st st"
  by (simp add: stands_def)

lemma stands_trans: "stands st u \<Longrightarrow> stands u v \<Longrightarrow> stands st v"
  by (simp add: stands_def)

lemma stands_same_spans:
  assumes "wf st" and "same_spans st u"
  shows "stands st u"
  using assms(2) same_spans_slot(1,2) [OF assms(2)] assms(1)
  by (auto simp: stands_def same_spans_def open_nrec_def nrec_handle_def)

text \<open>\<open>opened st u ref detached\<close>: \<open>u\<close> is \<open>st\<close> with a further span, whose handle is \<open>ref\<close> (none if 0).\<close>

definition opened :: "producer \<Rightarrow> producer \<Rightarrow> i64 \<Rightarrow> bool \<Rightarrow> bool" where
  "opened st u ref detached \<longleftrightarrow>
     wf u \<and> st_dispatch_depth u = st_dispatch_depth st \<and>
     (\<forall>i. open_slot st i \<longrightarrow> open_slot u i \<and> slot_handle u i = slot_handle st i) \<and>
     (\<forall>i. open_nrec st i \<longrightarrow> open_nrec u i \<and> nrec_handle u i = nrec_handle st i) \<and>
     (if ref = 0 then st_stack u = st_stack st
      else \<exists>x. st_stack u = st_stack st @ (if detached then [] else [x]) \<and>
        ((\<exists>i. se_entry x = stack_entry_for_slot i \<and> \<not> open_slot st i \<and> open_slot u i \<and> ref = slot_handle u i) \<or>
         (\<exists>i. se_entry x = stack_entry_for_nrec i \<and> \<not> open_nrec st i \<and> open_nrec u i \<and> ref = nrec_handle u i)))"

lemma entries_open: "wf st \<Longrightarrow> e \<in> se_entry ` set (st_stack st) \<Longrightarrow> entry_open st e"
  by (auto simp: wf_def wf_stack_def)

lemma closed_off_stack:
  assumes "wf st"
  shows "\<not> open_slot st i \<Longrightarrow> stack_entry_for_slot i \<notin> se_entry ` set (st_stack st)"
    and "\<not> open_nrec st i \<Longrightarrow> stack_entry_for_nrec i \<notin> se_entry ` set (st_stack st)"
  using entries_open [OF assms, of "stack_entry_for_slot i"] entries_open [OF assms, of "stack_entry_for_nrec i"]
  by (auto simp: entry_open_def stack_entry_for_slot_def stack_entry_for_nrec_def entry_nrec_def)

lemma start_opened:
  assumes "wf st" and "env_ok env" and "args_ok args" and run: "api_span_start env (Some args) st = (Ret ref, u)"
  shows "opened st u ref (sa_detached args)"
proof (cases "ref = 0")
  case True
  then have "spans_of u = spans_of st" using start_none run by simp
  moreover have "wf u" using api_span_start_outcome [OF assms(1,2) _ run] assms(3) by simp
  ultimately show ?thesis
    using True by (simp add: opened_def spans_of_def open_slot_def open_nrec_def slot_handle_def nrec_handle_def)
next
  case False
  note w = start_ref(1,2) [OF assms False]
  have depth: "st_dispatch_depth u = st_dispatch_depth st" by (rule start_depth [OF run])
  have slot: "opened st u ref (sa_detached args)" if "started env args p tid pf dec st ref u" for p tid pf dec
  proof -
    from that obtain i where i: "\<not> open_slot st i" "open_slot u i" "ref = slot_handle u i"
      "\<And>j. open_slot st j \<Longrightarrow> open_slot u j \<and> st_slots u ! j = st_slots st ! j" "st_nrecs u = st_nrecs st"
      "st_stack u = st_stack st @ (if sa_detached args then []
            else [\<lparr>se_entry = stack_entry_for_slot i, se_is_activation = False, se_nest_level = 0\<rparr>])"
      unfolding started_def Let_def by blast
    then show ?thesis
      using w(1) depth False unfolding opened_def
      by (auto simp: slot_handle_def open_nrec_def nrec_handle_def
          intro!: exI [of _ "\<lparr>se_entry = stack_entry_for_slot i, se_is_activation = False, se_nest_level = 0\<rparr>"])
  qed
  have nrec: "opened st u ref (sa_detached args)" if "started_nrec args tid f st ref u" for tid f
  proof -
    from that obtain i where i: "\<not> open_nrec st i" "open_nrec u i" "ref = nrec_handle u i"
      "\<And>j. open_nrec st j \<Longrightarrow> open_nrec u j \<and> st_nrecs u ! j = st_nrecs st ! j" "st_slots u = st_slots st"
      "st_stack u = st_stack st @ (if sa_detached args then []
            else [\<lparr>se_entry = stack_entry_for_nrec i, se_is_activation = False, se_nest_level = 0\<rparr>])"
      unfolding started_nrec_def by blast
    then show ?thesis
      using w(1) depth False unfolding opened_def
      by (auto simp: nrec_handle_def open_slot_def slot_handle_def
          intro!: exI [of _ "\<lparr>se_entry = stack_entry_for_nrec i, se_is_activation = False, se_nest_level = 0\<rparr>"])
  qed
  from w(2) obtain p where "case p of
           P_nrec i \<Rightarrow> started_nrec args (trace_id (n_ctx (st_nrecs st ! i)))
                        (trace_flags (n_ctx (st_nrecs st ! i)) AND OTEL_TRACE_FLAG_RANDOM) st ref u
         | _ \<Rightarrow> (\<exists>tid pf dec. fst (start_decision env args p (seed_prng_if_needed env st)) = Ret (tid, pf, dec) \<and>
             (if dec = SAMPLE_DROP then started_nrec args tid (pf AND OTEL_TRACE_FLAG_RANDOM) st ref u
              else started env args p tid pf dec st ref u))"
    unfolding start_result_def by blast
  then show ?thesis using slot nrec by (cases p) (auto split: if_splits)
qed

lemma above_top:
  assumes "e \<notin> se_entry ` set xs" and "st_stack v = xs @ (if detached then [] else [x])" and "se_entry x = e"
  shows "above e v = []" "below e v = xs"
proof -
  have "above e v = [] \<and> below e v = xs"
  proof (cases detached)
    case True
    then have "off_stack e v" using assms(1,2) by (simp add: off_stack_def)
    then show ?thesis using True assms(2) stack_find_None [of e v] by (simp add: above_def below_def)
  next
    case False
    then have "stack_find e v = Some (length xs)" using assms(2,3) by (simp add: stack_find_def find_top_snoc)
    then show ?thesis using False assms(2) by (simp add: above_def below_def)
  qed
  then show "above e v = []" "below e v = xs" by auto
qed

lemma spares_none:
  assumes "spares {} v t"
  shows "open_slot t i = open_slot v i" "slot_handle t i = slot_handle v i" "open_nrec t i = open_nrec v i" "nrec_handle t i = nrec_handle v i"
  using assms by (simp_all add: spares_def open_slot_def slot_handle_def open_nrec_def nrec_handle_def)

lemma end_opened:
  assumes w: "wf st" and o: "opened st u ref detached" and v: "stands u v" and c: "\<not> e_crit env" "st_dispatch_depth v = 0"
    and run: "otel_span_end env ref v = (Ret (), t)"
  shows "stands st t"
proof (cases "ref = 0")
  case True
  then have "t = v" using run by (simp add: otel_span_end_def)
  moreover have "stands st u" using o True by (simp add: opened_def stands_def)
  ultimately show ?thesis using v stands_trans by blast
next
  case False
  then have end_run: "api_span_end env ref 0 v = (Ret (), t)" using run by (simp add: otel_span_end_def)
  from o False obtain x where stack: "st_stack u = st_stack st @ (if detached then [] else [x])"
    and ref: "(\<exists>i. se_entry x = stack_entry_for_slot i \<and> \<not> open_slot st i \<and> open_slot u i \<and> ref = slot_handle u i) \<or>
         (\<exists>i. se_entry x = stack_entry_for_nrec i \<and> \<not> open_nrec st i \<and> open_nrec u i \<and> ref = nrec_handle u i)"
    unfolding opened_def by auto
  have keep: "open_slot v j \<and> slot_handle v j = slot_handle st j" if "open_slot st j" for j
    using that o v by (simp add: opened_def stands_def)
  have keepn: "open_nrec v j \<and> nrec_handle v j = nrec_handle st j" if "open_nrec st j" for j
    using that o v by (simp add: opened_def stands_def)
  have wv: "wf v" and sv: "st_stack v = st_stack st @ (if detached then [] else [x])"
    using v stack by (simp_all add: stands_def)
  have dv: "st_dispatch_depth st = 0" using v o c(2) by (simp add: stands_def opened_def)
  from ref show ?thesis
  proof (elim disjE exE conjE)
    fix i assume i: "se_entry x = stack_entry_for_slot i" "\<not> open_slot st i" "open_slot u i" "ref = slot_handle u i"
    have oi: "open_slot v i" and h: "ref = slot_handle v i" using v i by (simp_all add: stands_def)
    note top = above_top [OF closed_off_stack(1) [OF w i(2)] sv i(1)]
    from api_span_end_steps [OF wv oi c end_run [unfolded h]] obtain y where
      y: "leave_stack env (stack_entry_for_slot i) ''parent span ended first'' v = (Ret (), y)" and e: "end_slot env i 0 None y = (Ret (), t)" .
    note lo = leave_stack_outcome [OF wv y] and ks = leave_stack_keeps_slot [OF wv y]
    have sp: "spares {} v y" "st_stack y = st_stack st" "st_dispatch_depth y = 0" "wf y" using lo top c(2) by simp_all
    note eo = end_slot_outcome [OF sp(4) _ ks(3) e]
    have eo: "wf t" "only_slot i y t" "st_dispatch_depth t = 0" using eo oi ks(2) sp(3) by auto
    have "open_slot t j \<and> slot_handle t j = slot_handle st j" if "open_slot st j" for j
    proof -
      have "j \<noteq> i" using that i(2) by blast
      then show ?thesis
        using keep [OF that] eo(2) spares_none(1,2) [OF sp(1), of j] by (simp add: only_slot_def open_slot_def slot_handle_def)
    qed
    moreover have "open_nrec t j \<and> nrec_handle t j = nrec_handle st j" if "open_nrec st j" for j
      using keepn [OF that] eo(2) spares_none(3,4) [OF sp(1), of j] by (simp add: only_slot_def open_nrec_def nrec_handle_def)
    ultimately show ?thesis using eo sp(2) dv by (simp add: stands_def only_slot_def)
  next
    fix i assume i: "se_entry x = stack_entry_for_nrec i" "\<not> open_nrec st i" "open_nrec u i" "ref = nrec_handle u i"
    have oi: "open_nrec v i" and h: "ref = nrec_handle v i" using v i by (simp_all add: stands_def)
    note top = above_top [OF closed_off_stack(2) [OF w i(2)] sv i(1)]
    note hf = nrec_handle_fields(3,4) [OF wv oi]
    have "and_then (leave_stack env (stack_entry_for_nrec i) ''parent span ended first'') (\<lambda>_. modify (free_nrec i False)) v = (Ret (), t)"
      using end_run hf by (simp add: h api_span_end_def allowed_call [OF c] nrec_for_open [OF wv oi])
    from and_then_RetD [OF this] obtain y where
      y: "leave_stack env (stack_entry_for_nrec i) ''parent span ended first'' v = (Ret (), y)" and t: "t = free_nrec i False y"
      by (auto simp: modify_def)
    note lo = leave_stack_outcome [OF wv y] and ks = leave_stack_keeps_nrec [OF wv y]
    have sp: "spares {} v y" "st_stack y = st_stack st" "st_dispatch_depth y = 0" "wf y" using lo top c(2) by simp_all
    have wt: "wf t" unfolding t using wf_free_nrec sp(4) ks oi by simp
    have fr: "st_slots t = st_slots y" "st_stack t = st_stack y" "st_dispatch_depth t = st_dispatch_depth y"
      "length (st_nrecs t) = length (st_nrecs y)" "\<And>j. j \<noteq> i \<Longrightarrow> st_nrecs t ! j = st_nrecs y ! j"
      by (simp_all add: t free_nrec_def upd_nrec_def)
    have "open_slot t j \<and> slot_handle t j = slot_handle st j" if "open_slot st j" for j
      using keep [OF that] spares_none(1,2) [OF sp(1), of j] by (simp add: fr open_slot_def slot_handle_def)
    moreover have "open_nrec t j \<and> nrec_handle t j = nrec_handle st j" if "open_nrec st j" for j
    proof -
      have "j \<noteq> i" using that i(2) by blast
      then show ?thesis
        using keepn [OF that] spares_none(3,4) [OF sp(1), of j] by (simp add: fr open_nrec_def nrec_handle_def)
    qed
    ultimately show ?thesis using wt sp dv by (simp add: stands_def fr)
  qed
qed

lemma stands_opened: "stands st u \<Longrightarrow> opened u v ref d \<Longrightarrow> opened st v ref d"
  unfolding opened_def stands_def by (simp split: if_splits) metis

lemma opened_stands: "opened st u ref d \<Longrightarrow> stands u v \<Longrightarrow> opened st v ref d"
  unfolding opened_def stands_def by (simp split: if_splits) metis

section \<open>Session operations that leave the spans standing\<close>

definition level :: "session \<Rightarrow> session \<Rightarrow> bool" where
  "level s t \<longleftrightarrow> rest t = rest s \<and> stands (ss_prod s) (ss_prod t)"

lemma level_refl: "wf (ss_prod s) \<Longrightarrow> level s s"
  by (simp add: level_def stands_refl)

lemma level_trans: "level s t \<Longrightarrow> level t u \<Longrightarrow> level s u"
  using stands_trans by (auto simp: level_def)

lemma level_wf: "level s t \<Longrightarrow> wf (ss_prod t)"
  by (simp add: level_def stands_def)

lemma only_attrs_level:
  assumes "wf (ss_prod s)" and "only_attrs s t"
  shows "level s t"
proof -
  have t: "t = s\<lparr>ss_prod := ss_prod t\<rparr>" "same_spans (ss_prod s) (ss_prod t)" using assms(2) by (simp_all add: only_attrs_def)
  have "rest t = rest s" by (subst t(1)) simp
  then show ?thesis using stands_same_spans [OF assms(1) t(2)] by (simp add: level_def)
qed

lemma only_attrs_ints: "only_attrs s t \<Longrightarrow> only_attrs s (set_ints b ref kvs t)"
  unfolding set_ints_def
  by (induction kvs arbitrary: t) (simp_all add: only_attrs_trans [OF _ only_attrs_set(2)])

lemma only_attrs_if: "only_attrs s t \<Longrightarrow> (\<And>u. only_attrs u (f u)) \<Longrightarrow> only_attrs s (set_if c f t)"
  using only_attrs_trans by (simp add: set_if_def)

lemma lock_attrs_only: "only_attrs s (lock_wait_attrs b ref args s)"
proof -
  have one: "only_attrs s (set_int b ref k v t)" "only_attrs s (set_str b ref k w t)" if "only_attrs s t" for k v w t
    using only_attrs_trans [OF that] only_attrs_set by auto
  have opt: "only_attrs s (case x of Some n \<Rightarrow> set_str b ref k n t | None \<Rightarrow> set_int b ref k v t)" if "only_attrs s t" for x k v t
    using one [OF that] by (simp split: option.split)
  have cond: "only_attrs s (if c then set_str b ref k w t else set_int b ref k v t)" if "only_attrs s t" for c k v w t
    using one [OF that] by simp
  show ?thesis
    unfolding lock_wait_attrs_def Let_def
    by (auto split: list.split sdt_arg.split intro!: only_attrs_refl only_attrs_ints cond opt one)
qed

lemma probe_attrs_only: "only_attrs s (probe_attrs b f ref args s)"
  unfolding probe_attrs_def Let_def
  by (intro only_attrs_if only_attrs_set only_attrs_opt lock_attrs_only)

lemma add_link_only: "only_attrs s (set_prod b (\<lambda>env. otel_span_add_link env ref c) s)"
  by (simp add: only_attrs_def set_prod_def otel_span_add_link_def api_span_add_link_def setter_same_spans internal_setters_core)

lemma nrec_context_stands:
  assumes "wf st" and "open_nrec st i" and "nrec_context env i st = (x, t)"
  shows "stands st t"
proof -
  have w: "wf t" using nrec_context_wf [OF assms(1,2), of env] assms(3) by simp
  have "spans_of t = spans_of st \<or> (\<exists>sid vs. t = upd_nrec i (\<lambda>n. n\<lparr>n_ctx := (n_ctx n)\<lparr>span_id := sid\<rparr>, n_have_span_id := True\<rparr>)
      ((seed_prng_if_needed env st)\<lparr>st_prng := vs\<rparr>))"
    using assms(3)
    by (cases rule: new_span_id_cases [of "seed_prng_if_needed env st"])
       (auto simp: nrec_context_def and_then_def modify_def ret_def split: if_splits)
  then show ?thesis
  proof (elim disjE exE)
    assume "spans_of t = spans_of st"
    then show ?thesis using stands_of_spans [OF w] by simp
  next
    fix sid vs assume "t = upd_nrec i (\<lambda>n. n\<lparr>n_ctx := (n_ctx n)\<lparr>span_id := sid\<rparr>, n_have_span_id := True\<rparr>)
      ((seed_prng_if_needed env st)\<lparr>st_prng := vs\<rparr>)"
    moreover have "st_dispatch_depth (seed_prng_if_needed env st) = st_dispatch_depth st" by (simp add: seed_prng_if_needed_def)
    moreover from calculation have "n_gen (st_nrecs t ! j) = n_gen (st_nrecs st ! j)" for j
      by (cases "j = i"; cases "i < length (st_nrecs st)") (simp_all add: upd_nrec_def list_update_beyond)
    ultimately show ?thesis using w
      by (simp add: stands_def open_slot_def slot_handle_def open_nrec_def nrec_handle_def) (simp add: upd_nrec_def)
  qed
qed

lemma context_of_ref_stands:
  assumes "wf st" and "genuine ref" and "ref \<noteq> 0" and "context_of_ref env ref st = (x, t)"
  shows "stands st t"
proof -
  have b: "stands st st" "stands st (bump c st)" for c
    using assms(1) by (simp_all add: stands_of_spans)
  have n: "stands st t" if "open_nrec st i" "and_then (nrec_context env i) (\<lambda>c. ret (Some c)) st = (x, t)" for i
  proof -
    obtain y u where y: "nrec_context env i st = (y, u)" by (metis surj_pair)
    then have "t = u" using that(2) by (cases y) (auto simp: and_then_def ret_def)
    then show ?thesis using nrec_context_stands [OF assms(1) that(1) y] by simp
  qed
  show ?thesis
  proof (cases "0 <s ref")
    case True
    then show ?thesis
      by (cases rule: slot_for_ref_cases [of ref st]) (use assms(4) b in \<open>auto simp: context_of_ref_def\<close>)
  next
    case False
    show ?thesis
    proof (cases rule: nrec_for_ref_cases [of ref st])
      case (found i)
      from n [OF found_open(2) [OF assms(2,3) found(2,3)]] assms(4) found(1) False show ?thesis
        by (simp add: context_of_ref_def)
    qed (use assms(4) b False in \<open>auto simp: context_of_ref_def\<close>)
  qed
qed

lemma call_prod_result: "call_prod b m s = (x, t) \<Longrightarrow> \<exists>p. m (env_of b s) (ss_prod s) = (x, p) \<and> t = s\<lparr>ss_prod := p\<rparr>"
  by (auto simp: call_prod_def lift_op_def split: prod.splits)

lemma no_parent: "resolve_active_parent env st = P_none \<Longrightarrow> \<not> rc_is_set (rs_root (e_root env))"
  unfolding resolve_active_parent_def
  by (cases "st_stack st = []"; cases "e_leader_ctx env") (simp_all add: resolve_from_entry_def split: if_splits)

text \<open>Reading a context; with a root context set there always is one to read.\<close>

lemma context_level:
  assumes "wf (ss_prod s)" and "genuine ref" and run: "context_of b ref s = (Ret c, t)"
  shows "level s t"
    and "\<lbrakk>ref = 0; \<not> e_crit (bk_env b); bk_loaded b; rc_is_set (rs_root (ss_root s))\<rbrakk> \<Longrightarrow> c \<noteq> None"
proof -
  from call_prod_result [OF run [unfolded context_of_def]] obtain p where
    p: "otel_span_context_of (env_of b s) (bk_loaded b) ref (ss_prod s) = (Ret c, p)" and t: "t = s\<lparr>ss_prod := p\<rparr>" by blast
  let ?st = "ss_prod s" and ?env = "env_of b s"
  have root: "rs_root (e_root ?env) = rs_root (ss_root s)" by (simp add: env_of_def)
  have b: "stands ?st ?st" "stands ?st (bump k ?st)" for k
    using assms(1) by (simp_all add: stands_of_spans)
  have n: "stands ?st p \<and> c \<noteq> None" if "open_nrec ?st i" "and_then (nrec_context ?env i) (\<lambda>c. ret (Some c)) ?st = (Ret c, p)" for i
  proof -
    from and_then_RetD [OF that(2)] obtain y u where "nrec_context ?env i ?st = (Ret y, u)" "p = u" "c = Some y"
      by (auto simp: ret_def)
    then show ?thesis using nrec_context_stands [OF assms(1) that(1)] by simp
  qed
  have sl: "context_of_ref ?env (make_ref (s_gen (st_slots ?st ! i)) i True) ?st = (Ret (Some (slot_context (st_slots ?st ! i))), ?st)"
    if "open_slot ?st i" for i
    using slot_for_open [OF assms(1) that] slot_handle_fields(3) [OF assms(1) that] by (simp add: context_of_ref_def slot_handle_def)
  have "stands ?st p \<and> (ref = 0 \<and> \<not> e_crit (bk_env b) \<and> bk_loaded b \<and> rc_is_set (rs_root (ss_root s)) \<longrightarrow> c \<noteq> None)"
  proof (cases "bk_loaded b")
    case False
    then show ?thesis using p b by (auto simp: otel_span_context_of_def)
  next
    case loaded: True
    show ?thesis
    proof (cases rule: call_refused_cases [of ?env True ?st])
      case (refused k)
      then show ?thesis using p b loaded by (auto simp: otel_span_context_of_def api_span_context_of_def env_of_def)
    next
      case allowed
      then have q: "otel_span_context_of_internal ?env ref ?st = (Ret c, p)"
        using p loaded by (simp add: otel_span_context_of_def api_span_context_of_def)
      show ?thesis
      proof (cases "ref = 0")
        case False
        then show ?thesis using q context_of_ref_stands [OF assms(1,2) False] by (simp add: otel_span_context_of_internal_def)
      next
        case True
        note op = resolve_active_open [OF assms(1), of ?env]
        show ?thesis
        proof (cases "resolve_active_parent ?env ?st")
          case P_none
          then have "otel_span_context_of_internal ?env ref ?st = (Ret None, ?st)"
            by (simp add: True otel_span_context_of_internal_def)
          with q have "p = ?st" by simp
          with no_parent [OF P_none] b show ?thesis unfolding root by simp
        next
          case (P_remote d)
          then show ?thesis using q True b by (auto simp: otel_span_context_of_internal_def)
        next
          case (P_slot i)
          then show ?thesis using q True b sl [OF op(1) [OF P_slot]] by (auto simp: otel_span_context_of_internal_def)
        next
          case (P_nrec i)
          then show ?thesis using q True n [OF op(2) [OF P_nrec]] by (auto simp: otel_span_context_of_internal_def)
        qed
      qed
    qed
  qed
  then show "level s t" "\<lbrakk>ref = 0; \<not> e_crit (bk_env b); bk_loaded b; rc_is_set (rs_root (ss_root s))\<rbrakk> \<Longrightarrow> c \<noteq> None"
    by (simp_all add: level_def t)
qed

text \<open>A backend from which spans can be started in session \<open>w\<close>.\<close>

definition sound :: "backend \<Rightarrow> session \<Rightarrow> bool" where
  "sound b w \<longleftrightarrow> \<not> e_crit (bk_env b) \<and> bk_loaded b \<and> env_ok (env_of b w)"

lemma env_of_rest: "rest t = rest s \<Longrightarrow> env_of b t = env_of b s"
  using rest_same(2,3) [of t s] by (simp add: env_of_def)

lemma start_span_opened:
  assumes "wf (ss_prod s)" and "sound b s" and "args_ok args" and run: "start_span b args s = (Ret ref, t)"
  shows "opened (ss_prod s) (ss_prod t) ref (sa_detached args) \<and> rest t = rest s"
proof -
  from call_prod_result [OF run [unfolded start_span_def]] obtain p where
    p: "otel_span_start (env_of b s) (bk_loaded b) (bk_possible b) args (ss_prod s) = (Ret ref, p)" and t: "t = s\<lparr>ss_prod := p\<rparr>" by blast
  show ?thesis
  proof (cases "otel_recording_possible (bk_loaded b) (bk_possible b)")
    case True
    let ?a = "args\<lparr>sa_struct_size := sizeof_OtelSpanStartArgs\<rparr>"
    have "args_ok ?a" using assms(3) by (simp add: args_ok_def)
    moreover have "api_span_start (env_of b s) (Some ?a) (ss_prod s) = (Ret ref, p)" using p True by (simp add: otel_span_start_def)
    ultimately show ?thesis using start_opened [OF assms(1)] assms(2) by (fastforce simp: sound_def t)
  next
    case False
    then have "ref = 0" "p = ss_prod s" using p by (auto simp: otel_span_start_def)
    then show ?thesis using assms(1) by (simp add: opened_def t)
  qed
qed

lemma end_span_level:
  assumes "wf (ss_prod s)" and "opened (ss_prod s) (ss_prod u) ref d" and "level u v" and "rest u = rest s"
    and "\<not> e_crit (bk_env b)" and "st_dispatch_depth (ss_prod s) = 0" and run: "end_span b ref v = (Ret (), t)"
  shows "level s t"
proof -
  from call_prod_result [OF run [unfolded end_span_def]] obtain p where
    p: "otel_span_end (env_of b v) ref (ss_prod v) = (Ret (), p)" and t: "t = v\<lparr>ss_prod := p\<rparr>" by blast
  have "st_dispatch_depth (ss_prod v) = 0" using assms(2,3,6) by (simp add: level_def stands_def opened_def)
  moreover have "\<not> e_crit (env_of b v)" using assms(5) by (simp add: env_of_def)
  ultimately show ?thesis
    using end_opened [OF assms(1,2) _ _ _ p] assms(3,4) by (simp add: level_def t)
qed

section \<open>A START probe, a DONE probe\<close>

lemma genuine_opened: "opened st u ref d \<Longrightarrow> genuine ref"
  using slot_handle_fields(1) [of u] nrec_handle_fields(1) [of u]
  by (auto simp: opened_def genuine_def open_slot_def open_nrec_def split: if_splits)

lemma sound_rest: "rest t = rest s \<Longrightarrow> sound b t = sound b s"
  using env_of_rest [of t s b] by (simp add: sound_def)

lemma in_session_Ret:
  "in_session m s = (Ret a, t) \<Longrightarrow> m (sd_session s) = (Ret a, sd_session t) \<and> t = s\<lparr>sd_session := sd_session t\<rparr>"
  using in_session_result [of m s "Ret a" t] by auto

lemma link_level:
  assumes "wf (ss_prod s)" and "genuine (ss_txn s)" and "genuine ref" and run: "link_query_with_txn b ref s = (Ret (), t)"
  shows "level s t"
proof (cases "ss_txn s = 0")
  case True
  then show ?thesis using run level_refl [OF assms(1)] by (simp add: link_query_with_txn_def)
next
  case False
  have opt: "level v (case x of None \<Rightarrow> v | Some c \<Rightarrow> set_prod b (\<lambda>env. otel_span_add_link env r (Some c)) v)"
    if "wf (ss_prod v)" for v x r
    using level_refl [OF that] only_attrs_level [OF that add_link_only] by (simp split: option.split)
  from run False have "and_then (context_of b (ss_txn s)) (\<lambda>txn.
           and_then (modify (\<lambda>s. case txn of None \<Rightarrow> s | Some c \<Rightarrow> set_prod b (\<lambda>env. otel_span_add_link env ref (Some c)) s)) (\<lambda>_.
           and_then (context_of b ref) (\<lambda>query. modify (\<lambda>s.
             case query of None \<Rightarrow> s | Some c \<Rightarrow> set_prod b (\<lambda>env. otel_span_add_link env (ss_txn s) (Some c)) s)))) s = (Ret (), t)"
    by (simp add: link_query_with_txn_def)
  from and_then_RetD [OF this] obtain txn u where u: "context_of b (ss_txn s) s = (Ret txn, u)"
    and "and_then (modify (\<lambda>s. case txn of None \<Rightarrow> s | Some c \<Rightarrow> set_prod b (\<lambda>env. otel_span_add_link env ref (Some c)) s)) (\<lambda>_.
           and_then (context_of b ref) (\<lambda>query. modify (\<lambda>s.
             case query of None \<Rightarrow> s | Some c \<Rightarrow> set_prod b (\<lambda>env. otel_span_add_link env (ss_txn s) (Some c)) s))) u = (Ret (), t)"
    by blast
  note lu = context_level(1) [OF assms(1,2) u]
  let ?v = "case txn of None \<Rightarrow> u | Some c \<Rightarrow> set_prod b (\<lambda>env. otel_span_add_link env ref (Some c)) u"
  have lv: "level s ?v" by (rule level_trans [OF lu opt [OF level_wf [OF lu]]])
  have "and_then (context_of b ref) (\<lambda>query. modify (\<lambda>s.
             case query of None \<Rightarrow> s | Some c \<Rightarrow> set_prod b (\<lambda>env. otel_span_add_link env (ss_txn s) (Some c)) s)) ?v = (Ret (), t)"
    using \<open>and_then (modify _) _ u = (Ret (), t)\<close> by (simp only: and_then_modify)
  from and_then_RetD [OF this] obtain q y where y: "context_of b ref ?v = (Ret q, y)"
    and t: "t = (case q of None \<Rightarrow> y | Some c \<Rightarrow> set_prod b (\<lambda>env. otel_span_add_link env (ss_txn y) (Some c)) y)"
    by (auto simp: modify_def)
  have ly: "level s y" by (rule level_trans [OF lv context_level(1) [OF level_wf [OF lv] assms(3) y]])
  show ?thesis unfolding t by (rule level_trans [OF ly opt [OF level_wf [OF ly]]])
qed

lemma push_session: "push_probe f ref (s\<lparr>sd_session := v\<rparr>)\<lparr>sd_session := w\<rparr> = push_probe f ref (s\<lparr>sd_session := w\<rparr>)"
  by (simp add: push_probe_def)

lemma start_probe_opens:
  assumes "wf (ss_prod (sd_session s))" and "sound b (sd_session s)" and "rc_is_set (rs_root (ss_root (sd_session s)))"
    and "genuine (ss_txn (sd_session s))" and "\<not> probe_stack_full f s" and run: "start_probe b f args s = (Ret (), t)"
  obtains ref where "opened (ss_prod (sd_session s)) (ss_prod (sd_session t)) ref (f = F_sort)"
    "rest (sd_session t) = rest (sd_session s)" "t = push_probe f ref (s\<lparr>sd_session := sd_session t\<rparr>)"
proof -
  let ?w = "sd_session s"
  let ?args = "(literal_args (otel_pg_tracer b) (probe_span_name f))\<lparr>sa_kind := KIND_INTERNAL, sa_detached := (f = F_sort)\<rparr>"
  have args: "args_ok ?args" using literal_args_ok by (simp add: args_ok_def)
  let ?tail = "\<lambda>ref. and_then (on_session (probe_attrs b f ref args)) (\<lambda>_.
            and_then (modify (push_probe f ref)) (\<lambda>_.
            if f = F_query then in_session (link_query_with_txn b ref) else ret ()))"
  from and_then_RetD [OF run [unfolded start_probe_def]] obtain ctx s1 where c: "in_session (context_of b 0) s = (Ret ctx, s1)"
    and rest1: "(if ctx = None \<or> probe_stack_full f s1 then (Ret (), s1) else and_then (in_session (start_span b ?args)) ?tail s1) = (Ret (), t)"
    by blast
  note c1 = in_session_Ret [OF c]
  have l1: "level ?w (sd_session s1)" and ctx: "ctx \<noteq> None"
    using context_level [OF assms(1) _ conjunct1 [OF c1]] assms(2,3) by (simp_all add: genuine_def sound_def)
  have full: "\<not> probe_stack_full f s1" using assms(5) conjunct2 [OF c1] by (metis probe_stack_full_def sdt.simps(2,3) sdt.select_convs(2,3) sdt.surjective sdt.update_convs(1))
  from rest1 ctx full have "and_then (in_session (start_span b ?args)) ?tail s1 = (Ret (), t)" by simp
  from and_then_RetD [OF this] obtain ref s2 where st: "in_session (start_span b ?args) s1 = (Ret ref, s2)" and tl: "?tail ref s2 = (Ret (), t)" by blast
  note c2 = in_session_Ret [OF st]
  have r1: "rest (sd_session s1) = rest ?w" using l1 by (simp add: level_def)
  have o2: "opened (ss_prod (sd_session s1)) (ss_prod (sd_session s2)) ref (f = F_sort)" and r2: "rest (sd_session s2) = rest ?w"
    using start_span_opened [OF level_wf [OF l1] _ args conjunct1 [OF c2]] assms(2) sound_rest [OF r1] r1 by auto
  have o2': "opened (ss_prod ?w) (ss_prod (sd_session s2)) ref (f = F_sort)"
    using stands_opened o2 l1 unfolding level_def by blast
  have w2: "wf (ss_prod (sd_session s2))" using o2 by (simp add: opened_def)
  let ?a = "probe_attrs b f ref args (sd_session s2)"
  have la: "level (sd_session s2) ?a" by (rule only_attrs_level [OF w2 probe_attrs_only])
  let ?p = "push_probe f ref (s\<lparr>sd_session := ?a\<rparr>)"
  have s2: "s2\<lparr>sd_session := ?a\<rparr> = s\<lparr>sd_session := ?a\<rparr>" using conjunct2 [OF c1] conjunct2 [OF c2] by (metis sdt.surjective sdt.update_convs(1))
  have fin: "(if f = F_query then in_session (link_query_with_txn b ref) else ret ()) ?p = (Ret (), t)"
    using tl by (simp only: on_session_def and_then_modify s2)
  have ps: "sd_session ?p = ?a" by (simp add: push_probe_def)
  have "level ?a (sd_session t) \<and> t = ?p\<lparr>sd_session := sd_session t\<rparr>"
  proof (cases "f = F_query")
    case True
    from fin True have "in_session (link_query_with_txn b ref) ?p = (Ret (), t)" by simp
    note c3 = in_session_Ret [OF this, unfolded ps]
    have "ss_txn ?a = ss_txn ?w" using rest_same(1) [of ?a ?w] la r2 by (simp add: level_def)
    with assms(4) have "genuine (ss_txn ?a)" by simp
    from link_level [OF level_wf [OF la] this genuine_opened [OF o2'] conjunct1 [OF c3]] conjunct2 [OF c3]
    show ?thesis by (rule conjI)
  next
    case False
    then have "t = ?p" using fin by (simp add: ret_def)
    then show ?thesis using level_refl [OF level_wf [OF la]] ps by simp
  qed
  then have lt: "level (sd_session s2) (sd_session t)" and t: "t = ?p\<lparr>sd_session := sd_session t\<rparr>" using level_trans [OF la] by auto
  show thesis
  proof (rule that [of ref])
    show "opened (ss_prod ?w) (ss_prod (sd_session t)) ref (f = F_sort)" using opened_stands [OF o2'] lt by (simp add: level_def)
    show "rest (sd_session t) = rest ?w" using lt r2 by (simp add: level_def)
    show "t = push_probe f ref (s\<lparr>sd_session := sd_session t\<rparr>)" using t unfolding push_session .
  qed
qed

lemma take_pushed:
  assumes "numbering_ok num" and "sd_stack s = sd_stack (push_probe f ref r)" and "sd_sorts s = sd_sorts (push_probe f ref r)"
  shows "\<exists>u. take_probe num f s = Some (ref, u) \<and> sd_session u = sd_session s \<and> sd_stack u = sd_stack r \<and>
     sd_sorts u = sd_sorts r"
  using assms numbering_named(1) [OF assms(1), of f] by (auto simp: take_probe_def push_probe_def)

section \<open>Well-nested runs\<close>

type_synonym probe_call = "backend \<times> probe_env \<times> probe \<times> sdt_arg list"

fun run_probes :: "numbering \<Rightarrow> probe_call list \<Rightarrow> unit sdt_op" where
  "run_probes num [] = ret ()"
| "run_probes num ((b, pe, p, args) # cs) = and_then (otel_sdt_hook num b pe p args) (\<lambda>_. run_probes num cs)"

text \<open>\<open>nested n m cs\<close>: at most \<open>n\<close> spans deep on the shared stack and \<open>m\<close> on that of sorts.\<close>

inductive nested :: "nat \<Rightarrow> nat \<Rightarrow> probe_call list \<Rightarrow> bool" where
  Empty: "nested n m []"
| Pair: "f \<noteq> F_sort \<Longrightarrow> nested n m cs \<Longrightarrow> nested (Suc n) m ((b, pe, START f, args) # cs @ [(b', pe', DONE f, args')])"
| Sorting: "nested n m cs \<Longrightarrow> nested n (Suc m) ((b, pe, START F_sort, args) # cs @ [(b', pe', DONE F_sort, args')])"
| Then: "nested n m cs \<Longrightarrow> nested n m ds \<Longrightarrow> nested n m (cs @ ds)"

definition may_trace :: "session \<Rightarrow> probe_call \<Rightarrow> bool" where
  "may_trace w c \<longleftrightarrow> (case c of (b, pe, p, args) \<Rightarrow> sound b w \<and> (pe_client pe \<or> bk_worker b))"

text \<open>The bridge's stacks and the session's spans as they were.\<close>

definition balanced :: "sdt \<Rightarrow> sdt \<Rightarrow> bool" where
  "balanced s t \<longleftrightarrow> sd_stack t = sd_stack s \<and> sd_sorts t = sd_sorts s \<and> level (sd_session s) (sd_session t)"

lemma balanced_trans: "balanced s t \<Longrightarrow> balanced t u \<Longrightarrow> balanced s u"
  using level_trans by (auto simp: balanced_def)

definition ready :: "sdt \<Rightarrow> bool" where
  "ready s \<longleftrightarrow> wf (ss_prod (sd_session s)) \<and> st_dispatch_depth (ss_prod (sd_session s)) = 0 \<and>
     genuine (ss_txn (sd_session s)) \<and> rc_is_set (rs_root (ss_root (sd_session s)))"

lemma ready_level:
  assumes "ready s" and "rest (sd_session t) = rest (sd_session s)" and "wf (ss_prod (sd_session t))"
    and "st_dispatch_depth (ss_prod (sd_session t)) = st_dispatch_depth (ss_prod (sd_session s))"
  shows "ready t"
  using assms rest_same [OF assms(2)] by (simp add: ready_def)

lemma run_append: "run_probes num (cs @ ds) = and_then (run_probes num cs) (\<lambda>_. run_probes num ds)"
  by (induction num cs rule: run_probes.induct) (simp_all add: and_then_ret and_then_assoc)

lemma hook_may_trace:
  assumes "may_trace w (b, pe, p, args)"
  shows "p = START f \<Longrightarrow> otel_sdt_hook num b pe p args = start_probe b f args"
    and "p = DONE f \<Longrightarrow> otel_sdt_hook num b pe p args = done_probe num b f"
  using assms by (auto simp: may_trace_def otel_sdt_hook_def sound_def)

lemma may_trace_rest: "rest t = rest s \<Longrightarrow> may_trace t c = may_trace s c"
  using sound_rest [of t s] by (simp add: may_trace_def split: prod.split)

lemma bracket_balanced:
  assumes num: "numbering_ok num" and s: "ready s" and full: "\<not> probe_stack_full f s"
    and calls: "\<forall>c\<in>set ((b, pe, START f, args) # cs @ [(b', pe', DONE f, args')]). may_trace (sd_session s) c"
    and inner: "\<And>ref u v. \<lbrakk>ready u; rest (sd_session u) = rest (sd_session s); sd_stack u = sd_stack (push_probe f ref s);
        sd_sorts u = sd_sorts (push_probe f ref s); run_probes num cs u = (Ret (), v)\<rbrakk> \<Longrightarrow> balanced u v"
    and run: "run_probes num ((b, pe, START f, args) # cs @ [(b', pe', DONE f, args')]) s = (Ret (), t)"
  shows "balanced s t"
proof -
  have m1: "may_trace (sd_session s) (b, pe, START f, args)" and m2: "may_trace (sd_session s) (b', pe', DONE f, args')"
    using calls by simp_all
  from and_then_RetD [OF run [unfolded run_probes.simps run_append and_then_ret_right]] obtain u where
    u: "start_probe b f args s = (Ret (), u)"
    and r: "and_then (run_probes num cs) (\<lambda>_. done_probe num b' f) u = (Ret (), t)"
    using hook_may_trace(1) [OF m1 refl] hook_may_trace(2) [OF m2 refl] by (auto simp: and_then_ret_right)
  from and_then_RetD [OF r] obtain v where v: "run_probes num cs u = (Ret (), v)" and d: "done_probe num b' f v = (Ret (), t)"
    by auto
  have so: "sound b (sd_session s)" "sound b' (sd_session s)" using m1 m2 by (simp_all add: may_trace_def)
  obtain ref where o: "opened (ss_prod (sd_session s)) (ss_prod (sd_session u)) ref (f = F_sort)"
    "rest (sd_session u) = rest (sd_session s)" "u = push_probe f ref (s\<lparr>sd_session := sd_session u\<rparr>)"
    by (rule start_probe_opens [OF _ so(1) _ _ full u]) (use s in \<open>simp_all add: ready_def\<close>)
  have ru: "ready u" by (rule ready_level [OF s o(2)]) (use o(1) in \<open>simp_all add: opened_def\<close>)
  have stk: "sd_stack u = sd_stack (push_probe f ref s)" "sd_sorts u = sd_sorts (push_probe f ref s)"
    by (subst o(3), simp add: push_probe_def)+
  from inner [OF ru o(2) stk v] have b: "sd_stack v = sd_stack u" "sd_sorts v = sd_sorts u" "level (sd_session u) (sd_session v)"
    by (simp_all add: balanced_def)
  from take_pushed [OF num, of v f ref s] obtain y where y: "take_probe num f v = Some (ref, y)" "sd_session y = sd_session v"
    "sd_stack y = sd_stack s" "sd_sorts y = sd_sorts s" using b stk by auto
  let ?y = "sdt_sync_probe_mask num y"
  have sy: "sd_session ?y = sd_session v" "sd_stack ?y = sd_stack s" "sd_sorts ?y = sd_sorts s"
    using y by (simp_all add: sdt_sync_probe_mask_def)
  have "in_session (end_span b' ref) ?y = (Ret (), t)" using d y(1) by (simp add: done_probe_def)
  note e = in_session_Ret [OF this, unfolded sy(1)]
  have "level (sd_session s) (sd_session t)"
    using end_span_level [OF _ o(1) b(3) o(2) _ _ conjunct1 [OF e]] s so(2) by (simp add: ready_def sound_def)
  moreover have "sd_stack t = sd_stack s" "sd_sorts t = sd_sorts s"
    using sy by (subst conjunct2 [OF e], simp)+
  ultimately show ?thesis by (simp add: balanced_def)
qed

lemma nested_balanced:
  assumes "nested n m cs" and "numbering_ok num" and "ready s" and "\<forall>c\<in>set cs. may_trace (sd_session s) c"
    and "length (sd_stack s) + n \<le> SDT_STACK_SIZE" and "length (sd_sorts s) + m \<le> SORT_STACK_SIZE"
    and "run_probes num cs s = (Ret (), t)"
  shows "balanced s t"
  using assms(1,3-)
proof (induction arbitrary: s t)
  case (Empty n m)
  then show ?case by (simp add: ret_def balanced_def ready_def level_refl)
next
  case (Pair f n m cs b pe args b' pe' args')
  show ?case
  proof (rule bracket_balanced [OF assms(2) Pair.prems(1) _ Pair.prems(2) _ Pair.prems(5)])
    show "\<not> probe_stack_full f s" using Pair.hyps(1) Pair.prems(3) by (simp add: probe_stack_full_def)
    fix ref u v
    assume u: "ready u" "rest (sd_session u) = rest (sd_session s)" "sd_stack u = sd_stack (push_probe f ref s)"
      "sd_sorts u = sd_sorts (push_probe f ref s)" "run_probes num cs u = (Ret (), v)"
    show "balanced u v"
      by (rule Pair.IH [OF u(1) _ _ _ u(5)])
         (use Pair.prems(2-4) Pair.hyps(1) u(3,4) may_trace_rest [OF u(2)] in \<open>simp_all add: push_probe_def\<close>)
  qed
next
  case (Sorting n m cs b pe args b' pe' args')
  show ?case
  proof (rule bracket_balanced [OF assms(2) Sorting.prems(1) _ Sorting.prems(2) _ Sorting.prems(5)])
    show "\<not> probe_stack_full F_sort s" using Sorting.prems(4) by (simp add: probe_stack_full_def)
    fix ref u v
    assume u: "ready u" "rest (sd_session u) = rest (sd_session s)" "sd_stack u = sd_stack (push_probe F_sort ref s)"
      "sd_sorts u = sd_sorts (push_probe F_sort ref s)" "run_probes num cs u = (Ret (), v)"
    show "balanced u v"
      by (rule Sorting.IH [OF u(1) _ _ _ u(5)])
         (use Sorting.prems(2-4) u(3,4) may_trace_rest [OF u(2)] in \<open>simp_all add: push_probe_def\<close>)
  qed
next
  case (Then n m cs ds)
  from and_then_RetD [OF Then.prems(5) [unfolded run_append]] obtain u where
    u: "run_probes num cs s = (Ret (), u)" and d: "run_probes num ds u = (Ret (), t)" by auto
  have b: "balanced s u"
    by (rule Then.IH(1) [OF Then.prems(1) _ Then.prems(3,4) u]) (use Then.prems(2) in simp)
  then have l: "sd_stack u = sd_stack s" "sd_sorts u = sd_sorts s" "rest (sd_session u) = rest (sd_session s)"
      "stands (ss_prod (sd_session s)) (ss_prod (sd_session u))" by (simp_all add: balanced_def level_def)
  have ru: "ready u" by (rule ready_level [OF Then.prems(1) l(3)]) (use l(4) in \<open>simp_all add: stands_def\<close>)
  have "balanced u t"
    by (rule Then.IH(2) [OF ru _ _ _ d]) (use Then.prems(2-4) l(1,2) may_trace_rest [OF l(3)] in simp_all)
  with b show ?case by (rule balanced_trans)
qed

end
