(* ===== verification/Sdt_Abort.thy ===== *)
theory Sdt_Abort
  imports Sdt_Balance
begin

text \<open>
  The ends of a transaction at the SDT bridge: the transaction's span is ended, at abort as an
  error; at abort the open probe spans are discarded, at commit merely forgotten.
\<close>

section \<open>Discarding\<close>

text \<open>Spans may have been closed, none exported.\<close>

definition only_closes :: "producer \<Rightarrow> producer \<Rightarrow> bool" where
  "only_closes st u \<longleftrightarrow> wf u \<and> st_exported u = st_exported st \<and> st_dispatch_depth u = st_dispatch_depth st \<and>
     (\<forall>j. open_slot u j \<longrightarrow> open_slot st j \<and> slot_handle u j = slot_handle st j)"

definition dead :: "i64 \<Rightarrow> producer \<Rightarrow> bool" where
  "dead ref st \<longleftrightarrow> (\<forall>j. open_slot st j \<longrightarrow> slot_handle st j \<noteq> ref)"

lemma only_closes_refl: "wf st \<Longrightarrow> only_closes st st"
  by (simp add: only_closes_def)

lemma only_closes_trans: "only_closes st u \<Longrightarrow> only_closes u v \<Longrightarrow> only_closes st v"
  by (simp add: only_closes_def)

lemma dead_closes: "dead ref st \<Longrightarrow> only_closes st u \<Longrightarrow> dead ref u"
  by (simp add: dead_def only_closes_def)

lemma release_closes:
  assumes "calm env" and "wf st" and "open_slot st i" and "off_stack (stack_entry_for_slot i) st"
  shows "\<exists>u. release_slot env i False st = (Ret (), u) \<and> only_closes st u \<and> \<not> open_slot u i"
proof -
  obtain x u where u: "release_slot env i False st = (x, u)" by (metis surj_pair)
  have w: "wf u" using release_wf [OF assms(2-4), of env False] u by simp
  have "\<exists>L. x = Ret () \<and> u = reset_slot i (s_owner_released_gen (st_slots st ! i)) (st\<lparr>st_ledger := L\<rparr>)"
  proof (cases "s_owner (st_slots st ! i)")
    case None
    then show ?thesis using u by (intro exI [of _ "st_ledger st"]) (simp add: release_unowned)
  next
    case (Some ow)
    then show ?thesis using u assms(1)
      by (auto simp: release_slot_def Let_def owner_forget_def calm_def and_then_def modify_def)
  qed
  then obtain L where x: "x = Ret ()" and r: "u = reset_slot i (s_owner_released_gen (st_slots st ! i)) (st\<lparr>st_ledger := L\<rparr>)" by blast
  have o: "open_slot (st\<lparr>st_ledger := L\<rparr>) i" using assms(3) by (simp add: open_slot_def)
  have closed: "\<not> open_slot u i" unfolding r reset_slot_open [OF o] by simp
  have "open_slot st j \<and> slot_handle u j = slot_handle st j" if j: "open_slot u j" for j
  proof -
    have ne: "j \<noteq> i" using j closed by blast
    then have n: "st_slots u ! j = st_slots st ! j" by (simp add: r reset_slot_nth(1))
    have "length (st_slots u) = length (st_slots st)" by (simp add: r reset_slot_def Let_def upd_slot_def)
    with n j show ?thesis by (simp add: open_slot_def slot_handle_def)
  qed
  moreover have "st_exported u = st_exported st" "st_dispatch_depth u = st_dispatch_depth st"
    by (simp_all add: r reset_slot_def Let_def upd_slot_def)
  ultimately show ?thesis using u x w closed by (simp add: only_closes_def)
qed

lemma discard_outcome:
  assumes "wf st" and "genuine ref" and "calm env"
  shows "\<exists>u. otel_span_discard env ref st = (Ret (), u) \<and> only_closes st u \<and>
     (\<not> e_crit env \<and> st_dispatch_depth st = 0 \<and> 0 <s ref \<longrightarrow> dead ref u)"
proof (cases "ref = 0")
  case True
  then show ?thesis using assms(1) by (simp add: otel_span_discard_def only_closes_refl)
next
  case nz: False
  then have d: "otel_span_discard env ref st = api_span_discard env ref st" by (simp add: otel_span_discard_def)
  have idle: "only_closes st (bump c st)" for c
    using assms(1) by (simp add: only_closes_def open_slot_def slot_handle_def)
  show ?thesis
  proof (cases rule: call_refused_cases [of env False st])
    case (refused c)
    then show ?thesis using idle by (auto simp: d api_span_discard_def)
  next
    case allowed
    show ?thesis
    proof (cases "ref <s 0")
      case True
      then have "\<not> 0 <s ref" by (simp add: word_sless_alt)
      moreover have w: "wf (snd (api_span_discard env ref st))" by (rule api_span_discard_wf [OF assms(1,2)])
      ultimately show ?thesis
        by (cases rule: nrec_for_ref_cases [of ref st])
           (use assms(1) True allowed nz idle only_closes_refl [OF assms(1)] in
             \<open>auto simp: d api_span_discard_def only_closes_def open_slot_def slot_handle_def free_nrec_def upd_nrec_def drop_entry_def
                stack_remove_at_def split: option.splits\<close>)
    next
      case False
      show ?thesis
      proof (cases rule: slot_for_ref_cases [of ref st])
        case (found i)
        let ?d = "drop_entry (stack_entry_for_slot i) st"
        have o: "open_slot st i" by (rule found_open(1) [OF assms(2) nz found(2,3)])
        obtain u where u: "release_slot env i False ?d = (Ret (), u)" "only_closes ?d u" "\<not> open_slot u i"
          using release_closes [OF assms(3), of ?d i] assms(1) o by (auto simp: drop_entry_wf drop_entry_off)
        have same: "only_closes st ?d"
          using assms(1) by (simp add: only_closes_def drop_entry_wf slot_handle_def)
        let ?u = "bump C_spans_discarded u"
        have c: "only_closes st ?u"
          using only_closes_trans [OF same u(2)] by (simp add: only_closes_def open_slot_def slot_handle_def)
        have "dead ref ?u"
          unfolding dead_def
        proof (intro allI impI notI)
          fix j assume j: "open_slot ?u j" "slot_handle ?u j = ref"
          have "wf ?u" using c by (simp add: only_closes_def)
          then have "ref_idx ref = int j" using slot_handle_fields(2) j by metis
          then have "j = i" using found(4) by simp
          then show False using j(1) u(3) by (simp add: open_slot_def)
        qed
        then show ?thesis using c u(1) found(1) False nz allowed by (simp add: d api_span_discard_def and_then_def modify_def)
      next
        case quiet
        have "dead ref st" unfolding dead_def using quiet(2) handle_slot_of_open [OF assms(1)] by force
        then show ?thesis using quiet(1) False nz allowed only_closes_refl [OF assms(1)] by (simp add: d api_span_discard_def)
      next
        case stale
        have "dead ref st" unfolding dead_def using stale(2) handle_slot_of_open [OF assms(1)] by force
        from dead_closes [OF this idle] show ?thesis using stale(1) False nz allowed idle by (simp add: d api_span_discard_def)
      qed
    qed
  qed
qed

lemma discard_span_outcome:
  assumes "wf (ss_prod s)" and "genuine ref" and "calm (bk_env b)"
  shows "\<exists>t. discard_span b ref s = (Ret (), t) \<and> rest t = rest s \<and> only_closes (ss_prod s) (ss_prod t) \<and>
     (\<not> e_crit (bk_env b) \<and> st_dispatch_depth (ss_prod s) = 0 \<and> 0 <s ref \<longrightarrow> dead ref (ss_prod t))"
proof -
  have "calm (env_of b s)" using assms(3) by (simp add: env_of_def calm_def)
  from discard_outcome [OF assms(1,2) this] obtain u where u: "otel_span_discard (env_of b s) ref (ss_prod s) = (Ret (), u)"
    "only_closes (ss_prod s) u"
    "\<not> e_crit (env_of b s) \<and> st_dispatch_depth (ss_prod s) = 0 \<and> 0 <s ref \<longrightarrow> dead ref u" by blast
  then show ?thesis
    by (intro exI [of _ "s\<lparr>ss_prod := u\<rparr>"]) (simp add: discard_span_def call_prod_def lift_op_def env_of_def)
qed

text \<open>Emptying the two stacks.\<close>

definition discards :: "backend \<Rightarrow> i64 set \<Rightarrow> sdt \<Rightarrow> sdt \<Rightarrow> bool" where
  "discards b refs s t \<longleftrightarrow>
     rest (sd_session t) = rest (sd_session s) \<and> sd_wanted t = sd_wanted s \<and>
     only_closes (ss_prod (sd_session s)) (ss_prod (sd_session t)) \<and>
     (\<not> e_crit (bk_env b) \<and> st_dispatch_depth (ss_prod (sd_session s)) = 0 \<longrightarrow>
        (\<forall>ref\<in>refs. 0 <s ref \<longrightarrow> dead ref (ss_prod (sd_session t))))"

lemma discards_trans: "discards b A s t \<Longrightarrow> discards b B t u \<Longrightarrow> discards b (A \<union> B) s u"
  unfolding discards_def using only_closes_trans dead_closes by (auto simp: only_closes_def)

lemma discard_one:
  assumes "wf (ss_prod (sd_session s))" and "genuine ref" and "calm (bk_env b)"
  shows "\<exists>t. in_session (discard_span b ref) s = (Ret (), t) \<and> discards b {ref} s t \<and>
     sd_stack t = sd_stack s \<and> sd_sorts t = sd_sorts s"
proof -
  from discard_span_outcome [OF assms] obtain w where "discard_span b ref (sd_session s) = (Ret (), w)"
    "rest w = rest (sd_session s)" "only_closes (ss_prod (sd_session s)) (ss_prod w)"
    "\<not> e_crit (bk_env b) \<and> st_dispatch_depth (ss_prod (sd_session s)) = 0 \<and> 0 <s ref \<longrightarrow> dead ref (ss_prod w)" by blast
  then show ?thesis
    by (intro exI [of _ "s\<lparr>sd_session := w\<rparr>"]) (simp add: in_session_def lift_op_def discards_def)
qed

lemma discards_wf: "discards b A s t \<Longrightarrow> wf (ss_prod (sd_session t))"
  by (simp add: discards_def only_closes_def)

lemma discard_stack_outcome:
  assumes "calm (bk_env b)"
  shows "\<lbrakk>length (sd_stack s) = n; wf (ss_prod (sd_session s)); \<forall>e\<in>set (sd_stack s). genuine (snd e)\<rbrakk> \<Longrightarrow>
    \<exists>t. discard_stack b n s = (Ret (), t) \<and> discards b (snd ` set (sd_stack s)) s t \<and> sd_stack t = [] \<and> sd_sorts t = sd_sorts s"
proof (induction n arbitrary: s)
  case 0
  then show ?case by (simp add: ret_def discards_def only_closes_refl)
next
  case (Suc n)
  from Suc.prems(1) obtain es e where es: "sd_stack s = es @ [e]" by (metis Zero_not_Suc append_butlast_last_id list.size(3))
  let ?s = "s\<lparr>sd_stack := es\<rparr>"
  from discard_one [of ?s "snd e" b] Suc.prems(2,3) assms obtain u where u: "in_session (discard_span b (snd e)) ?s = (Ret (), u)"
    "discards b {snd e} ?s u" "sd_stack u = es" "sd_sorts u = sd_sorts s" by (auto simp: es)
  from Suc.IH [OF _ discards_wf [OF u(2)]] Suc.prems(1,3) u(3) obtain t where
    t: "discard_stack b n u = (Ret (), t)" "discards b (snd ` set es) u t" "sd_stack t = []" "sd_sorts t = sd_sorts u"
    by (auto simp: es)
  have "discards b (snd ` set (sd_stack s)) ?s t" using discards_trans [OF u(2) t(2)] by (simp add: es)
  then have "discards b (snd ` set (sd_stack s)) s t" by (simp add: discards_def)
  then show ?case using u(1,4) t by (simp add: es and_then_def)
qed

lemma discard_sorts_outcome:
  assumes "calm (bk_env b)"
  shows "\<lbrakk>length (sd_sorts s) = n; wf (ss_prod (sd_session s)); \<forall>ref\<in>set (sd_sorts s). genuine ref\<rbrakk> \<Longrightarrow>
    \<exists>t. discard_sorts b n s = (Ret (), t) \<and> discards b (set (sd_sorts s)) s t \<and> sd_sorts t = [] \<and> sd_stack t = sd_stack s"
proof (induction n arbitrary: s)
  case 0
  then show ?case by (simp add: ret_def discards_def only_closes_refl)
next
  case (Suc n)
  from Suc.prems(1) obtain es e where es: "sd_sorts s = es @ [e]" by (metis Zero_not_Suc append_butlast_last_id list.size(3))
  let ?s = "s\<lparr>sd_sorts := es\<rparr>"
  from discard_one [of ?s e b] Suc.prems(2,3) assms obtain u where u: "in_session (discard_span b e) ?s = (Ret (), u)"
    "discards b {e} ?s u" "sd_sorts u = es" "sd_stack u = sd_stack s" by (auto simp: es)
  from Suc.IH [OF _ discards_wf [OF u(2)]] Suc.prems(1,3) u(3) obtain t where
    t: "discard_sorts b n u = (Ret (), t)" "discards b (set es) u t" "sd_sorts t = []" "sd_stack t = sd_stack u"
    by (auto simp: es)
  have "discards b (set (sd_sorts s)) ?s t" using discards_trans [OF u(2) t(2)] by (simp add: es)
  then have "discards b (set (sd_sorts s)) s t" by (simp add: discards_def)
  then show ?case using u(1,4) t by (simp add: es and_then_def)
qed

lemma discard_open_outcome:
  assumes "calm (bk_env b)" and "wf (ss_prod (sd_session s))" and "\<forall>e\<in>set (sd_stack s). genuine (snd e)"
    and "\<forall>ref\<in>set (sd_sorts s). genuine ref"
  shows "\<exists>t. sdt_discard_open_spans num b s = (Ret (), t) \<and> discards b (snd ` set (sd_stack s) \<union> set (sd_sorts s)) s t \<and>
     sd_stack t = [] \<and> sd_sorts t = [] \<and> (ss_txn (sd_session s) = 0 \<longrightarrow> sd_mask t = sd_wanted s)"
proof -
  from discard_stack_outcome [OF assms(1) refl assms(2,3)] obtain u where u: "discard_stack b (length (sd_stack s)) s = (Ret (), u)"
    "discards b (snd ` set (sd_stack s)) s u" "sd_stack u = []" "sd_sorts u = sd_sorts s" by blast
  from discard_sorts_outcome [OF assms(1) refl discards_wf [OF u(2)]] assms(4) u(4) obtain v where
    v: "discard_sorts b (length (sd_sorts s)) u = (Ret (), v)" "discards b (set (sd_sorts s)) u v" "sd_sorts v = []" "sd_stack v = []"
    using u(3) by auto
  note d = discards_trans [OF u(2) v(2)]
  let ?t = "sdt_sync_probe_mask num v"
  have "discards b (snd ` set (sd_stack s) \<union> set (sd_sorts s)) s ?t" using d by (simp add: discards_def sdt_sync_probe_mask_def)
  moreover have "sd_mask ?t = sd_wanted s" if "ss_txn (sd_session s) = 0"
  proof -
    have "ss_txn (sd_session v) = 0" using d that rest_same(1) [of "sd_session v" "sd_session s"] by (simp add: discards_def)
    then show ?thesis using d v(3,4) by (simp add: sdt_sync_probe_mask_def discards_def)
  qed
  ultimately show ?thesis
    using u(1) v by (intro exI [of _ ?t]) (simp add: sdt_discard_open_spans_def and_then_def modify_def sdt_sync_probe_mask_def)
qed

section \<open>The transaction's span\<close>

lemma strdup_span: "slot_strdup env x m v slot = (c, clip, t) \<Longrightarrow> s_span t = s_span slot"
  by (auto simp: slot_strdup_def slot_alloc_def Let_def split: if_splits)

lemma slot_attr_status: "slot_attr env key slot = (r, cs, t) \<Longrightarrow> sp_status (s_span t) = sp_status (s_span slot)"
proof (cases "find_attr key (sp_attrs (s_span slot))")
  case None
  assume run: "slot_attr env key slot = (r, cs, t)"
  obtain grown cap s1 where g: "slot_grow env S_attrs (s_attrs_cap slot) (Suc (length (sp_attrs (s_span slot)))) sizeof_OtelAttribute slot = (grown, cap, s1)"
    by (metis prod_cases3)
  obtain c clip s3 where d: "slot_strdup env S_attr_key None key (s1\<lparr>s_attrs_cap := cap\<rparr>) = (c, clip, s3)" by (metis prod_cases3)
  show ?thesis
    using run grow_span [OF g] strdup_span [OF d] None
    by (cases grown; cases c) (auto simp: slot_attr_def Let_def g d upd_span_def drop_attr_def)
qed (simp add: slot_attr_def)

lemma set_value_status: "sp_status (s_span (snd (snd (set_value_internal env key v slot)))) = sp_status (s_span slot)"
proof -
  obtain r cs t where t: "slot_attr env key slot = (r, cs, t)" by (metis prod_cases3)
  show ?thesis using slot_attr_status [OF t] by (cases r) (simp_all add: set_value_internal_def t put_attr_def upd_span_def)
qed

lemma setter_status:
  assumes "\<And>slot. sp_status (s_span (snd (snd (f slot)))) = sp_status (s_span slot)"
  shows "sp_status (s_span (st_slots (apply_setter env ref f st) ! i)) = sp_status (s_span (st_slots st ! i))"
proof -
  have "sp_status (s_span (st_slots (case f (st_slots st ! j) of (_, cs, slot) \<Rightarrow> fold bump cs (upd_slot j (\<lambda>_. slot) st)) ! i)) =
      sp_status (s_span (st_slots st ! i))" for j
    using assms [of "st_slots st ! j"]
    by (cases "i = j"; cases "j < length (st_slots st)") (auto simp: upd_slot_def list_update_beyond split: prod.split)
  then show ?thesis
    by (cases rule: call_refused_cases [of env False st]; cases rule: slot_for_ref_cases [of ref st])
       (simp_all add: apply_setter_def setter_slot_def)
qed

lemma finish_txn_outcome:
  assumes "wf (ss_prod w)" and "open_slot (ss_prod w) i" and "ss_txn w = slot_handle (ss_prod w) i"
    and "off_stack (stack_entry_for_slot i) (ss_prod w)" and "calm (bk_env b)" and "\<not> e_crit (bk_env b)"
    and "st_dispatch_depth (ss_prod w) = 0" and "has_consumer (bk_env b)"
  shows "\<exists>v sp. finish_txn b pe w = (Ret (), v) \<and> ss_txn v = 0 \<and> wf (ss_prod v) \<and> st_dispatch_depth (ss_prod v) = 0 \<and>
     st_stack (ss_prod v) = st_stack (ss_prod w) \<and> st_exported (ss_prod v) = st_exported (ss_prod w) @ [sp] \<and>
     sp_status sp = sp_status (s_span (st_slots (ss_prod w) ! i)) \<and>
     sp_span_id sp = sp_span_id (s_span (st_slots (ss_prod w) ! i)) \<and> \<not> open_slot (ss_prod v) i"
proof -
  let ?w1 = "sdt_set_txn_xid b pe (ss_txn w) w"
  have only: "only_attrs w ?w1" by (simp add: sdt_set_txn_xid_def only_attrs_refl only_attrs_set)
  then have same: "same_spans (ss_prod w) (ss_prod ?w1)" and w1: "?w1 = w\<lparr>ss_prod := ss_prod ?w1\<rparr>"
    by (simp_all add: only_attrs_def)
  note sl = same_spans_slot [OF same assms(2)]
  have id: "sp_span_id (s_span (st_slots (ss_prod ?w1) ! i)) = sp_span_id (s_span (st_slots (ss_prod w) ! i))"
    using arg_cong [OF sl(3), of span_id] by (simp add: slot_context_def Let_def)
  have status: "sp_status (s_span (st_slots (ss_prod ?w1) ! i)) = sp_status (s_span (st_slots (ss_prod w) ! i))"
    by (simp add: sdt_set_txn_xid_def set_int_def set_prod_def otel_span_set_int_def api_span_set_int_def setter_status set_value_status)
  have w: "wf (ss_prod ?w1)" and st: "st_stack (ss_prod ?w1) = st_stack (ss_prod w)" and dep: "st_dispatch_depth (ss_prod ?w1) = 0"
    and ex: "st_exported (ss_prod ?w1) = st_exported (ss_prod w)"
    using same assms(1,7) by (simp_all add: same_spans_def)
  have off: "off_stack (stack_entry_for_slot i) (ss_prod ?w1)" using assms(4) st by (simp add: off_stack_def)
  let ?env = "env_of b ?w1"
  have env: "calm ?env" "\<not> e_crit ?env" "has_consumer ?env"
    using assms(5,6,8) by (simp_all add: env_of_def calm_def has_consumer_def)
  obtain p where p: "api_span_end ?env (slot_handle (ss_prod ?w1) i) 0 (ss_prod ?w1) = (Ret (), p)"
    using span_end_returns [OF env(1) w sl(1) env(2) dep] by blast
  note o = span_end_outcome [OF w sl(1) env(2) dep p]
  have none: "stack_find (stack_entry_for_slot i) (ss_prod ?w1) = None" using off by (simp add: stack_find_None)
  have txn: "ss_txn ?w1 = ss_txn w" by (subst w1) simp
  have nz: "ss_txn w \<noteq> 0" using slot_handle_fields(4) [OF assms(1,2)] assms(3) by simp
  let ?sp = "finished_span ?env i 0 None (ss_prod ?w1)" and ?v = "?w1\<lparr>ss_prod := p, ss_txn := 0\<rparr>"
  have "end_span b (ss_txn w) ?w1 = (Ret (), ?w1\<lparr>ss_prod := p\<rparr>)"
    using p nz sl(2) assms(3) by (simp add: end_span_def call_prod_def lift_op_def otel_span_end_def)
  then have "finish_txn b pe w = (Ret (), ?v)" by (simp add: finish_txn_def and_then_def modify_def)
  moreover have "st_exported p = st_exported (ss_prod w) @ [?sp]"
    using o(5) env(3) ex by (simp add: unwound_exports_def above_def none unwound_slots_def)
  moreover have "st_stack p = st_stack (ss_prod w)" using o(4) st by (simp add: below_def none)
  ultimately show ?thesis
    using o(1-3) status id by (intro exI [of _ ?v] exI [of _ ?sp]) (simp add: finished_span_fields)
qed

end
