(* ===== verification/Sdt_Props.thy ===== *)
theory Sdt_Props
  imports Sdt_Abort
begin

text \<open>
  What the SDT bridge guarantees: probes of open spans stay enabled, well-nested probes leave
  everything as it was, and what the two ends of a transaction do to the spans still open.
\<close>

section \<open>The mask\<close>

text \<open>C16: However the probes fire, the setting changes and transactions end: every entry of the
  bridge's stack is a START probe whose DONE probe is enabled, an open sort and an open
  transaction span keep their closing probes enabled, no START probe is enabled that the
  setting does not name, and the stacks fit their arrays.\<close>

theorem open_spans_stay_enabled:
  assumes "numbering_ok num" and "sdt_run num s"
  shows "(\<forall>e\<in>set (sd_stack s). \<exists>f. fst e = START f \<and> bit (sd_mask s) (num (DONE f))) \<and>
    (sd_sorts s \<noteq> [] \<longrightarrow> bit (sd_mask s) (num (DONE F_sort))) \<and>
    (ss_txn (sd_session s) \<noteq> 0 \<longrightarrow> bit (sd_mask s) (num TRANSACTION_COMMIT) \<and> bit (sd_mask s) (num TRANSACTION_ABORT)) \<and>
    (\<forall>f. bit (sd_mask s) (num (START f)) \<longrightarrow> bit (sd_wanted s) (num (START f))) \<and>
    length (sd_stack s) \<le> SDT_STACK_SIZE \<and> length (sd_sorts s) \<le> SORT_STACK_SIZE"
proof -
  have m: "stacks_ok s" "covers num s" "starts_wanted num s" using run_mask_ok [OF assms] by (simp_all add: mask_ok_def)
  have "\<exists>f. fst e = START f \<and> bit (sd_mask s) (num (DONE f))" if e: "e \<in> set (sd_stack s)" for e
  proof -
    obtain f where f: "fst e = START f" using m(1) e unfolding stacks_ok_def by blast
    then have "START f \<in> fst ` set (sd_stack s)" using e by (metis image_eqI)
    then show ?thesis using f m(2) by (auto simp: covers_def)
  qed
  then show ?thesis using m by (simp add: stacks_ok_def covers_def starts_wanted_def)
qed

primrec family_number :: "family \<Rightarrow> nat" where
  "family_number F_query = 0" | "family_number F_parse = 1" | "family_number F_rewrite = 2" | "family_number F_plan = 3"
| "family_number F_execute = 4" | "family_number F_sort = 5" | "family_number F_smgr_read = 6" | "family_number F_smgr_write = 7"
| "family_number F_syncrep = 8" | "family_number F_lock_wait = 9"

primrec some_numbers :: numbering where
  "some_numbers TRANSACTION_START = 0" | "some_numbers TRANSACTION_COMMIT = 1" | "some_numbers TRANSACTION_ABORT = 2"
| "some_numbers (START f) = 3 + 2 * family_number f" | "some_numbers (DONE f) = 4 + 2 * family_number f"
| "some_numbers RECOVERY_XACT_COMMIT = 30" | "some_numbers (UNKNOWN_PROBE n) = 31 + n"

lemma family_number: "2 * family_number f < 20" "family_number f = family_number g \<longleftrightarrow> f = g"
    "2 * family_number f \<noteq> 27" "family_number f \<noteq> 13"
proof -
  show "family_number f = family_number g \<longleftrightarrow> f = g" by (cases f; cases g) simp_all
qed (cases f; simp)+

lemma even_odd: "3 + 2 * a \<noteq> 4 + 2 * (b :: nat)" "4 + 2 * b \<noteq> 3 + 2 * (a :: nat)"
  by presburger+

lemma some_numbers_ok: "numbering_ok some_numbers"
proof -
  have "some_numbers p < 31" if "named p" for p 
  proof (cases p)
    case (START f)
    then show ?thesis using family_number(1) [of f] by simp
  next
    case (DONE f)
    then show ?thesis using family_number(1) [of f] by simp
  qed (use that in simp_all)
  moreover have "p = q" if "named p" "named q" "some_numbers p = some_numbers q" for p q
    using that even_odd family_number by (cases p; cases q) auto
  ultimately show ?thesis by (fastforce simp: numbering_ok_def inj_on_def)
qed

definition some_probe_env :: probe_env where
  "some_probe_env = \<lparr>pe_client = True, pe_top_owner = Some 1, pe_top_xid = 7, pe_now = 1000\<rparr>"

definition txn_run_args :: start_args where
  "txn_run_args = txn_args walk_backend some_probe_env"

definition txn_open :: producer where
  "txn_open = snd (api_span_start run_env (Some txn_run_args) initial_producer)"

lemma txn_open_start: "api_span_start run_env (Some txn_run_args) initial_producer = (Ret (make_ref 6 0 True), txn_open)"
proof -
  have "fst (api_span_start run_env (Some txn_run_args) initial_producer) = Ret (make_ref 6 0 True)"
    by (simp add: txn_run_args_def txn_args_def some_probe_env_def literal_args_def otel_pg_tracer_def walk_backend_def
        otel_tracer_register_def start_run_defs)
  then show ?thesis by (simp add: txn_open_def prod_eq_iff)
qed

lemma fresh_env: "env_of walk_backend fresh_session = run_env"
  using env_fresh [where p = initial_producer and es = "[]"] by (simp add: fresh_session_def)

lemma txn_start_runs:
  "\<exists>v. txn_start_probe walk_backend some_probe_env fresh_session = (Ret (), v) \<and> ss_txn v = make_ref 6 0 True"
proof -
  have "start_span walk_backend txn_run_args fresh_session = (Ret (make_ref 6 0 True), fresh_session\<lparr>ss_prod := txn_open\<rparr>)"
    using txn_open_start fresh_env
    by (simp add: start_span_def call_prod_def lift_op_def otel_span_start_def otel_recording_possible_def walk_backend_def
        fresh_session_def txn_run_args_def txn_args_def literal_args_def)
  moreover have "ss_txn fresh_session = 0" by (simp add: fresh_session_def)
  ultimately show ?thesis by (simp add: txn_start_probe_def txn_run_args_def and_then_def modify_def Let_def)
qed

definition loaded_bridge :: sdt where
  "loaded_bridge = \<lparr>sd_session = fresh_session, sd_stack = [], sd_sorts = [], sd_wanted = 0, sd_mask = 0\<rparr>"

theorem open_spans_stay_enabled_witness:
  "\<exists>s. sdt_run some_numbers s \<and> ss_txn (sd_session s) \<noteq> 0 \<and> sd_wanted s = 0 \<and> bit (sd_mask s) (some_numbers TRANSACTION_COMMIT)"
proof -
  let ?split = "\<lambda>v. Some [v]"
  have load: "sdt_run some_numbers loaded_bridge"
    unfolding loaded_bridge_def by (rule Loaded) (simp add: fresh_session_def)
  have on: "sdt_probes_check_hook some_numbers ?split True (Some ''txn'') = Inr (txn_bits some_numbers)"
    by (simp add: sdt_probes_check_hook_def sdt_probes_parse_def sdt_family_map_def pg_strcaseeq_def)
  have off: "sdt_probes_check_hook some_numbers ?split True (Some ''none'') = Inr 0"
    by (simp add: sdt_probes_check_hook_def sdt_probes_parse_def sdt_family_map_def pg_strcaseeq_def pg_tolower_def)
  let ?s = "sdt_probes_assign_hook some_numbers (Some (txn_bits some_numbers)) loaded_bridge"
  have s: "sdt_run some_numbers ?s" by (rule Setting [OF load on])
  have bit: "bit (sd_mask ?s) (some_numbers TRANSACTION_START)" and ws: "sd_session ?s = fresh_session"
    by (simp_all add: sdt_probes_assign_hook_def sdt_sync_probe_mask_def loaded_bridge_def txn_bits_def bit_simps)
  obtain v where v: "txn_start_probe walk_backend some_probe_env fresh_session = (Ret (), v)" "ss_txn v = make_ref 6 0 True"
    using txn_start_runs by blast
  let ?t = "?s\<lparr>sd_session := v\<rparr>"
  have "otel_sdt_hook some_numbers walk_backend some_probe_env TRANSACTION_START [] ?s = (Ret (), ?t)"
    using v(1) ws by (simp add: otel_sdt_hook_def some_probe_env_def in_session_def lift_op_def)
  then have t: "sdt_run some_numbers ?t" by (rule Probe [OF s bit])
  let ?u = "sdt_probes_assign_hook some_numbers (Some 0) ?t"
  have u: "sdt_run some_numbers ?u" by (rule Setting [OF t off])
  have txn: "ss_txn (sd_session ?u) \<noteq> 0" "sd_wanted ?u = 0"
    using v(2) make_ref_nonzero [of 6 0 True] by (simp_all add: sdt_probes_assign_hook_def sdt_sync_probe_mask_def)
  with open_spans_stay_enabled [OF some_numbers_ok u] u show ?thesis by blast
qed

section \<open>Well-nested probes\<close>

text \<open>C17: A well-nested sequence of START and DONE probes, no deeper than the room on the stacks,
  run where spans can be started under a root context, leaves the bridge's two stacks and the
  producer's active stack as they were, and every span open before still open under its handle.\<close>

theorem nested_probes_balanced:
  assumes "nested n m cs" and "numbering_ok num" and "ready s" and "\<forall>c\<in>set cs. may_trace (sd_session s) c"
    and "length (sd_stack s) + n \<le> SDT_STACK_SIZE" and "length (sd_sorts s) + m \<le> SORT_STACK_SIZE"
    and "run_probes num cs s = (Ret (), t)"
  shows "sd_stack t = sd_stack s \<and> sd_sorts t = sd_sorts s \<and>
    st_stack (ss_prod (sd_session t)) = st_stack (ss_prod (sd_session s)) \<and>
    (\<forall>i. open_slot (ss_prod (sd_session s)) i \<longrightarrow> open_slot (ss_prod (sd_session t)) i \<and>
       slot_handle (ss_prod (sd_session t)) i = slot_handle (ss_prod (sd_session s)) i)"
  using nested_balanced [OF assms] by (simp add: balanced_def level_def stands_def)

text \<open>A query's span in a session with a trace context from the client.\<close>

definition query_run_args :: start_args where
  "query_run_args = (literal_args (otel_pg_tracer walk_backend) ''pg.query'')\<lparr>sa_kind := KIND_INTERNAL, sa_detached := False\<rparr>"

definition query_open :: producer where
  "query_open = snd (api_span_start comment_env (Some query_run_args) initial_producer)"

lemma query_open_start: "api_span_start comment_env (Some query_run_args) initial_producer = (Ret (make_ref 6 0 True), query_open)"
proof -
  have "fst (api_span_start comment_env (Some query_run_args) initial_producer) = Ret (make_ref 6 0 True)"
    by (simp add: query_run_args_def comment_env_def comment_session_def fresh_session_def comment_ctx_def
        api_get_root_context_def literal_args_def otel_pg_tracer_def walk_backend_def otel_tracer_register_def
        otel_span_context_is_valid_def trace_id_valid_iff span_id_valid_iff otel_span_context_sampled_def
        OTEL_TRACE_FLAG_SAMPLED_def OTEL_TRACE_FLAG_RANDOM_def start_run_defs)
  then show ?thesis by (simp add: query_open_def prod_eq_iff)
qed

lemma query_open_facts: "wf query_open" "genuine (make_ref 6 0 True)"
proof -
  have "args_ok query_run_args" using literal_args_ok by (simp add: query_run_args_def args_ok_def)
  from start_ref(1,3) [OF wf_initial comment_env_ok this query_open_start]
  show "wf query_open" "genuine (make_ref 6 0 True)" using make_ref_nonzero [of 6 0 True] by simp_all
qed

lemma comment_context: "context_of walk_backend 0 comment_session = (Ret (Some comment_ctx), comment_session)"
proof -
  have p: "ss_prod comment_session = initial_producer" "comment_session\<lparr>ss_prod := initial_producer\<rparr> = comment_session"
    by (simp_all add: comment_session_def fresh_session_def)
  have "rc_is_set (rs_root (e_root comment_env))" "e_root comment_env = ss_root comment_session" "\<not> e_crit comment_env" "e_leader_ctx comment_env = None"
    by (simp_all add: comment_env_def comment_session_def run_env_def sample_env_def)
  moreover have "rc_ctx (api_get_root_context (ss_root comment_session)) = comment_ctx"
    by (simp add: comment_session_def api_get_root_context_def comment_ctx_def fresh_root_def)
  ultimately have "otel_span_context_of comment_env True 0 initial_producer = (Ret (Some comment_ctx), initial_producer)"
    by (simp add: otel_span_context_of_def api_span_context_of_def call_refused_def otel_span_context_of_internal_def
        resolve_active_parent_def initial_producer_def)
  then show ?thesis by (simp add: context_of_def call_prod_def lift_op_def comment_env_of p)
qed

definition commented_bridge :: sdt where
  "commented_bridge = \<lparr>sd_session = comment_session, sd_stack = [], sd_sorts = [], sd_wanted = 0, sd_mask = 0\<rparr>"

lemma query_start_runs:
  "\<exists>v. start_probe walk_backend F_query [] commented_bridge =
      (Ret (), commented_bridge\<lparr>sd_session := v, sd_stack := [(START F_query, make_ref 6 0 True)]\<rparr>) \<and> wf (ss_prod v)"
proof -
  let ?w = "comment_session\<lparr>ss_prod := query_open\<rparr>"
  have "start_span walk_backend query_run_args comment_session = (Ret (make_ref 6 0 True), ?w)"
    using query_open_start comment_env_of comment_session_parts(1)
    by (simp add: start_span_def call_prod_def lift_op_def otel_span_start_def otel_recording_possible_def walk_backend_def
        query_run_args_def literal_args_def)
  moreover let ?v = "probe_attrs walk_backend F_query (make_ref 6 0 True) [] ?w"
  have "rest ?v = rest comment_session" by simp
  then have "ss_txn ?v = 0" using rest_same(1) comment_session_parts(2) by metis
  then have "link_query_with_txn walk_backend (make_ref 6 0 True) ?v = (Ret (), ?v)" by (simp add: link_query_with_txn_def)
  moreover have "wf (ss_prod ?v)"
    using level_wf [OF only_attrs_level [OF _ probe_attrs_only [of ?w walk_backend F_query "make_ref 6 0 True" "[]"]]] query_open_facts(1) by simp
  ultimately show ?thesis
    by (intro exI [of _ ?v])
       (simp add: start_probe_def and_then_def in_session_def lift_op_def comment_context commented_bridge_def probe_stack_full_def
         SDT_STACK_SIZE_def on_session_def modify_def push_probe_def query_run_args_def probe_span_name_def)
qed

theorem nested_probes_balanced_witness:
  "\<exists>t. run_probes some_numbers [(walk_backend, some_probe_env, START F_query, []), (walk_backend, some_probe_env, DONE F_query, [])]
      commented_bridge = (Ret (), t) \<and> sd_stack t = [] \<and> st_stack (ss_prod (sd_session t)) = []"
proof -
  let ?c = "(walk_backend, some_probe_env, START F_query, [])" and ?d = "(walk_backend, some_probe_env, DONE F_query, [])"
  have may: "may_trace comment_session (walk_backend, some_probe_env, p, args)" for p args
    using comment_env_ok by (simp add: may_trace_def sound_def comment_env_of some_probe_env_def)
  obtain v where v: "start_probe walk_backend F_query [] commented_bridge =
      (Ret (), commented_bridge\<lparr>sd_session := v, sd_stack := [(START F_query, make_ref 6 0 True)]\<rparr>)" "wf (ss_prod v)"
    using query_start_runs by blast
  have calm: "calm (env_of walk_backend v)" using run_env_facts(2) by (simp add: env_of_def calm_def walk_backend_def)
  obtain p where p: "api_span_end (env_of walk_backend v) (make_ref 6 0 True) 0 (ss_prod v) = (Ret (), p)"
    using span_end_total [OF calm v(2) query_open_facts(2)] by blast
  then have e: "end_span walk_backend (make_ref 6 0 True) v = (Ret (), v\<lparr>ss_prod := p\<rparr>)"
    using make_ref_nonzero [of 6 0 True] by (simp add: end_span_def call_prod_def lift_op_def otel_span_end_def)
  have "\<exists>t. run_probes some_numbers [?c, ?d] commented_bridge = (Ret (), t)"
    using v(1) e hook_may_trace(1) [OF may refl] hook_may_trace(2) [OF may refl]
    by (simp add: and_then_def ret_def done_probe_def take_probe_def in_session_def lift_op_def sdt_sync_probe_mask_def)
  then obtain t where t: "run_probes some_numbers [?c, ?d] commented_bridge = (Ret (), t)" by blast
  have nest: "nested 1 0 [?c, ?d]" using Pair [OF _ Empty, of F_query 0 0] by simp
  have ready: "ready commented_bridge"
    using wf_initial comment_session_parts by (simp add: ready_def commented_bridge_def genuine_def) (simp add: initial_producer_def)
  have all: "\<forall>c\<in>set [?c, ?d]. may_trace (sd_session commented_bridge) c" using may by (simp add: commented_bridge_def)
  have room: "length (sd_stack commented_bridge) + 1 \<le> SDT_STACK_SIZE" "length (sd_sorts commented_bridge) + 0 \<le> SORT_STACK_SIZE"
    by (simp_all add: commented_bridge_def SDT_STACK_SIZE_def)
  from nested_probes_balanced [OF nest some_numbers_ok ready all room t] t show ?thesis
    using comment_session_parts(1) by (simp add: commented_bridge_def initial_producer_def)
qed

section \<open>Abort and commit\<close>

text \<open>C18: When the abort probe fires, the transaction's span is handed to the consumer once, with
  status ERROR; every span the bridge holds open is discarded and none of them is exported, their
  handles are dead, both stacks are empty, and the mask is back to what the setting asks for.\<close>

theorem abort_probe_closes_all:
  assumes "wf (ss_prod (sd_session s))" and "open_slot (ss_prod (sd_session s)) i"
    and "ss_txn (sd_session s) = slot_handle (ss_prod (sd_session s)) i"
    and "off_stack (stack_entry_for_slot i) (ss_prod (sd_session s))" and "st_dispatch_depth (ss_prod (sd_session s)) = 0"
    and "calm (bk_env b)" and "\<not> e_crit (bk_env b)" and "has_consumer (bk_env b)" and "pe_client pe \<or> bk_worker b"
    and "\<forall>e\<in>set (sd_stack s). genuine (snd e)" and "\<forall>ref\<in>set (sd_sorts s). genuine ref"
  shows "\<exists>t sp. otel_sdt_hook num b pe TRANSACTION_ABORT args s = (Ret (), t) \<and>
     st_exported (ss_prod (sd_session t)) = st_exported (ss_prod (sd_session s)) @ [sp] \<and> sp_status sp = STATUS_ERROR \<and>
     sp_span_id sp = sp_span_id (s_span (st_slots (ss_prod (sd_session s)) ! i)) \<and> ss_txn (sd_session t) = 0 \<and>
     (\<forall>ref\<in>snd ` set (sd_stack s) \<union> set (sd_sorts s). 0 <s ref \<longrightarrow> dead ref (ss_prod (sd_session t))) \<and>
     sd_stack t = [] \<and> sd_sorts t = [] \<and> sd_mask t = sd_wanted s"
proof -
  let ?w = "sd_session s"
  let ?marked = "set_prod b (\<lambda>env. otel_span_set_status env (ss_txn ?w) STATUS_ERROR (Some ''transaction aborted'')) ?w"
  have crit: "\<not> e_crit (env_of b ?w)" using assms(7) by (simp add: env_of_def)
  have p0: "ss_prod ?marked = otel_span_set_status (env_of b ?w) (ss_txn ?w) STATUS_ERROR (Some ''transaction aborted'') (ss_prod ?w)"
    by (simp add: set_prod_def)
  have fr: "wf (ss_prod ?marked)" "st_dispatch_depth (ss_prod ?marked) = 0" "st_exported (ss_prod ?marked) = st_exported (ss_prod ?w)"
    "st_stack (ss_prod ?marked) = st_stack (ss_prod ?w)"
    unfolding p0 using set_status_frame [OF assms(1)] assms(5) by auto
  have sl: "open_slot (ss_prod ?marked) i" "slot_handle (ss_prod ?marked) i = ss_txn ?w" "sp_status (s_span (st_slots (ss_prod ?marked) ! i)) = STATUS_ERROR"
    unfolding p0 using set_status_slot(1-3) [OF assms(1,2) crit assms(5)] assms(3) by auto
  have id: "sp_span_id (s_span (st_slots (ss_prod ?marked) ! i)) = sp_span_id (s_span (st_slots (ss_prod ?w) ! i))"
  proof -
    have "only_attrs ?w ?marked"
      by (simp add: only_attrs_def set_prod_def otel_span_set_status_def api_span_set_status_def setter_same_spans internal_setters_core)
    then show ?thesis
      using same_spans_slot(3) [OF _ assms(2)] unfolding only_attrs_def slot_context_def Let_def
      by (metis span_context.select_convs(2))
  qed
  have off: "off_stack (stack_entry_for_slot i) (ss_prod ?marked)" using assms(4) unfolding off_stack_def fr(4) .
  obtain v sp where v: "finish_txn b pe ?marked = (Ret (), v)" "ss_txn v = 0" "wf (ss_prod v)" "st_dispatch_depth (ss_prod v) = 0"
    "st_exported (ss_prod v) = st_exported (ss_prod ?w) @ [sp]" "sp_status sp = STATUS_ERROR"
    "sp_span_id sp = sp_span_id (s_span (st_slots (ss_prod ?w) ! i))"
    using finish_txn_outcome [OF fr(1) sl(1) _ off assms(6,7) fr(2) assms(8), of pe] fr(3) sl(2,3) id by auto
  let ?s1 = "s\<lparr>sd_session := v\<rparr>"
  have nz: "ss_txn ?w \<noteq> 0" using slot_handle_fields(4) [OF assms(1,2)] assms(3) by simp
  have fin: "in_session (and_then (modify (\<lambda>w. set_prod b (\<lambda>env. otel_span_set_status env (ss_txn w) STATUS_ERROR (Some ''transaction aborted'')) w))
      (\<lambda>_. finish_txn b pe)) s = (Ret (), ?s1)"
    using v(1) by (simp add: in_session_def lift_op_def and_then_def modify_def)
  obtain t where t: "sdt_discard_open_spans num b ?s1 = (Ret (), t)" "discards b (snd ` set (sd_stack s) \<union> set (sd_sorts s)) ?s1 t"
    "sd_stack t = []" "sd_sorts t = []" "sd_mask t = sd_wanted s"
    using discard_open_outcome [of b ?s1 num] assms(6,10,11) v(2,3) by auto
  have "otel_sdt_hook num b pe TRANSACTION_ABORT args s = (Ret (), t)"
    using assms(7,9) nz fin t(1) by (auto simp: otel_sdt_hook_def txn_abort_probe_def and_then_def)
  moreover have "ss_txn (sd_session t) = 0" using t(2) v(2) rest_same(1) [of "sd_session t" v] by (simp add: discards_def)
  ultimately show ?thesis
    using t v(4-7) assms(7) by (intro exI [of _ t] exI [of _ sp]) (simp add: discards_def only_closes_def)
qed

text \<open>C19: The commit probe forgets the bridge's open spans without ending them: the span of a
  query still open then stays on the producer's active stack, and the DONE probe that
  would end it finds no entry and does nothing.\<close>

theorem commit_probe_forgets_open_spans:
  assumes "wf (ss_prod (sd_session s))" and "open_slot (ss_prod (sd_session s)) i"
    and "ss_txn (sd_session s) = slot_handle (ss_prod (sd_session s)) i"
    and "off_stack (stack_entry_for_slot i) (ss_prod (sd_session s))" and "st_dispatch_depth (ss_prod (sd_session s)) = 0"
    and "calm (bk_env b)" and "\<not> e_crit (bk_env b)" and "has_consumer (bk_env b)" and "pe_client pe \<or> bk_worker b"
  shows "\<exists>t sp. otel_sdt_hook num b pe TRANSACTION_COMMIT args s = (Ret (), t) \<and>
     st_exported (ss_prod (sd_session t)) = st_exported (ss_prod (sd_session s)) @ [sp] \<and>
     sp_span_id sp = sp_span_id (s_span (st_slots (ss_prod (sd_session s)) ! i)) \<and> ss_txn (sd_session t) = 0 \<and>
     st_stack (ss_prod (sd_session t)) = st_stack (ss_prod (sd_session s)) \<and>
     otel_sdt_hook num b' pe' (DONE f) args' t = (Ret (), t)"
proof -
  let ?w = "sd_session s"
  obtain v sp where v: "finish_txn b pe ?w = (Ret (), v)" "ss_txn v = 0" "st_stack (ss_prod v) = st_stack (ss_prod ?w)"
    "st_exported (ss_prod v) = st_exported (ss_prod ?w) @ [sp]" "sp_span_id sp = sp_span_id (s_span (st_slots (ss_prod ?w) ! i))"
    using finish_txn_outcome [OF assms(1-4,6,7,5,8)] by blast
  have nz: "ss_txn ?w \<noteq> 0" using slot_handle_fields(4) [OF assms(1,2)] assms(3) by simp
  let ?t = "sdt_sync_probe_mask num (s\<lparr>sd_session := v, sd_stack := [], sd_sorts := []\<rparr>)"
  have "otel_sdt_hook num b pe TRANSACTION_COMMIT args s = (Ret (), ?t)"
    using assms(7,9) nz v(1) by (auto simp: otel_sdt_hook_def txn_commit_probe_def in_session_def lift_op_def and_then_def modify_def)
  moreover have "otel_sdt_hook num b' pe' (DONE f) args' ?t = (Ret (), ?t)"
    by (simp add: otel_sdt_hook_def done_probe_def take_probe_def sdt_sync_probe_mask_def ret_def)
  ultimately show ?thesis
    using v by (intro exI [of _ ?t] exI [of _ sp]) (simp add: sdt_sync_probe_mask_def)
qed


text \<open>An open transaction span with a query's span on the active stack.\<close>

definition busy_producer :: producer where
  "busy_producer = snd (api_span_start run_env (Some run_args) one_detached)"

lemma busy_start: "api_span_start run_env (Some run_args) one_detached = (Ret (make_ref 7 1 True), busy_producer)"
proof -
  have "fst (api_span_start run_env (Some run_args) one_detached) = Ret (make_ref 7 1 True)"
    by (simp add: one_detached_def start_run_defs)
  then show ?thesis by (simp add: busy_producer_def prod_eq_iff)
qed

lemma busy_facts: "wf busy_producer" "genuine (make_ref 7 1 True)" "open_slot busy_producer 0" "make_ref 6 0 True = slot_handle busy_producer 0"
    "off_stack (stack_entry_for_slot 0) busy_producer" "st_dispatch_depth busy_producer = 0" "st_exported busy_producer = []"
    "length (st_stack busy_producer) = 1"
proof -
  from start_ref(1,3) [OF one_detached_wf run_env_ok run_args_ok busy_start]
  show "wf busy_producer" "genuine (make_ref 7 1 True)" using make_ref_nonzero [of 7 1 True] by simp_all
qed (simp_all add: busy_producer_def one_detached_def open_slot_def slot_handle_def off_stack_def start_run_defs)

definition busy_bridge :: sdt where
  "busy_bridge = \<lparr>sd_session = fresh_session\<lparr>ss_prod := busy_producer, ss_txn := make_ref 6 0 True\<rparr>,
     sd_stack = [(START F_query, make_ref 7 1 True)], sd_sorts = [], sd_wanted = 0, sd_mask = 0\<rparr>"

lemma busy_bridge_facts: "ss_prod (sd_session busy_bridge) = busy_producer" "ss_txn (sd_session busy_bridge) = make_ref 6 0 True"
    "sd_stack busy_bridge = [(START F_query, make_ref 7 1 True)]" "sd_sorts busy_bridge = []"
    "calm (bk_env walk_backend)" "has_consumer (bk_env walk_backend)" "pe_client some_probe_env \<or> bk_worker walk_backend"
  using run_env_facts(2,3) by (simp_all add: busy_bridge_def walk_backend_def some_probe_env_def)

theorem abort_probe_closes_all_witness:
  "\<exists>t sp. otel_sdt_hook some_numbers walk_backend some_probe_env TRANSACTION_ABORT [] busy_bridge = (Ret (), t) \<and>
     st_exported (ss_prod (sd_session t)) = [sp] \<and> sp_status sp = STATUS_ERROR \<and> sd_stack t = [] \<and>
     dead (make_ref 7 1 True) (ss_prod (sd_session t))"
proof -
  have pos: "0 <s make_ref 7 1 True" by (simp add: make_ref_def word_sless_alt)
  show ?thesis
    using abort_probe_closes_all [of busy_bridge 0 walk_backend some_probe_env some_numbers "[]"] busy_facts pos
    unfolding busy_bridge_facts(1-4) using busy_bridge_facts(5-7) by auto
qed

theorem commit_probe_forgets_open_spans_witness:
  "\<exists>t. otel_sdt_hook some_numbers walk_backend some_probe_env TRANSACTION_COMMIT [] busy_bridge = (Ret (), t) \<and>
     length (st_stack (ss_prod (sd_session t))) = 1 \<and>
     otel_sdt_hook some_numbers walk_backend some_probe_env (DONE F_query) [] t = (Ret (), t)"
  using commit_probe_forgets_open_spans [of busy_bridge 0 walk_backend some_probe_env some_numbers "[]" walk_backend some_probe_env F_query "[]"]
    busy_facts
  unfolding busy_bridge_facts(1-4) using busy_bridge_facts(5-7) by auto

end
