(* ===== verification/Path_Props.thy ===== *)
theory Path_Props
  imports Walk_Frame "HOL-Library.Multiset"
begin

text \<open>
  What the accumulator of \<open>otel_planpath.c\<close> holds after the end walk: exact totals over the
  nodes of the plan, the first shortfall and the worst estimate, and the three slowest
  nodes in descending order of their time.
\<close>

section \<open>The walk feeds every node to the accumulator\<close>

lemma path_step_accum:
  "ss_accum (path_step b True ps ctx s) = (if planpath_enabled b then accumulate_node ps (ss_accum s) else ss_accum s)"
  by (simp add: path_step_def planpath_node_end_def Let_def set_prod_def split: option.split)

lemma path_begin_accum: "planpath_enabled b \<Longrightarrow> ss_accum (path_begin b stmt s) = accum_reset (ss_accum s)"
  by (simp add: path_begin_def planpath_end_walk_begin_def)

lemma report_accum: "ss_accum (planpath_end_walk_end b ctx s) = ss_accum s"
proof -
  have set: "ss_accum (set_prod b f s) = ss_accum s" "ss_accum (set_int b ref k i s) = ss_accum s" "ss_accum (set_str b ref k v s) = ss_accum s"
    "ss_accum (set_bool b ref k c s) = ss_accum s" "ss_accum (set_double b ref k d s) = ss_accum s" for f ref k i v c d s
    by (simp_all add: set_prod_def set_int_def set_str_def set_bool_def set_double_def)
  show ?thesis
    by (simp add: planpath_end_walk_end_def Let_def report_slowest_def report_actuals_def report_positive_def report_lossy_def
        report_misestimate_def report_shortfall_def report_spill_def set split: option.split)
qed

lemma path_end_accum: "ss_accum (path_end b stmt s) = ss_accum s"
  by (simp add: path_end_def report_accum)

lemma visit_accum:
  assumes "visit_node b (build_enabled_mask b span_collectors) True ps ctx s = (Ret (), t)" and "planpath_enabled b"
  shows "ss_accum t = accumulate_node ps (ss_accum s)"
proof -
  obtain u where u: "otel_fdw_collector_node_end b ps ctx s = (Ret (), u)"
      and rest: "(if bk_child_spans b then planspans_node_end b ps ctx else ret ()) (path_step b True ps ctx u) = (Ret (), t)"
    by (rule visit_parts [OF assms(1)]) (rule that, simp_all split: if_splits)
  have "preserves ss_accum (if bk_child_spans b then planspans_node_end b ps ctx else ret ())"
    by (simp add: accum_kept.collectors_keep preserves_ret)
  from preservesD [OF this rest] preservesD [OF accum_kept.collectors_keep(2) u] show ?thesis
    by (simp add: path_step_accum assms(2))
qed

lemma visits_accum:
  "visits b (build_enabled_mask b span_collectors) True stmt nodes s = (Ret (), t) \<Longrightarrow> planpath_enabled b \<Longrightarrow>
     ss_accum t = fold accumulate_node (map fst nodes) (ss_accum s)"
proof (induction nodes arbitrary: s)
  case Nil
  then show ?case by (simp add: visits_def ret_def)
next
  case (Cons node nodes)
  obtain ps anc where node: "node = (ps, anc)" by (cases node)
  from Cons.prems(1) obtain u where
    "visit_node b (build_enabled_mask b span_collectors) True ps \<lparr>wc_stmt_span = stmt, wc_ancestors = anc\<rparr> s = (Ret (), u)"
    "visits b (build_enabled_mask b span_collectors) True stmt nodes u = (Ret (), t)"
    by (auto simp: node visits_Cons dest!: and_then_RetD)
  then show ?case using Cons.IH visit_accum Cons.prems(2) by (simp add: node)
qed

definition accum_of :: "plan_node list \<Rightarrow> path_accum \<Rightarrow> path_accum" where
  "accum_of nodes a = fold accumulate_node nodes (accum_reset a)"

lemma end_walk_accum:
  assumes "otel_planwalk_executor_end b span_collectors (Some root) stmt s = (Ret (), t)" and "planpath_enabled b"
  shows "ss_accum t = accum_of (map fst (preorder [] root)) (ss_accum s)"
proof -
  obtain u where u: "visits b (build_enabled_mask b span_collectors) True stmt (preorder [] root) (path_begin b stmt s) = (Ret (), u)"
      and t: "t = path_end b stmt u"
    using assms(1) by (auto simp: executor_walks and_then_modify modify_def dest!: and_then_RetD)
  show ?thesis
    using visits_accum [OF u assms(2)] path_begin_accum [OF assms(2)] by (simp add: t path_end_accum accum_of_def)
qed

section \<open>Stable sorting, one element at a time\<close>

fun insert_after :: "('a \<Rightarrow> int) \<Rightarrow> 'a \<Rightarrow> 'a list \<Rightarrow> 'a list" where
  "insert_after f x [] = [x]"
| "insert_after f x (y # ys) = (if f x < f y then x # y # ys else y # insert_after f x ys)"

lemma set_insert_after: "set (insert_after f x ys) = insert x (set ys)"
  by (induction ys) auto

lemma mset_insert_after: "mset (insert_after f x ys) = add_mset x (mset ys)"
  by (induction ys) simp_all

lemma sorted_insert_after: "sorted (map f ys) \<Longrightarrow> sorted (map f (insert_after f x ys))"
  by (induction ys) (auto simp: set_insert_after)

lemma filter_insert_after:
  "sorted (map f ys) \<Longrightarrow> filter (\<lambda>z. k = f z) (insert_after f x ys) = filter (\<lambda>z. k = f z) ys @ (if k = f x then [x] else [])"
proof (induction ys)
  case (Cons y ys)
  have "filter (\<lambda>z. f x = f z) ys = []" if "f x < f y" using that Cons.prems by (auto simp: filter_empty_conv)
  then show ?case using Cons by auto
qed simp

lemma sort_key_snoc: "sort_key f (xs @ [x]) = insert_after f x (sort_key f xs)"
proof (rule properties_for_sort_key)
  show "mset (insert_after f x (sort_key f xs)) = mset (xs @ [x])" by (simp add: mset_insert_after)
  show "sorted (map f (insert_after f x (sort_key f xs)))" by (simp add: sorted_insert_after)
  fix k assume "k \<in> set (insert_after f x (sort_key f xs))"
  have "filter (\<lambda>z. f k = f z) (sort_key f xs) = filter (\<lambda>z. f k = f z) xs"
    using sort_key_stable [of f "f k" xs] by (simp add: eq_commute [of "f k"])
  then show "filter (\<lambda>z. f k = f z) (insert_after f x (sort_key f xs)) = filter (\<lambda>z. f k = f z) (xs @ [x])"
    by (simp add: filter_insert_after)
qed

lemma take_insert_after: "take n (insert_after f x (take n ys)) = take n (insert_after f x ys)"
proof (induction ys arbitrary: n)
  case (Cons y ys)
  then show ?case by (cases n) (simp_all add: take_Cons')
qed simp

lemma insert_after_append: "ys \<noteq> [] \<Longrightarrow> f x < f (hd ys) \<Longrightarrow> insert_after f x (xs @ ys) = insert_after f x xs @ ys"
  by (induction xs) (cases ys; simp)+

section \<open>The three slowest\<close>

text \<open>What an executed node offers: its name and its time per loop.\<close>

definition node_time :: "plan_node \<Rightarrow> (tag_name \<times> double) option" where
  "node_time ps = map_option (\<lambda>ni. (fst (nodetag_name (node_kind ps)), per_loop iv_total_ms ni)) (executed ps)"

definition slow_entry :: "tag_name \<times> double \<Rightarrow> slow_node" where
  "slow_entry nt = \<lparr>sn_total_ms = snd nt, sn_tag = Some (fst nt)\<rparr>"

text \<open>
  The reference: all offers that took any time, in descending order of time, those of the
  same time in the order they came.
\<close>

definition by_time :: "(tag_name \<times> double) list \<Rightarrow> (tag_name \<times> double) list" where
  "by_time offers = sort_key (\<lambda>nt. - int (snd nt)) (filter (\<lambda>nt. 0 < snd nt) offers)"

definition slowest_of :: "(tag_name \<times> double) list \<Rightarrow> slow_node list" where
  "slowest_of offers = take N_SLOWEST (map slow_entry (by_time offers) @ replicate N_SLOWEST \<lparr>sn_total_ms = 0, sn_tag = None\<rparr>)"

lemma kind_step_slowest [simp]: "ac_slowest (kind_step k a) = ac_slowest a" "ac_slowest (name_step k a) = ac_slowest a"
proof -
  have spill: "ac_slowest (foldl (\<lambda>a w. if P w then a else if Q w then add_spill (f w) a else a) a ws) = ac_slowest a"
    for P Q :: "'w \<Rightarrow> bool" and f ws a by (induction ws arbitrary: a) (simp_all add: add_spill_def)
  have add: "ac_slowest (add_spill kb a) = ac_slowest a" for kb a by (simp add: add_spill_def)
  show "ac_slowest (kind_step k a) = ac_slowest a"
    by (simp add: kind_step_def sort_spill_def hash_spill_def agg_spill_def tuplestore_spill_def gather_shortfall_def Let_def spill add
        split: node_kind.split option.split)
  show "ac_slowest (name_step k a) = ac_slowest a" by (simp add: name_step_def split: option.split)
qed

lemma accumulate_slowest:
  "ac_slowest (accumulate_node ps a) =
     (case node_time ps of None \<Rightarrow> ac_slowest a | Some (tag, ms) \<Rightarrow> maybe_insert_slowest tag ms (ac_slowest a))"
  by (simp add: accumulate_node_def instr_step_def node_time_def Let_def split: option.split)

text \<open>The array's insertion is an insertion into the padded reference.\<close>

abbreviation slow_key :: "slow_node \<Rightarrow> int" where
  "slow_key n \<equiv> - int (sn_total_ms n)"

lemma insert_slowest_take:
  "length sl = N_SLOWEST \<Longrightarrow>
     maybe_insert_slowest tag ms sl = take N_SLOWEST (insert_after slow_key \<lparr>sn_total_ms = ms, sn_tag = Some tag\<rparr> sl)"
  by (cases sl; cases "tl sl"; cases "tl (tl sl)")
     (auto simp: maybe_insert_slowest_def N_SLOWEST_def upt_conv_Cons split: option.split)

lemma insert_slowest_of:
  "maybe_insert_slowest tag ms (slowest_of offers) = slowest_of (offers @ [(tag, ms)])"
proof (cases "ms = 0")
  case True
  have "List.find (\<lambda>i. False) is = None" for "is" :: "nat list" by (simp add: find_None_iff)
  then have "maybe_insert_slowest tag 0 sl = sl" for sl by (simp add: maybe_insert_slowest_def)
  then show ?thesis using True by (simp add: slowest_of_def by_time_def)
next
  case False
  let ?pad = "replicate N_SLOWEST \<lparr>sn_total_ms = 0, sn_tag = None\<rparr>"
  have len: "length (slowest_of offers) = N_SLOWEST" by (simp add: slowest_of_def)
  have pad: "?pad \<noteq> []" "hd ?pad = \<lparr>sn_total_ms = 0, sn_tag = None\<rparr>" by (simp_all add: N_SLOWEST_def)
  have map: "insert_after slow_key (slow_entry x) (map slow_entry ys) = map slow_entry (insert_after (\<lambda>nt. - int (snd nt)) x ys)"
    for x ys by (induction ys) (simp_all add: slow_entry_def)
  have "insert_after slow_key (slow_entry (tag, ms)) (map slow_entry (by_time offers) @ ?pad)
      = map slow_entry (insert_after (\<lambda>nt. - int (snd nt)) (tag, ms) (by_time offers)) @ ?pad"
    using False by (subst insert_after_append) (simp_all only: pad map, simp_all add: slow_entry_def)
  note e1 = this
  have e2: "by_time (offers @ [(tag, ms)]) = insert_after (\<lambda>nt. - int (snd nt)) (tag, ms) (by_time offers)"
    using False by (simp add: by_time_def sort_key_snoc)
  have entry: "\<lparr>sn_total_ms = ms, sn_tag = Some tag\<rparr> = slow_entry (tag, ms)" by (simp add: slow_entry_def)
  show ?thesis
    unfolding insert_slowest_take [OF len] by (simp only: slowest_of_def entry take_insert_after e1 e2)
qed

lemma accumulate_slowest_of:
  "ac_slowest a = slowest_of offers \<Longrightarrow>
     ac_slowest (fold accumulate_node nodes a) = slowest_of (offers @ List.map_filter node_time nodes)"
proof (induction nodes arbitrary: a offers)
  case (Cons ps nodes)
  have "ac_slowest (accumulate_node ps a) = slowest_of (offers @ List.map_filter node_time [ps])"
    using Cons.prems by (auto simp: accumulate_slowest insert_slowest_of map_filter_simps split: option.split)
  from Cons.IH [OF this] show ?case by (simp add: map_filter_simps split: option.split)
qed (simp add: map_filter_simps)

section \<open>Totals\<close>

text \<open>The spills a node reports, in kilobytes: its own and its workers', one for a merged hash table.\<close>

definition sort_spills :: "(string \<times> string \<times> i64) option \<Rightarrow> sort_worker list \<Rightarrow> i64 list" where
  "sort_spills st ws =
     (case st of None \<Rightarrow> [] | Some (m, space_type, kb) \<Rightarrow> if space_type = ''Disk'' then [kb] else []) @
     map sw_kb (filter (\<lambda>w. \<not> sw_in_progress w \<and> sw_disk w) ws)"

definition agg_spills :: "agg_instr \<Rightarrow> agg_instr list \<Rightarrow> i64 list" where
  "agg_spills own ws =
     map ag_disk_kb (filter (\<lambda>a. ag_batches a > 1) [own] @ filter (\<lambda>a. ag_mem_peak a \<noteq> 0 \<and> ag_batches a > 1) ws)"

definition node_spills :: "node_kind \<Rightarrow> i64 list" where
  "node_spills k =
     (case k of
        Sort st ws \<Rightarrow> sort_spills st ws
      | Hash own ws \<Rightarrow>
          (let all = (case own of None \<Rightarrow> [] | Some h \<Rightarrow> [h]) @ ws in
           if list_ex (\<lambda>h. hi_nbatch h > 1) all
           then [BYTES_TO_KB (fold (\<lambda>h m. if unat (hi_space_peak h) > unat m then hi_space_peak h else m) all 0)] else [])
      | Agg hashed own ws \<Rightarrow> if hashed then agg_spills own ws else []
      | Material (Some (storage, bytes)) \<Rightarrow> if storage = ''Disk'' then [BYTES_TO_KB bytes] else []
      | WindowAgg (Some (storage, bytes)) \<Rightarrow> if storage = ''Disk'' then [BYTES_TO_KB bytes] else []
      | _ \<Rightarrow> [])"

definition node_shortfall :: "node_kind \<Rightarrow> (i64 \<times> i64) option" where
  "node_shortfall k =
     (case k of
        Gather p l \<Rightarrow> if l <s p then Some (p, l) else None
      | GatherMerge p l \<Rightarrow> if l <s p then Some (p, l) else None
      | _ \<Rightarrow> None)"

definition node_lossy :: "node_kind \<Rightarrow> u64" where
  "node_lossy k = (case k of BitmapHeapScan lossy \<Rightarrow> lossy | _ \<Rightarrow> 0)"

definition node_buffers :: "(instr_values \<Rightarrow> i64) \<Rightarrow> plan_node \<Rightarrow> i64" where
  "node_buffers f ps = (case executed ps of None \<Rightarrow> 0 | Some ni \<Rightarrow> f (ni_ended ni))"

text \<open>An executed node's name and the error of its row estimate.\<close>

definition node_ratio :: "plan_node \<Rightarrow> (tag_name \<times> double) option" where
  "node_ratio ps = map_option (\<lambda>ni. (fst (nodetag_name (node_kind ps)), row_ratio (ni_plan_rows ni) (per_loop iv_ntuples ni))) (executed ps)"

lemma add_spills:
  "foldl (\<lambda>a w. if P w then a else if Q w then add_spill (f w) a else a) a ws =
     a\<lparr>ac_any_spill := ac_any_spill a \<or> filter (\<lambda>w. \<not> P w \<and> Q w) ws \<noteq> [],
       ac_spill_kb := ac_spill_kb a + sum_list (map f (filter (\<lambda>w. \<not> P w \<and> Q w) ws))\<rparr>"
  by (induction ws arbitrary: a) (simp_all add: add_spill_def)

lemma hash_merged:
  "hi_nbatch (foldl hash_merge h ws) > 1 \<longleftrightarrow> list_ex (\<lambda>h. hi_nbatch h > 1) (h # ws)"
  "hi_space_peak (foldl hash_merge h ws) = fold (\<lambda>h m. if unat (hi_space_peak h) > unat m then hi_space_peak h else m) ws (hi_space_peak h)"
  by (induction ws arbitrary: h) (auto simp: hash_merge_def Let_def)

definition spilled :: "i64 list \<Rightarrow> path_accum \<Rightarrow> path_accum" where
  "spilled kbs a = a\<lparr>ac_any_spill := ac_any_spill a \<or> kbs \<noteq> [], ac_spill_kb := ac_spill_kb a + sum_list kbs\<rparr>"

lemma kind_step_spilled:
  "kind_step k a = (spilled (node_spills k) a)
     \<lparr>ac_shortfall := (case ac_shortfall a of None \<Rightarrow> node_shortfall k | Some x \<Rightarrow> Some x), ac_lossy_pages := ac_lossy_pages a + node_lossy k\<rparr>"
proof (cases k)
  case (Hash own ws)
  have "hash_spill own ws a = spilled (node_spills k) a"
    by (auto simp: Hash hash_spill_def Let_def hash_merged node_spills_def spilled_def add_spill_def unat_eq_zero split: option.split)
  then show ?thesis by (simp add: Hash kind_step_def spilled_def node_shortfall_def node_lossy_def split: option.split)
qed (auto simp: kind_step_def spilled_def node_spills_def node_shortfall_def node_lossy_def sort_spill_def sort_spills_def agg_spill_def
      agg_spills_def tuplestore_spill_def gather_shortfall_def add_spills add_spill_def split: option.split)

lemma spilled_more: "spilled ls (spilled ks a) = spilled (ks @ ls) a"
  by (simp add: spilled_def add.assoc)

lemma name_step_fields: "name_step k a = a\<lparr>ac_tag_buf := ac_tag_buf (name_step k a)\<rparr>"
  by (simp add: name_step_def split: option.split)

text \<open>One node's effect on each field.\<close>

lemma accumulate_fields:
  "ac_node_count (accumulate_node ps a) = ac_node_count a + 1"
  "ac_any_spill (accumulate_node ps a) \<longleftrightarrow> ac_any_spill a \<or> node_spills (node_kind ps) \<noteq> []"
  "ac_spill_kb (accumulate_node ps a) = ac_spill_kb a + sum_list (node_spills (node_kind ps))"
  "ac_shortfall (accumulate_node ps a) = (case ac_shortfall a of None \<Rightarrow> node_shortfall (node_kind ps) | Some x \<Rightarrow> Some x)"
  "ac_lossy_pages (accumulate_node ps a) = ac_lossy_pages a + node_lossy (node_kind ps)"
  "ac_read (accumulate_node ps a) = ac_read a + node_buffers iv_read ps"
  "ac_hit (accumulate_node ps a) = ac_hit a + node_buffers iv_hit ps"
  "ac_dirtied (accumulate_node ps a) = ac_dirtied a + node_buffers iv_dirtied ps"
  "(ac_worst_tag (accumulate_node ps a), ac_worst_ratio (accumulate_node ps a)) =
     (case node_ratio ps of None \<Rightarrow> (ac_worst_tag a, ac_worst_ratio a)
      | Some (t, r) \<Rightarrow> if r > ac_worst_ratio a then (Some t, r) else (ac_worst_tag a, ac_worst_ratio a))"
  by (subst accumulate_node_def, subst name_step_fields,
      simp add: Let_def kind_step_spilled spilled_def instr_step_def node_buffers_def node_ratio_def split: option.split)+

lemma fold_sums:
  "ac_node_count (fold accumulate_node nodes a) = ac_node_count a + of_nat (length nodes)"
  "ac_spill_kb (fold accumulate_node nodes a) = ac_spill_kb a + sum_list (concat (map (node_spills \<circ> node_kind) nodes))"
  "ac_any_spill (fold accumulate_node nodes a) \<longleftrightarrow> ac_any_spill a \<or> concat (map (node_spills \<circ> node_kind) nodes) \<noteq> []"
  "ac_lossy_pages (fold accumulate_node nodes a) = ac_lossy_pages a + sum_list (map (node_lossy \<circ> node_kind) nodes)"
  "ac_read (fold accumulate_node nodes a) = ac_read a + sum_list (map (node_buffers iv_read) nodes)"
  "ac_hit (fold accumulate_node nodes a) = ac_hit a + sum_list (map (node_buffers iv_hit) nodes)"
  "ac_dirtied (fold accumulate_node nodes a) = ac_dirtied a + sum_list (map (node_buffers iv_dirtied) nodes)"
  by (induction nodes arbitrary: a) (auto simp: accumulate_fields add.assoc)

lemma fold_shortfall:
  "ac_shortfall (fold accumulate_node nodes a) =
     (case ac_shortfall a of Some x \<Rightarrow> Some x
      | None \<Rightarrow> (case List.map_filter (node_shortfall \<circ> node_kind) nodes of [] \<Rightarrow> None | x # xs \<Rightarrow> Some x))"
  by (induction nodes arbitrary: a) (simp_all add: accumulate_fields map_filter_simps split: option.split)

text \<open>The worst of the offered ratios, the first of equals.\<close>

definition worst_of :: "(tag_name \<times> double) list \<Rightarrow> tag_name option \<times> double" where
  "worst_of offers = (case sort_key (\<lambda>nt. - int (snd nt)) offers of [] \<Rightarrow> (None, 0) | (t, r) # _ \<Rightarrow> (Some t, r))"

lemma row_ratio_ge_one: "dbl 1 \<le> row_ratio p r"
proof -
  have pos: "0 < (if x < dbl 1 then dbl 1 else x)" for x by (simp add: dbl_def)
  have "dbl 1 \<le> (if a > b then dbl_div a b else dbl_div b a)" if "0 < a" "0 < b" for a b
    using dbl_div_ge_one [OF that(1), of b] dbl_div_ge_one [OF that(2), of a] by simp
  from this [OF pos pos] show ?thesis unfolding row_ratio_def Let_def .
qed

lemma worst_of_snoc: "0 < r \<Longrightarrow> worst_of (offers @ [(t, r)]) = (if r > snd (worst_of offers) then (Some t, r) else worst_of offers)"
  by (cases "sort_key (\<lambda>nt. - int (snd nt)) offers") (auto simp: worst_of_def sort_key_snoc)

lemma fold_worst:
  "(ac_worst_tag a, ac_worst_ratio a) = worst_of offers \<Longrightarrow>
     (ac_worst_tag (fold accumulate_node nodes a), ac_worst_ratio (fold accumulate_node nodes a)) =
       worst_of (offers @ List.map_filter node_ratio nodes)"
proof (induction nodes arbitrary: a offers)
  case (Cons ps nodes)
  have pos: "0 < row_ratio p r" for p r using row_ratio_ge_one [of p r] by (simp add: dbl_def)
  have w: "ac_worst_ratio a = snd (worst_of offers)" by (simp flip: Cons.prems)
  have "(ac_worst_tag (accumulate_node ps a), ac_worst_ratio (accumulate_node ps a)) =
      worst_of (offers @ List.map_filter node_ratio [ps])"
    unfolding accumulate_fields Cons.prems
    by (cases "executed ps") (simp_all add: map_filter_simps node_ratio_def worst_of_snoc pos w)
  from Cons.IH [OF this] show ?case by (simp add: map_filter_simps split: option.split)
qed (simp add: map_filter_simps)

section \<open>The properties\<close>

text \<open>C32: After the end walk the accumulator's three places hold the three slowest of the nodes
  that ran and took any time, in descending order of their time per loop, and of equal ones
  the first visited first; places left over are empty.\<close>

theorem slowest_three:
  assumes "otel_planwalk_executor_end b span_collectors (Some root) stmt s = (Ret (), t)" and "planpath_enabled b"
  shows "ac_slowest (ss_accum t) = slowest_of (List.map_filter node_time (map fst (preorder [] root)))"
proof -
  have "ac_slowest (accum_reset (ss_accum s)) = slowest_of []" by (simp add: accum_reset_def slowest_of_def by_time_def)
  from accumulate_slowest_of [OF this] show ?thesis
    using end_walk_accum [OF assms] by (simp add: accum_of_def)
qed

text \<open>C33: After the end walk the accumulator holds the totals of the whole plan and nothing of an
  earlier one: how many nodes, whether any spilled and how much altogether (on 64 bits), the
  lossy pages, the buffers of the nodes that ran, the first shortfall in visiting order, and
  the worst row estimate with the first node that has it.\<close>

theorem walk_totals:
  assumes "otel_planwalk_executor_end b span_collectors (Some root) stmt s = (Ret (), t)" and "planpath_enabled b"
  defines "nodes \<equiv> map fst (preorder [] root)" and "a \<equiv> ss_accum t"
  shows "ac_node_count a = of_nat (length nodes) \<and>
    (ac_any_spill a \<longleftrightarrow> concat (map (node_spills \<circ> node_kind) nodes) \<noteq> []) \<and>
    ac_spill_kb a = sum_list (concat (map (node_spills \<circ> node_kind) nodes)) \<and>
    ac_lossy_pages a = sum_list (map (node_lossy \<circ> node_kind) nodes) \<and>
    ac_read a = sum_list (map (node_buffers iv_read) nodes) \<and>
    ac_hit a = sum_list (map (node_buffers iv_hit) nodes) \<and>
    ac_dirtied a = sum_list (map (node_buffers iv_dirtied) nodes) \<and>
    ac_shortfall a = (case List.map_filter (node_shortfall \<circ> node_kind) nodes of [] \<Rightarrow> None | x # xs \<Rightarrow> Some x) \<and>
    (ac_worst_tag a, ac_worst_ratio a) = worst_of (List.map_filter node_ratio nodes)"
proof -
  let ?z = "accum_reset (ss_accum s)"
  have a: "a = fold accumulate_node nodes ?z" using end_walk_accum [OF assms(1,2)] by (simp add: a_def nodes_def accum_of_def)
  have "(ac_worst_tag ?z, ac_worst_ratio ?z) = worst_of []" by (simp add: accum_reset_def worst_of_def)
  from fold_worst [OF this] show ?thesis
    by (simp add: a fold_sums fold_shortfall) (simp add: accum_reset_def)
qed

section \<open>An example\<close>

text \<open>A gather short of workers over a sort that spilled over a scan, and an append; one loop each.\<close>

definition one_loop :: "nat \<Rightarrow> node_instr" where
  "one_loop ms =
     (let iv = \<lparr>iv_startup_ms = 0, iv_total_ms = dbl ms, iv_ntuples = dbl 2, iv_nloops = dbl 1, iv_read = 1, iv_hit = 10, iv_dirtied = 0\<rparr>
      in \<lparr>ni_now = iv, ni_ended = iv, ni_plan_rows = dbl 2\<rparr>)"

definition spill_plan :: plan_node where
  "spill_plan =
     Node 1 (Gather 4 2) (Some (one_loop 9))
       [Node 2 (Sort (Some (''external merge'', ''Disk'', 12)) []) (Some (one_loop 5))
          [Node 3 (OtherNode SeqScan) (Some (one_loop 7)) []],
        Node 4 (OtherNode Append) (Some (one_loop 3)) []]"

definition stats_backend :: backend where
  "stats_backend = walk_backend\<lparr>bk_child_spans := False, bk_node_stats := True\<rparr>"

lemma stats_enabled: "planpath_enabled stats_backend"
  by (simp add: planpath_enabled_def stats_backend_def)

lemma spill_nodes:
  "map fst (preorder [] spill_plan) =
     [spill_plan, Node 2 (Sort (Some (''external merge'', ''Disk'', 12)) []) (Some (one_loop 5)) [Node 3 (OtherNode SeqScan) (Some (one_loop 7)) []],
      Node 3 (OtherNode SeqScan) (Some (one_loop 7)) [], Node 4 (OtherNode Append) (Some (one_loop 3)) []]"
  by (simp add: spill_plan_def)

lemma spill_walk: "\<exists>t. otel_planwalk_executor_end stats_backend span_collectors (Some spill_plan) 0 fresh_session = (Ret (), t)"
  by (simp add: executor_walks visits_def visit_steps spill_plan_def otel_fdw_collector_node_end_def stats_backend_def
      and_then_def ret_def modify_def)

theorem slowest_three_witness:
  "\<exists>t. otel_planwalk_executor_end stats_backend span_collectors (Some spill_plan) 0 fresh_session = (Ret (), t) \<and>
     ac_slowest (ss_accum t) =
       [\<lparr>sn_total_ms = dbl 9, sn_tag = Some (Literal ''Gather'')\<rparr>, \<lparr>sn_total_ms = dbl 7, sn_tag = Some (Literal ''SeqScan'')\<rparr>,
        \<lparr>sn_total_ms = dbl 5, sn_tag = Some (Literal ''Sort'')\<rparr>]"
proof -
  obtain t where t: "otel_planwalk_executor_end stats_backend span_collectors (Some spill_plan) 0 fresh_session = (Ret (), t)"
    using spill_walk by blast
  have time: "per_loop iv_total_ms (one_loop n) = dbl n" if "n < 2 ^ 53" for n
    using dbl_div_one [OF that] by (simp add: per_loop_def one_loop_def Let_def)
  have ran: "iv_nloops (ni_ended (one_loop n)) \<noteq> 0" for n by (simp add: one_loop_def Let_def dbl_def)
  have "List.map_filter node_time (map fst (preorder [] spill_plan)) =
      [(Literal ''Gather'', dbl 9), (Literal ''Sort'', dbl 5), (Literal ''SeqScan'', dbl 7), (Literal ''Append'', dbl 3)]"
    unfolding spill_nodes by (simp add: spill_plan_def map_filter_simps node_time_def executed_def ran time nodetag_name_def plain_name_def)
  then show ?thesis
    using slowest_three [OF t stats_enabled] t
    by (intro exI [of _ t]) (simp add: slowest_of_def by_time_def dbl_def N_SLOWEST_def slow_entry_def)
qed

theorem walk_totals_witness:
  "\<exists>t. otel_planwalk_executor_end stats_backend span_collectors (Some spill_plan) 0 fresh_session = (Ret (), t) \<and>
     ac_node_count (ss_accum t) = 4 \<and> ac_spill_kb (ss_accum t) = 12 \<and> ac_hit (ss_accum t) = 40 \<and> ac_shortfall (ss_accum t) = Some (4, 2)"
proof -
  obtain t where t: "otel_planwalk_executor_end stats_backend span_collectors (Some spill_plan) 0 fresh_session = (Ret (), t)"
    using spill_walk by blast
  have hit: "node_buffers iv_hit (Node n k (Some (one_loop ms)) ps) = 10" for n k ms ps
    by (simp add: node_buffers_def executed_def one_loop_def Let_def dbl_def)
  show ?thesis
    using walk_totals [OF t stats_enabled] t unfolding spill_nodes
    by (intro exI [of _ t])
       (simp add: spill_plan_def hit node_spills_def sort_spills_def node_shortfall_def map_filter_simps)
qed

text \<open>
  Names of unlisted nodes live in one static buffer, so in the report they all read as the
  last unlisted node visited.
\<close>

lemma unlisted_nodes_share_name:
  "(let a = accum_of [Node 1 (OtherNode (UnlistedNode 6)) (Some (one_loop 9)) [], Node 2 (OtherNode (UnlistedNode 7)) (Some (one_loop 5)) []] z
    in slowest_items (ac_tag_buf a) (ac_slowest a)) = [''Node7:9'', ''Node7:5'']"
proof -
  let ?nodes = "[Node 1 (OtherNode (UnlistedNode 6)) (Some (one_loop 9)) [], Node 2 (OtherNode (UnlistedNode 7)) (Some (one_loop 5)) []]"
  have time: "per_loop iv_total_ms (one_loop n) = dbl n" if "n < 2 ^ 53" for n
    using dbl_div_one [OF that] by (simp add: per_loop_def one_loop_def Let_def)
  have ran: "iv_nloops (ni_ended (one_loop n)) \<noteq> 0" for n by (simp add: one_loop_def Let_def dbl_def)
  have "ac_slowest (accum_reset z) = slowest_of []" by (simp add: accum_reset_def slowest_of_def by_time_def)
  from accumulate_slowest_of [OF this, of ?nodes]
  have "ac_slowest (accum_of ?nodes z) =
      [\<lparr>sn_total_ms = dbl 9, sn_tag = Some Static_buf\<rparr>, \<lparr>sn_total_ms = dbl 5, sn_tag = Some Static_buf\<rparr>, \<lparr>sn_total_ms = 0, sn_tag = None\<rparr>]"
    by (simp add: accum_of_def map_filter_simps node_time_def executed_def ran time nodetag_name_def slowest_of_def by_time_def
        N_SLOWEST_def slow_entry_def) (simp add: dbl_def)
  moreover have "ac_tag_buf (accum_of ?nodes z) = ''Node7''"
    by (simp add: accum_of_def accumulate_node_def executed_def ran Let_def instr_step_def kind_step_def name_step_def nodetag_name_def
        plain_name_def show_nat.simps [of 7] digit_def)
  ultimately show ?thesis
    by (simp add: Let_def tag_text_def dbl_fmt0_dbl show_nat.simps [of 9] show_nat.simps [of 5] digit_def)
qed

end
