(* ===== verification/Plan_Shape.thy ===== *)
theory Plan_Shape
  imports Stmt_Trace Walk_Frame
begin

text \<open>
  The plan-shape capture of \<open>otel_planshape.c\<close>: a recursive walk over the Plan tree of a sampled
  query that folds a digest of its node tags and join types, counts the nodes and flags two
  structural risks.  Core's \<open>hash_combine\<close> and the numbers of its node tags are parameters.
  The walk is shown to be a fold over the nodes in preorder, and the digest and the count to
  depend on the plan's structure only.
\<close>

section \<open>Plans\<close>

datatype plan_tag =
    T_SeqScan | T_NestLoop | T_MergeJoin | T_HashJoin | T_Append | T_MergeAppend | T_BitmapAnd | T_BitmapOr | T_SubqueryScan
  | T_Other nat

text \<open>
  A plan pointer: NULL, or a node with its tag, its join type (meaningful for joins), its row
  estimate, its left and right child and the plans in its own fields: the list of an append or
  a bitmap node, the subplan of a subquery scan.
\<close>

datatype plan = No_Plan | Plan plan_tag u32 double plan plan "plan list"

fun plan_rows :: "plan \<Rightarrow> double" where
  "plan_rows No_Plan = 0"
| "plan_rows (Plan tag join rows l r ps) = rows"

definition OTEL_PLANSHAPE_SEQSCAN_LARGE_ROWS :: double where
  "OTEL_PLANSHAPE_SEQSCAN_LARGE_ROWS = dbl 100000"

definition OTEL_PLANSHAPE_NESTLOOP_INNER_ROWS :: double where
  "OTEL_PLANSHAPE_NESTLOOP_INNER_ROWS = dbl 10000"

section \<open>The walk\<close>

record plan_shape_ctx =
  sh_digest :: u32
  sh_node_count :: u32
  sh_seqscan_large :: bool
  sh_nestloop_inner :: bool

record plan_core =
  pc_hash_combine :: "u32 \<Rightarrow> u32 \<Rightarrow> u32"
  pc_tag_number :: "plan_tag \<Rightarrow> u32"

definition planshape_node_token :: "plan_core \<Rightarrow> plan_tag \<Rightarrow> u32 \<Rightarrow> u32" where
  "planshape_node_token core tag join =
     (let t = pc_tag_number core tag in
      if tag = T_NestLoop \<or> tag = T_MergeJoin \<or> tag = T_HashJoin then pc_hash_combine core t join else t)"

text \<open>What the walk does at a node before it goes to the children.\<close>

definition shape_visit :: "plan_core \<Rightarrow> plan_tag \<Rightarrow> u32 \<Rightarrow> double \<Rightarrow> plan \<Rightarrow> plan_shape_ctx \<Rightarrow> plan_shape_ctx" where
  "shape_visit core tag join rows r c =
     (let c1 = c\<lparr>sh_node_count := sh_node_count c + 1,
                 sh_digest := pc_hash_combine core (sh_digest c) (planshape_node_token core tag join)\<rparr>;
          c2 = (if tag = T_SeqScan \<and> rows > OTEL_PLANSHAPE_SEQSCAN_LARGE_ROWS then c1\<lparr>sh_seqscan_large := True\<rparr> else c1)
      in if tag = T_NestLoop \<and> r \<noteq> No_Plan \<and> plan_rows r > OTEL_PLANSHAPE_NESTLOOP_INNER_ROWS
         then c2\<lparr>sh_nestloop_inner := True\<rparr> else c2)"

text \<open>The plans in a node's own fields that the walk goes to: those of other kinds of node are not.\<close>

definition has_own_plans :: "plan_tag \<Rightarrow> bool" where
  "has_own_plans tag \<longleftrightarrow>
     tag = T_Append \<or> tag = T_MergeAppend \<or> tag = T_BitmapAnd \<or> tag = T_BitmapOr \<or> tag = T_SubqueryScan"

fun planshape_walk :: "plan_core \<Rightarrow> plan \<Rightarrow> plan_shape_ctx \<Rightarrow> plan_shape_ctx"
  and planshape_walk_list :: "plan_core \<Rightarrow> plan list \<Rightarrow> plan_shape_ctx \<Rightarrow> plan_shape_ctx" where
  "planshape_walk core No_Plan c = c"
| "planshape_walk core (Plan tag join rows l r ps) c =
     (let c1 = planshape_walk core r (planshape_walk core l (shape_visit core tag join rows r c))
      in if has_own_plans tag then planshape_walk_list core ps c1 else c1)"
| "planshape_walk_list core [] c = c"
| "planshape_walk_list core (p # ps) c = planshape_walk_list core ps (planshape_walk core p c)"

section \<open>What is put on the span\<close>

record planned_stmt =
  pl_tree :: plan
  pl_subplans :: "plan list"

definition shape_of :: "plan_core \<Rightarrow> planned_stmt \<Rightarrow> plan_shape_ctx" where
  "shape_of core stmt =
     planshape_walk_list core (pl_subplans stmt) (planshape_walk core (pl_tree stmt)
       \<lparr>sh_digest = 0, sh_node_count = 0, sh_seqscan_large = False, sh_nestloop_inner = False\<rparr>)"

text \<open>\<open>%08x\<close>\<close>

definition hex8 :: "u32 \<Rightarrow> string" where
  "hex8 d = otel_bytes_to_hex [ucast (drop_bit 24 d), ucast (drop_bit 16 d), ucast (drop_bit 8 d), ucast d]"

definition risk_names :: "plan_shape_ctx \<Rightarrow> string" where
  "risk_names c =
     (let risks = (if sh_seqscan_large c then ''seqscan_large'' else [])
      in if sh_nestloop_inner c then risks @ (if risks \<noteq> [] then '','' else []) @ ''nestloop_high_inner'' else risks)"

definition otel_planshape_executor_start :: "plan_core \<Rightarrow> bool \<Rightarrow> backend \<Rightarrow> planned_stmt option \<Rightarrow> i64 \<Rightarrow> session \<Rightarrow> session" where
  "otel_planshape_executor_start core trace_plan_shape b stmt ref s =
     (if \<not> trace_plan_shape then s
      else case stmt of
        None \<Rightarrow> s
      | Some pstmt \<Rightarrow>
          if \<not> otel_span_recording ref then s
          else (let c = shape_of core pstmt;
                    s1 = set_str b ref ''pg.plan.shape_hash'' (hex8 (sh_digest c)) s;
                    s2 = set_int b ref ''pg.plan.node_count'' (scast (sh_node_count c)) s1
                in if sh_seqscan_large c \<or> sh_nestloop_inner c then set_str b ref ''pg.plan.risks'' (risk_names c) s2 else s2))"

text \<open>It is what \<open>otel_ExecutorStart\<close> is given as \<open>shape\<close>, which must not touch the statement stack.\<close>

lemma shape_keeps_stmts: "preserves ss_stmts (modify (otel_planshape_executor_start core trace_plan_shape b stmt ref))"
  by (simp add: preserves_def modify_def otel_planshape_executor_start_def Let_def split: option.split)

section \<open>The walk is a fold\<close>

text \<open>The nodes the walk reaches, parents before children.\<close>

fun plan_nodes :: "plan \<Rightarrow> plan list" and plans_nodes :: "plan list \<Rightarrow> plan list" where
  "plan_nodes No_Plan = []"
| "plan_nodes (Plan tag join rows l r ps) =
     Plan tag join rows l r ps # plan_nodes l @ plan_nodes r @ (if has_own_plans tag then plans_nodes ps else [])"
| "plans_nodes [] = []"
| "plans_nodes (p # ps) = plan_nodes p @ plans_nodes ps"

fun visit_plan :: "plan_core \<Rightarrow> plan \<Rightarrow> plan_shape_ctx \<Rightarrow> plan_shape_ctx" where
  "visit_plan core No_Plan c = c"
| "visit_plan core (Plan tag join rows l r ps) c = shape_visit core tag join rows r c"

lemma walk_fold:
  "planshape_walk core p c = fold (visit_plan core) (plan_nodes p) c"
  "planshape_walk_list core ps c = fold (visit_plan core) (plans_nodes ps) c"
  by (induction core p c and core ps c rule: planshape_walk_planshape_walk_list.induct) (simp_all add: Let_def)

fun plan_token :: "plan_core \<Rightarrow> plan \<Rightarrow> u32" where
  "plan_token core No_Plan = 0"
| "plan_token core (Plan tag join rows l r ps) = planshape_node_token core tag join"

fun is_large_seqscan :: "plan \<Rightarrow> bool" where
  "is_large_seqscan No_Plan \<longleftrightarrow> False"
| "is_large_seqscan (Plan tag join rows l r ps) \<longleftrightarrow> tag = T_SeqScan \<and> rows > dbl 100000"

fun is_high_nestloop :: "plan \<Rightarrow> bool" where
  "is_high_nestloop No_Plan \<longleftrightarrow> False"
| "is_high_nestloop (Plan tag join rows l r ps) \<longleftrightarrow> tag = T_NestLoop \<and> plan_rows r > dbl 10000"

lemma rows_no_plan: "plan_rows r > x \<Longrightarrow> r \<noteq> No_Plan"
  by auto

lemma visit_fields:
  assumes "p \<noteq> No_Plan"
  shows "sh_digest (visit_plan core p c) = pc_hash_combine core (sh_digest c) (plan_token core p)"
    "sh_node_count (visit_plan core p c) = sh_node_count c + 1"
    "sh_seqscan_large (visit_plan core p c) \<longleftrightarrow> sh_seqscan_large c \<or> is_large_seqscan p"
    "sh_nestloop_inner (visit_plan core p c) \<longleftrightarrow> sh_nestloop_inner c \<or> is_high_nestloop p"
  using assms
  by (cases p; auto simp: shape_visit_def Let_def OTEL_PLANSHAPE_SEQSCAN_LARGE_ROWS_def OTEL_PLANSHAPE_NESTLOOP_INNER_ROWS_def
      dest: rows_no_plan)+

lemma fold_fields:
  assumes "No_Plan \<notin> set ns"
  shows "sh_digest (fold (visit_plan core) ns c) = foldl (pc_hash_combine core) (sh_digest c) (map (plan_token core) ns)"
    "sh_node_count (fold (visit_plan core) ns c) = sh_node_count c + of_nat (length ns)"
    "sh_seqscan_large (fold (visit_plan core) ns c) \<longleftrightarrow> sh_seqscan_large c \<or> list_ex is_large_seqscan ns"
    "sh_nestloop_inner (fold (visit_plan core) ns c) \<longleftrightarrow> sh_nestloop_inner c \<or> list_ex is_high_nestloop ns"
  using assms by (induction ns arbitrary: c) (auto simp: visit_fields add.assoc)

lemma nodes_not_null: "No_Plan \<notin> set (plan_nodes p)" "No_Plan \<notin> set (plans_nodes ps)"
  by (induction p and ps rule: plan_nodes_plans_nodes.induct) auto

definition stmt_nodes :: "planned_stmt \<Rightarrow> plan list" where
  "stmt_nodes stmt = plan_nodes (pl_tree stmt) @ plans_nodes (pl_subplans stmt)"

lemma shape_of_fold:
  "shape_of core stmt = fold (visit_plan core) (stmt_nodes stmt)
     \<lparr>sh_digest = 0, sh_node_count = 0, sh_seqscan_large = False, sh_nestloop_inner = False\<rparr>"
  by (simp add: shape_of_def walk_fold stmt_nodes_def)

lemma stmt_nodes_not_null: "No_Plan \<notin> set (stmt_nodes stmt)"
  by (simp add: stmt_nodes_def nodes_not_null)


section \<open>Only the structure counts\<close>

text \<open>A plan without its row estimates.\<close>

fun skeleton_of :: "plan \<Rightarrow> plan" and skeletons_of :: "plan list \<Rightarrow> plan list" where
  "skeleton_of No_Plan = No_Plan"
| "skeleton_of (Plan tag join rows l r ps) = Plan tag join 0 (skeleton_of l) (skeleton_of r) (skeletons_of ps)"
| "skeletons_of [] = []"
| "skeletons_of (p # ps) = skeleton_of p # skeletons_of ps"

lemma nodes_skeleton:
  "plan_nodes (skeleton_of p) = map skeleton_of (plan_nodes p)" "plans_nodes (skeletons_of ps) = map skeleton_of (plans_nodes ps)"
  by (induction p and ps rule: skeleton_of_skeletons_of.induct) simp_all

lemma token_skeleton: "plan_token core (skeleton_of p) = plan_token core p"
  by (cases p) simp_all

text \<open>C35: Two statements whose plans differ in row estimates only get the same digest and the same
  count, whatever the hash function: a changed \<open>pg.plan.shape_hash\<close> means a changed plan.\<close>

theorem shape_ignores_estimates:
  assumes "skeleton_of (pl_tree p) = skeleton_of (pl_tree q)" and "skeletons_of (pl_subplans p) = skeletons_of (pl_subplans q)"
  shows "sh_digest (shape_of core p) = sh_digest (shape_of core q) \<and> sh_node_count (shape_of core p) = sh_node_count (shape_of core q)"
proof -
  have m: "map skeleton_of (stmt_nodes p) = map skeleton_of (stmt_nodes q)"
    unfolding stmt_nodes_def map_append by (simp only: assms flip: nodes_skeleton)
  have tok: "map (plan_token core) (stmt_nodes x) = map (plan_token core) (map skeleton_of (stmt_nodes x))" for x by (simp add: token_skeleton)
  have "map (plan_token core) (stmt_nodes p) = map (plan_token core) (stmt_nodes q)" by (subst (1 2) tok) (simp only: m)
  moreover have "length (stmt_nodes p) = length (stmt_nodes q)" using m by (rule map_eq_imp_length_eq)
  ultimately show ?thesis by (simp add: shape_of_fold fold_fields [OF stmt_nodes_not_null])
qed

theorem shape_ignores_estimates_witness:
  "sh_digest (shape_of \<lparr>pc_hash_combine = (\<lambda>a b. 31 * a + b), pc_tag_number = (\<lambda>t. if t = T_SeqScan then 7 else 9)\<rparr>
      \<lparr>pl_tree = Plan T_HashJoin 1 (dbl 5) (Plan T_SeqScan 0 (dbl 200000) No_Plan No_Plan []) No_Plan [], pl_subplans = []\<rparr>) =
   sh_digest (shape_of \<lparr>pc_hash_combine = (\<lambda>a b. 31 * a + b), pc_tag_number = (\<lambda>t. if t = T_SeqScan then 7 else 9)\<rparr>
      \<lparr>pl_tree = Plan T_HashJoin 1 (dbl 3) (Plan T_SeqScan 0 (dbl 2) No_Plan No_Plan []) No_Plan [], pl_subplans = []\<rparr>)"
  by (rule conjunct1 [OF shape_ignores_estimates]) simp_all

end
