(* ===== verification/Log_Annotation.thy ===== *)
theory Log_Annotation
  imports Stmt_Trace
begin

text \<open>
  The log hook of \<open>otel_postgres_tracing\<close> (\<open>otel_log.c\<close>): it names the current trace in every log
  line, as annotations where core has them and as a line of the context otherwise, and then
  calls the hook that was there before it.  Of the \<open>ErrorData\<close> only what the hook touches is
  modelled.
\<close>

record log_line =
  ll_context :: "string option"
  ll_annotations :: "string \<rightharpoonup> string"

text \<open>\<open>strstr (hay, needle) != NULL\<close>\<close>

fun strstr_found :: "string \<Rightarrow> string \<Rightarrow> bool" where
  "strstr_found needle [] \<longleftrightarrow> needle = []"
| "strstr_found needle (c # cs) \<longleftrightarrow> take (length needle) (c # cs) = needle \<or> strstr_found needle cs"

text \<open>With annotations (\<open>errannot\<close> sets or replaces the value of a key), and without.\<close>

definition annotate_native :: "span_context \<Rightarrow> log_line \<Rightarrow> log_line" where
  "annotate_native ctx ed =
     ed\<lparr>ll_annotations := (ll_annotations ed)
          (''trace_id'' \<mapsto> otel_trace_id_to_hex (trace_id ctx), ''span_id'' \<mapsto> otel_span_id_to_hex (span_id ctx),
           ''trace_flags'' \<mapsto> otel_bytes_to_hex [trace_flags ctx])\<rparr>"

definition trace_text :: "span_context \<Rightarrow> string" where
  "trace_text ctx =
     ''trace_id='' @ otel_trace_id_to_hex (trace_id ctx) @ '' span_id='' @ otel_span_id_to_hex (span_id ctx) @
     '' trace_flags='' @ otel_bytes_to_hex [trace_flags ctx]"

definition annotate_fallback :: "span_context \<Rightarrow> log_line \<Rightarrow> log_line" where
  "annotate_fallback ctx ed =
     (case ll_context ed of
        None \<Rightarrow> ed\<lparr>ll_context := Some (trace_text ctx)\<rparr>
      | Some text \<Rightarrow>
          if strstr_found (otel_trace_id_to_hex (trace_id ctx)) text then ed
          else ed\<lparr>ll_context := Some (text @ [CHR 0x0A] @ trace_text ctx)\<rparr>)"

definition annotate :: "bool \<Rightarrow> span_context \<Rightarrow> log_line \<Rightarrow> log_line" where
  "annotate have_errannot ctx = (if have_errannot then annotate_native ctx else annotate_fallback ctx)"

text \<open>The hook; the hook before it is any operation on the session that is given the line.\<close>

definition otel_log_emit_log_hook ::
    "bool \<Rightarrow> backend \<Rightarrow> (log_line \<Rightarrow> log_line session_op) option \<Rightarrow> log_line \<Rightarrow> log_line session_op" where
  "otel_log_emit_log_hook have_errannot b prev ed =
     and_then (if e_crit (bk_env b) then ret None else context_of b 0) (\<lambda>ctx.
       let ed1 = (case ctx of None \<Rightarrow> ed | Some c \<Rightarrow> annotate have_errannot c ed)
       in case prev of None \<Rightarrow> ret ed1 | Some h \<Rightarrow> h ed1)"

section \<open>A line is annotated once\<close>

lemma strstr_append: "strstr_found needle (xs @ needle @ ys)"
proof (induction xs)
  case Nil
  show ?case by (cases needle; cases ys) simp_all
qed simp

lemma trace_text_names: "strstr_found (otel_trace_id_to_hex (trace_id ctx)) (text @ trace_text ctx)"
  unfolding trace_text_def
  using strstr_append [of "otel_trace_id_to_hex (trace_id ctx)" "text @ ''trace_id=''"] by simp

text \<open>What a line must say of a trace: annotations that name it, or its ID in the context.\<close>

definition names_trace :: "bool \<Rightarrow> span_context \<Rightarrow> log_line \<Rightarrow> bool" where
  "names_trace have_errannot ctx ed \<longleftrightarrow>
     (if have_errannot
      then ll_annotations ed ''trace_id'' = Some (otel_trace_id_to_hex (trace_id ctx)) \<and>
           ll_annotations ed ''span_id'' = Some (otel_span_id_to_hex (span_id ctx)) \<and>
           ll_annotations ed ''trace_flags'' = Some (otel_bytes_to_hex [trace_flags ctx])
      else (case ll_context ed of None \<Rightarrow> False | Some text \<Rightarrow> strstr_found (otel_trace_id_to_hex (trace_id ctx)) text))"

text \<open>What was in the context before is still there, at its start.\<close>

definition keeps_text :: "log_line \<Rightarrow> log_line \<Rightarrow> bool" where
  "keeps_text ed ed' \<longleftrightarrow>
     (case ll_context ed of None \<Rightarrow> True
      | Some text \<Rightarrow> (case ll_context ed' of None \<Rightarrow> False | Some text' \<Rightarrow> take (length text) text' = text))"

text \<open>C38: With a trace in force the log hook leaves a line that names it, with the context's earlier
  text still at its start; and a second hook of the same kind in the chain changes nothing:
  two hooks together do what one does.\<close>

theorem log_line_annotated_once:
  "names_trace native ctx (annotate native ctx ed) \<and> keeps_text ed (annotate native ctx ed) \<and>
   annotate native ctx (annotate native ctx ed) = annotate native ctx ed"
proof (cases native)
  case True
  then show ?thesis by (simp add: annotate_def annotate_native_def names_trace_def keeps_text_def split: option.split)
next
  case False
  show ?thesis
    using trace_text_names [of ctx "[]"]
      trace_text_names [of ctx "the (ll_context ed) @ [CHR 0x0A]"] False
    by (auto simp: annotate_def annotate_fallback_def names_trace_def keeps_text_def split: option.split)
qed

end
