(* ===== verification/Module_Init.thy ===== *)
theory Module_Init
  imports Walk_Props
begin

text \<open>
  What the modules do as they are loaded (their \<open>_PG_init\<close> functions and the install functions
  these call), as lists of actions in order: the settings they define, with type, default,
  bounds and who may change them, the prefixes they reserve, the hooks, callbacks and
  collectors they install.  What core does on each action is not modelled.
\<close>

section \<open>Actions\<close>

datatype guc_context = PGC_POSTMASTER | PGC_SIGHUP | PGC_SUSET | PGC_USERSET

text \<open>Type, default and bounds; a real is in units of \<open>2 ^ -1074\<close>.\<close>

datatype guc_type =
    Guc_bool bool | Guc_int int int int | Guc_real int int int
  | Guc_enum sampler_mode "(string \<times> sampler_mode) list" | Guc_string "string option"

record guc =
  g_name :: string
  g_type :: guc_type
  g_context :: guc_context

datatype init_action =
    Define guc | Reserve_prefix string | Trace_context_handler string string | Install_hook string string
  | Register_callback string string | Register_collector collector | Publish_rendezvous | Read_resource
  | Claim_rendezvous string | Queue_emit_hook

definition otel_sampler_options :: "(string \<times> sampler_mode) list" where
  "otel_sampler_options =
     [(''always_on'', SAMPLER_ALWAYS_ON), (''always_off'', SAMPLER_ALWAYS_OFF), (''traceidratio'', SAMPLER_TRACEIDRATIO),
      (''parentbased_always_on'', SAMPLER_PARENTBASED_ALWAYS_ON), (''parentbased_always_off'', SAMPLER_PARENTBASED_ALWAYS_OFF),
      (''parentbased_traceidratio'', SAMPLER_PARENTBASED_TRACEIDRATIO)]"

abbreviation setting :: "string \<Rightarrow> guc_type \<Rightarrow> guc_context \<Rightarrow> init_action" where
  "setting n t c \<equiv> Define \<lparr>g_name = n, g_type = t, g_context = c\<rparr>"

section \<open>The API module\<close>

definition otel_producer_init :: "init_action list" where
  "otel_producer_init =
     [Install_hook ''emit_log_hook'' ''otel_emit_log_hook'', Register_callback ''xact'' ''otel_xact_callback'',
      Register_callback ''subxact'' ''otel_subxact_callback'']"

definition otel_parallel_init :: "bool \<Rightarrow> init_action list" where
  "otel_parallel_init preloading =
     (if \<not> preloading then []
      else [Install_hook ''shmem_request_hook'' ''otel_parallel_shmem_request'',
            Install_hook ''shmem_startup_hook'' ''otel_parallel_shmem_startup'',
            Register_callback ''proc_exit'' ''otel_parallel_proc_exit_cb''])"

text \<open>\<open>None\<close>: the ERROR of a module not loaded by \<open>shared_preload_libraries\<close>.\<close>

definition otel_api_PG_init :: "bool \<Rightarrow> init_action list option" where
  "otel_api_PG_init preloading =
     (if \<not> preloading then None
      else Some (
        [setting ''otel_api.traceparent'' (Guc_string (Some [])) PGC_USERSET,
         setting ''otel_api.tracestate'' (Guc_string (Some [])) PGC_USERSET,
         setting ''otel_api.emit_spans_to_log'' (Guc_bool False) PGC_SIGHUP,
         setting ''otel_api.max_open_spans'' (Guc_int 64 4 4096) PGC_POSTMASTER,
         setting ''otel_api.max_session_spans'' (Guc_int 16 0 4096) PGC_SUSET,
         setting ''otel_api.attr_value_max'' (Guc_int 4096 16 (1024 * 1024)) PGC_SUSET,
         setting ''otel_api.max_span_bytes'' (Guc_int 65536 1024 (64 * 1024 * 1024)) PGC_SUSET,
         setting ''otel_api.sampler'' (Guc_enum SAMPLER_PARENTBASED_ALWAYS_ON otel_sampler_options) PGC_SUSET,
         setting ''otel_api.sampler_arg'' (Guc_real ratio_one 0 ratio_one) PGC_SUSET,
         setting ''otel_api.service_name'' (Guc_string None) PGC_POSTMASTER,
         setting ''otel_api.service_instance_id'' (Guc_string (Some [])) PGC_POSTMASTER,
         setting ''otel_api.parse_sqlcommenter'' (Guc_bool False) PGC_USERSET,
         Reserve_prefix ''otel_api'',
         Trace_context_handler ''otel_trace_context_apply_cb'' ''otel_trace_context_clear_cb''] @
        otel_producer_init @ otel_parallel_init preloading @ [Read_resource, Publish_rendezvous]))"

section \<open>Query tracing\<close>

definition otel_fdw_install_hooks :: "init_action list" where
  "otel_fdw_install_hooks = [Register_collector fdw_collector]"

definition otel_trace_install_hooks :: "init_action list" where
  "otel_trace_install_hooks =
     [Install_hook ''ExecutorStart_hook'' ''otel_ExecutorStart'', Install_hook ''ExecutorRun_hook'' ''otel_ExecutorRun'',
      Install_hook ''ExecutorEnd_hook'' ''otel_ExecutorEnd'', Install_hook ''ProcessUtility_hook'' ''otel_ProcessUtility''] @
     otel_fdw_install_hooks @
     [Register_callback ''xact'' ''otel_pgtracing_xact_callback'', Register_callback ''subxact'' ''otel_pgtracing_subxact_callback'',
      Register_callback ''proc_exit'' ''otel_proc_exit_cb'']"

definition otel_log_install_hooks :: "init_action list" where
  "otel_log_install_hooks = [Install_hook ''emit_log_hook'' ''otel_emit_log_hook'']"

definition otel_sdt_install_actions :: "init_action list" where
  "otel_sdt_install_actions =
     [setting ''otel.trace_sdt_probes'' (Guc_string (Some ''query,parse,rewrite,plan,execute,syncrep,replica,lock_wait'')) PGC_USERSET,
      Register_callback ''xact'' ''otel_sdt_xact_cb'', Install_hook ''pg_sdt_probe_hook'' ''otel_sdt_hook'']"

definition otel_planpath_install :: "init_action list" where
  "otel_planpath_install = [Register_collector planpath_collector]"

definition otel_planspans_install :: "init_action list" where
  "otel_planspans_install =
     [setting ''otel.trace_plan_child_spans'' (Guc_bool False) PGC_USERSET, Register_collector planspans_collector]"

definition otel_planshape_install :: "init_action list" where
  "otel_planshape_install = [setting ''otel.trace_plan_shape'' (Guc_bool False) PGC_USERSET]"

definition otel_postgres_tracing_PG_init :: "init_action list" where
  "otel_postgres_tracing_PG_init =
     [setting ''otel.trace_all_queries'' (Guc_bool False) PGC_USERSET,
      setting ''otel.trace_plan_node_stats'' (Guc_bool False) PGC_USERSET,
      setting ''otel.trace_plan_node_events'' (Guc_bool False) PGC_USERSET] @
     otel_trace_install_hooks @ otel_log_install_hooks @ otel_sdt_install_actions @
     otel_planpath_install @ otel_planspans_install @ otel_planshape_install @
     [Reserve_prefix ''otel'', Reserve_prefix ''otel_postgres_tracing'']"

section \<open>PL/pgSQL tracing and the demo exporter\<close>

definition otel_plpgsql_PG_init :: "init_action list" where
  "otel_plpgsql_PG_init =
     [setting ''otel_plpgsql.enabled'' (Guc_bool True) PGC_USERSET,
      setting ''otel_plpgsql.trace_statements'' (Guc_bool True) PGC_USERSET,
      Reserve_prefix ''otel_plpgsql'',
      Register_callback ''resource_release'' ''otel_plpgsql_resource_release_callback'',
      Claim_rendezvous ''PLpgSQL_plugin'']"

definition otel_demo_exporter_PG_init :: "init_action list" where
  "otel_demo_exporter_PG_init =
     [setting ''otel_demo_exporter.output_file'' (Guc_string (Some [])) PGC_SIGHUP,
      Reserve_prefix ''otel_demo_exporter'', Queue_emit_hook, Register_callback ''proc_exit'' ''close_output'']"

section \<open>What the declarations promise\<close>

text \<open>Core reserves a prefix together with the dot after it.\<close>

definition under_prefix :: "string \<Rightarrow> string \<Rightarrow> bool" where
  "under_prefix p name \<longleftrightarrow> take (length p + 1) name = p @ ''.''"

fun defined_gucs :: "init_action list \<Rightarrow> guc list" where
  "defined_gucs [] = []"
| "defined_gucs (a # as) = (case a of Define g \<Rightarrow> g # defined_gucs as | _ \<Rightarrow> defined_gucs as)"

fun reserved :: "init_action list \<Rightarrow> string list" where
  "reserved [] = []"
| "reserved (a # as) = (case a of Reserve_prefix p \<Rightarrow> p # reserved as | _ \<Rightarrow> reserved as)"

text \<open>Nothing is defined under a prefix after its reservation, which would discard configured values.\<close>

fun reserves_last :: "init_action list \<Rightarrow> bool" where
  "reserves_last [] \<longleftrightarrow> True"
| "reserves_last (a # as) \<longleftrightarrow>
     (case a of Reserve_prefix p \<Rightarrow> \<not> list_ex (\<lambda>g. under_prefix p (g_name g)) (defined_gucs as) | _ \<Rightarrow> True) \<and> reserves_last as"

definition covers_own :: "init_action list \<Rightarrow> bool" where
  "covers_own as \<longleftrightarrow> list_all (\<lambda>g. list_ex (\<lambda>p. under_prefix p (g_name g)) (reserved as)) (defined_gucs as)"

definition default_in_bounds :: "guc \<Rightarrow> bool" where
  "default_in_bounds g \<longleftrightarrow>
     (case g_type g of
        Guc_int d lo hi \<Rightarrow> lo \<le> d \<and> d \<le> hi
      | Guc_real d lo hi \<Rightarrow> lo \<le> d \<and> d \<le> hi
      | Guc_enum d opts \<Rightarrow> list_ex (\<lambda>opt. snd opt = d) opts
      | _ \<Rightarrow> True)"

text \<open>Registering the collectors in order, from an empty registry.\<close>

fun register_collectors :: "init_action list \<Rightarrow> collector list \<Rightarrow> collector list option" where
  "register_collectors [] cs = Some cs"
| "register_collectors (a # as) cs =
     (case a of
        Register_collector c \<Rightarrow>
          (case otel_planwalk_register_collector c cs of None \<Rightarrow> None | Some cs' \<Rightarrow> register_collectors as cs')
      | _ \<Rightarrow> register_collectors as cs)"

definition all_modules :: "init_action list list" where
  "all_modules =
     [the (otel_api_PG_init True), otel_postgres_tracing_PG_init, otel_plpgsql_PG_init, otel_demo_exporter_PG_init]"

lemmas init_defs = all_modules_def otel_api_PG_init_def otel_producer_init_def otel_parallel_init_def
  otel_postgres_tracing_PG_init_def otel_trace_install_hooks_def otel_fdw_install_hooks_def otel_log_install_hooks_def
  otel_sdt_install_actions_def otel_planpath_install_def otel_planspans_install_def otel_planshape_install_def
  otel_plpgsql_PG_init_def otel_demo_exporter_PG_init_def


end
