(* ===== verification/Demo_Exporter.thy ===== *)
theory Demo_Exporter
  imports Span_Log
begin

text \<open>
  The demonstration exporter \<open>otel_demo_exporter.c\<close>: a consumer of finished spans that appends
  one JSON object per span and line to the file a setting names, reopening it when the setting
  changes, and then calls the hook registered before it.  What the C library's file functions
  answer is a parameter, as are core's \<open>escape_json\<close> and the failure of an allocation.
\<close>

section \<open>State\<close>

text \<open>
  \<open>ex_open\<close> is the file the stream is open on (none: \<open>outfp\<close> is NULL), \<open>ex_opened_path\<close> the copy of
  its path; \<open>ex_written\<close> is what reached which file, in order.
\<close>

record exporter =
  ex_open :: "string option"
  ex_opened_path :: "string option"
  ex_written :: "(string \<times> string) list"

text \<open>What the C library answers during one call: \<open>fopen\<close>, \<open>strdup\<close>, how much \<open>fwrite\<close> takes; and
  whether building the line raises an ERROR.\<close>

record exporter_io =
  io_fopen :: bool
  io_strdup :: bool
  io_fwrite :: nat
  io_error :: bool

definition close_output :: "exporter \<Rightarrow> exporter" where
  "close_output s = (if ex_open s \<noteq> None then s\<lparr>ex_open := None\<rparr> else s)"

section \<open>Opening and formatting\<close>

definition open_output :: "exporter_io \<Rightarrow> string option \<Rightarrow> exporter \<Rightarrow> bool \<times> exporter" where
  "open_output io setting s =
     (case setting of
        None \<Rightarrow> (False, s)
      | Some path \<Rightarrow>
          if path = [] then (False, s)
          else if \<not> io_fopen io then (False, s\<lparr>ex_open := None\<rparr>)
          else (True, s\<lparr>ex_open := Some path, ex_opened_path := (if io_strdup io then Some path else None)\<rparr>))"

definition ensure_output_open :: "exporter_io \<Rightarrow> string option \<Rightarrow> exporter \<Rightarrow> bool \<times> exporter" where
  "ensure_output_open io setting s =
     (if ex_open s \<noteq> None
      then (if ex_opened_path s \<noteq> None \<and> setting \<noteq> None \<and> ex_opened_path s = setting then (True, s)
            else open_output io setting (s\<lparr>ex_open := None, ex_opened_path := None\<rparr>))
      else open_output io setting s)"

fun query_text :: "attribute list \<Rightarrow> string option" where
  "query_text [] = None"
| "query_text (a # as) =
     (if at_key a = ''db.query.text''
      then (case at_val a of ATTR_STRING v \<Rightarrow> v | _ \<Rightarrow> query_text as)
      else query_text as)"

definition scope_json :: "log_format \<Rightarrow> instrumentation_scope \<Rightarrow> string" where
  "scope_json lf sc =
     '','' @ quoted ''scope'' @ '':{'' @ quoted ''name'' @ '':'' @ lf_escape_json lf (sc_name sc) @
     (case sc_version sc of None \<Rightarrow> [] | Some v \<Rightarrow> '','' @ quoted ''version'' @ '':'' @ lf_escape_json lf v) @
     (case sc_schema_url sc of None \<Rightarrow> [] | Some u \<Rightarrow> '','' @ quoted ''schema_url'' @ '':'' @ lf_escape_json lf u) @ ''}''"

definition format_span_json :: "log_format \<Rightarrow> otel_span \<Rightarrow> string" where
  "format_span_json lf sp =
     ''{'' @ quoted ''trace_id'' @ '':'' @ lf_escape_json lf (otel_trace_id_to_hex (sp_trace_id sp)) @
     '','' @ quoted ''span_id'' @ '':'' @ lf_escape_json lf (otel_span_id_to_hex (sp_span_id sp)) @
     '','' @ quoted ''parent_span_id'' @ '':'' @ lf_escape_json lf (otel_span_id_to_hex (sp_parent_span_id sp)) @
     '','' @ quoted ''name'' @ '':'' @ lf_escape_json lf (sp_name sp) @
     '','' @ quoted ''status'' @ '':'' @ show_nat (status_code (sp_status sp)) @
     '','' @ quoted ''start_time'' @ '':'' @ show_int (sp_start_time sp) @
     '','' @ quoted ''end_time'' @ '':'' @ show_int (sp_end_time sp) @
     (case query_text (sp_attrs sp) of None \<Rightarrow> [] | Some q \<Rightarrow> '','' @ quoted ''db_statement'' @ '':'' @ lf_escape_json lf q) @
     (case sp_scope sp of None \<Rightarrow> [] | Some sc \<Rightarrow> scope_json lf sc) @ ''}''"

section \<open>The emit hook\<close>

definition newline :: string where
  "newline = [CHR 0x0A]"

definition write_span :: "exporter_io \<Rightarrow> string option \<Rightarrow> log_format \<Rightarrow> otel_span \<Rightarrow> exporter \<Rightarrow> exporter" where
  "write_span io setting lf sp s =
     (case ensure_output_open io setting s of
        (False, s1) \<Rightarrow> s1
      | (True, s1) \<Rightarrow>
          if io_error io then s1
          else (case ex_open s1 of
                  None \<Rightarrow> s1
                | Some path \<Rightarrow> s1\<lparr>ex_written := ex_written s1 @ [(path, take (io_fwrite io) (format_span_json lf sp @ newline))]\<rparr>))"

text \<open>The chained hook acts on the rest of the backend.\<close>

definition otel_demo_exporter_emit ::
    "exporter_io \<Rightarrow> string option \<Rightarrow> log_format \<Rightarrow> (otel_span \<Rightarrow> 'x \<Rightarrow> 'x) option \<Rightarrow> otel_span \<Rightarrow> exporter \<times> 'x \<Rightarrow> exporter \<times> 'x" where
  "otel_demo_exporter_emit io setting lf prev sp s =
     (write_span io setting lf sp (fst s), case prev of None \<Rightarrow> snd s | Some h \<Rightarrow> h sp (snd s))"

section \<open>Well-formed lines\<close>

text \<open>The copy of the path, where there is one, names the open file.\<close>

definition exporter_ok :: "exporter \<Rightarrow> bool" where
  "exporter_ok s \<longleftrightarrow> ex_open s = None \<or> ex_opened_path s = None \<or> ex_opened_path s = ex_open s"

lemma open_output_ok: "exporter_ok s \<Longrightarrow> ex_open s = None \<Longrightarrow> exporter_ok (snd (open_output io setting s))"
  by (auto simp: open_output_def exporter_ok_def split: option.split)

lemma ensure_ok: "exporter_ok s \<Longrightarrow> exporter_ok (snd (ensure_output_open io setting s))"
  using open_output_ok by (auto simp: ensure_output_open_def exporter_ok_def)

lemma write_ok: "exporter_ok s \<Longrightarrow> exporter_ok (write_span io setting lf sp s)"
  using ensure_ok [of s io setting]
  by (auto simp: write_span_def exporter_ok_def split: prod.split bool.split option.split)

lemma ensure_names_setting:
  assumes "exporter_ok s" and "ensure_output_open io (Some path) s = (True, t)"
  shows "ex_open t = Some path" "ex_written t = ex_written s"
  using assms by (auto simp: ensure_output_open_def open_output_def exporter_ok_def split: if_splits)

lemma ensure_opens:
  "path \<noteq> [] \<Longrightarrow> io_fopen io \<Longrightarrow> fst (ensure_output_open io (Some path) s)"
  by (simp add: ensure_output_open_def open_output_def)

definition printable :: "string \<Rightarrow> bool" where
  "printable s \<longleftrightarrow> (\<forall>c\<in>set s. 32 \<le> (of_char c :: nat))"

lemma printable_append [simp]: "printable (s @ t) \<longleftrightarrow> printable s \<and> printable t"
  by (auto simp: printable_def)

lemma printable_Cons [simp]: "printable (c # s) \<longleftrightarrow> 32 \<le> (of_char c :: nat) \<and> printable s"
  by (simp add: printable_def)

lemma printable_Nil [simp]: "printable []"
  by (simp add: printable_def)

lemma escape_chars: "h \<in> set ''0123456789abcdefABCDEF/bnrt'' \<Longrightarrow> 32 \<le> (of_char h :: nat)"
proof -
  have "\<forall>h\<in>set ''0123456789abcdefABCDEF/bnrt''. 32 \<le> (of_char h :: nat)" by simp
  then show "h \<in> set ''0123456789abcdefABCDEF/bnrt'' \<Longrightarrow> 32 \<le> (of_char h :: nat)" by blast
qed

lemma printable_json_chars: "json_chars s \<Longrightarrow> printable s"
proof (induction s rule: length_induct)
  case (1 s)
  show ?case
  proof (cases s)
    case (Cons c cs)
    show ?thesis
    proof (cases "c = CHR 0x5C")
      case True
      then obtain d ds where cs: "cs = d # ds" using 1(2) Cons by (cases cs) auto
      show ?thesis
      proof (cases "d = CHR ''u''")
        case True
        then obtain h1 h2 h3 h4 es where ds: "ds = h1 # h2 # h3 # h4 # es" and es: "json_chars es"
            and hex: "\<forall>h\<in>set [h1, h2, h3, h4]. h \<in> set ''0123456789abcdefABCDEF''"
          using 1(2) \<open>c = CHR 0x5C\<close> Cons cs by (auto split: list.splits)
        have "printable [h1, h2, h3, h4]" unfolding printable_def using hex escape_chars by fastforce
        moreover have "printable es" using 1(1) es by (simp add: Cons cs ds)
        ultimately show ?thesis by (simp add: Cons cs ds \<open>c = CHR 0x5C\<close> True)
      next
        case False
        then have "d = CHR 0x22 \<or> d = CHR 0x5C \<or> d \<in> set ''/bfnrt''" "json_chars ds"
          using 1(2) \<open>c = CHR 0x5C\<close> Cons cs by auto
        then have "32 \<le> (of_char d :: nat)" "printable ds" using 1(1) by (auto simp: Cons cs)
        then show ?thesis by (simp add: Cons cs \<open>c = CHR 0x5C\<close>)
      qed
    next
      case False
      then show ?thesis using 1 by (auto simp: Cons)
    qed
  qed simp
qed

lemma printable_nat: "printable (show_nat n)"
proof -
  have "32 \<le> (of_char c :: nat)" if "is_digit c" for c using that by (auto simp: is_digit_def)
  then show ?thesis using show_nat_props [of n] by (auto simp: printable_def)
qed

lemma printable_int: "printable (show_int i)"
  using printable_nat by (auto simp: show_int_def printable_def)

lemma printable_quoted: "json_chars s \<Longrightarrow> printable (quoted s)"
  using printable_json_chars by (auto simp: quoted_def printable_def)

definition scope_members :: "log_format \<Rightarrow> instrumentation_scope \<Rightarrow> (string \<times> string) list" where
  "scope_members lf sc =
     [(''name'', lf_escape_json lf (sc_name sc))] @
     (case sc_version sc of None \<Rightarrow> [] | Some v \<Rightarrow> [(''version'', lf_escape_json lf v)]) @
     (case sc_schema_url sc of None \<Rightarrow> [] | Some u \<Rightarrow> [(''schema_url'', lf_escape_json lf u)])"

definition object_text :: "(string \<times> string) list \<Rightarrow> string" where
  "object_text ms = ''{'' @ commas (map (\<lambda>(k, v). quoted k @ '':'' @ v) ms) @ ''}''"

definition exported_members :: "log_format \<Rightarrow> otel_span \<Rightarrow> (string \<times> string) list" where
  "exported_members lf sp =
     [(''trace_id'', lf_escape_json lf (otel_trace_id_to_hex (sp_trace_id sp))),
      (''span_id'', lf_escape_json lf (otel_span_id_to_hex (sp_span_id sp))),
      (''parent_span_id'', lf_escape_json lf (otel_span_id_to_hex (sp_parent_span_id sp))),
      (''name'', lf_escape_json lf (sp_name sp)),
      (''status'', show_nat (status_code (sp_status sp))),
      (''start_time'', show_int (sp_start_time sp)),
      (''end_time'', show_int (sp_end_time sp))] @
     (case query_text (sp_attrs sp) of None \<Rightarrow> [] | Some q \<Rightarrow> [(''db_statement'', lf_escape_json lf q)]) @
     (case sp_scope sp of None \<Rightarrow> [] | Some sc \<Rightarrow> [(''scope'', object_text (scope_members lf sc))])"

lemma format_members: "format_span_json lf sp = object_text (exported_members lf sp)"
  by (simp add: format_span_json_def exported_members_def object_text_def scope_json_def scope_members_def commas_Cons
      split: option.split)

lemma object_ok:
  assumes "\<forall>m\<in>set ms. json_chars (fst m) \<and> json (snd m) \<and> printable (snd m)"
  shows "json (object_text ms)" "printable (object_text ms)"
proof -
  show "json (object_text ms)" unfolding object_text_def using assms by (intro j_object) blast
  have "printable (commas (map (\<lambda>(k, v). quoted k @ '':'' @ v) ms))"
    using assms by (induction ms) (auto simp: commas_Cons printable_quoted)
  then show "printable (object_text ms)" by (simp add: object_text_def)
qed

lemma literal_ok: "printers_ok lf \<Longrightarrow> json (lf_escape_json lf s) \<and> printable (lf_escape_json lf s)"
  using printers_okD [of lf] by (simp add: printable_quoted)

lemma exported_ok:
  assumes "printers_ok lf"
  shows "json (format_span_json lf sp)" "printable (format_span_json lf sp)"
proof -
  note lit = literal_ok [OF assms]
  have "\<forall>m\<in>set (scope_members lf sc). json_chars (fst m) \<and> json (snd m) \<and> printable (snd m)" for sc
    by (auto simp: scope_members_def lit split: option.split)
  note scope = object_ok [OF this]
  have "\<forall>m\<in>set (exported_members lf sp). json_chars (fst m) \<and> json (snd m) \<and> printable (snd m)"
    by (auto simp: exported_members_def lit scope show_nat_json show_int_json printable_nat printable_int split: option.split)
  from object_ok [OF this] show "json (format_span_json lf sp)" "printable (format_span_json lf sp)"
    by (simp_all add: format_members)
qed

section \<open>The property\<close>



end
