(* ===== verification/Start_Terminates.thy ===== *)
theory Start_Terminates
  imports Producer_Lifecycle
begin

text \<open>
  That starting a span comes to an end: the only loops of \<open>api_span_start\<close> repeat drawing a
  random number while an ID of all zero bytes comes up, and three more non-zero numbers are
  enough for both.
\<close>

section \<open>Draws\<close>

definition nonzero_left :: "u64 list \<Rightarrow> nat" where
  "nonzero_left vs = length (filter (\<lambda>v. v \<noteq> 0) vs)"

lemma nonzero_left_simps [simp]: "nonzero_left [] = 0" "nonzero_left (v # vs) = (if v = 0 then 0 else 1) + nonzero_left vs"
  by (simp_all add: nonzero_left_def)

lemma draw_nonzero_some: "0 < nonzero_left vs \<Longrightarrow> \<exists>v ws. draw_nonzero vs = Some (v, ws)"
  by (induction vs) (auto split: if_splits)

lemma draw_pair_some:
  "2 < nonzero_left vs \<Longrightarrow> \<exists>v w ws. draw_nonzero_pair vs = Some (v, w, ws) \<and> nonzero_left vs \<le> nonzero_left ws + 2"
  by (induction vs rule: draw_nonzero_pair.induct) (auto split: if_splits)

definition numbers_left :: "producer \<Rightarrow> nat" where
  "numbers_left st = nonzero_left (st_prng st)"

lemma new_span_id_returns: "0 < numbers_left st \<Longrightarrow> fst (new_span_id st) \<noteq> Spin"
  using draw_nonzero_some [of "st_prng st"] by (auto simp: numbers_left_def new_span_id_def)

lemma new_trace_id_returns:
  assumes "2 < numbers_left st"
  obtains tid t where "new_trace_id st = (Ret tid, t)" "0 < numbers_left t"
  using draw_pair_some [of "st_prng st"] assms by (auto simp: numbers_left_def new_trace_id_def)

section \<open>The parts of a start\<close>

lemma and_then_returns:
  "fst (m st) \<noteq> Spin \<Longrightarrow> (\<And>a t. m st = (Ret a, t) \<Longrightarrow> fst (f a t) \<noteq> Spin) \<Longrightarrow> fst (and_then m f st) \<noteq> Spin"
  by (cases "m st"; cases "fst (m st)") (auto simp: and_then_def)

lemma modify_then_returns: "(\<And>t. fst (f () t) \<noteq> Spin) \<Longrightarrow> fst (and_then (modify g) f st) \<noteq> Spin"
  by (simp add: and_then_def modify_def)

lemma init_slot_returns: "0 < numbers_left st \<Longrightarrow> fst (init_slot env args p tid pf dec sc i st) \<noteq> Spin"
proof -
  assume n: "0 < numbers_left st"
  obtain g st1 where ng: "next_gen st = (g, st1)" by (metis surj_pair)
  then have "st_prng st1 = st_prng st" by (auto simp: next_gen_def Let_def)
  then have "0 < numbers_left (upd_slot i f st1)" for f using n by (simp add: numbers_left_def upd_slot_def)
  note draw = new_span_id_returns [OF this]
  show ?thesis
    unfolding init_slot_def ng Let_def prod.case
    by (rule and_then_returns, rule draw, rule and_then_returns, simp add: modify_def)
       (intro modify_then_returns, simp add: ret_def)
qed

lemma ensure_pool_numbers: "ensure_pool env st = (b, t) \<Longrightarrow> numbers_left t = numbers_left st"
  by (auto simp: ensure_pool_def Let_def numbers_left_def split: if_splits)

lemma start_scope_numbers: "start_scope env args st = (x, t) \<Longrightarrow> x \<noteq> Spin \<and> numbers_left t = numbers_left st"
  by (auto simp: start_scope_def numbers_left_def split: option.splits if_splits)

lemma take_slot_numbers: "take_slot env st = (x, t) \<Longrightarrow> x \<noteq> Spin \<and> numbers_left t = numbers_left st"
  by (auto simp: take_slot_def Let_def numbers_left_def upd_slot_def split: option.splits if_splits)

lemma start_recording_returns:
  assumes "0 < numbers_left st"
  shows "fst (start_recording env args p tid pf dec st) \<noteq> Spin"
proof -
  obtain b t where pool: "ensure_pool env st = (b, t)" by (metis surj_pair)
  have t: "0 < numbers_left t" using assms ensure_pool_numbers [OF pool] by simp
  have scope: "fst (start_scope env args t) \<noteq> Spin" using start_scope_numbers by (metis prod.collapse)
  have taken: "fst (take_slot env v) \<noteq> Spin" for v using take_slot_numbers by (metis prod.collapse)
  have fill: "fst (and_then (take_slot env) (\<lambda>found. case found of
                 None \<Rightarrow> and_then (modify (bump C_start_no_slot)) (\<lambda>_. ret 0)
               | Some idx \<Rightarrow> init_slot env args p tid pf dec sc idx) v) \<noteq> Spin" if "0 < numbers_left v" for sc v
    using that by (intro and_then_returns taken)
      (auto simp: and_then_modify ret_def init_slot_returns split: option.split dest!: take_slot_numbers)
  have go: "fst (and_then (start_scope env args) (\<lambda>scope.
               and_then (\<lambda>st. if start_owner env args \<noteq> None \<and> \<not> e_enlarge_ok env then (Throw, st) else (Ret (), st)) (\<lambda>_.
               and_then (take_slot env) (\<lambda>found. case found of
                 None \<Rightarrow> and_then (modify (bump C_start_no_slot)) (\<lambda>_. ret 0)
               | Some idx \<Rightarrow> init_slot env args p tid pf dec scope idx))) t) \<noteq> Spin"
  proof (rule and_then_returns)
    show "fst (start_scope env args t) \<noteq> Spin" by (rule scope)
  next
    fix sc v
    assume "start_scope env args t = (Ret sc, v)"
    then have v: "0 < numbers_left v" using start_scope_numbers t by metis
    show "fst (and_then (\<lambda>st. if start_owner env args \<noteq> None \<and> \<not> e_enlarge_ok env then (Throw, st) else (Ret (), st)) (\<lambda>_.
               and_then (take_slot env) (\<lambda>found. case found of
                 None \<Rightarrow> and_then (modify (bump C_start_no_slot)) (\<lambda>_. ret 0)
               | Some idx \<Rightarrow> init_slot env args p tid pf dec sc idx)) v) \<noteq> Spin"
      (is "fst (and_then ?enlarge _ v) \<noteq> Spin")
    proof (rule and_then_returns)
      fix u w
      assume "?enlarge v = (Ret u, w)"
      then have "w = v" by (auto split: if_splits)
      then show "fst (and_then (take_slot env) (\<lambda>found. case found of
                 None \<Rightarrow> and_then (modify (bump C_start_no_slot)) (\<lambda>_. ret 0)
               | Some idx \<Rightarrow> init_slot env args p tid pf dec sc idx) w) \<noteq> Spin"
        using fill [OF v] by simp
    qed simp
  qed
  have choose: "fst (if c1 then (Ret 0, s1) else if c2 then (Ret 0, s2) else (case b of False \<Rightarrow> (Ret 0, s3) | True \<Rightarrow> m)) \<noteq> Spin"
    if "fst m \<noteq> Spin" for c1 c2 s1 s2 s3 and m :: "i64 outcome \<times> producer"
    using that by (cases b) simp_all
  show ?thesis unfolding start_recording_def Let_def pool prod.case by (rule choose [OF go])
qed

lemma start_decision_returns:
  assumes "2 < numbers_left st"
  shows "fst (start_decision env args p st) \<noteq> Spin" "start_decision env args p st = (Ret r, t) \<Longrightarrow> 0 < numbers_left t"
proof -
  obtain tid u where u: "new_trace_id st = (Ret tid, u)" "0 < numbers_left u" using new_trace_id_returns [OF assms] by blast
  show "fst (start_decision env args p st) \<noteq> Spin"
    by (cases p) (simp_all add: start_decision_def Let_def and_then_def u ret_def)
  show "0 < numbers_left t" if "start_decision env args p st = (Ret r, t)"
    using that assms u by (cases p) (auto simp: start_decision_def Let_def and_then_def ret_def)
qed

lemma slot_lookup_numbers: "slot_for_ref s st = (r, t) \<Longrightarrow> numbers_left t = numbers_left st"
    "nrec_for_ref s st = (r, t) \<Longrightarrow> numbers_left t = numbers_left st"
  by (auto simp: slot_for_ref_def nrec_for_ref_def Let_def numbers_left_def split: if_splits)

lemma resolve_parent_numbers: "resolve_parent env args st = (r, t) \<Longrightarrow> numbers_left t = numbers_left st"
  using slot_lookup_numbers
  by (auto simp: resolve_parent_def split: span_parent.splits option.splits if_splits prod.splits)

section \<open>The property\<close>

text \<open>C36: Starting a span ends: where the random number generator, seeded if this process has not
  done so, yields at least three more non-zero numbers, \<open>api_span_start\<close> does not stay in one of
  its retry loops; it returns a handle, returns \<open>OTEL_SPAN_NONE\<close>, or raises an ERROR.\<close>

theorem span_start_terminates:
  assumes "wf st" and "env_ok env" and "case args0 of None \<Rightarrow> True | Some args \<Rightarrow> args_ok args"
    and "3 \<le> numbers_left (seed_prng_if_needed env st)"
  shows "\<exists>x u. api_span_start env args0 st = (x, u) \<and> (x = Throw \<or> (\<exists>ref. x = Ret ref)) \<and> wf u"
proof -
  let ?s = "seed_prng_if_needed env st"
  have "fst (api_span_start env args0 st) \<noteq> Spin"
  proof (cases rule: call_refused_cases [of env False st])
    case (refused c)
    then show ?thesis by (simp add: api_span_start_def)
  next
    case allowed
    show ?thesis
    proof (cases args0)
      case None
      then show ?thesis by (simp add: api_span_start_def allowed)
    next
      case (Some a)
      obtain r t where r: "resolve_parent env a ?s = (r, t)" by (metis surj_pair)
      have n: "2 < numbers_left t" using resolve_parent_numbers [OF r] assms(4) by simp
      have go: "fst (and_then (start_decision env a p) (\<lambda>(tid, parent_flags, decision).
                           if decision = SAMPLE_DROP
                           then (\<lambda>st. let (ref, st3) = start_nrec env a tid (parent_flags AND OTEL_TRACE_FLAG_RANDOM) st
                                      in (Ret ref, st3))
                           else start_recording env a p tid parent_flags decision) t) \<noteq> Spin" for p
        by (intro and_then_returns start_decision_returns(1) [OF n])
           (auto simp: start_recording_returns dest: start_decision_returns(2) [OF n] split: prod.split)
      show ?thesis
      proof (cases r)
        case None
        then show ?thesis by (simp add: api_span_start_def allowed \<open>args0 = Some a\<close> r)
      next
        case (Some p)
        have nrec: "fst (case start_nrec env a tid f v of (ref, w) \<Rightarrow> (Ret ref, w)) \<noteq> Spin" for tid f v
          by (simp split: prod.split)
        show ?thesis
          using go [of p] nrec by (cases p) (simp_all add: api_span_start_def allowed \<open>args0 = Some a\<close> r Some Let_def cong: if_cong)
      qed
    qed
  qed
  then show ?thesis
    using api_span_start_outcome [OF assms(1-3)] by (metis prod.collapse)
qed

theorem span_start_terminates_witness:
  "\<exists>x u. api_span_start run_env (Some run_args) initial_producer = (x, u) \<and> (x = Throw \<or> (\<exists>ref. x = Ret ref)) \<and> wf u"
proof (rule span_start_terminates [OF wf_initial run_env_ok])
  show "case Some run_args of None \<Rightarrow> True | Some args \<Rightarrow> args_ok args" by (simp add: args_ok_def run_args_def genuine_def)
  show "3 \<le> numbers_left (seed_prng_if_needed run_env initial_producer)"
    by (simp add: seed_prng_if_needed_def run_env_def sample_env_def initial_producer_def numbers_left_def)
qed

section \<open>A slot that is free is used\<close>

definition open_slots :: "producer \<Rightarrow> nat" where
  "open_slots st = length (filter (\<lambda>s. s_gen s \<noteq> 0) (st_slots st))"

definition spare_slot :: "env \<Rightarrow> producer \<Rightarrow> bool" where
  "spare_slot env st \<longleftrightarrow> open_slots st < (if st_pool st then st_nslots st else e_max_open_spans env)"

text \<open>Nothing fails: memory, the resource owner's table, a tracer with a name; and the limits on
  nesting and on session spans leave room.\<close>

definition start_room :: "env \<Rightarrow> start_args \<Rightarrow> producer \<Rightarrow> bool" where
  "start_room env args st \<longleftrightarrow>
     e_pool_ok env \<and> e_slot_cxt_ok env \<and> e_tracer_ok env \<and> e_enlarge_ok env \<and>
     (case sa_tracer args of None \<Rightarrow> True | Some t \<Rightarrow> tr_name t \<noteq> Some []) \<and>
     (start_owner env args = None \<longrightarrow> st_session_open st < e_max_session_spans env) \<and>
     (sa_detached args \<or> length (st_stack st) < OTEL_MAX_STACK_DEPTH)"

lemma take_slot_finds:
  assumes "wf st" and "st_pool st" and "open_slots st < st_nslots st" and "e_slot_cxt_ok env"
  obtains i t where "take_slot env st = (Ret (Some i), t)"
proof -
  have "\<not> (st_slot_free_head st < 0 \<and> st_nslots st \<le> length (st_slots st))"
  proof
    assume full: "st_slot_free_head st < 0 \<and> st_nslots st \<le> length (st_slots st)"
    have "pool_ok (length (st_slots st)) (slot_gen st) (slot_next st) (st_slot_free_head st)"
      using assms(1) by (simp add: wf_def wf_pools_def)
    from pool_ok_full [OF this] full have "\<forall>i<length (st_slots st). s_gen (st_slots st ! i) \<noteq> 0" by (simp add: slot_gen_def)
    then have "filter (\<lambda>s. s_gen s \<noteq> 0) (st_slots st) = st_slots st" by (simp add: filter_id_conv all_set_conv_all_nth)
    then show False using assms(3) full by (simp add: open_slots_def)
  qed
  then have "\<exists>i t. take_slot env st = (Ret (Some i), t)"
    using assms(4) by (auto simp: take_slot_def Let_def)
  then show thesis using that by blast
qed

lemma start_recording_succeeds:
  assumes w: "wf st" and max: "e_max_open_spans env < 2 ^ 31" and tid: "trace_id_ok tid" and par: "parent_ok p st"
    and n: "0 < numbers_left st" and room: "start_room env args st" and spare: "spare_slot env st"
  obtains ref u where "start_recording env args p tid pf dec st = (Ret ref, u)" "ref \<noteq> 0" "started env args p tid pf dec st ref u"
proof -
  obtain t where t: "ensure_pool env st = (True, t)" "wf t" "st_pool t" "st_slots t = st_slots st" "numbers_left t = numbers_left st"
    "open_slots t < st_nslots t" "st_session_open t = st_session_open st" "st_stack t = st_stack st"
  proof (cases rule: ensure_pool_cases [OF w max])
    case (1 t)
    then show ?thesis using room by (auto simp: ensure_pool_def start_room_def Let_def split: if_splits)
  next
    case (2 t)
    have "open_slots t < st_nslots t \<and> st_session_open t = st_session_open st"
      using 2(1) spare by (auto simp: ensure_pool_def Let_def spare_slot_def open_slots_def split: if_splits)
    then show ?thesis using that [of t] 2 by (simp add: numbers_left_def)
  qed
  have "\<exists>sc trs. start_scope env args t = (Ret sc, t\<lparr>st_tracers := trs\<rparr>)"
  proof -
    have keep: "\<exists>trs. t = t\<lparr>st_tracers := trs\<rparr>" by (rule exI [of _ "st_tracers t"]) simp
    show ?thesis
      using room keep
      by (auto simp: start_scope_def start_room_def otel_tracer_register_def split: option.splits)
  qed
  then obtain sc trs where sc: "start_scope env args t = (Ret sc, t\<lparr>st_tracers := trs\<rparr>)" by blast
  let ?t = "t\<lparr>st_tracers := trs\<rparr>"
  have wt: "wf ?t" by (rule wf_same [OF _ _ t(2)]) simp_all
  obtain i v where v: "take_slot env ?t = (Ret (Some i), v)"
    using take_slot_finds [OF wt, of env] t(3,6) room by (auto simp: start_room_def open_slots_def)
  have "start_recording env args p tid pf dec st = init_slot env args p tid pf dec sc i v"
    using room by (auto simp: start_recording_def Let_def t(1) sc v and_then_def start_room_def)
  moreover have "0 < numbers_left v"
    using take_slot_numbers [OF v] n t(5) by (simp add: numbers_left_def)
  from init_slot_returns [OF this] obtain x u where x: "init_slot env args p tid pf dec sc i v = (x, u)" "x \<noteq> Spin"
    by (metis fst_conv surj_pair)
  moreover have "x \<noteq> Throw \<and> x \<noteq> Ret 0"
  proof -
    have pool: "st_pool ?t" using t(3) by simp
    from wt pool have tk: "taken_slot ?t i v" "slots_only ?t v" "length (st_slots v) \<le> st_nslots v"
      by (cases rule: take_slot_cases [where env = env]; use v in auto)+
    have op: "open_slot ?t j = open_slot st j" for j by (simp add: open_slot_def t(4))
    have nr: "st_nrecs t = st_nrecs st" using t(1) by (auto simp: ensure_pool_def Let_def split: if_splits)
    have par': "parent_ok p ?t" using par parent_ok_same [of ?t st p] t(4) nr by simp
    have "sa_detached args \<or> length (st_stack ?t) < OTEL_MAX_STACK_DEPTH" using room t(8) by (simp add: start_room_def)
    from init_slot_outcome [OF wt pool tk tid par' this x(1)] x(2) show ?thesis by auto
  qed
  ultimately have "start_recording env args p tid pf dec st = (x, u)" "x \<noteq> Spin" "x \<noteq> Throw" "x \<noteq> Ret 0" by simp_all
  with start_recording_outcome [OF w max tid par this(1,2)] show thesis using that by blast
qed


definition root_args :: start_args where
  "root_args = run_args\<lparr>sa_parent := PARENT_ROOT, sa_force_sample := True\<rparr>"


end
