(* ===== verification/Producer_Stub.thy ===== *)
theory Producer_Stub
  imports Span_Log
begin

text \<open>
  The stand-in header \<open>otel_producer_stub.h\<close>, for a producer built without \<open>otel_api\<close>: every entry
  point of \<open>otel_producer.h\<close> with the same signature, doing nothing.  A producer is a sequence of
  calls, in which a call names an earlier one's handle by its position; built against the
  stub it gets the answers the real inline wrappers give while no provider is loaded.
\<close>

section \<open>Calls\<close>

text \<open>A call's first number is the position of its handle among those obtained so far.\<close>

datatype producer_call =
    Call_recording_possible | Call_recording nat | Call_start start_args | Call_end nat | Call_end_at nat int | Call_discard nat
  | Call_activate nat | Call_deactivate nat | Call_set_str nat string "string option" | Call_set_int nat string i64
  | Call_set_double nat string u64 | Call_set_bool nat string bool | Call_set_printf nat string string
  | Call_set_name nat "string option" | Call_set_status nat span_status "string option"
  | Call_add_event nat "string option" int "attribute list" | Call_add_link nat "span_context option"
  | Call_capture_error nat error_data bool | Call_record_error nat "error_data option"
  | Call_current | Call_context_of nat | Call_resource_add "string option" "string option"

datatype call_result = R_unit | R_bool bool | R_handle i64 | R_context "span_context option"

section \<open>The stub\<close>

definition stub_call :: "producer_call \<Rightarrow> call_result" where
  "stub_call c =
     (case c of
        Call_recording_possible \<Rightarrow> R_bool False
      | Call_recording h \<Rightarrow> R_bool False
      | Call_start args \<Rightarrow> R_handle 0
      | Call_activate h \<Rightarrow> R_handle 0
      | Call_current \<Rightarrow> R_handle 0
      | Call_context_of h \<Rightarrow> R_context None
      | _ \<Rightarrow> R_unit)"

section \<open>The real wrappers\<close>

definition no_result :: "('s, unit) op \<Rightarrow> ('s, call_result) op" where
  "no_result m = and_then m (\<lambda>_. ret R_unit)"

text \<open>One call through the wrappers of \<open>otel_producer.h\<close>; a handle that was never obtained is 0.\<close>

definition wrapper_call :: "env \<Rightarrow> bool \<Rightarrow> bool \<Rightarrow> i64 list \<Rightarrow> producer_call \<Rightarrow> (producer, call_result) op" where
  "wrapper_call env loaded possible hs c =
     (let ref = (\<lambda>h. if h < length hs then hs ! h else 0) in
      case c of
        Call_recording_possible \<Rightarrow> ret (R_bool (otel_recording_possible loaded possible))
      | Call_recording h \<Rightarrow> ret (R_bool (otel_span_recording (ref h)))
      | Call_start args \<Rightarrow> and_then (otel_span_start env loaded possible args) (\<lambda>s. ret (R_handle s))
      | Call_end h \<Rightarrow> no_result (otel_span_end env (ref h))
      | Call_end_at h t \<Rightarrow> no_result (otel_span_end_at env (ref h) t)
      | Call_discard h \<Rightarrow> no_result (otel_span_discard env (ref h))
      | Call_activate h \<Rightarrow> (\<lambda>st. case otel_span_activate env loaded (ref h) st of (tok, st') \<Rightarrow> (Ret (R_handle tok), st'))
      | Call_deactivate h \<Rightarrow> no_result (otel_span_deactivate env (ref h))
      | Call_set_str h k v \<Rightarrow> no_result (modify (otel_span_set_str env (ref h) k v))
      | Call_set_int h k v \<Rightarrow> no_result (modify (otel_span_set_int env (ref h) k v))
      | Call_set_double h k v \<Rightarrow> no_result (modify (otel_span_set_double env (ref h) k v))
      | Call_set_bool h k v \<Rightarrow> no_result (modify (otel_span_set_bool env (ref h) k v))
      | Call_set_printf h k out \<Rightarrow> no_result (modify (otel_span_set_printf env (ref h) k out))
      | Call_set_name h n \<Rightarrow> no_result (modify (otel_span_set_name env (ref h) n))
      | Call_set_status h code d \<Rightarrow> no_result (modify (otel_span_set_status env (ref h) code d))
      | Call_add_event h n t attrs \<Rightarrow> no_result (modify (otel_span_add_event env (ref h) n t attrs))
      | Call_add_link h target \<Rightarrow> no_result (modify (otel_span_add_link env (ref h) target))
      | Call_capture_error h ed copy_ok \<Rightarrow> no_result (otel_span_capture_error env (ref h) ed copy_ok)
      | Call_record_error h ed \<Rightarrow> no_result (modify (otel_span_record_error env (ref h) ed))
      | Call_current \<Rightarrow> (\<lambda>st. case otel_span_current env loaded st of (s, st') \<Rightarrow> (Ret (R_handle s), st'))
      | Call_context_of h \<Rightarrow> and_then (otel_span_context_of env loaded (ref h)) (\<lambda>ctx. ret (R_context ctx))
      | Call_resource_add k v \<Rightarrow> ret R_unit)"

text \<open>\<open>otel_resource_add\<close> acts on the process attributes instead of the spans.\<close>

definition resource_call :: "env \<Rightarrow> bool \<Rightarrow> producer_call \<Rightarrow> producer \<times> resource_attrs \<Rightarrow> producer \<times> resource_attrs" where
  "resource_call env loaded c s = (case c of Call_resource_add k v \<Rightarrow> otel_resource_add env loaded k v s | _ \<Rightarrow> s)"

fun new_handles :: "call_result \<Rightarrow> i64 list" where
  "new_handles (R_handle h) = [h]"
| "new_handles _ = []"

fun run_producer ::
    "env \<Rightarrow> bool \<Rightarrow> bool \<Rightarrow> i64 list \<Rightarrow> producer_call list \<Rightarrow> (producer \<times> resource_attrs, call_result list) op" where
  "run_producer env loaded possible hs [] = ret []"
| "run_producer env loaded possible hs (c # cs) =
     and_then (\<lambda>s. case wrapper_call env loaded possible hs c (fst s) of (x, p) \<Rightarrow> (x, resource_call env loaded c (p, snd s))) (\<lambda>r.
       and_then (run_producer env loaded possible (hs @ new_handles r) cs) (\<lambda>rs. ret (r # rs)))"

section \<open>They agree while no provider is loaded\<close>

lemma wrapper_is_stub:
  assumes "set hs \<subseteq> {0}"
  shows "wrapper_call env False possible hs c st = (Ret (stub_call c), st)"
proof -
  have "(if h < length hs then hs ! h else 0) = 0" for h using assms nth_mem by fastforce
  then show ?thesis
    by (cases c) (simp_all add: wrapper_call_def stub_call_def no_result_def and_then_def ret_def modify_def otel_recording_possible_def
        otel_span_recording_def otel_span_start_def otel_span_end_def otel_span_end_at_def otel_span_discard_def otel_span_activate_def
        otel_span_deactivate_def otel_span_set_str_def otel_span_set_int_def otel_span_set_double_def otel_span_set_bool_def
        otel_span_set_printf_def otel_span_set_name_def otel_span_set_status_def otel_span_add_event_def otel_span_add_link_def
        otel_span_capture_error_def otel_span_record_error_def otel_span_current_def otel_span_context_of_def)
qed

lemma resource_not_loaded: "resource_call env False c s = s"
  by (simp add: resource_call_def otel_resource_add_def split: producer_call.split)

lemma stub_handles: "set (new_handles (stub_call c)) \<subseteq> {0}"
  by (cases c) (simp_all add: stub_call_def)

lemma run_is_stub:
  "set hs \<subseteq> {0} \<Longrightarrow> run_producer env False possible hs cs s = (Ret (map stub_call cs), s)"
proof (induction cs arbitrary: hs s)
  case (Cons c cs)
  have "set (hs @ new_handles (stub_call c)) \<subseteq> {0}" using Cons.prems stub_handles by simp
  from Cons.IH [OF this] show ?case
    by (simp add: wrapper_is_stub [OF Cons.prems] resource_not_loaded and_then_def ret_def)
qed (simp add: ret_def)

text \<open>A producer that makes any calls gets from the stub just what it gets from the real header
  while \<open>otel_api\<close> is not loaded, where they change nothing.\<close>

theorem stub_is_drop_in: "run_producer env False possible [] cs s = (Ret (map stub_call cs), s)"
  by (rule run_is_stub) simp

end
