(* ===== verification/Fdw_Hooks.thy ===== *)
theory Fdw_Hooks
  imports Walk_Frame Module_Init
begin

text \<open>
  \<open>otel_fdw.c\<close> as built for a core with foreign-scan hooks (\<open>OTEL_FDW_USE_CORE_HOOKS\<close>): a scan's span
  starts and ends in the hooks instead of the plan walks, so scans begin and end in any order
  core runs them.  An earlier hook runs after ours at the begin and before it at the end.
\<close>

section \<open>The hooks\<close>

type_synonym scan_hook = "(nat \<Rightarrow> unit session_op) option"

definition prev_hook :: "scan_hook \<Rightarrow> nat \<Rightarrow> unit session_op" where
  "prev_hook prev node = (case prev of None \<Rightarrow> ret () | Some h \<Rightarrow> h node)"

definition otel_ForeignScanBegin :: "backend \<Rightarrow> scan_hook \<Rightarrow> nat \<Rightarrow> string option \<Rightarrow> unit session_op" where
  "otel_ForeignScanBegin b prev node relation =
     and_then (otel_fdw_scan_begin b node relation) (\<lambda>_. prev_hook prev node)"

definition otel_ForeignScanEnd :: "backend \<Rightarrow> scan_hook \<Rightarrow> nat \<Rightarrow> unit session_op" where
  "otel_ForeignScanEnd b prev node = and_then (prev_hook prev node) (\<lambda>_. otel_fdw_scan_end b node)"

definition otel_fdw_install_core_hooks :: "init_action list" where
  "otel_fdw_install_core_hooks =
     [Install_hook ''ForeignScanBegin_hook'' ''otel_ForeignScanBegin'', Install_hook ''ForeignScanEnd_hook'' ''otel_ForeignScanEnd'']"

section \<open>Scans in any order\<close>

datatype scan_event = Scan_begin nat "string option" | Scan_end nat

fun scan_node :: "scan_event \<Rightarrow> nat" where
  "scan_node (Scan_begin n r) = n"
| "scan_node (Scan_end n) = n"

fun scan_step :: "backend \<Rightarrow> scan_hook \<Rightarrow> scan_hook \<Rightarrow> scan_event \<Rightarrow> unit session_op" where
  "scan_step b pb pe (Scan_begin n r) = otel_ForeignScanBegin b pb n r"
| "scan_step b pb pe (Scan_end n) = otel_ForeignScanEnd b pe n"

fun run_scans :: "backend \<Rightarrow> scan_hook \<Rightarrow> scan_hook \<Rightarrow> scan_event list \<Rightarrow> unit session_op" where
  "run_scans b pb pe [] = ret ()"
| "run_scans b pb pe (e # es) = and_then (scan_step b pb pe e) (\<lambda>_. run_scans b pb pe es)"

text \<open>The scans open after some events, and that none begins while it is open.\<close>

fun open_scans :: "scan_event list \<Rightarrow> nat set \<Rightarrow> nat set" where
  "open_scans [] ns = ns"
| "open_scans (Scan_begin n r # es) ns = open_scans es (insert n ns)"
| "open_scans (Scan_end n # es) ns = open_scans es (ns - {n})"

fun begins_closed :: "scan_event list \<Rightarrow> nat set \<Rightarrow> bool" where
  "begins_closed [] ns \<longleftrightarrow> True"
| "begins_closed (Scan_begin n r # es) ns \<longleftrightarrow> n \<notin> ns \<and> begins_closed es (insert n ns)"
| "begins_closed (Scan_end n # es) ns \<longleftrightarrow> begins_closed es (ns - {n})"

text \<open>An earlier hook leaves our tracking stack alone.\<close>

definition hook_keeps :: "scan_hook \<Rightarrow> bool" where
  "hook_keeps prev \<longleftrightarrow> (\<forall>n. preserves ss_fdw (prev_hook prev n))"

lemma scan_begin_entries:
  assumes "scan_step b pb pe (Scan_begin n r) s = (Ret (), t)" and "hook_keeps pb"
  shows "grows True n (ss_fdw s) (ss_fdw t)"
proof -
  from assms(1) obtain u where u: "otel_fdw_scan_begin b n r s = (Ret (), u)" "prev_hook pb n u = (Ret (), t)"
    by (auto simp: otel_ForeignScanBegin_def dest!: and_then_RetD)
  have "ss_fdw t = ss_fdw u" using assms(2) u(2) by (auto simp: hook_keeps_def dest: preservesD)
  then show ?thesis using fdw_begin_grows [OF u(1)] by simp
qed

lemma scan_end_entries:
  assumes "scan_step b pb pe (Scan_end n) s = (Ret (), t)" and "hook_keeps pe" and "distinct (map te_key (ss_fdw s))"
  shows "ss_fdw t = drops True n (ss_fdw s)"
proof -
  from assms(1) obtain u where u: "prev_hook pe n s = (Ret (), u)" "otel_fdw_scan_end b n u = (Ret (), t)"
    by (auto simp: otel_ForeignScanEnd_def dest!: and_then_RetD)
  have "ss_fdw u = ss_fdw s" using assms(2) u(1) by (auto simp: hook_keeps_def dest: preservesD)
  then show ?thesis using fdw_end_drops [OF u(2)] assms(3) by simp
qed

lemma scan_step_tracked:
  assumes "scan_step b pb pe e s = (Ret (), u)" and "hook_keeps pb" "hook_keeps pe"
    and d: "distinct (map te_key (ss_fdw s))" and ns: "te_key ` set (ss_fdw s) \<subseteq> ns" and "begins_closed [e] ns"
  shows "distinct (map te_key (ss_fdw u)) \<and> te_key ` set (ss_fdw u) \<subseteq> open_scans [e] ns \<and>
    filter (\<lambda>x. te_key x \<noteq> scan_node e) (ss_fdw u) = filter (\<lambda>x. te_key x \<noteq> scan_node e) (ss_fdw s)"
proof (cases e)
  case (Scan_begin n r)
  have "grows True n (ss_fdw s) (ss_fdw u)"
    using scan_begin_entries [of b pb pe n r s u] assms(1,2) by (simp add: Scan_begin)
  then consider "ss_fdw u = ss_fdw s" | x where "te_key x = n" "ss_fdw u = ss_fdw s @ [x]" by (auto simp: grows_def)
  then show ?thesis
  proof cases
    case 1
    then show ?thesis using d ns by (auto simp: Scan_begin)
  next
    case 2
    have "n \<notin> ns" using assms(6) by (simp add: Scan_begin)
    then show ?thesis using d ns 2 by (auto simp: Scan_begin)
  qed
next
  case (Scan_end n)
  have "ss_fdw u = filter (\<lambda>x. te_key x \<noteq> n) (ss_fdw s)"
    using scan_end_entries [of b pb pe n s u] assms(1,3) d by (simp add: Scan_end drops_def)
  then show ?thesis using d ns by (auto simp: Scan_end distinct_map_filter)
qed

text \<open>Each entry belongs to an open scan, and entries of scans that no event names stay as they are.\<close>

lemma scans_tracked:
  assumes "run_scans b pb pe es s = (Ret (), t)" and "hook_keeps pb" "hook_keeps pe"
    and "distinct (map te_key (ss_fdw s))" "te_key ` set (ss_fdw s) \<subseteq> ns" and "begins_closed es ns"
  shows "distinct (map te_key (ss_fdw t)) \<and> te_key ` set (ss_fdw t) \<subseteq> open_scans es ns \<and>
    filter (\<lambda>e. te_key e \<notin> scan_node ` set es) (ss_fdw t) = filter (\<lambda>e. te_key e \<notin> scan_node ` set es) (ss_fdw s)"
  using assms(1,4-6)
proof (induction es arbitrary: s ns)
  case Nil
  then show ?case by (simp add: ret_def)
next
  case (Cons e es)
  from Cons.prems(1) obtain u where u: "scan_step b pb pe e s = (Ret (), u)" "run_scans b pb pe es u = (Ret (), t)"
    by (auto dest!: and_then_RetD)
  let ?ns = "open_scans [e] ns"
  have "begins_closed [e] ns" using Cons.prems(4) by (cases e) simp_all
  from scan_step_tracked [OF u(1) assms(2,3) Cons.prems(2,3) this]
  have step: "distinct (map te_key (ss_fdw u))" "te_key ` set (ss_fdw u) \<subseteq> ?ns"
      "filter (\<lambda>x. te_key x \<noteq> scan_node e) (ss_fdw u) = filter (\<lambda>x. te_key x \<noteq> scan_node e) (ss_fdw s)" by simp_all
  have "begins_closed es ?ns" "open_scans (e # es) ns = open_scans es ?ns" using Cons.prems(4) by (cases e; simp)+
  with Cons.IH [OF u(2) step(1,2)] have ih: "distinct (map te_key (ss_fdw t))" "te_key ` set (ss_fdw t) \<subseteq> open_scans (e # es) ns"
      "filter (\<lambda>x. te_key x \<notin> scan_node ` set es) (ss_fdw t) = filter (\<lambda>x. te_key x \<notin> scan_node ` set es) (ss_fdw u)" by auto
  have both: "filter (\<lambda>x. te_key x \<notin> scan_node ` set (e # es)) xs =
      filter (\<lambda>x. te_key x \<notin> scan_node ` set es) (filter (\<lambda>x. te_key x \<noteq> scan_node e) xs)"
      "filter (\<lambda>x. te_key x \<notin> scan_node ` set (e # es)) xs =
      filter (\<lambda>x. te_key x \<noteq> scan_node e) (filter (\<lambda>x. te_key x \<notin> scan_node ` set es) xs)" for xs
    by (auto intro: filter_cong)
  show ?case using ih(1,2) both step(3) ih(3) by metis
qed

text \<open>Foreign scans that begin and end in any order, among scans already open, leave the tracking
  stack as they found it once all of them have ended.\<close>

theorem scans_restore_stack:
  assumes "run_scans b pb pe es s = (Ret (), t)" and "hook_keeps pb" "hook_keeps pe"
    and "distinct (map te_key (ss_fdw s))" and "begins_closed es (te_key ` set (ss_fdw s))"
    and "open_scans es (te_key ` set (ss_fdw s)) = te_key ` set (ss_fdw s)"
    and "scan_node ` set es \<inter> te_key ` set (ss_fdw s) = {}"
  shows "ss_fdw t = ss_fdw s"
proof -
  have r: "te_key ` set (ss_fdw t) \<subseteq> te_key ` set (ss_fdw s)"
      "filter (\<lambda>e. te_key e \<notin> scan_node ` set es) (ss_fdw t) = filter (\<lambda>e. te_key e \<notin> scan_node ` set es) (ss_fdw s)"
    using scans_tracked [OF assms(1-4) order_refl assms(5)] assms(6) by auto
  have all: "filter (\<lambda>e. te_key e \<notin> scan_node ` set es) xs = xs" if "te_key ` set xs \<subseteq> te_key ` set (ss_fdw s)" for xs
    using that assms(7) by (auto simp: filter_id_conv)
  show ?thesis using r(2) by (simp only: all [OF r(1)] all [OF order_refl])
qed

end
