(* ===== verification/Trace_Path.thy ===== *)
theory Trace_Path
  imports Sdt_Balance
begin

text \<open>
  The way of a trace context through the whole system: from a statement's SQL comment into the
  root context of the backend, from there into the statement's span, from the span into the
  shared slot of the backend, and from the slot into the span of a parallel worker.
\<close>

section \<open>A span under a remote parent\<close>

lemma remote_start:
  assumes "start_result env args st ref u" and "wf u" and "0 <s ref"
    and parent: "fst (resolve_parent env args (seed_prng_if_needed env st)) = Some (P_remote c)"
  obtains i where "open_slot u i" "ref = slot_handle u i" "sp_trace_id (s_span (st_slots u ! i)) = trace_id c"
    "sp_parent_span_id (s_span (st_slots u ! i)) = span_id c"
proof -
  have "\<not> started_nrec args tid f st ref u" for tid f
  proof
    assume "started_nrec args tid f st ref u"
    then obtain i where "open_nrec u i" "ref = nrec_handle u i" unfolding started_nrec_def by blast
    then show False using nrec_handle_fields(3) [OF assms(2)] assms(3) by (fastforce simp: word_sless_alt)
  qed
  then obtain pf dec where "started env args (P_remote c) (trace_id c) pf dec st ref u"
    using assms(1) parent by (auto simp: start_result_def start_decision_def split: if_splits)
  then show thesis by (rule started_open) (use that in \<open>auto simp: parent_span_id_def\<close>)
qed

text \<open>A statement whose span has a remote parent, up to the end of its start.\<close>

lemma remote_stmt:
  assumes "start_stmt_span b name query qid d s = (Ret ref, t)" and "0 <s ref"
    and "wf (ss_prod s)" and "env_ok (env_of b s)" and "\<not> e_crit (bk_env b)" and "bk_loaded b" and "ss_txn s = 0"
    and parent: "\<And>st. st_stack st = st_stack (ss_prod s) \<Longrightarrow>
      fst (resolve_parent (env_of b s) (stmt_args b name d s) st) = Some (P_remote c)"
  obtains i where "open_slot (ss_prod t) i" "ref = slot_handle (ss_prod t) i"
    "sp_trace_id (s_span (st_slots (ss_prod t) ! i)) = trace_id c" "sp_parent_span_id (s_span (st_slots (ss_prod t) ! i)) = span_id c"
    "ss_par t = otel_parallel_publish_leader_context (bk_my_proc b) (Some (slot_context (st_slots (ss_prod t) ! i))) (ss_par s)"
    "wf (ss_prod t)"
proof -
  obtain ctx p k u where ctx: "context_of b 0 s = (Ret ctx, s\<lparr>ss_prod := p\<rparr>)"
      and res: "start_result (env_of b s) (stmt_args b name d s) p ref (ss_prod u)" and wu: "wf (ss_prod u)"
      and u: "u = s\<lparr>ss_prod := ss_prod u\<rparr>"
      and tail: "and_then (modify (stmt_attrs b ref query qid)) (\<lambda>_. and_then (publish_leader_context b ref) (\<lambda>_.
        and_then (link_with_txn b ref) (\<lambda>_. ret ref))) u = (Ret ref, t)"
    by (rule stmt_span_opens [OF assms(1-4,6)])
  have "st_stack p = st_stack (ss_prod s)"
    using context_level(1) [OF assms(3) _ ctx] by (simp add: genuine_def level_def stands_def)
  then have "fst (resolve_parent (env_of b s) (stmt_args b name d s) (seed_prng_if_needed (env_of b s) p)) = Some (P_remote c)"
    using parent by simp
  from remote_start [OF res wu assms(2) this] obtain i where i: "open_slot (ss_prod u) i" "ref = slot_handle (ss_prod u) i"
      "sp_trace_id (s_span (st_slots (ss_prod u) ! i)) = trace_id c" "sp_parent_span_id (s_span (st_slots (ss_prod u) ! i)) = span_id c"
    by blast
  have u2: "ss_txn u = 0" "ss_par u = ss_par s" using assms(7) by (subst u, simp)+
  obtain q where q: "same_spans (ss_prod u) q" and t: "t = u\<lparr>ss_prod := q, ss_par :=
      otel_parallel_publish_leader_context (bk_my_proc b) (Some (slot_context (st_slots (ss_prod u) ! i))) (ss_par u)\<rparr>"
    using stmt_tail_run [OF wu i(1) assms(5,6) u2(1), of query qid] unfolding i(2) [symmetric] tail by auto
  note sl = same_spans_slot [OF q i(1)]
  have "map slot_core (st_slots q) ! i = map slot_core (st_slots (ss_prod u)) ! i" using q by (simp only: same_spans_def)
  then have "slot_core (st_slots q ! i) = slot_core (st_slots (ss_prod u) ! i)"
    using sl(1) i(1) by (simp add: open_slot_def)
  then have "sp_parent_span_id (s_span (st_slots q ! i)) = span_id c" "sp_trace_id (s_span (st_slots q ! i)) = trace_id c"
    using i(3,4) by (simp_all add: slot_core_def Let_def)
  moreover have "wf q" using q wu by (simp add: same_spans_def)
  ultimately show thesis using that [of i] sl i(2) by (simp add: t u2(2))
qed

section \<open>From the comment to the worker\<close>

lemma comment_applied:
  assumes "rs_parse_sqlcommenter (ss_root s)" and "\<not> rc_is_set (rs_root (ss_root s))" and "traceparent_ok c" and "bk_loaded b"
  shows "maybe_apply_sqlcommenter b (Some (''/*'' @ comment_text c @ ''*/'' @ post)) s =
    s\<lparr>ss_root := (ss_root s)\<lparr>rs_root := \<lparr>rc_is_set = True, rc_from_comment = True, rc_ctx = c\<rparr>\<rparr>\<rparr>"
proof -
  obtain r where "find_block_comment (''/*'' @ comment_text c @ ''*/'' @ post) = Some r"
      "comment_body (''/*'' @ comment_text c @ ''*/'' @ post) r = comment_text c"
    using find_leading [OF assms(3)] by metis
  from apply_found_comment [OF assms(1,2) _ this assms(3)] show ?thesis
    using assms(2,4) by (simp add: maybe_apply_sqlcommenter_def api_get_root_context_def)
qed

lemma slot_context_ok: "wf st \<Longrightarrow> open_slot st i \<Longrightarrow>
    otel_span_context_is_valid (slot_context (st_slots st ! i)) \<and> ctx_sized ((slot_context (st_slots st ! i))\<lparr>tracestate := None\<rparr>)"
  by (simp add: wf_def wf_ids_def trace_id_ok_def span_id_ok_def otel_span_context_is_valid_def slot_context_def ctx_sized_def Let_def)

text \<open>C10: A client that writes its trace context in a comment before a statement gets one trace: the
  outermost statement of the backend, if its span records, has the comment's trace ID and
  span ID as its trace and parent; and a parallel worker of this backend that then starts a
  recording span for its part has the same trace ID and the statement's span as its parent.\<close>

theorem comment_trace_reaches_workers:
  assumes comment: "rs_parse_sqlcommenter (ss_root s)" "\<not> rc_is_set (rs_root (ss_root s))" "traceparent_ok c"
    and leader: "wf (ss_prod s)" "env_ok (env_of b s)" "\<not> e_crit (bk_env b)" "bk_loaded b" "\<not> bk_worker b" "ss_stmts s = []" "ss_txn s = 0"
      "ss_par s = Some slots" "0 \<le> bk_my_proc b" "bk_my_proc b < int (length slots)"
    and stmt: "sql = ''/*'' @ comment_text c @ ''*/'' @ post"
      "start_stmt_span b name query qid d (maybe_apply_sqlcommenter b (Some sql) s) = (Ret ref, t)" "0 <s ref"
    and worker: "wf (ss_prod w)" "root_wf (ss_root w)" "e_max_open_spans (bk_env wb) < 2 ^ 31" "\<not> e_crit (bk_env wb)" "bk_loaded wb"
      "bk_worker wb" "bk_leader_proc wb = bk_my_proc b" "ss_par w = ss_par t" "st_stack (ss_prod w) = []" "ss_txn w = 0"
    and part: "start_stmt_span wb wname wquery wqid wd w = (Ret wref, v)" "0 <s wref"
  shows "\<exists>i j. open_slot (ss_prod t) i \<and> ref = slot_handle (ss_prod t) i \<and> open_slot (ss_prod v) j \<and> wref = slot_handle (ss_prod v) j \<and>
    (let lead = s_span (st_slots (ss_prod t) ! i); work = s_span (st_slots (ss_prod v) ! j)
     in sp_trace_id lead = trace_id c \<and> sp_parent_span_id lead = span_id c \<and>
        sp_trace_id work = trace_id c \<and> sp_parent_span_id work = sp_span_id lead)"
proof -
  let ?s = "maybe_apply_sqlcommenter b (Some sql) s"
  have s: "?s = s\<lparr>ss_root := (ss_root s)\<lparr>rs_root := \<lparr>rc_is_set = True, rc_from_comment = True, rc_ctx = c\<rparr>\<rparr>\<rparr>"
    unfolding stmt(1) by (rule comment_applied [OF comment leader(4)])
  have env: "env_ok (env_of b ?s)"
    using leader(2) comment(3) by (simp add: s env_ok_def env_of_def root_wf_def)
  let ?c = "rc_ctx (api_get_root_context (ss_root ?s))"
  have valid: "otel_span_context_is_valid ?c" and ids: "trace_id ?c = trace_id c" "span_id ?c = span_id c"
    using comment(3) by (simp_all add: s api_get_root_context_def traceparent_ok_def otel_span_context_is_valid_def)
  have lead: "fst (resolve_parent (env_of b ?s) (stmt_args b name d ?s) st) = Some (P_remote ?c)" if "st_stack st = st_stack (ss_prod ?s)" for st
    using valid leader(4-6) by (simp add: resolve_parent_def stmt_args_def s api_get_root_context_def)
  have parts: "wf (ss_prod ?s)" "ss_txn ?s = 0" using leader(1,7) by (simp_all add: s)
  obtain i where i: "open_slot (ss_prod t) i" "ref = slot_handle (ss_prod t) i"
      "sp_trace_id (s_span (st_slots (ss_prod t) ! i)) = trace_id ?c" "sp_parent_span_id (s_span (st_slots (ss_prod t) ! i)) = span_id ?c"
      "ss_par t = otel_parallel_publish_leader_context (bk_my_proc b) (Some (slot_context (st_slots (ss_prod t) ! i))) (ss_par ?s)"
      "wf (ss_prod t)"
    by (rule remote_stmt [OF stmt(2,3) parts(1) env leader(3,4) parts(2) lead])
  let ?lead = "(slot_context (st_slots (ss_prod t) ! i))\<lparr>tracestate := None\<rparr>"
  have offer: "otel_parallel_get_leader_context (bk_my_proc b) (ss_par t) = Some ?lead"
    using slot_context_ok [OF i(6,1)] publish_get_same [OF leader(9,10)] leader(8) by (simp add: i(5) s)
  have wenv: "env_ok (env_of wb w)" "e_leader_ctx (env_of wb w) = Some ?lead"
    using worker(2,3,7,8) offer slot_context_ok [OF i(6,1)] by (simp_all add: env_ok_def env_of_def otel_span_context_is_valid_def)
  have work: "fst (resolve_parent (env_of wb w) (stmt_args wb wname wd w) st) = Some (P_remote ?lead)" if "st_stack st = st_stack (ss_prod w)" for st
    using that worker(6,9) wenv(2) by (simp add: resolve_parent_def stmt_args_def literal_args_def resolve_active_parent_def)
  obtain j where "open_slot (ss_prod v) j" "wref = slot_handle (ss_prod v) j"
      "sp_trace_id (s_span (st_slots (ss_prod v) ! j)) = trace_id ?lead" "sp_parent_span_id (s_span (st_slots (ss_prod v) ! j)) = span_id ?lead"
    by (rule remote_stmt [OF part worker(1) wenv(1) worker(4,5,10) work])
  then show ?thesis using i ids by (intro exI [of _ i] exI [of _ j]) (simp add: slot_context_def Let_def)
qed

text \<open>A backend that is told the context of \<open>comment_ctx\<close> in a comment, and its worker.\<close>

definition spoken_session :: session where
  "spoken_session = comment_session\<lparr>ss_root := fresh_root\<rparr>"

definition worker_backend :: backend where
  "worker_backend = walk_backend\<lparr>bk_worker := True, bk_leader_proc := 0, bk_my_proc := 1\<rparr>"

definition worker_args :: start_args where
  "worker_args = (literal_args (otel_pg_tracer worker_backend) ''pgsql.execute'')\<lparr>sa_kind := KIND_SERVER, sa_force_sample := True\<rparr>"

definition worker_env :: "span_context \<Rightarrow> env" where
  "worker_env c = run_env\<lparr>e_leader_ctx := Some c\<rparr>"

lemma spoken_comment: "maybe_apply_sqlcommenter walk_backend (Some (''/*'' @ comment_text comment_ctx @ ''*/'' @ '' SELECT 1'')) spoken_session = comment_session"
  by (subst comment_applied)
     (simp_all add: spoken_session_def comment_ctx_ok comment_session_def fresh_session_def fresh_root_def root_none_def)

lemma worker_backend_facts [simp]: "bk_loaded worker_backend" "\<not> e_crit run_env" "bk_my_proc worker_backend = 1"
    "bk_worker worker_backend" "bk_leader_proc worker_backend = 0" "bk_env worker_backend = run_env" "bk_trace_all worker_backend"
    "otel_recording_possible True (bk_possible worker_backend)"
  by (simp add: run_env_def sample_env_def | simp add: worker_backend_def walk_backend_def otel_recording_possible_def)+

lemma comment_open_sampled: "otel_span_context_sampled ((slot_context (st_slots comment_open ! 0))\<lparr>tracestate := None\<rparr>)"
  by (simp add: otel_span_context_sampled_def slot_context_def Let_def comment_open_def comment_args_def stmt_args_def comment_env_def
      comment_session_def fresh_session_def comment_ctx_def api_get_root_context_def literal_args_def otel_pg_tracer_def walk_backend_def
      otel_tracer_register_def otel_span_context_is_valid_def trace_id_valid_iff span_id_valid_iff
      OTEL_TRACE_FLAG_SAMPLED_def OTEL_TRACE_FLAG_RANDOM_def start_run_defs)

lemma worker_start:
  assumes "otel_span_context_sampled c"
  shows "\<exists>u. api_span_start (worker_env c) (Some worker_args) initial_producer = (Ret (make_ref 6 0 True), u)"
proof -
  have "fst (api_span_start (worker_env c) (Some worker_args) initial_producer) = Ret (make_ref 6 0 True)"
    using assms by (simp add: worker_env_def worker_args_def literal_args_def otel_pg_tracer_def otel_tracer_register_def worker_backend_def
        walk_backend_def resolve_active_parent_def start_run_defs)
  then show ?thesis by (metis prod.collapse)
qed

lemma worker_runs:
  assumes w: "ss_par w = pars" "ss_prod w = initial_producer" "ss_root w = fresh_root" "ss_stmts w = []" "ss_txn w = 0"
    and c: "otel_parallel_get_leader_context 0 pars = Some c" "otel_span_context_sampled c" "otel_span_context_is_valid c" "ctx_sized c"
  shows "\<exists>v. start_stmt_span worker_backend ''pgsql.execute'' None 0 False w = (Ret (make_ref 6 0 True), v)"
proof -
  have env: "env_of worker_backend w = worker_env c"
    using w c(1) by (simp add: env_of_def worker_env_def run_env_def sample_env_def)
  have ok: "env_ok (worker_env c)" using run_env_ok c(3,4) by (simp add: env_ok_def worker_env_def)
  have args: "stmt_args worker_backend ''pgsql.execute'' False w = worker_args"
    by (simp add: stmt_args_def worker_args_def literal_args_def)
  have "args_ok worker_args" by (simp add: worker_args_def literal_args_def args_ok_def genuine_def)
  moreover obtain u where u: "api_span_start (worker_env c) (Some worker_args) initial_producer = (Ret (make_ref 6 0 True), u)"
    using worker_start [OF c(2)] by blast
  ultimately have "wf u" "start_result (worker_env c) worker_args initial_producer (make_ref 6 0 True) u"
    using start_ref [OF wf_initial ok _ u] by (simp_all add: make_ref_def)
  moreover have "0 <s make_ref 6 0 True" by (simp add: make_ref_def word_sless_alt)
  ultimately obtain i where i: "open_slot u i" "make_ref 6 0 True = slot_handle u i" "wf u" using positive_start by blast
  have same: "w\<lparr>ss_prod := initial_producer\<rparr> = w" using w(2) by simp
  have "otel_span_context_of (worker_env c) True 0 initial_producer = (Ret (Some c), initial_producer)"
    by (simp add: worker_env_def run_env_def sample_env_def otel_span_context_of_def api_span_context_of_def call_refused_def
        otel_span_context_of_internal_def resolve_active_parent_def initial_producer_def)
  then have ctx: "context_of worker_backend 0 w = (Ret (Some c), w)"
    by (simp add: context_of_def call_prod_def lift_op_def env w(2) same)
  have "worker_args\<lparr>sa_struct_size := sizeof_OtelSpanStartArgs\<rparr> = worker_args" by (simp add: worker_args_def literal_args_def)
  then have "start_span worker_backend worker_args w = (Ret (make_ref 6 0 True), w\<lparr>ss_prod := u\<rparr>)"
    using u by (simp add: start_span_def call_prod_def lift_op_def env otel_span_start_def w(2))
  from stmt_runs [OF ctx this [folded args, unfolded i(2)] i(3,1), of None 0] w(5) show ?thesis by (auto simp: i(2))
qed

theorem comment_trace_reaches_workers_witness:
  "\<exists>t v i j. start_stmt_span walk_backend ''pgsql.execute'' None 0 False
       (maybe_apply_sqlcommenter walk_backend (Some (''/*'' @ comment_text comment_ctx @ ''*/ SELECT 1'')) spoken_session) =
       (Ret (slot_handle (ss_prod t) i), t) \<and>
     start_stmt_span worker_backend ''pgsql.execute'' None 0 False (fresh_session\<lparr>ss_par := ss_par t\<rparr>) = (Ret (slot_handle (ss_prod v) j), v) \<and>
     sp_trace_id (s_span (st_slots (ss_prod v) ! j)) = replicate 16 1 \<and>
     sp_parent_span_id (s_span (st_slots (ss_prod v) ! j)) = sp_span_id (s_span (st_slots (ss_prod t) ! i))"
proof -
  let ?sql = "''/*'' @ comment_text comment_ctx @ ''*/'' @ '' SELECT 1''" and ?r = "make_ref 6 0 True"
  let ?c = "(slot_context (st_slots comment_open ! 0))\<lparr>tracestate := None\<rparr>"
  obtain t where t: "start_stmt_span walk_backend ''pgsql.execute'' None 0 False comment_session = (Ret ?r, t)"
      "ss_par t = otel_parallel_publish_leader_context 0 (Some (slot_context (st_slots comment_open ! 0))) (ss_par comment_session)"
    using comment_stmt by blast
  have ok: "otel_span_context_is_valid ?c" "ctx_sized ?c"
    using slot_context_ok [OF comment_open_facts(1,3)] by (simp_all add: otel_span_context_is_valid_def)
  have "otel_parallel_get_leader_context 0 (ss_par t) = Some ?c"
    using ok(1) publish_get_same [of 0 "[zero_parallel_slot, zero_parallel_slot]"]
    by (simp add: t(2) comment_session_parts otel_span_context_is_valid_def)
  moreover have w: "ss_par w = ss_par t" "ss_prod w = initial_producer" "ss_root w = fresh_root" "ss_stmts w = []" "ss_txn w = 0"
    if "w = fresh_session\<lparr>ss_par := ss_par t\<rparr>" for w by (simp_all add: that fresh_session_def)
  ultimately obtain v where v: "start_stmt_span worker_backend ''pgsql.execute'' None 0 False (fresh_session\<lparr>ss_par := ss_par t\<rparr>) = (Ret ?r, v)"
    using worker_runs [OF w [OF refl] _ comment_open_sampled ok] by blast
  have pos: "0 <s ?r" by (simp add: make_ref_def word_sless_alt)
  have root: "rs_parse_sqlcommenter fresh_root" "\<not> rc_is_set (rs_root fresh_root)" "root_wf fresh_root"
    by (simp_all add: fresh_root_def root_none_def root_wf_def)
  have s: "ss_root spoken_session = fresh_root" "ss_prod spoken_session = initial_producer" "ss_txn spoken_session = 0" "ss_stmts spoken_session = []"
    "ss_par spoken_session = Some [zero_parallel_slot, zero_parallel_slot]" "env_ok (env_of walk_backend spoken_session)"
    using run_env_ok root
    by (simp_all add: spoken_session_def comment_session_parts env_ok_def env_of_def walk_backend_def run_env_def sample_env_def
        otel_parallel_get_leader_context_def INVALID_PROC_NUMBER_def)
  have st: "start_stmt_span walk_backend ''pgsql.execute'' None 0 False (maybe_apply_sqlcommenter walk_backend (Some ?sql) spoken_session) = (Ret ?r, t)"
    using t(1) spoken_comment by simp
  have "e_max_open_spans (bk_env worker_backend) < 2 ^ 31" using run_env_ok by (simp add: env_ok_def)
  from comment_trace_reaches_workers [OF _ _ comment_ctx_ok _ s(6) _ _ _ s(4,3,5) _ _ refl st pos _ _ this _ _ _ _ _ _ _ v pos]
  obtain i j where "?r = slot_handle (ss_prod t) i" "?r = slot_handle (ss_prod v) j"
      "sp_trace_id (s_span (st_slots (ss_prod v) ! j)) = trace_id comment_ctx"
      "sp_parent_span_id (s_span (st_slots (ss_prod v) ! j)) = sp_span_id (s_span (st_slots (ss_prod t) ! i))"
    using root wf_initial by (auto simp: s fresh_session_def initial_producer_def Let_def)
  then show ?thesis using st v by (intro exI [of _ t] exI [of _ v] exI [of _ i] exI [of _ j]) (simp add: comment_ctx_def)
qed

end
