(* ===== verification/Spec2Isabelle.thy ===== *)
theory Spec2Isabelle
  imports Api_Tables Root_Context Resource Parallel Span_Log Plpgsql_Trace Tracking_Props Sdt_Props
    Path_Props Plan_Shape Log_Annotation Module_Init Demo_Exporter Start_Terminates Producer_Stub Fdw_Hooks Trace_Path
begin

text \<open>
  Verification of the OpenTelemetry API of PostgreSQL.

  The repository has four loadable modules, each a directory under \<open>src\<close>.  \<open>otel_api\<close> is the
  provider: it holds a backend's trace context and the pool of its open spans, and publishes
  two tables of function pointers.  \<open>otel_postgres_tracing\<close> and \<open>otel_plpgsql\<close> are producers: their
  hooks in the executor, the utility processor, the log, the static probes and PL/pgSQL start
  and end spans through the producer table.  \<open>otel_demo_exporter\<close> is a consumer: it registers an
  emit hook and is handed every span that ends.  The development follows this order, a theory
  for each file of the C code or for each part of a large one, with the C names kept.

  \<^bold>\<open>Conventions.\<close>  A backend is single-threaded, and a C function that writes static variables is a
  function on a record of them.  What control can do at the end of a function is the type
  \<open>outcome\<close> of \<open>Prelude\<close>: \<open>Ret x\<close> (return), \<open>Throw\<close> (an \<open>ereport\<close> of level ERROR jumps out),
  \<open>Fatal\<close> (the process ends) and \<open>Spin\<close> (a loop does not end); \<open>and_then\<close> sequences operations and
  goes on after \<open>Ret\<close> only.  Integers are words
  of the width the C code uses (\<open>i64\<close>, \<open>u64\<close>, \<open>u32\<close>), except for counts that the code itself bounds.
  Doubles are natural numbers of units of \<open>2 ^ -1074\<close>, rounded to 53 bits after each division
  (\<open>Api_Tables\<close>, \<open>Doubles\<close>).  Arrays with a used count are the list of the used part; an array whose
  bound matters keeps the bound as a constant beside it.  What the environment decides
  (whether an allocation succeeds, the clock, random numbers, settings, what core or the C
  library answers) is an argument: the record \<open>env\<close> (\<open>Slots\<close>) for the provider, \<open>backend\<close> (\<open>Plan_Walk\<close>) for the
  producers.

  \<^bold>\<open>The provider, \<open>otel_api\<close>.\<close>
  \<^item> \<open>Otel_Types\<close> (\<open>otel_types.h\<close>): IDs, span contexts, the hex, traceparent and binary codecs.  Round trips
    through the locales \<open>codec\<close> and \<open>canonical_codec\<close>; what the parser accepts is canonical.
  \<^item> \<open>Api_Tables\<close> (\<open>otel_api.c\<close>, \<open>otel_api.h\<close>, \<open>otel_exporter.h\<close>): version checks, emit-hook registration in
    either load order, the sampler.  A higher ratio samples a superset of traces.
  \<^item> \<open>Root_Context\<close> (\<open>otel.c\<close>): the root trace context, written by the setting, the protocol header and
    SQL comments.  Every reachable context is unset or valid; the comment scanner stays inside
    the text and finds what was written there.
  \<^item> \<open>Resource\<close> (\<open>otel_resource.c\<close>): the process attributes as a bounded map.
  \<^item> \<open>Parallel\<close> (\<open>otel_parallel.c\<close>): the shared slots through which a parallel worker reads its leader's
    context.  Processes interleave as a sequence of atomic steps.
  \<^item> \<open>Slots\<close>, \<open>Slot_Facts\<close> (\<open>otel_producer.c\<close>, lines 300 to 1000 and 1500 to 1740): one span's storage under its
    byte limit, every setter, captured errors.
  \<^item> \<open>Producer\<close>, \<open>Producer_Api\<close>, \<open>Producer_Callbacks\<close>, \<open>Span_Log\<close> (the rest of \<open>otel_producer.c\<close>, and \<open>otel_producer.h\<close>):
    handles, the active stack, the two pools with their free lists (locale \<open>free_list_pool\<close> in
    \<open>Free_List\<close>), starting, ending, unwinding, dispatching, the callbacks of resource owners, transactions
    and the log, the JSON log line, the inline wrappers.
  \<^item> \<open>Producer_Invariant\<close>, \<open>Producer_Ending\<close>, \<open>Producer_Preserve\<close>, \<open>Producer_Starting\<close>, \<open>Producer_Opening\<close>, \<open>Producer_Run\<close>:
    the invariant \<open>wf\<close> of the machinery, that each operation keeps it, and that it holds in every
    state a backend reaches.  \<open>Producer_Lifecycle\<close>, \<open>Producer_Props\<close>, \<open>Transaction_Props\<close>: what becomes of a span from
    its start to its export, on success, leak and error.  \<open>Start_Frame\<close>, \<open>Start_Terminates\<close>: what a start
    leaves alone, that it returns, and that it succeeds while there is room.
  \<^item> \<open>Producer_Stub\<close> (\<open>otel_producer_stub.h\<close>): the stand-in for builds without \<open>otel_api\<close>; it behaves as the
    real wrappers do while no provider is loaded.

  \<^bold>\<open>The producers.\<close>
  \<^item> \<open>Tracing_Base\<close>: the tracking stacks that map executor objects to spans (locale \<open>tracking_stack\<close>,
    interpreted for the statement, foreign-scan and plan-span stacks) and \<open>PG_FINALLY\<close>.
  \<^item> \<open>Doubles\<close>, \<open>Plan_Path\<close>, \<open>Plan_Walk\<close>, \<open>Path_Collector\<close> (\<open>otel_planpath.c\<close>, \<open>otel_planwalk.c\<close>, \<open>otel_fdw.c\<close>, \<open>otel_planspans.c\<close>):
    plan nodes and what is read from them, the accumulator, the walk over the plan tree and
    its three collectors.  \<open>Walk_Props\<close> shows that the end walk takes off what the start walk put
    on; \<open>Path_Props\<close> what the accumulator holds; \<open>Walk_Frame\<close> (locales \<open>session_view\<close>, \<open>walk_view\<close>) what a walk
    keeps; \<open>Fdw_Hooks\<close> the variant of \<open>otel_fdw.c\<close> for a core with foreign-scan hooks.
  \<^item> \<open>Stmt_Trace\<close> (\<open>otel_trace.c\<close>): the statement hooks.  \<open>Stmt_Props\<close>, \<open>Stmt_Contexts\<close>, \<open>Tracking_Props\<close>: an execution
    restores the statement stack, what contexts a statement leaves, the bounds of all tracking
    arrays under any nesting of hooks, failures and aborts.
  \<^item> \<open>Plan_Shape\<close> (\<open>otel_planshape.c\<close>), \<open>Log_Annotation\<close> (\<open>otel_log.c\<close>).
  \<^item> \<open>Sdt_Bridge\<close> (\<open>otel_sdt_bridge.c\<close>) with \<open>Sdt_Mask\<close>, \<open>Sdt_Balance\<close>, \<open>Sdt_Abort\<close>, \<open>Sdt_Props\<close>: the probe mask, the two span
    stacks, every branch of the probe hook; probes of open spans stay enabled, nested probes
    balance, the ends of a transaction.
  \<^item> \<open>Plpgsql_Trace\<close> (\<open>otel_plpgsql.c\<close>): the plugin hooks and the registry of session spans.

  \<^bold>\<open>The consumer and loading.\<close>  \<open>Demo_Exporter\<close> (\<open>otel_demo_exporter.c\<close>): the output file and its lines.
  \<open>Module_Init\<close>: what each \<open>_PG_init\<close> asks of core, as a list of actions.

  \<^bold>\<open>How the parts meet.\<close>  The tracing modules hold the provider's state as a component (\<open>ss_prod\<close> of
  \<open>session\<close>, \<open>pl_prod\<close> of \<open>plpgsql\<close>) and call its operations through \<open>call_prod\<close>, so a property of a
  statement, a probe or a PL/pgSQL call is a property of the whole: the invariant \<open>wf\<close> and the
  life-cycle lemmas of the provider are what the producers' proofs use.  A statement's
  context reaches parallel workers through the state of \<open>Parallel\<close>, and the root context the
  statement hooks read and reset is that of \<open>Root_Context\<close>.  \<open>Trace_Path\<close> follows one trace all the way:
  from an SQL comment into the root context, the statement's span, the shared slot, and the
  span of a parallel worker.

  \<^bold>\<open>Bounds and fuel.\<close>  No function carries fuel.  The only loops without a bound of their own redraw
  a random number while it is zero: the generator is a list of numbers to come, and running
  out of it is \<open>Spin\<close>; \<open>span_start_terminates\<close> shows that three nonzero numbers are enough for
  a start.  The arrays hold 128 (active stack), 32 (statements), 16 (foreign scans, plan spans, sorts,
  probe sorts), 64 (probes, plan ancestors) and 8 (collectors) entries, as in the code.

  \<^bold>\<open>Not modelled.\<close>
  \<^item> Core: memory contexts other than a slot's byte count, resource owners other than what they
    remember for this code (\<open>st_ledger\<close>), the reaction to the actions of \<open>Module_Init\<close>, spinlocks (an
    access to a shared slot is one step), the request for shared memory.
  \<^item> Doubles that are negative, infinite or NaN in the plan collectors; core's row and time
    counters are none of these.
  \<^item> \<open>check_scoped_frames\<close>, whose body is assertions; help texts and the texts of messages.
  \<^item> \<open>src/otel_plpgsql/otel_types.h\<close> and \<open>src/otel_plpgsql/otel_producer_stub.h\<close>, copies of the provider's
    headers; the string constants of \<open>otel_semconv.h\<close> and \<open>otel_pg_attrs.h\<close>, which appear in the definitions as
    the literals they stand for; the test modules and benchmarks.
\<close>

end
